(* ===== verification/Prelude.thy ===== *)
theory Prelude
  imports Main "HOL-Library.AList" "HOL-Library.Sublist" Complex_Main
begin

text \<open>
  Shared vocabulary of the development: the Python values the service passes around, the
  few standard-library operations it uses on them, database tables as lists of rows, and
  the generic reachability argument the state machines share.

  Conventions. A Python \<open>int\<close> is \<^typ>\<open>int\<close>. A Python \<open>float\<close> is \<^typ>\<open>rat\<close>: arithmetic
  is exact, so no theorem below speaks about the rounding of single operations, about
  infinities or about NaN; an explicit \<open>round(x, n)\<close> of the source is \<open>py_round\<close>. A
  UUID is \<^typ>\<open>nat\<close>. A time zone aware \<open>datetime\<close> is the number of microseconds since
  the epoch in UTC, an \<^typ>\<open>int\<close>. A \<open>str\<close> is \<^typ>\<open>string\<close>, and the case functions are
  those of the ASCII range.
\<close>

type_synonym uuid = nat
type_synonym pyfloat = rat
type_synonym utc = int
type_synonym dict = "(string \<times> string) list"

named_theorems table_simps \<open>rewriting of tables of rows\<close>
named_theorems py_simps \<open>unfolding of the Python helpers\<close>

section \<open>Python values\<close>

text \<open>
  JSON columns, metadata dictionaries and cached payloads hold values of any JSON type.
  A dictionary keeps its insertion order, as Python's does.
\<close>

datatype pyval =
    PNone
  | PBool bool
  | PInt int
  | PFloat pyfloat
  | PStr string
  | PList "pyval list"
  | PDict "(string \<times> pyval) list"

fun truthy :: "pyval \<Rightarrow> bool" where
  "truthy PNone = False"
| "truthy (PBool b) = b"
| "truthy (PInt i) = (i \<noteq> 0)"
| "truthy (PFloat x) = (x \<noteq> 0)"
| "truthy (PStr s) = (s \<noteq> [])"
| "truthy (PList xs) = (xs \<noteq> [])"
| "truthy (PDict d) = (d \<noteq> [])"

text \<open>\<open>d.get(k, default)\<close> on the entries of a dictionary, and \<open>x or y\<close>.\<close>

definition dget :: "(string \<times> 'v) list \<Rightarrow> string \<Rightarrow> 'v \<Rightarrow> 'v" where
  "dget d k x = (case map_of d k of None \<Rightarrow> x | Some v \<Rightarrow> v)"

definition py_or :: "pyval \<Rightarrow> pyval \<Rightarrow> pyval" where
  "py_or x y = (if truthy x then x else y)"

text \<open>
  \<open>dict(x or {})\<close>: a dictionary gives its entries, a falsy value the empty dictionary.
  \<open>None\<close> stands for the exception \<open>dict\<close> raises on any other value.
\<close>

definition py_dict :: "pyval \<Rightarrow> (string \<times> pyval) list option" where
  "py_dict x = (if \<not> truthy x then Some [] else case x of PDict d \<Rightarrow> Some d | _ \<Rightarrow> None)"

section \<open>Strings\<close>

definition is_space :: "char \<Rightarrow> bool" where
  "is_space c \<longleftrightarrow> of_char c \<in> {9, 10, 11, 12, 13, 28, 29, 30, 31, 32 :: nat}"

definition is_digit :: "char \<Rightarrow> bool" where
  "is_digit c \<longleftrightarrow> 48 \<le> (of_char c :: nat) \<and> of_char c \<le> (57 :: nat)"

definition lower_char :: "char \<Rightarrow> char" where
  "lower_char c = (if 65 \<le> (of_char c :: nat) \<and> of_char c \<le> (90 :: nat)
                   then char_of (of_char c + 32 :: nat) else c)"

definition py_lower :: "string \<Rightarrow> string" where
  "py_lower s = map lower_char s"

definition py_strip :: "string \<Rightarrow> string" where
  "py_strip s = rev (dropWhile is_space (rev (dropWhile is_space s)))"

definition py_contains :: "string \<Rightarrow> string \<Rightarrow> bool" where
  "py_contains needle s = sublist needle s"

text \<open>\<open>sep.join(words)\<close>.\<close>

fun join_with :: "string \<Rightarrow> string list \<Rightarrow> string" where
  "join_with sep [] = []"
| "join_with sep [w] = w"
| "join_with sep (w # ws) = w @ sep @ join_with sep ws"

text \<open>\<open>int(s)\<close> on a string: an optional sign and decimal digits between white space.\<close>

fun digits_value :: "int \<Rightarrow> string \<Rightarrow> int option" where
  "digits_value acc [] = Some acc"
| "digits_value acc (c # cs) =
     (if is_digit c then digits_value (10 * acc + (of_char c - 48)) cs else None)"

definition parse_int :: "string \<Rightarrow> int option" where
  "parse_int s =
     (case py_strip s of
        [] \<Rightarrow> None
      | c # cs \<Rightarrow>
          if c = CHR ''-'' then (if cs = [] then None else map_option uminus (digits_value 0 cs))
          else if c = CHR ''+'' then (if cs = [] then None else digits_value 0 cs)
          else digits_value 0 (c # cs))"

text \<open>
  \<open>float(s)\<close> on a string: an integer literal, or digits around one decimal point. The
  literals with an exponent and the words for infinity and NaN are outside the exact model
  of floats and give \<open>None\<close>.
\<close>

definition parse_float :: "string \<Rightarrow> pyfloat option" where
  "parse_float s =
     (let t = py_strip s;
          neg = (t \<noteq> [] \<and> hd t = CHR ''-'');
          u = (if t \<noteq> [] \<and> hd t \<in> {CHR ''-'', CHR ''+''} then tl t else t);
          a = takeWhile (\<lambda>c. c \<noteq> CHR ''.'') u;
          b = drop (Suc (length a)) u
      in if a @ b = [] then None
         else case (digits_value 0 a, digits_value 0 b) of
                (Some i, Some j) \<Rightarrow>
                   Some ((if neg then -1 else 1) * (of_int i + of_int j / 10 ^ length b))
              | _ \<Rightarrow> None)"

text \<open>
  \<open>int(x)\<close> and \<open>float(x)\<close> on a JSON value; \<open>None\<close> is the \<open>TypeError\<close> or \<open>ValueError\<close>.
\<close>

fun py_int :: "pyval \<Rightarrow> int option" where
  "py_int (PBool b) = Some (if b then 1 else 0)"
| "py_int (PInt i) = Some i"
| "py_int (PFloat x) = Some (if 0 \<le> x then \<lfloor>x\<rfloor> else - \<lfloor>- x\<rfloor>)"
| "py_int (PStr s) = parse_int s"
| "py_int _ = None"

fun py_float :: "pyval \<Rightarrow> pyfloat option" where
  "py_float (PBool b) = Some (if b then 1 else 0)"
| "py_float (PInt i) = Some (of_int i)"
| "py_float (PFloat x) = Some x"
| "py_float (PStr s) = parse_float s"
| "py_float _ = None"

section \<open>Numbers\<close>

text \<open>\<open>round(x, n)\<close>: to the nearest multiple of \<open>10\<^sup>-\<^sup>n\<close>, ties to the even one.\<close>

definition round_half_even :: "pyfloat \<Rightarrow> int" where
  "round_half_even y =
     (let f = \<lfloor>y\<rfloor>; d = y - of_int f
      in if d < 1/2 then f else if d > 1/2 then f + 1 else if even f then f else f + 1)"

definition py_round :: "pyfloat \<Rightarrow> nat \<Rightarrow> pyfloat" where
  "py_round x n = of_int (round_half_even (x * 10 ^ n)) / 10 ^ n"

text \<open>\<open>int(x or d)\<close> on a nullable integer column: both \<open>None\<close> and 0 give \<open>d\<close>.\<close>

definition int_or :: "int option \<Rightarrow> int \<Rightarrow> int" where
  "int_or x d = (case x of None \<Rightarrow> d | Some i \<Rightarrow> if i = 0 then d else i)"

definition float_or :: "pyfloat option \<Rightarrow> pyfloat \<Rightarrow> pyfloat" where
  "float_or x d = (case x of None \<Rightarrow> d | Some i \<Rightarrow> if i = 0 then d else i)"

section \<open>Tables\<close>

text \<open>
  A table is the list of its rows. \<open>update_where p f\<close> is \<open>UPDATE \<dots> WHERE p\<close>;
  \<open>count_where p\<close> is the row count that statement reports.
\<close>

definition update_where :: "('r \<Rightarrow> bool) \<Rightarrow> ('r \<Rightarrow> 'r) \<Rightarrow> 'r list \<Rightarrow> 'r list" where
  "update_where p f rs = map (\<lambda>r. if p r then f r else r) rs"

definition count_where :: "('r \<Rightarrow> bool) \<Rightarrow> 'r list \<Rightarrow> nat" where
  "count_where p rs = length (filter p rs)"

section \<open>Reachable states\<close>

inductive reach :: "('s \<Rightarrow> bool) \<Rightarrow> ('s \<Rightarrow> 's \<Rightarrow> bool) \<Rightarrow> 's \<Rightarrow> bool"
  for init step where
  reach_init: "init s \<Longrightarrow> reach init step s"
| reach_step: "reach init step s \<Longrightarrow> step s t \<Longrightarrow> reach init step t"

text \<open>
  The contract of a state machine with an invariant; every machine of the development
  interprets it, and gets the invariant in all its reachable states.
\<close>

locale invariant_system =
  fixes init :: "'s \<Rightarrow> bool"
    and step :: "'s \<Rightarrow> 's \<Rightarrow> bool"
    and inv :: "'s \<Rightarrow> bool"
  assumes inv_init: "init s \<Longrightarrow> inv s"
    and inv_step: "inv s \<Longrightarrow> step s t \<Longrightarrow> inv t"
begin

lemma reachable_inv: "reach init step s \<Longrightarrow> inv s"
  by (induction rule: reach.induct) (auto intro: inv_init inv_step)

lemma steps_inv: "step\<^sup>*\<^sup>* s t \<Longrightarrow> inv s \<Longrightarrow> inv t"
  by (induction rule: rtranclp_induct) (auto intro: inv_step)

end

text \<open>
  The contract of an implementation: under an invariant of the concrete states, each concrete step
  is a run of steps of the specification between the abstractions. Whole runs then are, too.
\<close>

locale simulation =
  fixes inv :: "'c \<Rightarrow> bool"
    and abs_of :: "'c \<Rightarrow> 'a"
    and cstep :: "'c \<Rightarrow> 'c \<Rightarrow> bool"
    and astep :: "'a \<Rightarrow> 'a \<Rightarrow> bool"
  assumes step_simulated: "inv s \<Longrightarrow> cstep s t \<Longrightarrow> inv t \<and> astep\<^sup>*\<^sup>* (abs_of s) (abs_of t)"
begin

lemma run_simulated: "cstep\<^sup>*\<^sup>* s t \<Longrightarrow> inv s \<Longrightarrow> inv t \<and> astep\<^sup>*\<^sup>* (abs_of s) (abs_of t)"
proof (induction rule: rtranclp_induct)
  case (step t u)
  then have "inv t" and run: "astep\<^sup>*\<^sup>* (abs_of s) (abs_of t)" by simp_all
  from step_simulated [OF this(1) step(2)] have "inv u" "astep\<^sup>*\<^sup>* (abs_of t) (abs_of u)" by simp_all
  then show ?case using run rtranclp_trans [of astep] by simp
qed simp

end

section \<open>Lemmas\<close>

lemma dget_Nil [simp]: "dget [] k x = x"
  by (simp add: dget_def)

lemma dget_Cons [simp]: "dget ((k', v) # d) k x = (if k = k' then v else dget d k x)"
  by (simp add: dget_def)

lemma dget_update [simp]:
  "dget (AList.update k v d) k' x = (if k' = k then v else dget d k' x)"
  by (simp add: dget_def update_conv)

lemma py_lower_idem_char: "lower_char (lower_char c) = lower_char c"
proof (cases "65 \<le> (of_char c :: nat) \<and> of_char c \<le> (90 :: nat)")
  case True
  then have "of_char (char_of (of_char c + 32 :: nat)) = (of_char c + 32 :: nat)"
    by (simp add: of_char_of)
  with True show ?thesis by (simp add: lower_char_def)
next
  case False
  then show ?thesis by (auto simp: lower_char_def)
qed

lemma py_lower_idem [simp]: "py_lower (py_lower s) = py_lower s"
  by (simp add: py_lower_def py_lower_idem_char)

lemma round_half_even_int [simp]: "round_half_even (of_int i) = i"
  by (simp add: round_half_even_def)

lemma round_half_even_mono_int: "of_int i \<le> y \<Longrightarrow> i \<le> round_half_even y"
  using floor_mono [of "of_int i" y] by (auto simp: round_half_even_def Let_def)

lemma round_half_even_le_int: "y \<le> of_int i \<Longrightarrow> round_half_even y \<le> i"
proof -
  assume y: "y \<le> of_int i"
  show ?thesis
  proof (cases "y = of_int i")
    case False
    with y have "\<lfloor>y\<rfloor> < i" by (simp add: floor_less_iff)
    then show ?thesis by (auto simp: round_half_even_def Let_def)
  qed simp
qed

lemma py_round_of_int [simp]: "py_round (of_int i) n = of_int i"
proof -
  have "(of_int i :: rat) * 10 ^ n = of_int (i * 10 ^ n)" by simp
  then have "round_half_even (of_int i * 10 ^ n) = i * 10 ^ n"
    by (simp only: round_half_even_int)
  then show ?thesis by (simp add: py_round_def)
qed

lemma py_round_ge_int: "of_int i \<le> x \<Longrightarrow> of_int i \<le> py_round x n"
proof -
  assume "of_int i \<le> x"
  then have "of_int (i * 10 ^ n) \<le> x * 10 ^ n" by simp
  then have "i * 10 ^ n \<le> round_half_even (x * 10 ^ n)" by (rule round_half_even_mono_int)
  then have "(of_int (i * 10 ^ n) :: rat) \<le> of_int (round_half_even (x * 10 ^ n))"
    by (simp only: of_int_le_iff)
  then show ?thesis by (simp add: py_round_def field_simps)
qed

lemma py_round_le_int: "x \<le> of_int i \<Longrightarrow> py_round x n \<le> of_int i"
proof -
  assume "x \<le> of_int i"
  then have "x * 10 ^ n \<le> of_int (i * 10 ^ n)" by simp
  then have "round_half_even (x * 10 ^ n) \<le> i * 10 ^ n" by (rule round_half_even_le_int)
  then have "(of_int (round_half_even (x * 10 ^ n)) :: rat) \<le> of_int (i * 10 ^ n)"
    by (simp only: of_int_le_iff)
  then show ?thesis by (simp add: py_round_def field_simps)
qed

lemma round_half_even_mono: "x \<le> y \<Longrightarrow> round_half_even x \<le> round_half_even y"
proof -
  assume le: "x \<le> y"
  show ?thesis
  proof (cases "\<lfloor>x\<rfloor> = \<lfloor>y\<rfloor>")
    case True
    with le show ?thesis by (auto simp: round_half_even_def Let_def)
  next
    case False
    with le have f: "\<lfloor>x\<rfloor> + 1 \<le> \<lfloor>y\<rfloor>" using floor_mono [OF le] by linarith
    have "round_half_even x \<le> \<lfloor>x\<rfloor> + 1" by (auto simp: round_half_even_def Let_def)
    moreover have "\<lfloor>y\<rfloor> \<le> round_half_even y" by (auto simp: round_half_even_def Let_def)
    ultimately show ?thesis using f by linarith
  qed
qed

lemma py_round_mono: "x \<le> y \<Longrightarrow> py_round x n \<le> py_round y n"
  by (simp add: py_round_def round_half_even_mono divide_right_mono)

lemma distinct_filter_eq: "distinct xs \<Longrightarrow> filter (\<lambda>y. y = x) xs = (if x \<in> set xs then [x] else [])"
  by (induction xs) auto

lemma filter_unique:
  assumes "distinct xs" and "x \<in> set xs" and "P x" and "\<And>y. y \<in> set xs \<Longrightarrow> P y \<Longrightarrow> y = x"
  shows "filter P xs = [x]"
proof -
  have "filter P xs = filter (\<lambda>y. y = x) xs" using assms(3,4) by (blast intro: filter_cong)
  then show ?thesis using distinct_filter_eq [OF assms(1)] assms(2) by simp
qed

lemma update_where_Nil [simp]: "update_where p f [] = []"
  by (simp add: update_where_def)

lemma update_where_Cons [simp]:
  "update_where p f (r # rs) = (if p r then f r else r) # update_where p f rs"
  by (simp add: update_where_def)

lemma length_update_where [simp, table_simps]: "length (update_where p f rs) = length rs"
  by (simp add: update_where_def)

lemma map_update_where [table_simps]:
  "(\<And>r. p r \<Longrightarrow> g (f r) = g r) \<Longrightarrow> map g (update_where p f rs) = map g rs"
  by (simp add: update_where_def)

lemma set_update_where: "set (update_where p f rs) = (\<lambda>r. if p r then f r else r) ` set rs"
  by (simp add: update_where_def)

lemma update_where_in:
  "r \<in> set (update_where p f rs) \<Longrightarrow> (\<exists>r0\<in>set rs. p r0 \<and> r = f r0) \<or> (r \<in> set rs \<and> \<not> p r)"
  by (auto simp: set_update_where)

end
