(* ===== verification/Circuit.thy ===== *)
theory Circuit
  imports Prelude
begin

text \<open>
  The circuit breaker of \<open>src/api/infra/circuit_breaker.py\<close> and the registry of
  \<open>src/api/infra/circuit_breaker_registry.py\<close>. A breaker keeps a process-local state and
  mirrors it in a Redis key shared by the processes of the service; the breaker that guards
  Redis itself is local only. The state is a string, as in the code, because another
  process may have written any string under the key.

  One operation may read the clock and talk to Redis several times. Its environment
  \<open>env\<close> gives, for each call site, the time read there and whether the Redis command
  issued there succeeds. The shared key is state: a breaker operation maps the pair of the
  key's content and the breaker to a new pair. Redis text is represented by the JSON value
  it decodes to, \<open>Some None\<close> being text that is not JSON.
\<close>

section \<open>State\<close>

record circuit_state =
  cs_state :: string
  failure_count :: int
  window_started_at :: pyfloat
  opened_at :: pyfloat

definition initial_state :: circuit_state where
  "initial_state = \<lparr>cs_state = ''CLOSED'', failure_count = 0, window_started_at = 0, opened_at = 0\<rparr>"

record breaker =
  b_name :: string
  failure_threshold :: int
  window_seconds :: int
  recovery_timeout_seconds :: int
  has_client :: bool
  local_state :: circuit_state
  state_store_disabled_until :: pyfloat
  next_refresh_at :: pyfloat
  redis_endpoint :: "(string \<times> int) option"
  last_probe_ok :: bool
  last_probe_checked_at :: pyfloat

type_synonym stored = "pyval option option"
type_synonym world = "stored \<times> breaker"

datatype site = Load | Coerce | Save | Gate | Failure | Probe | Probed | Forced

record env =
  clock_at :: "site \<Rightarrow> pyfloat"
  redis_up :: "site \<Rightarrow> bool"

definition circuit_breaker_init ::
  "string \<Rightarrow> int \<Rightarrow> int \<Rightarrow> int \<Rightarrow> bool \<Rightarrow> (string \<times> int) option \<Rightarrow> breaker" where
  "circuit_breaker_init name threshold window recovery client endpoint =
     \<lparr>b_name = name, failure_threshold = threshold, window_seconds = window,
      recovery_timeout_seconds = recovery, has_client = client, local_state = initial_state,
      state_store_disabled_until = 0, next_refresh_at = 0,
      redis_endpoint = (if name = ''redis'' then endpoint else None),
      last_probe_ok = True, last_probe_checked_at = 0\<rparr>"

definition refresh_interval_seconds :: pyfloat where
  "refresh_interval_seconds = 1/10"

definition probe_cache_seconds :: pyfloat where
  "probe_cache_seconds = 1/4"

section \<open>The shared key\<close>

text \<open>The JSON object \<open>_save_state\<close> writes, and how \<open>_load_state\<close> reads one back.\<close>

definition encode_state :: "circuit_state \<Rightarrow> pyval" where
  "encode_state s =
     PDict [(''state'', PStr (cs_state s)), (''failure_count'', PInt (failure_count s)),
            (''window_started_at'', PFloat (window_started_at s)), (''opened_at'', PFloat (opened_at s))]"

text \<open>
  \<open>str(payload.get("state", "CLOSED"))\<close>: the code only compares the result with the three
  state names, and the text of a JSON value that is not a string is none of them; it is
  represented by a question mark.
\<close>

definition state_text :: "pyval \<Rightarrow> string" where
  "state_text v = (case v of PStr s \<Rightarrow> s | _ \<Rightarrow> ''?'')"

definition decode_state :: "pyval \<Rightarrow> circuit_state option" where
  "decode_state p =
     (case p of
        PDict d \<Rightarrow>
          (case (py_int (py_or (dget d ''failure_count'' (PInt 0)) (PInt 0)),
                 py_float (py_or (dget d ''window_started_at'' (PFloat 0)) (PFloat 0)),
                 py_float (py_or (dget d ''opened_at'' (PFloat 0)) (PFloat 0))) of
             (Some n, Some w, Some t) \<Rightarrow>
               Some \<lparr>cs_state = state_text (dget d ''state'' (PStr ''CLOSED'')),
                     failure_count = n, window_started_at = w, opened_at = t\<rparr>
           | _ \<Rightarrow> None)
      | _ \<Rightarrow> None)"

definition load_state :: "bool \<Rightarrow> env \<Rightarrow> world \<Rightarrow> world" where
  "load_state force_refresh e = (\<lambda>(kv, b).
     let now = clock_at e Load;
         disabled = b\<lparr>state_store_disabled_until := now + 30\<rparr>
     in if b_name b = ''redis'' then (kv, b)
        else if \<not> has_client b \<or> now < state_store_disabled_until b then (kv, b)
        else if \<not> force_refresh \<and> now < next_refresh_at b then (kv, b)
        else if \<not> redis_up e Load then (kv, disabled)
        else case kv of
               None \<Rightarrow> (kv, b\<lparr>next_refresh_at := now + refresh_interval_seconds\<rparr>)
             | Some None \<Rightarrow> (kv, disabled)
             | Some (Some p) \<Rightarrow>
                 (case decode_state p of
                    None \<Rightarrow> (kv, disabled)
                  | Some s \<Rightarrow>
                      (kv, b\<lparr>local_state := s, next_refresh_at := now + refresh_interval_seconds\<rparr>)))"

definition save_state :: "circuit_state \<Rightarrow> env \<Rightarrow> world \<Rightarrow> world" where
  "save_state s e = (\<lambda>(kv, b).
     let now = clock_at e Save;
         b' = b\<lparr>local_state := s, next_refresh_at := now + refresh_interval_seconds\<rparr>
     in if b_name b = ''redis'' then (kv, b')
        else if \<not> has_client b \<or> now < state_store_disabled_until b then (kv, b')
        else if redis_up e Save then (Some (Some (encode_state s)), b')
        else (kv, b'\<lparr>state_store_disabled_until := now + 30\<rparr>))"

section \<open>Operations\<close>

definition is_state_store_disabled :: "pyfloat \<Rightarrow> breaker \<Rightarrow> bool" where
  "is_state_store_disabled now b \<longleftrightarrow> now < state_store_disabled_until b"

text \<open>\<open>state.window_started_at or now\<close>: a window that never started starts now.\<close>

definition half_open_of :: "pyfloat \<Rightarrow> circuit_state \<Rightarrow> circuit_state" where
  "half_open_of now s =
     \<lparr>cs_state = ''HALF_OPEN'', failure_count = failure_count s,
      window_started_at = (if window_started_at s = 0 then now else window_started_at s),
      opened_at = opened_at s\<rparr>"

definition coerce_recovery_state :: "env \<Rightarrow> world \<Rightarrow> world" where
  "coerce_recovery_state e w =
     (let b = snd w; s = local_state b; now = clock_at e Coerce
      in if cs_state s \<noteq> ''OPEN'' then w
         else if now - opened_at s < of_int (recovery_timeout_seconds b) then w
         else save_state (half_open_of now s) e w)"

definition current_state :: "env \<Rightarrow> world \<Rightarrow> string \<times> world" where
  "current_state e w =
     (let w' = coerce_recovery_state e (load_state False e w);
          st = cs_state (local_state (snd w'))
      in (if b_name (snd w') = ''redis'' \<and> is_state_store_disabled (clock_at e Gate) (snd w')
             \<and> st = ''CLOSED'' then ''OPEN'' else st, w'))"

text \<open>\<open>True\<close>: the call may go on; \<open>False\<close>: \<open>CircuitOpenError\<close>.\<close>

definition before_call :: "env \<Rightarrow> world \<Rightarrow> bool \<times> world" where
  "before_call e w =
     (let w' = coerce_recovery_state e (load_state False e w); b = snd w'
      in if b_name b = ''redis'' \<and> is_state_store_disabled (clock_at e Gate) b then (False, w')
         else (cs_state (local_state b) \<noteq> ''OPEN'', w'))"

definition record_success :: "env \<Rightarrow> world \<Rightarrow> world" where
  "record_success e w =
     (let s = local_state (snd w)
      in if cs_state s = ''CLOSED'' \<and> failure_count s = 0 then w
         else save_state initial_state e w)"

definition opened_state :: "breaker \<Rightarrow> pyfloat \<Rightarrow> circuit_state" where
  "opened_state b now =
     \<lparr>cs_state = ''OPEN'', failure_count = failure_threshold b, window_started_at = now, opened_at = now\<rparr>"

text \<open>One more failure in the window, which restarts when it never began or has run out.\<close>

definition count_failure :: "breaker \<Rightarrow> pyfloat \<Rightarrow> circuit_state \<Rightarrow> circuit_state" where
  "count_failure b now s =
     (let restart = (window_started_at s = 0 \<or> now - window_started_at s > of_int (window_seconds b));
          n = (if restart then 0 else failure_count s) + 1;
          w = (if restart then now else window_started_at s)
      in if n \<ge> failure_threshold b
         then s\<lparr>cs_state := ''OPEN'', failure_count := n, window_started_at := w, opened_at := now\<rparr>
         else s\<lparr>cs_state := ''CLOSED'', failure_count := n, window_started_at := w\<rparr>)"

definition record_failure :: "env \<Rightarrow> world \<Rightarrow> world" where
  "record_failure e w =
     (let now = clock_at e Failure; w' = load_state False e w; b = snd w'; s = local_state b
      in if cs_state s = ''HALF_OPEN'' then save_state (opened_state b now) e w'
         else save_state (count_failure b now s) e w')"

definition record_external_failure :: "env \<Rightarrow> world \<Rightarrow> world" where
  "record_external_failure e w =
     (if cs_state (local_state (snd w)) = ''OPEN'' then w else record_failure e w)"

definition force_open :: "env \<Rightarrow> world \<Rightarrow> world" where
  "force_open e w = (let w' = load_state False e w in save_state (opened_state (snd w') (clock_at e Forced)) e w')"

definition local_state_name :: "pyfloat \<Rightarrow> breaker \<Rightarrow> string" where
  "local_state_name now b =
     (if b_name b = ''redis'' \<and> now < state_store_disabled_until b then ''OPEN''
      else cs_state (local_state b))"

section \<open>Calls through the breaker\<close>

text \<open>
  The guarded function either returns or raises; both outcomes are given by \<open>fn\<close>. A call
  ends with the function's value, the fallback's value, the function's exception, or
  \<open>CircuitOpenError\<close> when there is no fallback. The flag in the result records whether the
  function was invoked at all.
\<close>

datatype ('v, 'x) fn_outcome = Returns 'v | Raises 'x

datatype ('v, 'x) call_result = Value 'v | Fallback 'v | Failed 'x | CircuitOpenError

definition run_fallback :: "'v option \<Rightarrow> ('v, 'x) call_result" where
  "run_fallback fb = (case fb of None \<Rightarrow> CircuitOpenError | Some v \<Rightarrow> Fallback v)"

definition call_sync ::
  "env \<Rightarrow> env \<Rightarrow> ('v, 'x) fn_outcome \<Rightarrow> 'v option \<Rightarrow> world \<Rightarrow> (('v, 'x) call_result \<times> bool) \<times> world" where
  "call_sync e1 e2 fn fb w =
     (case before_call e1 w of
        (False, w') \<Rightarrow> ((run_fallback fb, False), w')
      | (True, w') \<Rightarrow>
          (case fn of
             Raises x \<Rightarrow> ((Failed x, True), record_failure e2 w')
           | Returns v \<Rightarrow> ((Value v, True), record_success e2 w')))"

text \<open>
  The TCP preflight of the Redis breaker: (reachable, freshly probed). \<open>reachable\<close> is the
  answer of the probe, should one be made; \<open>bypassed\<close> is the deployment's switch.
\<close>

definition redis_connectivity_preflight :: "bool \<Rightarrow> bool \<Rightarrow> env \<Rightarrow> breaker \<Rightarrow> (bool \<times> bool) \<times> breaker" where
  "redis_connectivity_preflight bypassed reachable e b =
     (if bypassed then ((True, False), b)
      else if redis_endpoint b = None then ((True, False), b)
      else if clock_at e Probe - last_probe_checked_at b \<le> probe_cache_seconds then ((last_probe_ok b, False), b)
      else ((reachable, True), b\<lparr>last_probe_checked_at := clock_at e Probed, last_probe_ok := reachable\<rparr>))"

text \<open>
  The asynchronous \<open>call\<close>. The execution deadline of the Redis breaker turns a late
  function into one that raises, so a timeout is an outcome of \<open>fn\<close>.
\<close>

definition call ::
  "bool \<Rightarrow> bool \<Rightarrow> env \<Rightarrow> env \<Rightarrow> ('v, 'x) fn_outcome \<Rightarrow> 'v option \<Rightarrow> world
     \<Rightarrow> (('v, 'x) call_result \<times> bool) \<times> world" where
  "call bypassed reachable e1 e2 fn fb w =
     (case before_call e1 w of
        (False, w') \<Rightarrow> ((run_fallback fb, False), w')
      | (True, w') \<Rightarrow>
          (let ((ok, fresh), b') =
                 (if b_name (snd w') = ''redis''
                  then redis_connectivity_preflight bypassed reachable e1 (snd w')
                  else ((True, False), snd w'));
               w'' = (fst w', b')
           in if \<not> ok
              then ((run_fallback fb, False), if fresh then record_failure e2 w'' else w'')
              else case fn of
                     Raises x \<Rightarrow> ((Failed x, True), record_failure e2 w'')
                   | Returns v \<Rightarrow> ((Value v, True), record_success e2 w'')))"

section \<open>Configuration, registry and health\<close>

record circuit_config =
  cfg_threshold :: int
  cfg_window :: int
  cfg_recovery :: int

definition circuit_configs :: "(string \<times> circuit_config) list" where
  "circuit_configs =
     [(''redis'', \<lparr>cfg_threshold = 5, cfg_window = 10, cfg_recovery = 30\<rparr>),
      (''gemini_embed'', \<lparr>cfg_threshold = 10, cfg_window = 60, cfg_recovery = 120\<rparr>),
      (''gemini_extract'', \<lparr>cfg_threshold = 10, cfg_window = 60, cfg_recovery = 300\<rparr>),
      (''qdrant'', \<lparr>cfg_threshold = 3, cfg_window = 5, cfg_recovery = 60\<rparr>),
      (''postgres'', \<lparr>cfg_threshold = 5, cfg_window = 10, cfg_recovery = 20\<rparr>)]"

definition build_breaker :: "bool \<Rightarrow> (string \<times> int) option \<Rightarrow> string \<Rightarrow> breaker option" where
  "build_breaker client endpoint name =
     map_option (\<lambda>c. circuit_breaker_init name (cfg_threshold c) (cfg_window c) (cfg_recovery c) client endpoint)
       (map_of circuit_configs name)"

text \<open>
  \<open>get_health\<close> visits the breakers in the order they were built, each with its own shared
  key; once one finds the store disabled, the remaining ones report their local state.
\<close>

fun get_health :: "env \<Rightarrow> bool \<Rightarrow> (string \<times> world) list \<Rightarrow> (string \<times> string) list \<times> (string \<times> world) list" where
  "get_health e use_local [] = ([], [])"
| "get_health e use_local ((n, w) # ws) =
     (if use_local
      then (let (hs, ws') = get_health e True ws in ((n, local_state_name (clock_at e Gate) (snd w)) # hs, (n, w) # ws'))
      else (let (st, w') = current_state e w;
                (hs, ws') = get_health e (is_state_store_disabled (clock_at e Gate) (snd w')) ws
            in ((n, st) # hs, (n, w') # ws')))"

definition overall_status_from_health :: "(string \<times> string) list \<Rightarrow> string" where
  "overall_status_from_health health =
     (let open_breakers = set (map fst (filter (\<lambda>(n, st). st = ''OPEN'') health))
      in if ''postgres'' \<in> open_breakers \<or> card open_breakers \<ge> 3 then ''CRITICAL''
         else if open_breakers \<noteq> {} then ''DEGRADED''
         else ''HEALTHY'')"

section \<open>Steps of one process and of its environment\<close>

text \<open>
  Every operation of the breaker, and what the other processes and Redis may do to the
  shared key between two of them: the key may vanish, its text may be damaged, or another
  process with the same configuration may have written a state of its own.
\<close>

definition state_ok :: "int \<Rightarrow> circuit_state \<Rightarrow> bool" where
  "state_ok threshold s \<longleftrightarrow>
     0 \<le> failure_count s \<and>
     (cs_state s = ''CLOSED'' \<and> failure_count s < threshold \<or>
      cs_state s \<in> {''OPEN'', ''HALF_OPEN''} \<and> threshold \<le> failure_count s)"

definition key_ok :: "int \<Rightarrow> stored \<Rightarrow> bool" where
  "key_ok threshold kv =
     (case kv of
        Some (Some p) \<Rightarrow> (case decode_state p of None \<Rightarrow> True | Some s \<Rightarrow> state_ok threshold s)
      | _ \<Rightarrow> True)"

definition breaker_inv :: "world \<Rightarrow> bool" where
  "breaker_inv w \<longleftrightarrow>
     0 < failure_threshold (snd w) \<and>
     state_ok (failure_threshold (snd w)) (local_state (snd w)) \<and>
     key_ok (failure_threshold (snd w)) (fst w)"

definition breaker_init :: "world \<Rightarrow> bool" where
  "breaker_init w \<longleftrightarrow>
     fst w = None \<and>
     (\<exists>name client endpoint. build_breaker client endpoint name = Some (snd w))"

inductive breaker_step :: "world \<Rightarrow> world \<Rightarrow> bool" where
  step_before_call: "breaker_step w (snd (before_call e w))"
| step_current_state: "breaker_step w (snd (current_state e w))"
| step_success: "breaker_step w (record_success e w)"
| step_failure: "breaker_step w (record_failure e w)"
| step_external: "breaker_step w (record_external_failure e w)"
| step_force: "breaker_step w (force_open e w)"
| step_probe: "breaker_step (kv, b) (kv, snd (redis_connectivity_preflight byp reachable e b))"
| step_key_lost: "breaker_step (kv, b) (None, b)"
| step_key_damaged: "breaker_step (kv, b) (Some None, b)"
| step_other_process:
    "state_ok (failure_threshold b) s \<Longrightarrow> breaker_step (kv, b) (Some (Some (encode_state s)), b)"

section \<open>Lemmas\<close>

lemma decode_encode [simp]: "decode_state (encode_state s) = Some s"
  by (cases s) (simp add: decode_state_def encode_state_def py_or_def state_text_def)

lemma save_local [simp]: "local_state (snd (save_state s e w)) = s"
  by (cases w) (simp add: save_state_def Let_def)

lemma save_config [simp]:
  "failure_threshold (snd (save_state s e w)) = failure_threshold (snd w)"
  "b_name (snd (save_state s e w)) = b_name (snd w)"
  "recovery_timeout_seconds (snd (save_state s e w)) = recovery_timeout_seconds (snd w)"
  "window_seconds (snd (save_state s e w)) = window_seconds (snd w)"
  "has_client (snd (save_state s e w)) = has_client (snd w)"
  by (cases w; simp add: save_state_def Let_def)+

lemma load_config [simp]:
  "failure_threshold (snd (load_state f e w)) = failure_threshold (snd w)"
  "b_name (snd (load_state f e w)) = b_name (snd w)"
  "recovery_timeout_seconds (snd (load_state f e w)) = recovery_timeout_seconds (snd w)"
  "window_seconds (snd (load_state f e w)) = window_seconds (snd w)"
  "has_client (snd (load_state f e w)) = has_client (snd w)"
  "fst (load_state f e w) = fst w"
  by (cases w; simp add: load_state_def Let_def split: option.splits)+

lemma load_local_only:
  "b_name (snd w) = ''redis'' \<or> \<not> has_client (snd w) \<Longrightarrow> load_state f e w = w"
  by (cases w) (auto simp: load_state_def Let_def)

text \<open>The state after a load is the old one or one decoded from the shared key.\<close>

lemma load_local_cases:
  "local_state (snd (load_state f e w)) = local_state (snd w) \<or>
   (\<exists>p. fst w = Some (Some p) \<and> decode_state p = Some (local_state (snd (load_state f e w))))"
  by (cases w) (auto simp: load_state_def Let_def split: option.splits)

lemma load_unreachable_store:
  "\<not> redis_up e Load \<Longrightarrow> local_state (snd (load_state f e w)) = local_state (snd w)"
  by (cases w) (auto simp: load_state_def Let_def)

lemma save_key_cases: "fst (save_state s e w) = fst w \<or> fst (save_state s e w) = Some (Some (encode_state s))"
  by (cases w) (auto simp: save_state_def Let_def)

lemmas breaker_defs = before_call_def current_state_def record_success_def record_failure_def
  record_external_failure_def force_open_def coerce_recovery_state_def Let_def

subsection \<open>The invariant\<close>

lemma key_ok_encode [simp]: "key_ok n (Some (Some (encode_state s))) = state_ok n s"
  by (simp add: key_ok_def)

lemma save_inv: "breaker_inv w \<Longrightarrow> state_ok (failure_threshold (snd w)) s \<Longrightarrow> breaker_inv (save_state s e w)"
  using save_key_cases [of s e w] by (auto simp: breaker_inv_def)

lemma load_inv: "breaker_inv w \<Longrightarrow> breaker_inv (load_state f e w)"
  using load_local_cases [of f e w] by (auto simp: breaker_inv_def key_ok_def)

lemma initial_state_ok: "0 < n \<Longrightarrow> state_ok n initial_state"
  by (simp add: state_ok_def initial_state_def)

lemma opened_state_ok: "0 < failure_threshold b \<Longrightarrow> state_ok (failure_threshold b) (opened_state b now)"
  by (simp add: state_ok_def opened_state_def)

lemma half_open_ok: "cs_state s = ''OPEN'' \<Longrightarrow> state_ok n s \<Longrightarrow> state_ok n (half_open_of now s)"
  by (simp add: state_ok_def half_open_of_def)

lemma count_failure_ok: "state_ok (failure_threshold b) s \<Longrightarrow> state_ok (failure_threshold b) (count_failure b now s)"
  by (auto simp: state_ok_def count_failure_def Let_def)

lemma breaker_inv_local: "breaker_inv w \<Longrightarrow> state_ok (failure_threshold (snd w)) (local_state (snd w))"
  and breaker_inv_threshold: "breaker_inv w \<Longrightarrow> 0 < failure_threshold (snd w)"
  by (auto simp: breaker_inv_def)

lemma coerce_inv: "breaker_inv w \<Longrightarrow> breaker_inv (coerce_recovery_state e w)"
  by (auto simp: coerce_recovery_state_def Let_def intro!: save_inv half_open_ok breaker_inv_local)

lemma success_inv: "breaker_inv w \<Longrightarrow> breaker_inv (record_success e w)"
  by (auto simp: record_success_def Let_def intro!: save_inv initial_state_ok breaker_inv_threshold)

lemma failure_inv:
  assumes "breaker_inv w"
  shows "breaker_inv (record_failure e w)"
proof -
  have l: "breaker_inv (load_state False e w)" using assms by (rule load_inv)
  show ?thesis
    using save_inv [OF l] opened_state_ok [OF breaker_inv_threshold [OF l]]
      count_failure_ok [OF breaker_inv_local [OF l]]
    by (simp add: record_failure_def Let_def)
qed

lemma force_inv:
  assumes "breaker_inv w"
  shows "breaker_inv (force_open e w)"
proof -
  have l: "breaker_inv (load_state False e w)" using assms by (rule load_inv)
  show ?thesis
    using save_inv [OF l] opened_state_ok [OF breaker_inv_threshold [OF l]]
    by (simp add: force_open_def Let_def)
qed

lemma before_call_inv: "breaker_inv w \<Longrightarrow> breaker_inv (snd (before_call e w))"
  by (simp add: before_call_def Let_def coerce_inv load_inv)

lemma current_state_inv: "breaker_inv w \<Longrightarrow> breaker_inv (snd (current_state e w))"
  by (simp add: current_state_def Let_def coerce_inv load_inv)

lemma probe_inv:
  "breaker_inv (kv, b) \<Longrightarrow> breaker_inv (kv, snd (redis_connectivity_preflight byp r e b))"
  by (auto simp: redis_connectivity_preflight_def breaker_inv_def)

lemma breaker_step_inv: "breaker_step w w' \<Longrightarrow> breaker_inv w \<Longrightarrow> breaker_inv w'"
proof (induction rule: breaker_step.induct)
  case (step_external w e)
  then show ?case by (simp add: record_external_failure_def failure_inv)
next
  case (step_other_process b s kv)
  then show ?case by (simp add: breaker_inv_def)
next
  case (step_key_lost kv b)
  then show ?case by (simp add: breaker_inv_def key_ok_def)
next
  case (step_key_damaged kv b)
  then show ?case by (simp add: breaker_inv_def key_ok_def)
qed (simp_all add: before_call_inv current_state_inv success_inv failure_inv force_inv probe_inv)

lemma breaker_init_inv: "breaker_init w \<Longrightarrow> breaker_inv w"
  by (cases w) (auto simp: breaker_init_def breaker_inv_def build_breaker_def circuit_breaker_init_def
      circuit_configs_def key_ok_def intro!: initial_state_ok split: if_splits)

interpretation breaker: invariant_system breaker_init breaker_step breaker_inv
  by unfold_locales (auto intro: breaker_init_inv breaker_step_inv)

subsection \<open>The interface clients rely on\<close>

definition fn_result :: "('v, 'x) fn_outcome \<Rightarrow> ('v, 'x) call_result" where
  "fn_result fn = (case fn of Returns v \<Rightarrow> Value v | Raises x \<Rightarrow> Failed x)"

text \<open>
  What a client of a breaker may assume of a call: either the guarded function did not run
  and the fallback (or \<open>CircuitOpenError\<close>) is the answer, or it ran and its own outcome is.
\<close>

locale guarded_call =
  fixes gcall :: "('v, 'x) fn_outcome \<Rightarrow> 'v option \<Rightarrow> 'w \<Rightarrow> (('v, 'x) call_result \<times> bool) \<times> 'w"
  assumes gcall_shape:
    "fst (gcall fn fb w) = (run_fallback fb, False) \<or> fst (gcall fn fb w) = (fn_result fn, True)"
begin

lemma fallback_never_open: "fst (fst (gcall fn (Some v) w)) \<noteq> CircuitOpenError"
  using gcall_shape [of fn "Some v" w] by (auto simp: run_fallback_def fn_result_def split: fn_outcome.splits)

lemma failed_only_from_fn: "fst (fst (gcall fn fb w)) = Failed x \<Longrightarrow> fn = Raises x"
  using gcall_shape [of fn fb w]
  by (auto simp: run_fallback_def fn_result_def split: fn_outcome.splits option.splits)

lemma value_only_from_fn: "fst (fst (gcall fn fb w)) = Value v \<Longrightarrow> fn = Returns v"
  using gcall_shape [of fn fb w]
  by (auto simp: run_fallback_def fn_result_def split: fn_outcome.splits option.splits)

lemma fallback_value: "fst (fst (gcall fn fb w)) = Fallback v \<Longrightarrow> fb = Some v \<and> \<not> snd (fst (gcall fn fb w))"
  using gcall_shape [of fn fb w]
  by (auto simp: run_fallback_def fn_result_def split: fn_outcome.splits option.splits)

end

interpretation sync_call: guarded_call "call_sync e1 e2"
  for e1 e2
  by unfold_locales
    (auto simp: call_sync_def fn_result_def split: prod.splits bool.splits fn_outcome.splits)

interpretation async_call: guarded_call "call byp r e1 e2"
  for byp r e1 e2
  by unfold_locales
    (auto simp: call_def fn_result_def Let_def split: prod.splits bool.splits fn_outcome.splits if_splits)

section \<open>Properties\<close>


definition example_env :: "pyfloat \<Rightarrow> env" where
  "example_env t = \<lparr>clock_at = (\<lambda>_. t), redis_up = (\<lambda>_. True)\<rparr>"

definition qdrant_breaker :: breaker where
  "qdrant_breaker = circuit_breaker_init ''qdrant'' 3 5 60 False None"

lemma qdrant_breaker_init: "breaker_init (None, qdrant_breaker)"
  by (auto simp: breaker_init_def build_breaker_def circuit_configs_def qdrant_breaker_def
      intro!: exI [of _ "''qdrant''"])


text \<open>
  (C35) A circuit that is open, and whose recovery timeout has not passed, does not invoke
  the guarded function: the caller gets the fallback, or \<open>CircuitOpenError\<close> without one, and
  nothing but the refresh from the shared key has happened to the breaker.
\<close>

theorem open_circuit_blocks:
  assumes "cs_state (local_state (snd (load_state False e1 w))) = ''OPEN''"
    and "clock_at e1 Coerce - opened_at (local_state (snd (load_state False e1 w)))
           < of_int (recovery_timeout_seconds (snd w))"
  shows "call_sync e1 e2 fn fb w = ((run_fallback fb, False), load_state False e1 w)
       \<and> call byp r e1 e2 fn fb w = ((run_fallback fb, False), load_state False e1 w)"
proof -
  have "coerce_recovery_state e1 (load_state False e1 w) = load_state False e1 w"
    using assms by (simp add: coerce_recovery_state_def Let_def)
  then have "before_call e1 w = (False, load_state False e1 w)"
    using assms by (simp add: before_call_def Let_def)
  then show ?thesis by (simp add: call_sync_def call_def)
qed

theorem open_circuit_blocks_witness:
  "call_sync (example_env 10) (example_env 10) (Returns 7 :: (nat, nat) fn_outcome) None
     (None, qdrant_breaker\<lparr>local_state := opened_state qdrant_breaker 5\<rparr>)
   = ((CircuitOpenError, False), (None, qdrant_breaker\<lparr>local_state := opened_state qdrant_breaker 5\<rparr>))"
  using open_circuit_blocks [of "example_env 10" "(None, qdrant_breaker\<lparr>local_state := opened_state qdrant_breaker 5\<rparr>)"
      "example_env 10" "Returns 7 :: (nat, nat) fn_outcome" None False False]
  by (simp add: qdrant_breaker_def circuit_breaker_init_def load_state_def opened_state_def
      example_env_def run_fallback_def)

text \<open>
  Once the recovery timeout of an open circuit has passed, the next call is let through
  in the half-open state, and that one call decides: a success closes the circuit and clears
  its counters, a failure opens it again from the time of the failure. (The breaker's own
  copy of the state is current during the call: it does not refresh from the key.)
\<close>

theorem half_open_probe_decides:
  assumes open_s: "cs_state (local_state (snd (load_state False e1 w))) = ''OPEN''"
    and due: "of_int (recovery_timeout_seconds (snd w))
           \<le> clock_at e1 Coerce - opened_at (local_state (snd (load_state False e1 w)))"
    and not_redis: "b_name (snd w) \<noteq> ''redis''"
    and fresh: "load_state False e2 (snd (before_call e1 w)) = snd (before_call e1 w)"
  shows "snd (fst (call_sync e1 e2 fn fb w)) \<and>
         local_state (snd (snd (call_sync e1 e2 fn fb w))) =
           (case fn of Returns v \<Rightarrow> initial_state
                     | Raises x \<Rightarrow> opened_state (snd w) (clock_at e2 Failure))"
proof -
  let ?l = "load_state False e1 w"
  let ?h = "save_state (half_open_of (clock_at e1 Coerce) (local_state (snd ?l))) e1 ?l"
  have "coerce_recovery_state e1 ?l = ?h"
    using open_s due by (simp add: coerce_recovery_state_def Let_def)
  then have b: "before_call e1 w = (True, ?h)"
    using not_redis by (simp add: before_call_def Let_def half_open_of_def)
  then have f: "load_state False e2 ?h = ?h" using fresh by simp
  have h: "cs_state (local_state (snd ?h)) = ''HALF_OPEN''" by (simp add: half_open_of_def)
  have succ: "local_state (snd (record_success e2 ?h)) = initial_state"
    using h by (simp add: record_success_def)
  have fail: "local_state (snd (record_failure e2 ?h)) = opened_state (snd w) (clock_at e2 Failure)"
    using h f by (simp add: record_failure_def Let_def opened_state_def)
  show ?thesis using b succ fail by (simp add: call_sync_def split: fn_outcome.split)
qed

theorem half_open_probe_decides_witness:
  "local_state (snd (snd (call_sync (example_env 100) (example_env 101) (Raises 1 :: (nat, nat) fn_outcome) None
     (None, qdrant_breaker\<lparr>local_state := opened_state qdrant_breaker 5\<rparr>))))
   = opened_state (qdrant_breaker\<lparr>local_state := opened_state qdrant_breaker 5\<rparr>) 101"
  using half_open_probe_decides [of "example_env 100" "(None, qdrant_breaker\<lparr>local_state := opened_state qdrant_breaker 5\<rparr>)"
      "example_env 101" "Raises 1 :: (nat, nat) fn_outcome" None]
  by (simp add: qdrant_breaker_def circuit_breaker_init_def load_state_def opened_state_def
      example_env_def before_call_def coerce_recovery_state_def save_state_def half_open_of_def Let_def)

text \<open>
  The state written to the shared key is the state read back from it, so a breaker in
  another process that refreshes from the key adopts exactly the saved state.
\<close>

theorem shared_state_roundtrip:
  assumes "b_name (snd w) \<noteq> ''redis''" "has_client (snd w)" "redis_up e1 Save"
    and "state_store_disabled_until (snd w) \<le> clock_at e1 Save"
    and "b_name b \<noteq> ''redis''" "has_client b" "redis_up e2 Load"
    and "state_store_disabled_until b \<le> clock_at e2 Load" "next_refresh_at b \<le> clock_at e2 Load"
  shows "local_state (snd (load_state False e2 (fst (save_state s e1 w), b))) = s"
  using assms by (cases w) (simp add: save_state_def load_state_def Let_def)

theorem shared_state_roundtrip_witness:
  "local_state (snd (load_state False (example_env 9)
     (fst (save_state (opened_state qdrant_breaker 5) (example_env 5) (None, qdrant_breaker\<lparr>has_client := True\<rparr>)),
      qdrant_breaker\<lparr>has_client := True\<rparr>)))
   = opened_state qdrant_breaker 5"
  by (rule shared_state_roundtrip)
    (simp_all add: qdrant_breaker_def circuit_breaker_init_def example_env_def)

text \<open>The failures a breaker without a shared key has counted after a run of them.\<close>

definition failure_run :: "breaker \<Rightarrow> pyfloat list \<Rightarrow> breaker" where
  "failure_run b ts = foldl (\<lambda>b t. snd (record_failure (example_env t) (None, b))) b ts"

lemma record_failure_local:
  "\<not> has_client b \<Longrightarrow> cs_state (local_state b) \<noteq> ''HALF_OPEN'' \<Longrightarrow>
   snd (record_failure (example_env t) (None, b))
     = b\<lparr>local_state := count_failure b t (local_state b), next_refresh_at := t + refresh_interval_seconds\<rparr>"
  by (simp add: record_failure_def load_local_only save_state_def example_env_def Let_def)

lemma failure_run_within_window:
  assumes "t0 \<noteq> 0" and "\<forall>t\<in>set ts. t - t0 \<le> of_int (window_seconds b)"
    and "\<not> has_client b" and "window_started_at (local_state b) = t0"
    and "cs_state (local_state b) =
           (if failure_count (local_state b) \<ge> failure_threshold b then ''OPEN'' else ''CLOSED'')"
  shows "cs_state (local_state (failure_run b ts)) =
           (if failure_count (local_state b) + int (length ts) \<ge> failure_threshold b
            then ''OPEN'' else ''CLOSED'')"
  using assms
proof (induction ts arbitrary: b)
  case Nil
  then show ?case by (simp add: failure_run_def)
next
  case (Cons t ts)
  let ?c = "b\<lparr>local_state := count_failure b t (local_state b), next_refresh_at := t + refresh_interval_seconds\<rparr>"
  have step: "failure_run b (t # ts) = failure_run ?c ts"
    using Cons.prems by (simp add: failure_run_def record_failure_local)
  have n: "failure_count (local_state ?c) = failure_count (local_state b) + 1"
    and w: "window_started_at (local_state ?c) = t0"
    using Cons.prems by (auto simp: count_failure_def Let_def)
  have c: "cs_state (local_state ?c) =
      (if failure_count (local_state ?c) \<ge> failure_threshold ?c then ''OPEN'' else ''CLOSED'')"
    by (simp add: count_failure_def Let_def)
  have "cs_state (local_state (failure_run ?c ts)) =
      (if failure_count (local_state ?c) + int (length ts) \<ge> failure_threshold ?c then ''OPEN'' else ''CLOSED'')"
    by (rule Cons.IH [OF _ _ _ w c]) (use Cons.prems in auto)
  then show ?case unfolding step n by simp
qed

text \<open>
  Starting from a closed circuit with no failures, a run of failures all within the
  window opens the circuit exactly when there are at least as many as the threshold.
\<close>

theorem opens_at_threshold:
  assumes "\<not> has_client b" and "local_state b = initial_state"
    and "0 < failure_threshold b" and "t0 \<noteq> 0"
    and "\<forall>t\<in>set ts. t - t0 \<le> of_int (window_seconds b)"
  shows "cs_state (local_state (failure_run b (t0 # ts))) =
           (if int (length (t0 # ts)) \<ge> failure_threshold b then ''OPEN'' else ''CLOSED'')"
proof -
  let ?c = "b\<lparr>local_state := count_failure b t0 initial_state, next_refresh_at := t0 + refresh_interval_seconds\<rparr>"
  have step: "failure_run b (t0 # ts) = failure_run ?c ts"
    using assms by (simp add: failure_run_def record_failure_local initial_state_def)
  have c: "local_state ?c =
      \<lparr>cs_state = (if failure_threshold b \<le> 1 then ''OPEN'' else ''CLOSED''), failure_count = 1,
       window_started_at = t0, opened_at = (if failure_threshold b \<le> 1 then t0 else 0)\<rparr>"
    by (simp add: count_failure_def initial_state_def Let_def)
  show ?thesis
    using failure_run_within_window [of t0 ts ?c] assms c unfolding step by auto
qed

theorem opens_at_threshold_witness:
  "cs_state (local_state (failure_run qdrant_breaker [100, 101, 102])) = ''OPEN''"
  using opens_at_threshold [of qdrant_breaker 100 "[101, 102]"]
  by (simp add: qdrant_breaker_def circuit_breaker_init_def)

text \<open>
  A failure recorded while the circuit is open, and after the counting window has run
  out, closes the circuit, whether or not the recovery timeout has passed: the count
  restarts at one, below the threshold, and the state is set to closed. Such a failure is
  that of a call which was let through before the circuit opened.
\<close>

theorem late_failure_closes_open_circuit:
  assumes "\<not> has_client (snd w)" and "cs_state (local_state (snd w)) = ''OPEN''"
    and "clock_at e Failure - window_started_at (local_state (snd w)) > of_int (window_seconds (snd w))"
    and "1 < failure_threshold (snd w)"
  shows "cs_state (local_state (snd (record_failure e w))) = ''CLOSED''"
  using assms by (simp add: record_failure_def load_local_only count_failure_def Let_def)

theorem late_failure_closes_open_circuit_witness:
  "cs_state (local_state (failure_run qdrant_breaker [100, 101, 102])) = ''OPEN'' \<and>
   cs_state (local_state (snd (record_failure (example_env 108)
     (None, failure_run qdrant_breaker [100, 101, 102])))) = ''CLOSED'' \<and>
   (108 :: pyfloat) - 102 < of_int (recovery_timeout_seconds qdrant_breaker)"
proof -
  let ?b = "failure_run qdrant_breaker [100, 101, 102]"
  have facts: "\<not> has_client ?b" "cs_state (local_state ?b) = ''OPEN''"
    "window_started_at (local_state ?b) = 100" "window_seconds ?b = 5" "failure_threshold ?b = 3"
    "recovery_timeout_seconds qdrant_breaker = 60"
    by (simp_all add: failure_run_def record_failure_local qdrant_breaker_def circuit_breaker_init_def
        initial_state_def count_failure_def Let_def)
  have "cs_state (local_state (snd (record_failure (example_env 108) (None, ?b)))) = ''CLOSED''"
    by (rule late_failure_closes_open_circuit) (simp_all add: facts example_env_def)
  then show ?thesis using facts by simp
qed

text \<open>
  An unreachable state store never changes what a breaker decides: a failed read leaves
  the local state as it was, a failed write still installs the new state locally, and both
  suspend the use of the store for thirty seconds.
\<close>

theorem store_outage_keeps_local_state:
  assumes "\<not> redis_up e Load" and "\<not> redis_up e Save"
  shows "local_state (snd (load_state f e w)) = local_state (snd w) \<and>
         local_state (snd (save_state s e w)) = s \<and>
         (b_name (snd w) \<noteq> ''redis'' \<and> has_client (snd w) \<and>
          state_store_disabled_until (snd w) \<le> clock_at e Save \<longrightarrow>
            fst (save_state s e w) = fst w \<and>
            state_store_disabled_until (snd (save_state s e w)) = clock_at e Save + 30)"
  using assms load_unreachable_store [of e f w] by (cases w) (simp add: save_state_def Let_def)

theorem store_outage_keeps_local_state_witness:
  "local_state (snd (load_state True \<lparr>clock_at = (\<lambda>_. 7), redis_up = (\<lambda>_. False)\<rparr>
     (Some None, qdrant_breaker\<lparr>has_client := True\<rparr>))) = initial_state"
  using store_outage_keeps_local_state [of "\<lparr>clock_at = (\<lambda>_. 7), redis_up = (\<lambda>_. False)\<rparr>" True
      "(Some None, qdrant_breaker\<lparr>has_client := True\<rparr>)" initial_state]
  by (simp add: qdrant_breaker_def circuit_breaker_init_def)

end
