(* ===== verification/Quota.thy ===== *)
theory Quota
  imports Circuit "HOL-Library.Product_Lexorder"
begin

text \<open>
  Budgets and quotas of a tenant: the plan limits of \<open>src/api/config/plan_limits.py\<close>, the
  budget check of \<open>src/api/services/budget_governor.py\<close>, the quota modes and notifications
  of \<open>src/api/services/quota_manager.py\<close> with its Redis cache behind the circuit breaker,
  and the background tasks of \<open>src/api/tasks/quota_tasks.py\<close> and
  \<open>src/api/tasks/quality_gate_tasks.py\<close> that change a budget row.

  A UTC timestamp of a budget is its civil date: year, month, day and the microseconds of the
  day; the lexicographic order of the tuple is the order of time.
\<close>

section \<open>Data\<close>

type_synonym civil = "int \<times> int \<times> int \<times> int"

datatype plan_tier = Free | Starter | Growth | Scale | Enterprise

datatype overage_policy = Block | Warn | Charge

datatype quota_mode = Full | Passthrough | DegradedRetrieve | Blocked

fun quota_mode_value :: "quota_mode \<Rightarrow> string" where
  "quota_mode_value Full = ''FULL''"
| "quota_mode_value Passthrough = ''PASSTHROUGH''"
| "quota_mode_value DegradedRetrieve = ''DEGRADED_RETRIEVE''"
| "quota_mode_value Blocked = ''BLOCKED''"

record tenant_budget =
  tb_tenant_id :: uuid
  tb_plan_tier :: plan_tier
  monthly_call_limit :: "int option"
  monthly_token_limit :: "int option"
  current_month_calls :: int
  current_month_tokens :: int
  write_calls :: int
  write_call_limit :: "int option"
  read_calls :: int
  read_limit :: "int option"
  rate_limit_per_user_per_minute :: int
  tb_overage_policy :: overage_policy
  alert_threshold_pct :: pyfloat
  has_webhook_url :: bool
  last_notified_pct :: "pyfloat option"
  last_notified_mode :: "quota_mode option"
  reset_at :: "civil option"

section \<open>Plan limits\<close>

record plan_limit =
  pl_monthly_call_limit :: "int option"
  pl_monthly_token_limit :: "int option"
  pl_write_call_limit :: "int option"
  pl_read_limit :: "int option"
  pl_rate_limit :: "int option"
  pl_overage_policy :: overage_policy
  pl_alert_threshold_pct :: pyfloat

definition plan_limits :: "(string \<times> plan_tier \<times> plan_limit) list" where
  "plan_limits =
     [(''free'', Free,
       \<lparr>pl_monthly_call_limit = Some 5000, pl_monthly_token_limit = Some 2000000,
        pl_write_call_limit = Some 5000, pl_read_limit = None, pl_rate_limit = Some 3,
        pl_overage_policy = Block, pl_alert_threshold_pct = 8/10\<rparr>),
      (''starter'', Starter,
       \<lparr>pl_monthly_call_limit = Some 50000, pl_monthly_token_limit = Some 25000000,
        pl_write_call_limit = Some 50000, pl_read_limit = None, pl_rate_limit = Some 10,
        pl_overage_policy = Warn, pl_alert_threshold_pct = 8/10\<rparr>),
      (''growth'', Growth,
       \<lparr>pl_monthly_call_limit = Some 500000, pl_monthly_token_limit = Some 250000000,
        pl_write_call_limit = Some 500000, pl_read_limit = None, pl_rate_limit = Some 30,
        pl_overage_policy = Warn, pl_alert_threshold_pct = 8/10\<rparr>),
      (''scale'', Scale,
       \<lparr>pl_monthly_call_limit = Some 1000000, pl_monthly_token_limit = Some 500000000,
        pl_write_call_limit = Some 1000000, pl_read_limit = None, pl_rate_limit = Some 80,
        pl_overage_policy = Warn, pl_alert_threshold_pct = 9/10\<rparr>),
      (''enterprise'', Enterprise,
       \<lparr>pl_monthly_call_limit = None, pl_monthly_token_limit = None,
        pl_write_call_limit = None, pl_read_limit = None, pl_rate_limit = None,
        pl_overage_policy = Warn, pl_alert_threshold_pct = 9/10\<rparr>)]"

datatype plan_error = UnknownPlanTier string | NotNullViolation

definition get_limits :: "string \<Rightarrow> plan_error + (plan_tier \<times> plan_limit)" where
  "get_limits plan = (case map_of plan_limits plan of None \<Rightarrow> Inl (UnknownPlanTier plan) | Some l \<Rightarrow> Inr l)"

text \<open>
  \<open>apply_plan_limits\<close>: one \<open>UPDATE\<close> of the tenant's row, then a commit and the deletion of the
  tenant's three cache keys. The rate limit column is \<open>NOT NULL\<close>, so the statement fails when
  it would store a null in an existing row. \<open>next_reset\<close> is the start of the next month, which
  the database computes.
\<close>

definition plan_row :: "plan_tier \<Rightarrow> plan_limit \<Rightarrow> int \<Rightarrow> civil \<Rightarrow> tenant_budget \<Rightarrow> tenant_budget" where
  "plan_row tier l rate next_reset r =
     r\<lparr>tb_plan_tier := tier, monthly_call_limit := pl_monthly_call_limit l,
       monthly_token_limit := pl_monthly_token_limit l, write_call_limit := pl_write_call_limit l,
       read_limit := pl_read_limit l, rate_limit_per_user_per_minute := rate,
       tb_overage_policy := pl_overage_policy l, alert_threshold_pct := pl_alert_threshold_pct l,
       reset_at := Some next_reset\<rparr>"

definition invalidated_keys :: "uuid \<Rightarrow> (string \<times> uuid) list" where
  "invalidated_keys tenant = [(''quota_mode'', tenant), (''plan'', tenant), (''region'', tenant)]"

definition apply_plan_limits ::
  "uuid \<Rightarrow> string \<Rightarrow> civil \<Rightarrow> tenant_budget list \<Rightarrow> plan_error + (tenant_budget list \<times> (string \<times> uuid) list)" where
  "apply_plan_limits tenant plan next_reset rows =
     (case get_limits plan of
        Inl err \<Rightarrow> Inl err
      | Inr (tier, l) \<Rightarrow>
          (let mine = (\<lambda>r. tb_tenant_id r = tenant)
           in case pl_rate_limit l of
                Some rate \<Rightarrow>
                  Inr (update_where mine (plan_row tier l rate next_reset) rows, invalidated_keys tenant)
              | None \<Rightarrow>
                  if count_where mine rows > 0 then Inl NotNullViolation
                  else Inr (rows, invalidated_keys tenant)))"

section \<open>The budget governor\<close>

record budget_decision =
  passed :: bool
  bd_reason :: "string option"
  estimated_tokens :: int
  should_alert :: bool
  bd_overage_policy :: overage_policy
  bd_remaining_pct :: pyfloat
  should_flag_for_billing :: bool
  should_warn :: bool

text \<open>A message is its dictionary; only \<open>content\<close> counts, four characters to a token.\<close>

definition estimate_tokens :: "string list \<Rightarrow> int" where
  "estimate_tokens contents = sum_list (map (\<lambda>c. max 1 (int (length c) div 4)) contents)"

text \<open>\<open>min(used / limit, 1.0)\<close>, and 0 when there is no limit or the limit is 0.\<close>

definition usage_share :: "int \<Rightarrow> int option \<Rightarrow> pyfloat" where
  "usage_share used limit =
     (case limit of
        None \<Rightarrow> 0
      | Some l \<Rightarrow> if l = 0 then 0 else min (of_int used / of_int l) 1)"

definition budget_usage_pct :: "tenant_budget \<Rightarrow> int \<Rightarrow> pyfloat" where
  "budget_usage_pct b tokens =
     max (usage_share (current_month_calls b) (monthly_call_limit b))
         (usage_share (current_month_tokens b + tokens) (monthly_token_limit b))"

definition governor_remaining_pct :: "string list \<Rightarrow> tenant_budget option \<Rightarrow> pyfloat" where
  "governor_remaining_pct contents budget =
     (case budget of
        None \<Rightarrow> 1
      | Some b \<Rightarrow> max 0 (py_round (1 - budget_usage_pct b (estimate_tokens contents)) 4))"

definition call_limit_exhausted :: "tenant_budget \<Rightarrow> bool" where
  "call_limit_exhausted b =
     (case monthly_call_limit b of None \<Rightarrow> False | Some l \<Rightarrow> current_month_calls b \<ge> l)"

definition token_limit_exhausted :: "tenant_budget \<Rightarrow> int \<Rightarrow> bool" where
  "token_limit_exhausted b tokens =
     (case monthly_token_limit b of None \<Rightarrow> False | Some l \<Rightarrow> current_month_tokens b + tokens > l)"

text \<open>
  \<open>evaluate\<close>: the decision, and the arguments of the alert task it dispatches, if any. The
  column \<open>alert_threshold_pct\<close> is \<open>NOT NULL\<close>, but a stored 0 counts as 0.8.
\<close>

definition evaluate ::
  "string list \<Rightarrow> tenant_budget option \<Rightarrow> bool \<Rightarrow> budget_decision \<times> (pyfloat \<times> int) option" where
  "evaluate contents budget dispatch_notifications =
     (let tokens = estimate_tokens contents
      in case budget of
           None \<Rightarrow>
             (\<lparr>passed = True, bd_reason = None, estimated_tokens = tokens, should_alert = False,
               bd_overage_policy = Warn, bd_remaining_pct = 1, should_flag_for_billing = False,
               should_warn = False\<rparr>, None)
         | Some b \<Rightarrow>
             (let usage = budget_usage_pct b tokens;
                  remaining = max 0 (py_round (1 - usage) 4);
                  alert = (usage \<ge> float_or (Some (alert_threshold_pct b)) (8/10));
                  task = (if alert \<and> dispatch_notifications then Some (usage, tokens) else None);
                  exhausted = (call_limit_exhausted b \<or> token_limit_exhausted b tokens);
                  policy = tb_overage_policy b
              in if exhausted \<and> policy = Block
                 then (\<lparr>passed = False, bd_reason = Some ''budget_exhausted'', estimated_tokens = tokens,
                        should_alert = alert, bd_overage_policy = policy, bd_remaining_pct = remaining,
                        should_flag_for_billing = False, should_warn = False\<rparr>, task)
                 else (\<lparr>passed = True, bd_reason = None, estimated_tokens = tokens,
                        should_alert = alert, bd_overage_policy = policy, bd_remaining_pct = remaining,
                        should_flag_for_billing = (policy = Charge),
                        should_warn = (policy = Warn \<and> exhausted)\<rparr>, task)))"

definition rate_limit_per_user :: "tenant_budget option \<Rightarrow> int" where
  "rate_limit_per_user budget =
     (case budget of None \<Rightarrow> 10 | Some b \<Rightarrow> int_or (Some (rate_limit_per_user_per_minute b)) 10)"

text \<open>The usage task \<open>increment_tenant_budget_usage\<close> run after an accepted call.\<close>

definition increment_tenant_budget_usage :: "int \<Rightarrow> tenant_budget option \<Rightarrow> bool \<times> tenant_budget option" where
  "increment_tenant_budget_usage tokens budget =
     (case budget of
        None \<Rightarrow> (False, None)
      | Some b \<Rightarrow> (True, Some (b\<lparr>current_month_calls := current_month_calls b + 1,
                                  current_month_tokens := current_month_tokens b + tokens\<rparr>)))"

section \<open>The quota manager\<close>

record quota_envelope =
  qe_mode :: quota_mode
  qe_remaining_pct :: pyfloat
  qe_reset_at :: "civil option"

definition at_limit :: "int \<Rightarrow> int option \<Rightarrow> bool" where
  "at_limit used limit = (case limit of None \<Rightarrow> False | Some l \<Rightarrow> used \<ge> l)"

definition compute_mode :: "tenant_budget \<Rightarrow> quota_mode" where
  "compute_mode b =
     (let call_limit_reached = at_limit (current_month_calls b) (monthly_call_limit b);
          token_limit_reached = at_limit (current_month_tokens b) (monthly_token_limit b);
          write_limit_reached = at_limit (write_calls b) (write_call_limit b);
          read_limit_remaining = (case read_limit b of None \<Rightarrow> True | Some l \<Rightarrow> read_calls b < l)
      in if tb_overage_policy b = Block \<and> (call_limit_reached \<or> token_limit_reached) then Blocked
         else if tb_overage_policy b = Warn \<and> call_limit_reached then Passthrough
         else if write_limit_reached \<and> read_limit_remaining then DegradedRetrieve
         else Full)"

definition usages :: "tenant_budget \<Rightarrow> pyfloat list" where
  "usages b =
     (let share = (\<lambda>used limit. case limit of
                     None \<Rightarrow> [] | Some l \<Rightarrow> if l = 0 then [] else [of_int used / of_int l])
      in share (current_month_calls b) (monthly_call_limit b)
       @ share (current_month_tokens b) (monthly_token_limit b)
       @ share (write_calls b) (write_call_limit b)
       @ share (read_calls b) (read_limit b))"

definition budget_remaining_pct :: "tenant_budget \<Rightarrow> pyfloat" where
  "budget_remaining_pct b =
     (case usages b of
        [] \<Rightarrow> 1
      | u # us \<Rightarrow> max 0 (py_round (1 - min (foldl max u us) 1) 4))"

definition compute_envelope :: "tenant_budget option \<Rightarrow> quota_envelope" where
  "compute_envelope budget =
     (case budget of
        None \<Rightarrow> \<lparr>qe_mode = Full, qe_remaining_pct = 1, qe_reset_at = None\<rparr>
      | Some b \<Rightarrow> \<lparr>qe_mode = compute_mode b, qe_remaining_pct = budget_remaining_pct b,
                   qe_reset_at = reset_at b\<rparr>)"

datatype quota_event =
    QuotaWarning pyfloat pyfloat
  | QuotaCritical pyfloat
  | ModeChanged string string string
  | QuotaExhausted string

fun mode_change_reason :: "quota_mode \<Rightarrow> string" where
  "mode_change_reason Passthrough = ''call_limit_reached''"
| "mode_change_reason Blocked = ''budget_exhausted''"
| "mode_change_reason DegradedRetrieve = ''write_limit_reached''"
| "mode_change_reason Full = ''quota_recovered''"

definition warning_due :: "pyfloat \<Rightarrow> pyfloat \<Rightarrow> pyfloat option \<Rightarrow> bool" where
  "warning_due remaining threshold notified \<longleftrightarrow>
     remaining \<le> threshold \<and> (case notified of None \<Rightarrow> True | Some p \<Rightarrow> p > threshold)"

text \<open>The budget row after a look at the envelope, and the events sent, in order.\<close>

definition handle_mode_transition ::
  "quota_envelope \<Rightarrow> tenant_budget option \<Rightarrow> tenant_budget option \<times> quota_event list" where
  "handle_mode_transition env budget =
     (case budget of
        None \<Rightarrow> (None, [])
      | Some b \<Rightarrow>
          (let previous = (case last_notified_mode b of None \<Rightarrow> Full | Some m \<Rightarrow> m);
               threshold = float_or (Some (alert_threshold_pct b)) (8/10);
               remaining = qe_remaining_pct env;
               warning = warning_due remaining threshold (last_notified_pct b);
               critical = warning_due remaining (5/100) (last_notified_pct b);
               b1 = (if previous \<noteq> qe_mode env then b\<lparr>last_notified_mode := Some (qe_mode env)\<rparr> else b);
               b2 = (if critical then b1\<lparr>last_notified_pct := Some (5/100)\<rparr>
                     else if warning then b1\<lparr>last_notified_pct := Some threshold\<rparr> else b1)
           in (Some b2,
               (if warning \<and> \<not> critical then [QuotaWarning remaining threshold] else [])
               @ (if critical then [QuotaCritical remaining] else [])
               @ (if previous = qe_mode env then []
                  else ModeChanged (quota_mode_value previous) (quota_mode_value (qe_mode env))
                         (mode_change_reason (qe_mode env))
                       # (if qe_mode env \<in> {Passthrough, Blocked}
                          then [QuotaExhausted (quota_mode_value (qe_mode env))] else [])))))"

section \<open>The envelope cache\<close>

text \<open>
  The cached JSON text is represented by what it decodes to: \<open>Some None\<close> is text that is not
  JSON. A Redis command either succeeds or raises; connection and timeout errors are caught
  by the manager, anything else is not. \<open>redis_call\<close> goes through the circuit breaker when
  the cache service has one.
\<close>

record cached_payload =
  cp_mode :: "string option"
  cp_pct :: "pyfloat option"
  cp_reset_at :: "civil option"

datatype redis_exn = RedisFailure | OtherException

record redis_env =
  rc_bypassed :: bool
  rc_reachable :: bool
  rc_before :: env
  rc_after :: env

definition redis_call ::
  "redis_env \<Rightarrow> ('v, redis_exn) fn_outcome \<Rightarrow> 'v \<Rightarrow> world option \<Rightarrow> ('v, redis_exn) call_result \<times> world option" where
  "redis_call re fn fallback breaker =
     (case breaker of
        None \<Rightarrow> (fn_result fn, None)
      | Some w \<Rightarrow>
          (let ((res, _), w') = call (rc_bypassed re) (rc_reachable re) (rc_before re) (rc_after re) fn (Some fallback) w
           in (res, Some w')))"

record quota_state =
  qs_budget :: "tenant_budget option"
  qs_cache :: "cached_payload option option"
  qs_breaker :: "world option"
  qs_events :: "quota_event list"

definition quota_mode_of :: "string \<Rightarrow> quota_mode option" where
  "quota_mode_of v =
     (if v = ''FULL'' then Some Full else if v = ''PASSTHROUGH'' then Some Passthrough
      else if v = ''DEGRADED_RETRIEVE'' then Some DegradedRetrieve
      else if v = ''BLOCKED'' then Some Blocked else None)"

datatype quota_error = RedisError | InvalidCachedMode

definition decode_envelope :: "cached_payload option option \<Rightarrow> quota_error + quota_envelope option" where
  "decode_envelope cached =
     (case cached of
        Some (Some p) \<Rightarrow>
          (case cp_mode p of
             None \<Rightarrow> Inr None
           | Some v \<Rightarrow>
               (case quota_mode_of v of
                  None \<Rightarrow> Inl InvalidCachedMode
                | Some m \<Rightarrow> Inr (Some \<lparr>qe_mode = m,
                     qe_remaining_pct = (case cp_pct p of None \<Rightarrow> 1 | Some x \<Rightarrow> x),
                     qe_reset_at = cp_reset_at p\<rparr>)))
      | _ \<Rightarrow> Inr None)"

definition encode_envelope :: "quota_envelope \<Rightarrow> cached_payload" where
  "encode_envelope env =
     \<lparr>cp_mode = Some (quota_mode_value (qe_mode env)), cp_pct = Some (qe_remaining_pct env),
      cp_reset_at = qe_reset_at env\<rparr>"

definition get_cached_envelope ::
  "redis_env \<Rightarrow> redis_exn option \<Rightarrow> quota_state \<Rightarrow> (quota_error + quota_envelope option) \<times> quota_state" where
  "get_cached_envelope re fault st =
     (let fn = (case fault of None \<Rightarrow> Returns (qs_cache st) | Some x \<Rightarrow> Raises x);
          (res, br) = redis_call re fn None (qs_breaker st);
          st' = st\<lparr>qs_breaker := br\<rparr>
      in (case res of
            Value cached \<Rightarrow> decode_envelope cached
          | Fallback cached \<Rightarrow> decode_envelope cached
          | Failed RedisFailure \<Rightarrow> Inr None
          | Failed OtherException \<Rightarrow> Inl RedisError
          | CircuitOpenError \<Rightarrow> Inl RedisError, st'))"

definition cache_envelope ::
  "redis_env \<Rightarrow> redis_exn option \<Rightarrow> quota_envelope \<Rightarrow> quota_state \<Rightarrow> (quota_error + unit) \<times> quota_state" where
  "cache_envelope re fault env st =
     (let fn = (case fault of None \<Rightarrow> Returns () | Some x \<Rightarrow> Raises x);
          (res, br) = redis_call re fn () (qs_breaker st);
          st' = st\<lparr>qs_breaker := br\<rparr>
      in (case res of
            Value _ \<Rightarrow> (Inr (), st'\<lparr>qs_cache := Some (Some (encode_envelope env))\<rparr>)
          | Fallback _ \<Rightarrow> (Inr (), st')
          | Failed RedisFailure \<Rightarrow> (Inr (), st')
          | _ \<Rightarrow> (Inl RedisError, st')))"

definition get_quota_envelope ::
  "redis_env \<Rightarrow> redis_exn option \<Rightarrow> redis_env \<Rightarrow> redis_exn option \<Rightarrow> quota_state
     \<Rightarrow> (quota_error + quota_envelope) \<times> quota_state" where
  "get_quota_envelope re1 f1 re2 f2 st =
     (case get_cached_envelope re1 f1 st of
        (Inl err, st1) \<Rightarrow> (Inl err, st1)
      | (Inr (Some env), st1) \<Rightarrow> (Inr env, st1)
      | (Inr None, st1) \<Rightarrow>
          (let env = compute_envelope (qs_budget st1);
               (budget, events) = handle_mode_transition env (qs_budget st1);
               st2 = st1\<lparr>qs_budget := budget, qs_events := qs_events st1 @ events\<rparr>
           in case cache_envelope re2 f2 env st2 of
                (Inl err, st3) \<Rightarrow> (Inl err, st3)
              | (Inr _, st3) \<Rightarrow> (Inr env, st3)))"

definition invalidate_cache :: "redis_env \<Rightarrow> redis_exn option \<Rightarrow> quota_state \<Rightarrow> (quota_error + unit) \<times> quota_state" where
  "invalidate_cache re fault st =
     (let fn = (case fault of None \<Rightarrow> Returns () | Some x \<Rightarrow> Raises x);
          (res, br) = redis_call re fn () (qs_breaker st);
          st' = st\<lparr>qs_breaker := br\<rparr>
      in (case res of
            Value _ \<Rightarrow> (Inr (), st'\<lparr>qs_cache := None\<rparr>)
          | Fallback _ \<Rightarrow> (Inr (), st')
          | Failed RedisFailure \<Rightarrow> (Inr (), st')
          | _ \<Rightarrow> (Inl RedisError, st')))"

section \<open>Background tasks\<close>

definition leap_year :: "int \<Rightarrow> bool" where
  "leap_year y \<longleftrightarrow> (y mod 4 = 0 \<and> y mod 100 \<noteq> 0) \<or> y mod 400 = 0"

definition days_in_month :: "int \<Rightarrow> int \<Rightarrow> int" where
  "days_in_month y m =
     (if m = 2 then (if leap_year y then 29 else 28) else if m \<in> {4, 6, 9, 11} then 30 else 31)"

definition next_month_reset_at :: "civil \<Rightarrow> civil" where
  "next_month_reset_at = (\<lambda>(y, m, d, t).
     let (y', m') = (if m = 12 then (y + 1, 1) else (y, m + 1))
     in (y', m', min d (days_in_month y' m'), t))"

text \<open>
  \<open>monthly_quota_reset_task\<close>: the rows after the run, the \<open>quota.reset\<close> events (tenant, new
  limit, next reset) in the order of the rows, and the number of rows reset.
\<close>

definition reset_row :: "tenant_budget \<Rightarrow> tenant_budget" where
  "reset_row b =
     b\<lparr>current_month_calls := 0, current_month_tokens := 0, write_calls := 0, read_calls := 0,
       last_notified_mode := Some Full, last_notified_pct := None,
       reset_at := map_option next_month_reset_at (reset_at b)\<rparr>"

definition reset_due :: "civil \<Rightarrow> tenant_budget \<Rightarrow> bool" where
  "reset_due now b = (case reset_at b of None \<Rightarrow> False | Some t \<Rightarrow> t \<le> now)"

definition monthly_quota_reset ::
  "civil \<Rightarrow> tenant_budget list \<Rightarrow> tenant_budget list \<times> (uuid \<times> int option \<times> civil option) list \<times> nat" where
  "monthly_quota_reset now rows =
     (update_where (reset_due now) reset_row rows,
      map (\<lambda>b. (tb_tenant_id b, monthly_call_limit b, reset_at (reset_row b))) (filter (reset_due now) rows),
      count_where (reset_due now) rows)"

text \<open>\<open>send_budget_alert\<close>: whether a warning is sent, and the row with the recorded level.\<close>

definition send_budget_alert ::
  "pyfloat \<Rightarrow> tenant_budget option \<Rightarrow> (pyfloat \<times> pyfloat) option \<times> tenant_budget option" where
  "send_budget_alert usage_pct budget =
     (case budget of
        None \<Rightarrow> (None, None)
      | Some b \<Rightarrow>
          if \<not> has_webhook_url b then (None, Some b)
          else (let threshold = float_or (Some (alert_threshold_pct b)) (8/10);
                    remaining = max 0 (py_round (1 - usage_pct) 4)
                in if remaining > threshold then (None, Some b)
                   else if (case last_notified_pct b of None \<Rightarrow> False | Some p \<Rightarrow> p \<le> threshold) then (None, Some b)
                   else (Some (remaining, threshold), Some (b\<lparr>last_notified_pct := Some threshold\<rparr>))))"

section \<open>Well-formed budgets\<close>

text \<open>The counters and limits a row can hold: none is negative.\<close>

definition budget_ok :: "tenant_budget \<Rightarrow> bool" where
  "budget_ok b \<longleftrightarrow>
     0 \<le> current_month_calls b \<and> 0 \<le> current_month_tokens b \<and> 0 \<le> write_calls b \<and> 0 \<le> read_calls b \<and>
     (\<forall>l \<in> set_option (monthly_call_limit b) \<union> set_option (monthly_token_limit b)
        \<union> set_option (write_call_limit b) \<union> set_option (read_limit b). 0 \<le> l)"

definition valid_civil :: "civil \<Rightarrow> bool" where
  "valid_civil = (\<lambda>(y, m, d, t). 1 \<le> m \<and> m \<le> 12 \<and> 1 \<le> d \<and> d \<le> days_in_month y m)"

section \<open>Lemmas\<close>

lemma days_in_month_ge: "28 \<le> days_in_month y m"
  by (simp add: days_in_month_def)

lemma sum_list_ge_length: "(\<And>x. x \<in> set xs \<Longrightarrow> 1 \<le> (f x :: int)) \<Longrightarrow> int (length xs) \<le> sum_list (map f xs)"
  by (induction xs) force+

lemma estimate_tokens_ge: "int (length contents) \<le> estimate_tokens contents"
  unfolding estimate_tokens_def by (rule sum_list_ge_length) simp

lemma usage_share_bounds:
  "0 \<le> used \<Longrightarrow> (\<And>l. limit = Some l \<Longrightarrow> 0 \<le> l) \<Longrightarrow> 0 \<le> usage_share used limit \<and> usage_share used limit \<le> 1"
  by (auto simp: usage_share_def split: option.splits)

lemma clamped_round_bounds: "x \<le> 1 \<Longrightarrow> 0 \<le> max 0 (py_round x n) \<and> max 0 (py_round x n) \<le> 1"
  using py_round_le_int [of x 1 n] by simp

lemma foldl_max_ge: "u \<le> foldl max u us" for u :: "'a::linorder"
proof (induction us arbitrary: u)
  case (Cons a us)
  have "u \<le> max u a" by simp
  also have "max u a \<le> foldl max (max u a) us" by (rule Cons.IH)
  finally show ?case by simp
qed simp

lemma usages_nonneg: "budget_ok b \<Longrightarrow> u \<in> set (usages b) \<Longrightarrow> 0 \<le> u"
  by (auto simp: usages_def budget_ok_def Let_def split: option.splits if_splits)

lemma budget_remaining_bounds:
  assumes "budget_ok b"
  shows "0 \<le> budget_remaining_pct b \<and> budget_remaining_pct b \<le> 1"
proof (cases "usages b")
  case (Cons u us)
  then have "0 \<le> u" using usages_nonneg [OF assms, of u] by simp
  then have "0 \<le> foldl max u us" using foldl_max_ge [of u us] by simp
  then show ?thesis
    using clamped_round_bounds [of "1 - min (foldl max u us) 1" 4] Cons
    by (simp add: budget_remaining_pct_def)
qed (simp add: budget_remaining_pct_def)

lemma governor_remaining_bounds:
  assumes "budget_ok b"
  shows "0 \<le> bd_remaining_pct (fst (evaluate contents (Some b) d)) \<and> bd_remaining_pct (fst (evaluate contents (Some b) d)) \<le> 1"
proof -
  have "0 \<le> usage_share (current_month_calls b) (monthly_call_limit b)"
    using assms usage_share_bounds [of "current_month_calls b" "monthly_call_limit b"] by (auto simp: budget_ok_def)
  then have "0 \<le> budget_usage_pct b (estimate_tokens contents)"
    by (simp add: budget_usage_pct_def)
  then show ?thesis
    using clamped_round_bounds [of "1 - budget_usage_pct b (estimate_tokens contents)" 4]
    by (simp add: evaluate_def Let_def)
qed

lemma evaluate_blocks:
  "passed (fst (evaluate contents (Some b) d)) \<longleftrightarrow>
   \<not> (tb_overage_policy b = Block \<and>
       (call_limit_exhausted b \<or> token_limit_exhausted b (estimate_tokens contents)))"
  by (simp add: evaluate_def Let_def)

lemma compute_mode_Blocked:
  "compute_mode b = Blocked \<longleftrightarrow>
   tb_overage_policy b = Block \<and> (at_limit (current_month_calls b) (monthly_call_limit b) \<or>
     at_limit (current_month_tokens b) (monthly_token_limit b))"
  by (simp add: compute_mode_def Let_def)

lemma at_limit_mono: "at_limit used limit \<Longrightarrow> used \<le> used' \<Longrightarrow> at_limit used' limit"
  by (auto simp: at_limit_def split: option.splits)

lemma at_limit_zero: "(\<And>l. l \<in> set_option limit \<Longrightarrow> 0 < l) \<Longrightarrow> \<not> at_limit 0 limit"
  by (cases limit) (auto simp: at_limit_def)

lemma compute_mode_reset:
  assumes "\<forall>l \<in> set_option (monthly_call_limit b) \<union> set_option (monthly_token_limit b)
             \<union> set_option (write_call_limit b). 0 < l"
  shows "compute_mode (reset_row b) = Full"
proof -
  have "\<not> at_limit 0 (monthly_call_limit b)" "\<not> at_limit 0 (monthly_token_limit b)"
    "\<not> at_limit 0 (write_call_limit b)"
    using assms by (auto intro!: at_limit_zero)
  then show ?thesis by (simp add: compute_mode_def reset_row_def Let_def)
qed

text \<open>The notification level a transition leaves in the row.\<close>

definition level_after :: "pyfloat \<Rightarrow> pyfloat \<Rightarrow> pyfloat option \<Rightarrow> pyfloat option" where
  "level_after remaining threshold level =
     (if warning_due remaining (5/100) level then Some (5/100)
      else if warning_due remaining threshold level then Some threshold else level)"

lemma level_after_quiet:
  assumes "5/100 \<le> threshold"
  shows "\<not> warning_due remaining threshold (level_after remaining threshold level)"
    and "\<not> warning_due remaining (5/100) (level_after remaining threshold level)"
proof -
  show "\<not> warning_due remaining threshold (level_after remaining threshold level)"
    using assms by (cases level) (auto simp: level_after_def warning_due_def)
  show "\<not> warning_due remaining (5/100) (level_after remaining threshold level)"
    using assms by (cases level) (auto simp: level_after_def warning_due_def)
qed

lemma handle_mode_transition_row:
  assumes "handle_mode_transition env (Some b) = (Some b', events)"
  shows "last_notified_pct b' =
           level_after (qe_remaining_pct env) (float_or (Some (alert_threshold_pct b)) (8/10)) (last_notified_pct b)"
    and "(case last_notified_mode b' of None \<Rightarrow> Full | Some m \<Rightarrow> m) = qe_mode env"
    and "alert_threshold_pct b' = alert_threshold_pct b"
proof -
  show "last_notified_pct b' =
           level_after (qe_remaining_pct env) (float_or (Some (alert_threshold_pct b)) (8/10)) (last_notified_pct b)"
    and "alert_threshold_pct b' = alert_threshold_pct b"
    using assms by (auto simp: handle_mode_transition_def level_after_def Let_def)
  show "(case last_notified_mode b' of None \<Rightarrow> Full | Some m \<Rightarrow> m) = qe_mode env"
    using assms by (cases "last_notified_mode b") (auto simp: handle_mode_transition_def Let_def)
qed

lemma redis_call_shape:
  "fst (redis_call re fn fb br) = Fallback fb \<or> fst (redis_call re fn fb br) = fn_result fn"
proof (cases br)
  case (Some w)
  then show ?thesis
    using async_call.gcall_shape [of "rc_bypassed re" "rc_reachable re" "rc_before re" "rc_after re" fn "Some fb" w]
    by (auto simp: redis_call_def run_fallback_def Let_def split: prod.splits)
qed (simp add: redis_call_def)

lemma redis_call_caught:
  assumes "f \<noteq> Some OtherException"
    and "fst (redis_call re (case f of None \<Rightarrow> Returns v | Some x \<Rightarrow> Raises x) fb br) = res"
  shows "res \<in> {Fallback fb, Value v, Failed RedisFailure}"
proof -
  have "f = None \<or> f = Some RedisFailure" using assms(1) by (cases f) (auto intro: redis_exn.exhaust)
  then show ?thesis
    using redis_call_shape [of re "case f of None \<Rightarrow> Returns v | Some x \<Rightarrow> Raises x" fb br] assms(2)
    by (auto simp: fn_result_def)
qed

lemma quota_mode_roundtrip [simp]: "quota_mode_of (quota_mode_value m) = Some m"
  by (cases m) (simp_all add: quota_mode_of_def)

lemma envelope_roundtrip [simp]: "decode_envelope (Some (Some (encode_envelope env))) = Inr (Some env)"
  by (simp add: decode_envelope_def encode_envelope_def)

section \<open>Properties\<close>

definition example_budget :: tenant_budget where
  "example_budget =
     \<lparr>tb_tenant_id = 1, tb_plan_tier = Free, monthly_call_limit = Some 10, monthly_token_limit = Some 100,
      current_month_calls = 10, current_month_tokens = 20, write_calls = 3, write_call_limit = Some 10,
      read_calls = 7, read_limit = None, rate_limit_per_user_per_minute = 3, tb_overage_policy = Block,
      alert_threshold_pct = 8/10, has_webhook_url = True, last_notified_pct = None,
      last_notified_mode = None, reset_at = Some (2026, 1, 31, 0)\<rparr>"

text \<open>
  The remaining share of a budget that both services report is between 0 and 1, for any
  row whose counters and limits are not negative.
\<close>

theorem remaining_share_bounds:
  assumes "budget_ok b"
  shows "0 \<le> qe_remaining_pct (compute_envelope (Some b)) \<and> qe_remaining_pct (compute_envelope (Some b)) \<le> 1 \<and>
         0 \<le> bd_remaining_pct (fst (evaluate contents (Some b) d)) \<and>
         bd_remaining_pct (fst (evaluate contents (Some b) d)) \<le> 1"
  using budget_remaining_bounds [OF assms] governor_remaining_bounds [OF assms, of contents d]
  by (simp add: compute_envelope_def)

theorem remaining_share_bounds_witness:
  "0 \<le> qe_remaining_pct (compute_envelope (Some example_budget)) \<and>
   qe_remaining_pct (compute_envelope (Some example_budget)) \<le> 1"
  using remaining_share_bounds [of example_budget] by (simp add: budget_ok_def example_budget_def)

text \<open>
  The two quota checks agree on refusal: when the quota manager reports the mode
  \<open>BLOCKED\<close> for a budget row, the budget governor refuses every submission of at least one
  message against that row, with the reason \<open>budget_exhausted\<close>.
\<close>

theorem blocked_mode_refuses_writes:
  assumes "compute_mode b = Blocked" and "contents \<noteq> []"
  shows "\<not> passed (fst (evaluate contents (Some b) d)) \<and>
         bd_reason (fst (evaluate contents (Some b) d)) = Some ''budget_exhausted''"
proof -
  have "0 < estimate_tokens contents"
    using estimate_tokens_ge [of contents] assms(2) by (cases contents) auto
  then have "call_limit_exhausted b \<or> token_limit_exhausted b (estimate_tokens contents)"
    using assms(1)
    by (auto simp: compute_mode_Blocked at_limit_def call_limit_exhausted_def token_limit_exhausted_def
        split: option.splits)
  then show ?thesis using assms(1) by (simp add: evaluate_def compute_mode_Blocked Let_def)
qed

theorem blocked_mode_refuses_writes_witness:
  "compute_mode example_budget = Blocked \<and> \<not> passed (fst (evaluate [''hello''] (Some example_budget) True))"
proof -
  have "compute_mode example_budget = Blocked"
    by (simp add: compute_mode_Blocked example_budget_def at_limit_def)
  then show ?thesis using blocked_mode_refuses_writes [of example_budget "[''hello'']" True] by simp
qed

text \<open>
  A blocked tenant stays blocked while usage is only added, and the monthly reset
  unblocks it: with positive limits the mode of the reset row is \<open>FULL\<close>.
\<close>

theorem blocked_until_reset:
  assumes "compute_mode b = Blocked" and "0 \<le> tokens"
  shows "(\<exists>b'. increment_tenant_budget_usage tokens (Some b) = (True, Some b') \<and> compute_mode b' = Blocked) \<and>
         ((\<forall>l \<in> set_option (monthly_call_limit b) \<union> set_option (monthly_token_limit b)
             \<union> set_option (write_call_limit b). 0 < l)
          \<longrightarrow> compute_mode (reset_row b) = Full)"
  using at_limit_mono [of "current_month_calls b" "monthly_call_limit b" "current_month_calls b + 1"]
    at_limit_mono [of "current_month_tokens b" "monthly_token_limit b" "current_month_tokens b + tokens"] assms
  by (auto simp: increment_tenant_budget_usage_def compute_mode_Blocked compute_mode_reset)

theorem blocked_until_reset_witness:
  "compute_mode (reset_row example_budget) = Full \<and>
   (\<exists>b'. increment_tenant_budget_usage 5 (Some example_budget) = (True, Some b') \<and> compute_mode b' = Blocked)"
proof -
  have "compute_mode example_budget = Blocked"
    by (simp add: compute_mode_Blocked example_budget_def at_limit_def)
  then show ?thesis using blocked_until_reset [of example_budget 5] by (simp add: example_budget_def)
qed

text \<open>
  Notifications are sent once: evaluating the same envelope again against the updated
  budget row sends no event and leaves the row as it is, provided the warning threshold is
  not below the critical level of five percent.
\<close>

theorem notifications_sent_once:
  assumes "handle_mode_transition env (Some b) = (Some b', events)"
    and "5/100 \<le> float_or (Some (alert_threshold_pct b)) (8/10)"
  shows "handle_mode_transition env (Some b') = (Some b', [])"
  using level_after_quiet [OF assms(2), of "qe_remaining_pct env" "last_notified_pct b"]
    handle_mode_transition_row [OF assms(1)]
  by (simp add: handle_mode_transition_def Let_def)

theorem notifications_sent_once_witness:
  "snd (handle_mode_transition (compute_envelope (Some example_budget)) (Some example_budget))
     = [QuotaCritical 0, ModeChanged ''FULL'' ''BLOCKED'' ''budget_exhausted'', QuotaExhausted ''BLOCKED''] \<and>
   snd (handle_mode_transition (compute_envelope (Some example_budget))
     (fst (handle_mode_transition (compute_envelope (Some example_budget)) (Some example_budget)))) = []"
proof -
  let ?env = "compute_envelope (Some example_budget)"
  have env: "?env = \<lparr>qe_mode = Blocked, qe_remaining_pct = 0, qe_reset_at = Some (2026, 1, 31, 0)\<rparr>"
    by (simp add: compute_envelope_def compute_mode_def budget_remaining_pct_def usages_def at_limit_def
        example_budget_def py_round_def round_half_even_def)
  let ?b = "example_budget\<lparr>last_notified_mode := Some Blocked, last_notified_pct := Some (5/100)\<rparr>"
  have step: "handle_mode_transition ?env (Some example_budget) = (Some ?b,
      [QuotaCritical 0, ModeChanged ''FULL'' ''BLOCKED'' ''budget_exhausted'', QuotaExhausted ''BLOCKED''])"
    unfolding env by (simp add: handle_mode_transition_def warning_due_def float_or_def example_budget_def Let_def)
  have "handle_mode_transition ?env (Some ?b) = (Some ?b, [])"
    by (rule notifications_sent_once [OF step]) (simp add: float_or_def example_budget_def)
  with step show ?thesis by simp
qed

text \<open>
  Redis outages never fail a quota lookup: when Redis commands succeed or raise only
  connection or timeout errors, and whatever the circuit breaker does with them, the lookup
  returns an envelope, namely a cached one or the one computed from the budget row.
\<close>

theorem quota_lookup_survives_redis:
  assumes "f1 \<noteq> Some OtherException" and "f2 \<noteq> Some OtherException"
    and "decode_envelope (qs_cache st) = Inr cached"
  shows "\<exists>env. fst (get_quota_envelope re1 f1 re2 f2 st) = Inr env \<and>
               (env = compute_envelope (qs_budget st) \<or> cached = Some env)"
proof -
  obtain res br where r: "redis_call re1 (case f1 of None \<Rightarrow> Returns (qs_cache st) | Some x \<Rightarrow> Raises x) None (qs_breaker st) = (res, br)"
    by fastforce
  then have "res \<in> {Fallback None, Value (qs_cache st), Failed RedisFailure}"
    using redis_call_caught [OF assms(1), of re1 "qs_cache st" None "qs_breaker st" res] by simp
  then have g: "get_cached_envelope re1 f1 st \<in> {(Inr None, st\<lparr>qs_breaker := br\<rparr>), (Inr cached, st\<lparr>qs_breaker := br\<rparr>)}"
    using r assms(3) by (auto simp: get_cached_envelope_def decode_envelope_def Let_def)
  have c: "fst (cache_envelope re2 f2 env st2) = Inr ()" for env st2
  proof -
    obtain res' br' where r': "redis_call re2 (case f2 of None \<Rightarrow> Returns () | Some x \<Rightarrow> Raises x) () (qs_breaker st2) = (res', br')"
      by fastforce
    then have "res' \<in> {Fallback (), Value (), Failed RedisFailure}"
      using redis_call_caught [OF assms(2), of re2 "()" "()" "qs_breaker st2" res'] by simp
    then show ?thesis using r' by (auto simp: cache_envelope_def Let_def)
  qed
  have m: "fst (get_quota_envelope re1 f1 re2 f2 st) = Inr (compute_envelope (qs_budget st))"
    if "get_cached_envelope re1 f1 st = (Inr None, st\<lparr>qs_breaker := br\<rparr>)"
    using that c by (auto simp: get_quota_envelope_def Let_def split: prod.splits sum.splits) (metis fst_conv sum.distinct(1))
  from g show ?thesis
  proof
    assume "get_cached_envelope re1 f1 st = (Inr None, st\<lparr>qs_breaker := br\<rparr>)"
    then show ?thesis using m by blast
  next
    assume "get_cached_envelope re1 f1 st \<in> {(Inr cached, st\<lparr>qs_breaker := br\<rparr>)}"
    then show ?thesis using m by (cases cached) (auto simp: get_quota_envelope_def)
  qed
qed

theorem quota_lookup_survives_redis_witness:
  "\<exists>env. fst (get_quota_envelope
        \<lparr>rc_bypassed = True, rc_reachable = False, rc_before = example_env 10, rc_after = example_env 10\<rparr> (Some RedisFailure)
        \<lparr>rc_bypassed = True, rc_reachable = False, rc_before = example_env 11, rc_after = example_env 11\<rparr> None
        \<lparr>qs_budget = Some example_budget, qs_cache = Some None, qs_breaker = Some (None, qdrant_breaker), qs_events = []\<rparr>)
      = Inr env \<and> (env = compute_envelope (Some example_budget) \<or> None = Some env)"
  using quota_lookup_survives_redis [of "Some RedisFailure" None
      "\<lparr>qs_budget = Some example_budget, qs_cache = Some None, qs_breaker = Some (None, qdrant_breaker), qs_events = []\<rparr>" None
      "\<lparr>rc_bypassed = True, rc_reachable = False, rc_before = example_env 10, rc_after = example_env 10\<rparr>"
      "\<lparr>rc_bypassed = True, rc_reachable = False, rc_before = example_env 11, rc_after = example_env 11\<rparr>"]
  by (simp add: decode_envelope_def)

text \<open>
  The next reset of a budget is a valid date strictly after the current one, in the
  following calendar month, at the same time of day.
\<close>

theorem next_reset_is_next_month:
  assumes "valid_civil (y, m, d, t)"
  shows "\<exists>y' m' d'. next_month_reset_at (y, m, d, t) = (y', m', d', t) \<and> valid_civil (y', m', d', t) \<and>
           (y, m, d, t) < (y', m', d', t) \<and> 12 * y' + m' = 12 * y + m + 1 \<and> d' \<le> d"
  using assms days_in_month_ge [of "y + 1" 1] days_in_month_ge [of y "m + 1"]
  by (auto simp: next_month_reset_at_def valid_civil_def Let_def)

theorem next_reset_is_next_month_witness:
  "next_month_reset_at (2026, 1, 31, 0) = (2026, 2, 28, 0)"
proof -
  have "valid_civil (2026, 1, 31, 0)" by (simp add: valid_civil_def days_in_month_def)
  from next_reset_is_next_month [OF this] show ?thesis
    by (simp add: next_month_reset_at_def days_in_month_def leap_year_def)
qed

text \<open>
  Applying the plan \<open>enterprise\<close> fails for every tenant that has a budget row: the plan has
  no rate limit, and the column that would hold it does not accept a null.
\<close>

theorem enterprise_plan_cannot_be_applied:
  assumes "\<exists>r \<in> set rows. tb_tenant_id r = tenant"
  shows "apply_plan_limits tenant ''enterprise'' next_reset rows = Inl NotNullViolation"
proof -
  have "0 < count_where (\<lambda>r. tb_tenant_id r = tenant) rows"
    using assms by (auto simp: count_where_def filter_empty_conv)
  then show ?thesis by (simp add: apply_plan_limits_def get_limits_def plan_limits_def)
qed

theorem enterprise_plan_cannot_be_applied_witness:
  "apply_plan_limits 1 ''enterprise'' (2026, 2, 1, 0) [example_budget] = Inl NotNullViolation"
  by (rule enterprise_plan_cannot_be_applied) (simp add: example_budget_def)

text \<open>
  The alert threshold is read in two ways. The governor alerts when the used share
  reaches the threshold; the quota manager warns when the remaining share falls to it. For
  a budget with a threshold of eighty percent and a quarter of its calls used, the manager
  sends the warning while the governor sees nothing to alert about.
\<close>

theorem threshold_read_as_used_and_as_remaining:
  assumes "usages b = [1/4]" and "budget_usage_pct b (estimate_tokens contents) = 1/4"
    and "alert_threshold_pct b = 8/10" and "last_notified_pct b = None"
  shows "\<not> should_alert (fst (evaluate contents (Some b) d)) \<and>
         QuotaWarning (75/100) (8/10) \<in> set (snd (handle_mode_transition (compute_envelope (Some b)) (Some b)))"
proof -
  have "budget_remaining_pct b = 75/100"
    using assms(1) by (simp add: budget_remaining_pct_def py_round_def round_half_even_def)
  then show ?thesis
    using assms(2-4)
    by (simp add: evaluate_def handle_mode_transition_def compute_envelope_def float_or_def warning_due_def Let_def)
qed

definition quarter_budget :: tenant_budget where
  "quarter_budget =
     example_budget\<lparr>monthly_call_limit := Some 40, monthly_token_limit := None, write_call_limit := None\<rparr>"

theorem threshold_read_as_used_and_as_remaining_witness:
  "\<not> should_alert (fst (evaluate [''hi''] (Some quarter_budget) True)) \<and>
   QuotaWarning (75/100) (8/10)
     \<in> set (snd (handle_mode_transition (compute_envelope (Some quarter_budget)) (Some quarter_budget)))"
  by (rule threshold_read_as_used_and_as_remaining)
    (simp_all add: usages_def budget_usage_pct_def usage_share_def quarter_budget_def example_budget_def)

end
