(* ===== verification/Queues.thy ===== *)
theory Queues
  imports Quota
begin

text \<open>
  Admission of extraction jobs: \<open>src/api/tasks/queue_router.py\<close>. A tenant's plan selects a
  queue and a limit; two Lua scripts, each atomic in Redis, reserve and release a slot.

  The Redis keys of the router are one record: the depth counter of each tenant and queue,
  the sorted set of reserved jobs of each queue, the per-tenant breakdown hash of each queue,
  and the admission metrics of each queue and day. A member of the sorted set is the pair of
  tenant and job, which the code joins with a colon (a tenant id, being a UUID, contains
  none). Expiry of keys is not modelled: the reservations considered are younger than their
  time to live of four hours.
\<close>

section \<open>Plans and queues\<close>

fun plan_value :: "plan_tier \<Rightarrow> string" where
  "plan_value Free = ''free''"
| "plan_value Starter = ''starter''"
| "plan_value Growth = ''growth''"
| "plan_value Scale = ''scale''"
| "plan_value Enterprise = ''enterprise''"

definition plan_queue_map :: "(string \<times> string) list" where
  "plan_queue_map =
     [(''enterprise'', ''enterprise-extraction''), (''scale'', ''scale-extraction''),
      (''growth'', ''growth-extraction''), (''starter'', ''starter-extraction''),
      (''free'', ''free-extraction'')]"

definition plan_queue_limits :: "(string \<times> int) list" where
  "plan_queue_limits =
     [(''enterprise'', 1000), (''scale'', 500), (''growth'', 200), (''starter'', 50), (''free'', 10)]"

definition queue_throughput_per_minute :: "(string \<times> int) list" where
  "queue_throughput_per_minute =
     [(''scale-extraction'', 8), (''enterprise-extraction'', 8), (''growth-extraction'', 5),
      (''starter-extraction'', 3), (''free-extraction'', 1)]"

definition queue_of_plan :: "string \<Rightarrow> string" where
  "queue_of_plan plan = dget plan_queue_map plan ''starter-extraction''"

definition limit_of_plan :: "string \<Rightarrow> int" where
  "limit_of_plan plan = dget plan_queue_limits plan 50"

text \<open>
  \<open>_get_plan_tier\<close>: the cached plan unless the cache fails or is empty; otherwise the plan of
  the budget row, of the tenant row, or \<open>starter\<close>, which is then cached. \<open>valid_id\<close> tells whether
  the tenant id parses as a UUID; the two row arguments are what the database holds for it.
\<close>

definition get_plan_tier ::
  "bool \<Rightarrow> bool \<Rightarrow> bool \<Rightarrow> plan_tier option \<Rightarrow> plan_tier option \<Rightarrow> string option \<Rightarrow> string \<times> string option" where
  "get_plan_tier get_ok set_ok valid_id budget_plan tenant_plan cache =
     (let cached = (if get_ok then cache else None)
      in case cached of
           Some (c # cs) \<Rightarrow> (c # cs, cache)
         | _ \<Rightarrow>
             if \<not> valid_id then (''starter'', cache)
             else (let plan = (case budget_plan of
                                 Some p \<Rightarrow> p
                               | None \<Rightarrow> (case tenant_plan of Some p \<Rightarrow> p | None \<Rightarrow> Starter))
                   in (plan_value plan, if set_ok then Some (plan_value plan) else cache)))"

definition get_extraction_queue ::
  "bool \<Rightarrow> bool \<Rightarrow> bool \<Rightarrow> plan_tier option \<Rightarrow> plan_tier option \<Rightarrow> string option \<Rightarrow> string \<times> string option" where
  "get_extraction_queue get_ok set_ok valid_id budget_plan tenant_plan cache =
     (let (plan, cache') = get_plan_tier get_ok set_ok valid_id budget_plan tenant_plan cache
      in (queue_of_plan plan, cache'))"

section \<open>The Redis keys\<close>

type_synonym tenant = string
type_synonym queue = string
type_synonym job = string

record admission =
  depth :: "tenant \<times> queue \<Rightarrow> int option"
  jobs :: "queue \<Rightarrow> ((tenant \<times> job) \<times> pyfloat) list"
  breakdown :: "queue \<Rightarrow> tenant \<Rightarrow> int option"
  attempted :: "queue \<times> string \<Rightarrow> int"
  full_count :: "queue \<times> string \<Rightarrow> int"

definition no_admission :: admission where
  "no_admission = \<lparr>depth = (\<lambda>_. None), jobs = (\<lambda>_. []), breakdown = (\<lambda>_ _. None),
                    attempted = (\<lambda>_. 0), full_count = (\<lambda>_. 0)\<rparr>"

definition zero_or :: "int option \<Rightarrow> int" where
  "zero_or x = (case x of None \<Rightarrow> 0 | Some n \<Rightarrow> n)"

text \<open>The reserve script: 2 for a job already reserved, 0 for a full queue, 1 for a new slot.\<close>

definition reserve_script ::
  "tenant \<Rightarrow> queue \<Rightarrow> job \<Rightarrow> int \<Rightarrow> string \<Rightarrow> pyfloat \<Rightarrow> admission \<Rightarrow> int \<times> admission" where
  "reserve_script t q j limit day now a =
     (if (t, j) \<in> fst ` set (jobs a q) then (2, a)
      else let a1 = a\<lparr>attempted := (attempted a)((q, day) := attempted a (q, day) + 1)\<rparr>;
               current = zero_or (depth a (t, q))
           in if current \<ge> limit
              then (0, a1\<lparr>full_count := (full_count a1)((q, day) := full_count a1 (q, day) + 1)\<rparr>)
              else (1, a1\<lparr>depth := (depth a1)((t, q) := Some (current + 1)),
                          jobs := (jobs a1)(q := AList.update (t, j) now (jobs a1 q)),
                          breakdown := (breakdown a1)(q := (breakdown a1 q)(t := Some (zero_or (breakdown a1 q t) + 1)))\<rparr>))"

text \<open>The release script: 0 when the job holds no slot. Counters that reach 0 are deleted.\<close>

definition positive_or_none :: "int \<Rightarrow> int option" where
  "positive_or_none n = (if n \<le> 0 then None else Some n)"

definition release_script :: "tenant \<Rightarrow> queue \<Rightarrow> job \<Rightarrow> admission \<Rightarrow> int \<times> admission" where
  "release_script t q j a =
     (if (t, j) \<notin> fst ` set (jobs a q) then (0, a)
      else (1, a\<lparr>jobs := (jobs a)(q := AList.delete (t, j) (jobs a q)),
                 depth := (depth a)((t, q) := positive_or_none (zero_or (depth a (t, q)) - 1)),
                 breakdown := (breakdown a)(q := (breakdown a q)
                    (t := positive_or_none (zero_or (breakdown a q t) - 1)))\<rparr>))"

section \<open>Router operations\<close>

record queue_reservation =
  qr_tenant_id :: tenant
  qr_queue_name :: queue
  qr_plan_tier :: string
  qr_queue_limit :: int

text \<open>
  An \<open>EVAL\<close> returns, or raises; when it raises, Redis may or may not have run the script.
\<close>

datatype eval_outcome = EvalReturned | EvalNotRun | EvalLostReply

definition reserve_extraction_slot ::
  "eval_outcome \<Rightarrow> string \<Rightarrow> tenant \<Rightarrow> job \<Rightarrow> string \<Rightarrow> pyfloat \<Rightarrow> admission \<Rightarrow> queue_reservation option \<times> admission" where
  "reserve_extraction_slot eval plan t j day now a =
     (let q = queue_of_plan plan; limit = limit_of_plan plan
      in if eval = EvalNotRun then (None, a)
         else let (r, a') = reserve_script t q j limit day now a
              in (if eval = EvalLostReply \<or> r = 0 then None
                  else Some \<lparr>qr_tenant_id = t, qr_queue_name = q, qr_plan_tier = plan, qr_queue_limit = limit\<rparr>, a'))"

definition release_extraction_slot :: "eval_outcome \<Rightarrow> tenant \<Rightarrow> queue \<Rightarrow> job \<Rightarrow> admission \<Rightarrow> admission" where
  "release_extraction_slot eval t q j a = (if eval = EvalNotRun then a else snd (release_script t q j a))"

text \<open>The synchronous variant ignores incomplete arguments.\<close>

definition release_extraction_slot_sync ::
  "eval_outcome \<Rightarrow> tenant option \<Rightarrow> queue option \<Rightarrow> job option \<Rightarrow> admission \<Rightarrow> admission" where
  "release_extraction_slot_sync eval t q j a =
     (case (t, q, j) of
        (Some (c # t'), Some (d # q'), Some (e # j')) \<Rightarrow>
          release_extraction_slot eval (c # t') (d # q') (e # j') a
      | _ \<Rightarrow> a)"

definition get_queue_depth :: "bool \<Rightarrow> queue \<Rightarrow> admission \<Rightarrow> int" where
  "get_queue_depth redis_ok q a = (if redis_ok then int (length (jobs a q)) else 0)"

text \<open>
  \<open>get_processing_eta\<close>: the estimate, the events sent, and the \<open>was delayed\<close> mark of the tenant
  and queue. The Redis flags tell whether reading and writing the mark succeed.
\<close>

datatype processing_event = ProcessingRecovered queue | ProcessingDelayed queue int

definition ceil_div :: "int \<Rightarrow> int \<Rightarrow> int" where
  "ceil_div a b = - ((- a) div b)"

definition get_processing_eta ::
  "bool \<Rightarrow> bool \<Rightarrow> queue \<Rightarrow> int \<Rightarrow> bool \<Rightarrow> int option \<times> processing_event list \<times> bool" where
  "get_processing_eta get_ok set_ok q d mark =
     (let was_delayed = (get_ok \<and> mark)
      in if d \<le> 10
         then (None, if was_delayed then [ProcessingRecovered q] else [],
               if was_delayed \<and> set_ok then False else mark)
         else case map_of queue_throughput_per_minute q of
                None \<Rightarrow> (None, [], mark)
              | Some throughput \<Rightarrow>
                  if throughput = 0 then (None, [], mark)
                  else let eta = ceil_div d throughput * 60
                       in (Some eta, if was_delayed then [] else [ProcessingDelayed q eta],
                           if set_ok then True else mark))"

text \<open>Operational reconciliation: tasks of a queue among those the workers report.\<close>

definition task_queue_name :: "(string option \<times> string option) option \<Rightarrow> string option \<Rightarrow> string option" where
  "task_queue_name delivery_info queue =
     (let (routing_key, q) = (case delivery_info of None \<Rightarrow> (None, None) | Some d \<Rightarrow> d);
          truthy_str = (\<lambda>x. x \<noteq> None \<and> x \<noteq> Some '''')
      in if truthy_str routing_key then routing_key else if truthy_str q then q else queue)"

definition count_tasks_for_queue ::
  "((string option \<times> string option) option \<times> string option) list list \<Rightarrow> queue \<Rightarrow> int" where
  "count_tasks_for_queue workers q =
     sum_list (map (\<lambda>ts. int (length (filter (\<lambda>(d, n). task_queue_name d n = Some q) ts))) workers)"

definition inspect_queue_depth ::
  "bool \<Rightarrow> bool \<Rightarrow> bool
     \<Rightarrow> ((string option \<times> string option) option \<times> string option) list list
     \<Rightarrow> ((string option \<times> string option) option \<times> string option) list list
     \<Rightarrow> queue \<Rightarrow> int option \<Rightarrow> int \<times> int option" where
  "inspect_queue_depth redis_ok set_ok control_ok active reserved q cached =
     (case (if redis_ok then cached else None) of
        Some n \<Rightarrow> (n, cached)
      | None \<Rightarrow>
          if \<not> control_ok then (0, cached)
          else let d = count_tasks_for_queue active q + count_tasks_for_queue reserved q
               in (d, if redis_ok \<and> set_ok then Some d else cached))"

section \<open>Runs of the router\<close>

inductive admission_step :: "admission \<Rightarrow> admission \<Rightarrow> bool" where
  step_reserve: "admission_step a (snd (reserve_extraction_slot ok plan t j day now a))"
| step_release: "admission_step a (release_extraction_slot ok t q j a)"

definition queue_limits :: "(string \<times> int) list" where
  "queue_limits =
     [(''enterprise-extraction'', 1000), (''scale-extraction'', 500), (''growth-extraction'', 200),
      (''starter-extraction'', 50), (''free-extraction'', 10)]"

definition held :: "tenant \<Rightarrow> queue \<Rightarrow> admission \<Rightarrow> int" where
  "held t q a = int (length (filter (\<lambda>(m, s). fst m = t) (jobs a q)))"

definition admission_inv :: "admission \<Rightarrow> bool" where
  "admission_inv a \<longleftrightarrow>
     (\<forall>q. distinct (map fst (jobs a q))) \<and>
     (\<forall>t q. depth a (t, q) = positive_or_none (held t q a)) \<and>
     (\<forall>t q. breakdown a q t = positive_or_none (held t q a)) \<and>
     (\<forall>t q. held t q a \<le> dget queue_limits q 0)"

section \<open>Lemmas\<close>

lemma held_nonneg: "0 \<le> held t q a"
  by (simp add: held_def)

lemma zero_or_positive [simp]: "0 \<le> n \<Longrightarrow> zero_or (positive_or_none n) = n"
  by (simp add: zero_or_def positive_or_none_def)

lemma zero_or_Some [simp]: "zero_or (Some n) = n"
  by (simp add: zero_or_def)

lemma limit_of_queue: "dget queue_limits (queue_of_plan plan) 0 = limit_of_plan plan"
  by (simp add: queue_of_plan_def limit_of_plan_def plan_queue_map_def plan_queue_limits_def queue_limits_def dget_def)

lemma ceil_div_cover:
  assumes "0 < r"
  shows "d \<le> ceil_div d r * r" and "(ceil_div d r - 1) * r < d"
proof -
  have e: "ceil_div d r * r = d + (- d) mod r"
    using minus_div_mult_eq_mod [of "- d" r] by (simp add: ceil_div_def)
  show "d \<le> ceil_div d r * r" using e pos_mod_sign [OF assms, of "- d"] by linarith
  show "(ceil_div d r - 1) * r < d" using e pos_mod_bound [OF assms, of "- d"] by (simp add: left_diff_distrib)
qed

lemma length_filter_update_new:
  "k \<notin> fst ` set xs \<Longrightarrow> AList.update k v xs = xs @ [(k, v)]"
  by (induction xs) auto

lemma delete_append_new: "k \<notin> fst ` set xs \<Longrightarrow> AList.delete k (xs @ [(k, v)]) = xs"
  by (induction xs) auto

lemma queue_limits_nonneg: "0 \<le> dget queue_limits q 0"
  by (simp add: queue_limits_def)

lemma no_admission_inv: "admission_inv no_admission"
  by (simp add: admission_inv_def no_admission_def held_def positive_or_none_def queue_limits_nonneg)

lemma length_filter_delete:
  assumes "distinct (map fst xs)" and "k \<in> fst ` set xs"
  shows "int (length (filter (\<lambda>(m, s). P m) (AList.delete k xs))) =
         int (length (filter (\<lambda>(m, s). P m) xs)) - (if P k then 1 else 0)"
  using assms
proof (induction xs)
  case (Cons x xs)
  obtain k' v where x: "x = (k', v)" by fastforce
  show ?case
  proof (cases "k' = k")
    case True
    then have "k \<notin> fst ` set xs" using Cons.prems x by auto
    with True x show ?thesis by simp
  next
    case False
    with Cons x show ?thesis by auto
  qed
qed simp

lemma reserve_inv:
  assumes inv: "admission_inv a"
  shows "admission_inv (snd (reserve_script t (queue_of_plan plan) j (limit_of_plan plan) day now a))"
proof (cases "(t, j) \<in> fst ` set (jobs a (queue_of_plan plan)) \<or>
    zero_or (depth a (t, queue_of_plan plan)) \<ge> limit_of_plan plan")
  case True
  then show ?thesis using inv by (auto simp: reserve_script_def admission_inv_def held_def Let_def)
next
  case False
  let ?q = "queue_of_plan plan"
  let ?b = "snd (reserve_script t ?q j (limit_of_plan plan) day now a)"
  have d: "depth a (t, ?q) = positive_or_none (held t ?q a)" "breakdown a ?q t = positive_or_none (held t ?q a)"
    using inv by (auto simp: admission_inv_def)
  have room: "held t ?q a < limit_of_plan plan" using False d held_nonneg [of t ?q a] by simp
  have j: "jobs ?b = (jobs a)(?q := jobs a ?q @ [((t, j), now)])"
    using False by (simp add: reserve_script_def Let_def length_filter_update_new)
  have h: "held t' q' ?b = held t' q' a + (if t' = t \<and> q' = ?q then 1 else 0)" for t' q'
    by (auto simp: held_def j)
  have dd: "depth ?b = (depth a)((t, ?q) := Some (held t ?q a + 1))"
    and bb: "breakdown ?b = (breakdown a)(?q := (breakdown a ?q)(t := Some (held t ?q a + 1)))"
    using False d held_nonneg [of t ?q a] by (auto simp: reserve_script_def Let_def)
  show ?thesis unfolding admission_inv_def
  proof (intro conjI allI)
    fix q show "distinct (map fst (jobs ?b q))"
      using inv False unfolding j by (auto simp: admission_inv_def)
  next
    fix t' q' show "depth ?b (t', q') = positive_or_none (held t' q' ?b)"
      using inv held_nonneg [of t ?q a] unfolding dd h by (auto simp: admission_inv_def positive_or_none_def)
  next
    fix t' q' show "breakdown ?b q' t' = positive_or_none (held t' q' ?b)"
      using inv held_nonneg [of t ?q a] unfolding bb h by (auto simp: admission_inv_def positive_or_none_def)
  next
    fix t' q' show "held t' q' ?b \<le> dget queue_limits q' 0"
      using inv room unfolding h by (auto simp: admission_inv_def limit_of_queue)
  qed
qed

lemma release_inv:
  assumes inv: "admission_inv a"
  shows "admission_inv (snd (release_script t q j a))"
proof (cases "(t, j) \<in> fst ` set (jobs a q)")
  case False
  then show ?thesis using inv by (simp add: release_script_def)
next
  case True
  let ?b = "snd (release_script t q j a)"
  have dist: "distinct (map fst (jobs a q))" using inv by (simp add: admission_inv_def)
  have jb: "jobs ?b = (jobs a)(q := AList.delete (t, j) (jobs a q))"
    using True by (simp add: release_script_def)
  have h: "held t' q' ?b = held t' q' a - (if t' = t \<and> q' = q then 1 else 0)" for t' q'
    using length_filter_delete [OF dist True, of "\<lambda>m. fst m = t'"] by (auto simp: held_def jb)
  have dd: "depth ?b = (depth a)((t, q) := positive_or_none (held t q a - 1))"
    and bb: "breakdown ?b = (breakdown a)(q := (breakdown a q)(t := positive_or_none (held t q a - 1)))"
    using True inv held_nonneg [of t q a] by (auto simp: release_script_def admission_inv_def)
  show ?thesis unfolding admission_inv_def
  proof (intro conjI allI)
    fix q' show "distinct (map fst (jobs ?b q'))"
      using inv by (auto simp: admission_inv_def jb delete_keys distinct_removeAll)
  next
    fix t' q' show "depth ?b (t', q') = positive_or_none (held t' q' ?b)"
      using inv unfolding dd h by (auto simp: admission_inv_def)
  next
    fix t' q' show "breakdown ?b q' t' = positive_or_none (held t' q' ?b)"
      using inv unfolding bb h by (auto simp: admission_inv_def)
  next
    fix t' q' show "held t' q' ?b \<le> dget queue_limits q' 0"
    proof -
      have "held t' q' a \<le> dget queue_limits q' 0" using inv by (simp add: admission_inv_def)
      then show ?thesis unfolding h by auto
    qed
  qed
qed

lemma admission_step_inv: "admission_step a b \<Longrightarrow> admission_inv a \<Longrightarrow> admission_inv b"
proof (induction rule: admission_step.induct)
  case (step_reserve a ok plan t j day now)
  then show ?case
    using reserve_inv [of a t plan j day now] by (auto simp: reserve_extraction_slot_def Let_def split: prod.splits)
next
  case (step_release a ok t q j)
  then show ?case using release_inv [of a t q j] by (simp add: release_extraction_slot_def)
qed

interpretation admission: invariant_system "\<lambda>a. a = no_admission" admission_step admission_inv
  by unfold_locales (auto intro: no_admission_inv admission_step_inv)

section \<open>Properties\<close>



text \<open>
  A reservation is idempotent per job and refuses only at the limit: with the counters
  consistent, a returned script admits a job exactly when it already holds a slot or the tenant
  holds fewer slots than its limit; and reserving again changes nothing and is admitted again.
\<close>

theorem reserve_admits_iff_room:
  assumes "admission_inv a"
  shows "(\<exists>r a'. reserve_extraction_slot EvalReturned plan t j day now a = (Some r, a')) \<longleftrightarrow>
           (t, j) \<in> fst ` set (jobs a (queue_of_plan plan)) \<or>
           held t (queue_of_plan plan) a < limit_of_plan plan"
proof -
  have "zero_or (depth a (t, queue_of_plan plan)) = held t (queue_of_plan plan) a"
    using assms held_nonneg [of t "queue_of_plan plan" a] by (simp add: admission_inv_def)
  then show ?thesis by (auto simp: reserve_extraction_slot_def reserve_script_def Let_def)
qed

theorem reserve_admits_iff_room_witness:
  "\<exists>r a'. reserve_extraction_slot EvalReturned ''free'' ''t'' ''j'' ''20260101'' 5 no_admission = (Some r, a')"
proof -
  have "admission_inv no_admission" by (rule admission.inv_init) simp
  from reserve_admits_iff_room [OF this, of "''free''" "''t''" "''j''" "''20260101''" 5] show ?thesis
    by (simp add: held_def no_admission_def limit_of_plan_def plan_queue_limits_def)
qed

text \<open>
  Releasing a reserved slot restores the keys of the router to what they were before the
  reservation, metrics apart, so a slot can be used again.
\<close>

theorem release_undoes_reserve:
  assumes "admission_inv a" and "(t, j) \<notin> fst ` set (jobs a (queue_of_plan plan))"
    and "reserve_extraction_slot EvalReturned plan t j day now a = (Some r, a')"
  shows "release_extraction_slot EvalReturned t (qr_queue_name r) j a' =
           a\<lparr>attempted := attempted a', full_count := full_count a'\<rparr>"
proof -
  let ?q = "queue_of_plan plan"
  have d: "depth a (t, ?q) = positive_or_none (held t ?q a)" "breakdown a ?q t = positive_or_none (held t ?q a)"
    using assms(1) by (auto simp: admission_inv_def)
  have r: "qr_queue_name r = ?q"
    and a': "a' = snd (reserve_script t ?q j (limit_of_plan plan) day now a)"
    and room: "\<not> zero_or (depth a (t, ?q)) \<ge> limit_of_plan plan"
    using assms(2,3) by (auto simp: reserve_extraction_slot_def reserve_script_def Let_def split: if_splits)
  have del: "AList.delete (t, j) (jobs a ?q @ [((t, j), now)]) = jobs a ?q"
    using assms(2) by (rule delete_append_new)
  have up: "(depth a)((t, ?q) := positive_or_none (held t ?q a)) = depth a"
    "(breakdown a)(?q := (breakdown a ?q)(t := positive_or_none (held t ?q a))) = breakdown a"
    using d by (auto simp: fun_upd_idem)
  show ?thesis
    unfolding r a' using assms(2) room d held_nonneg [of t ?q a] del up
    by (simp add: release_extraction_slot_def release_script_def reserve_script_def Let_def
        length_filter_update_new)
qed

theorem release_undoes_reserve_witness:
  "release_extraction_slot EvalReturned ''t'' ''free-extraction'' ''j''
     (snd (reserve_extraction_slot EvalReturned ''free'' ''t'' ''j'' ''20260101'' 5 no_admission))
   = no_admission\<lparr>attempted := (\<lambda>_. 0)((''free-extraction'', ''20260101'') := 1)\<rparr>"
proof -
  let ?r = "\<lparr>qr_tenant_id = ''t'', qr_queue_name = ''free-extraction'', qr_plan_tier = ''free'', qr_queue_limit = 10\<rparr>"
  let ?a = "snd (reserve_extraction_slot EvalReturned ''free'' ''t'' ''j'' ''20260101'' 5 no_admission)"
  have r: "reserve_extraction_slot EvalReturned ''free'' ''t'' ''j'' ''20260101'' 5 no_admission = (Some ?r, ?a)"
    by (simp add: reserve_extraction_slot_def reserve_script_def no_admission_def zero_or_def queue_of_plan_def
        plan_queue_map_def limit_of_plan_def plan_queue_limits_def Let_def)
  have m: "attempted ?a = (\<lambda>_. 0)((''free-extraction'', ''20260101'') := 1)" "full_count ?a = (\<lambda>_. 0)"
    by (simp_all add: reserve_extraction_slot_def reserve_script_def no_admission_def zero_or_def queue_of_plan_def
        plan_queue_map_def limit_of_plan_def plan_queue_limits_def Let_def)
  have "(''t'', ''j'') \<notin> fst ` set (jobs no_admission (queue_of_plan ''free''))"
    by (simp add: no_admission_def)
  from release_undoes_reserve [OF no_admission_inv this r] m show ?thesis
    by (simp add: no_admission_def)
qed

text \<open>
  The processing estimate is given exactly for a queue with a known throughput and more
  than ten jobs, and is then the least whole number of minutes, in seconds, in which the
  queue's throughput covers its depth.
\<close>

theorem eta_is_least_cover:
  assumes "map_of queue_throughput_per_minute q = Some r" and "10 < d"
  shows "\<exists>m. fst (get_processing_eta g st q d mark) = Some (60 * m) \<and> d \<le> m * r \<and> (m - 1) * r < d"
proof -
  have r: "0 < r" using assms(1) by (auto simp: queue_throughput_per_minute_def split: if_splits)
  define m where "m = ceil_div d r"
  have "d \<le> m * r" "(m - 1) * r < d"
    unfolding m_def by (rule ceil_div_cover [OF r])+
  moreover have "fst (get_processing_eta g st q d mark) = Some (60 * m)"
    using assms r by (simp add: get_processing_eta_def m_def Let_def)
  ultimately show ?thesis by blast
qed

theorem eta_is_least_cover_witness:
  "fst (get_processing_eta True True ''growth-extraction'' 12 False) = Some 180"
  using eta_is_least_cover [of "''growth-extraction''" 5 12 True True False]
  by (auto simp: queue_throughput_per_minute_def get_processing_eta_def ceil_div_def)

end
