(* ===== verification/RateLimit.thy ===== *)
theory RateLimit
  imports Queues
begin

text \<open>
  The API key middleware of \<open>src/api/middleware/rate_limiter.py\<close>: permissions of scoped
  paths, then one counter per API key and minute and, for writes, one per tenant and minute,
  both incremented by a Lua script behind the Redis circuit breaker. What follows the
  middleware, \<open>call_next\<close>, is the decision \<open>Pass\<close>.
\<close>

section \<open>Requests\<close>

record request =
  rq_auth_scheme :: "string option"
  rq_path :: string
  rq_method :: string
  rq_tenant_id :: "string option"
  rq_api_key_id :: "string option"
  rq_permissions :: "string list option"
  rq_rate_limit :: "int option"

datatype decision = Pass | Forbidden string | RateLimited string | ServerError

definition starts_with :: "string \<Rightarrow> string \<Rightarrow> bool" where
  "starts_with p s = (take (length p) s = p)"

definition ends_with :: "string \<Rightarrow> string \<Rightarrow> bool" where
  "ends_with p s = starts_with (rev p) (rev s)"

definition api_key_scoped_prefixes :: "string list" where
  "api_key_scoped_prefixes =
     [''/v1/memories'', ''/v1/users'', ''/v1/api-keys'', ''/v1/agents'', ''/v1/tenant'']"

definition is_scoped_path :: "string \<Rightarrow> bool" where
  "is_scoped_path path =
     (\<exists>p \<in> set api_key_scoped_prefixes. path = p \<or> starts_with (p @ ''/'') path)"

definition required_permission :: "string \<Rightarrow> string \<Rightarrow> string" where
  "required_permission verb path =
     (if path = ''/v1/memories/service-corrections'' \<or> starts_with ''/v1/memories/service-corrections/'' path
      then ''admin''
      else if starts_with ''/v1/users/'' path \<and> \<not> starts_with ''/v1/users/me/'' path
              \<and> (\<exists>e \<in> set [''/block'', ''/unblock'', ''/export'', ''/stats'']. ends_with e path)
      then ''admin''
      else if starts_with ''/v1/api-keys'' path \<or> starts_with ''/v1/tenant'' path then ''admin''
      else if starts_with ''/v1/agents'' path then (if verb = ''GET'' then ''read'' else ''admin'')
      else if verb = ''DELETE'' then ''delete''
      else if path = ''/v1/memories/retrieve'' \<or> verb = ''GET'' then ''read''
      else ''write'')"

text \<open>The normalised permission set of the key; \<open>None\<close> when the request carries none.\<close>

definition permission_set :: "string list option \<Rightarrow> string set" where
  "permission_set raw =
     (\<lambda>p. py_lower (py_strip p)) ` set (filter (\<lambda>p. py_strip p \<noteq> []) (case raw of None \<Rightarrow> [] | Some ps \<Rightarrow> ps))"

definition permission_denied :: "request \<Rightarrow> string option" where
  "permission_denied r =
     (let ps = permission_set (rq_permissions r);
          req = required_permission (rq_method r) (rq_path r);
          known = (rq_permissions r \<noteq> None)
      in if rq_path r = ''/v1/memories/prepare-turn'' \<and> known \<and> ''admin'' \<notin> ps \<and> ''write'' \<notin> ps then Some ''write''
         else if rq_path r = ''/v1/memories/prepare-turn'' \<and> known \<and> ''admin'' \<notin> ps \<and> ''read'' \<notin> ps then Some ''read''
         else if known \<and> ''admin'' \<notin> ps \<and> req \<notin> ps then Some req
         else None)"

section \<open>Counters\<close>

text \<open>
  A counter key is the prefix, the id and the minute of the window. One \<open>EVAL\<close> of the
  increment script ends as in the queue router, and when it raises the exception is a Redis
  failure or another one.
\<close>

type_synonym counter_key = "string \<times> string \<times> int"

record limiter =
  counters :: "counter_key \<Rightarrow> int option"
  lim_breaker :: "world option"

record script_env =
  se_redis :: redis_env
  se_eval :: eval_outcome
  se_exn :: redis_exn

definition increment_script :: "counter_key \<Rightarrow> (counter_key \<Rightarrow> int option) \<Rightarrow> int \<times> (counter_key \<Rightarrow> int option)" where
  "increment_script k c = (let n = zero_or (c k) + 1 in (n, c(k := Some n)))"

text \<open>Whether the breaker lets the script be sent at all; without a breaker it always is.\<close>

definition script_sent :: "redis_env \<Rightarrow> (int, redis_exn) fn_outcome \<Rightarrow> world option \<Rightarrow> bool" where
  "script_sent re fn br =
     (case br of
        None \<Rightarrow> True
      | Some w \<Rightarrow> snd (fst (call (rc_bypassed re) (rc_reachable re) (rc_before re) (rc_after re) fn (Some (0::int)) w)))"

definition increment :: "script_env \<Rightarrow> counter_key \<Rightarrow> limiter \<Rightarrow> (int, redis_exn) call_result \<times> limiter" where
  "increment se k l =
     (let (n, c') = increment_script k (counters l);
          fn = (if se_eval se = EvalReturned then Returns n else Raises (se_exn se));
          (res, br') = redis_call (se_redis se) fn 0 (lim_breaker l);
          ran = (script_sent (se_redis se) fn (lim_breaker l) \<and> se_eval se \<noteq> EvalNotRun)
      in (res, \<lparr>counters = (if ran then c' else counters l), lim_breaker = br'\<rparr>))"

text \<open>
  One counted check: over the limit is refused, a Redis failure lets the request pass
  unchecked, any other exception fails the request. \<open>None\<close> means the check was passed.
\<close>

definition check_count :: "string \<Rightarrow> int \<Rightarrow> (int, redis_exn) call_result \<Rightarrow> decision option" where
  "check_count scope limit res =
     (case res of
        Value n \<Rightarrow> if n > limit then Some (RateLimited scope) else None
      | Fallback n \<Rightarrow> if n > limit then Some (RateLimited scope) else None
      | Failed RedisFailure \<Rightarrow> Some Pass
      | Failed OtherException \<Rightarrow> Some ServerError
      | CircuitOpenError \<Rightarrow> Some ServerError)"

definition api_key_limit :: "request \<Rightarrow> int" where
  "api_key_limit r = max 1 (int_or (rq_rate_limit r) 60)"

definition truthy_id :: "string option \<Rightarrow> bool" where
  "truthy_id x = (x \<noteq> None \<and> x \<noteq> Some '''')"

definition counts_tenant :: "request \<Rightarrow> bool" where
  "counts_tenant r \<longleftrightarrow>
     rq_method r = ''POST'' \<and> rq_path r \<in> {''/v1/memories/add'', ''/v1/memories/prepare-turn''}"

text \<open>
  \<open>dispatch\<close>. \<open>cache_ok\<close>: the application has a cache service with a client. \<open>now\<close> is the
  time in seconds at the start of the check; \<open>tenant_limit\<close> is the configured tenant limit.
\<close>

definition dispatch ::
  "bool \<Rightarrow> int \<Rightarrow> int \<Rightarrow> script_env \<Rightarrow> script_env \<Rightarrow> request \<Rightarrow> limiter \<Rightarrow> decision \<times> limiter" where
  "dispatch cache_ok now tenant_limit se1 se2 r l =
     (if rq_auth_scheme r \<noteq> Some ''apikey'' \<or> \<not> is_scoped_path (rq_path r) then (Pass, l)
      else case permission_denied r of
             Some p \<Rightarrow> (Forbidden p, l)
           | None \<Rightarrow>
               if \<not> truthy_id (rq_tenant_id r) \<or> \<not> truthy_id (rq_api_key_id r) \<or> \<not> cache_ok then (Pass, l)
               else let minute = now div 60;
                        (res1, l1) = increment se1 (''api_key_rate'', the (rq_api_key_id r), minute) l
                    in case check_count ''api_key'' (api_key_limit r) res1 of
                         Some d \<Rightarrow> (d, l1)
                       | None \<Rightarrow>
                           if \<not> counts_tenant r then (Pass, l1)
                           else let (res2, l2) = increment se2 (''tenant_rate'', the (rq_tenant_id r), minute) l1
                                in (case check_count ''tenant'' tenant_limit res2 of None \<Rightarrow> Pass | Some d \<Rightarrow> d, l2))"

definition retry_after_seconds :: "int \<Rightarrow> int" where
  "retry_after_seconds now = (let s = now mod 60 in if s = 0 then 60 else 60 - s)"

section \<open>Lemmas\<close>

lemma increment_no_breaker:
  "lim_breaker l = None \<Longrightarrow> se_eval se = EvalReturned \<Longrightarrow>
   increment se k l = (Value (zero_or (counters l k) + 1), l\<lparr>counters := (counters l)(k := Some (zero_or (counters l k) + 1))\<rparr>)"
  by (cases l) (simp add: increment_def increment_script_def redis_call_def fn_result_def script_sent_def Let_def)

lemma increment_outcome:
  "fst (increment se k l) \<in>
     {Fallback 0, if se_eval se = EvalReturned then Value (zero_or (counters l k) + 1) else Failed (se_exn se)}"
  using redis_call_shape [of "se_redis se"
      "if se_eval se = EvalReturned then Returns (zero_or (counters l k) + 1) else Raises (se_exn se)" 0 "lim_breaker l"]
  by (auto simp: increment_def increment_script_def fn_result_def Let_def split: prod.splits if_splits)

section \<open>Properties\<close>

definition healthy :: script_env where
  "healthy = \<lparr>se_redis = \<lparr>rc_bypassed = True, rc_reachable = True, rc_before = example_env 0, rc_after = example_env 0\<rparr>,
              se_eval = EvalReturned, se_exn = RedisFailure\<rparr>"

definition add_request :: request where
  "add_request = \<lparr>rq_auth_scheme = Some ''apikey'', rq_path = ''/v1/memories/retrieve'', rq_method = ''POST'',
     rq_tenant_id = Some ''t'', rq_api_key_id = Some ''k'', rq_permissions = Some [''read ''], rq_rate_limit = Some 2\<rparr>"

text \<open>The decisions of a run of requests, all within one minute.\<close>

fun run_dispatch :: "int \<Rightarrow> int \<Rightarrow> script_env \<Rightarrow> request list \<Rightarrow> limiter \<Rightarrow> decision list" where
  "run_dispatch now cap se [] l = []"
| "run_dispatch now cap se (r # rs) l =
     (let (d, l') = dispatch True now cap se se r l in d # run_dispatch now cap se rs l')"

text \<open>
  While Redis answers, an API key passes exactly as many requests per minute as its
  limit: of \<open>n\<close> permitted requests of a key within one minute, on a path without a tenant
  counter, the first \<open>limit\<close> pass and all others are rate limited.
\<close>

theorem key_limit_is_exact:
  assumes "permission_denied r = None" and "rq_auth_scheme r = Some ''apikey''" and "is_scoped_path (rq_path r)"
    and "truthy_id (rq_tenant_id r)" and "rq_api_key_id r = Some key" and "key \<noteq> []" and "\<not> counts_tenant r"
    and "se_eval se = EvalReturned" and "lim_breaker l = None"
    and "zero_or (counters l (''api_key_rate'', key, now div 60)) = int used"
  shows "run_dispatch now cap se (replicate n r) l =
           map (\<lambda>i. if int (used + i) < api_key_limit r then Pass else RateLimited ''api_key'') [0..<n]"
  using assms(9,10)
proof (induction n arbitrary: l used)
  case (Suc n)
  let ?k = "(''api_key_rate'', key, now div 60)"
  let ?l = "l\<lparr>counters := (counters l)(?k := Some (int used + 1))\<rparr>"
  have d: "dispatch True now cap se se r l =
      (if int used < api_key_limit r then Pass else RateLimited ''api_key'', ?l)"
    using assms(1-8) Suc.prems
    by (auto simp: dispatch_def increment_no_breaker check_count_def truthy_id_def Let_def)
  have "run_dispatch now cap se (replicate n r) ?l =
      map (\<lambda>i. if int (Suc used + i) < api_key_limit r then Pass else RateLimited ''api_key'') [0..<n]"
    by (rule Suc.IH) (use Suc.prems in simp_all)
  then show ?case using d by (simp add: upt_conv_Cons map_Suc_upt [symmetric] del: upt_Suc)
qed simp

theorem key_limit_is_exact_witness:
  "run_dispatch 120 100 healthy (replicate 3 add_request) \<lparr>counters = (\<lambda>_. None), lim_breaker = None\<rparr>
     = [Pass, Pass, RateLimited ''api_key'']"
proof -
  let ?l = "\<lparr>counters = (\<lambda>_. None), lim_breaker = None\<rparr>"
  have "run_dispatch 120 100 healthy (replicate 3 add_request) ?l =
      map (\<lambda>i. if int (0 + i) < api_key_limit add_request then Pass else RateLimited ''api_key'') [0..<3]"
    by (rule key_limit_is_exact [of add_request "''k''" healthy ?l 120 0 100 3])
      (simp_all add: add_request_def permission_denied_def permission_set_def required_permission_def starts_with_def
        ends_with_def is_scoped_path_def api_key_scoped_prefixes_def truthy_id_def counts_tenant_def healthy_def
        zero_or_def py_strip_def py_lower_def lower_char_def is_space_def)
  then show ?thesis by (simp add: api_key_limit_def add_request_def int_or_def upt_conv_Cons)
qed

lemma permission_denied_None:
  "permission_denied r = None \<Longrightarrow> rq_permissions r \<noteq> None \<Longrightarrow> ''admin'' \<notin> permission_set (rq_permissions r) \<Longrightarrow>
   required_permission (rq_method r) (rq_path r) \<in> permission_set (rq_permissions r)"
  by (auto simp: permission_denied_def Let_def split: if_splits)

text \<open>
  The administrative endpoints are closed to keys without the \<open>admin\<close> permission: an API
  key request under \<open>/v1/api-keys/\<close> or \<open>/v1/tenant/\<close>, or for service corrections, whose
  permissions are known and lack \<open>admin\<close>, is refused, and neither counter nor breaker is touched.
\<close>

theorem admin_paths_need_admin:
  assumes "rq_auth_scheme r = Some ''apikey''" and "rq_permissions r = Some ps"
    and "''admin'' \<notin> permission_set (Some ps)"
    and "starts_with ''/v1/api-keys/'' (rq_path r) \<or> starts_with ''/v1/tenant/'' (rq_path r) \<or>
         starts_with ''/v1/memories/service-corrections/'' (rq_path r)"
  shows "\<exists>p. dispatch cache_ok now cap se1 se2 r l = (Forbidden p, l)"
proof -
  obtain rest where path: "rq_path r = ''/v1/api-keys/'' @ rest \<or> rq_path r = ''/v1/tenant/'' @ rest \<or>
      rq_path r = ''/v1/memories/service-corrections/'' @ rest"
    using assms(4) unfolding starts_with_def by (metis append_take_drop_id)
  have scoped: "is_scoped_path (rq_path r)"
    using path by (elim disjE) (simp_all add: is_scoped_path_def api_key_scoped_prefixes_def starts_with_def)
  have "required_permission (rq_method r) (rq_path r) = ''admin''"
    using path by (elim disjE) (simp_all add: required_permission_def starts_with_def)
  then have "permission_denied r \<noteq> None"
    using permission_denied_None [of r] assms(2,3) by auto
  then show ?thesis using assms(1) scoped by (auto simp: dispatch_def)
qed

theorem admin_paths_need_admin_witness:
  "\<exists>p. dispatch True 60 100 healthy healthy (add_request\<lparr>rq_path := ''/v1/tenant/keys''\<rparr>)
        \<lparr>counters = (\<lambda>_. None), lim_breaker = None\<rparr> = (Forbidden p, \<lparr>counters = (\<lambda>_. None), lim_breaker = None\<rparr>)"
  by (rule admin_paths_need_admin [of _ "[''read '']"])
    (simp_all add: add_request_def permission_set_def starts_with_def py_strip_def py_lower_def lower_char_def is_space_def)

text \<open>Where a decision comes from.\<close>

lemma dispatch_decision:
  "fst (dispatch cache_ok now cap se1 se2 r l) \<in>
     {Pass} \<union> range Forbidden
     \<union> {d. \<exists>k. check_count ''api_key'' (api_key_limit r) (fst (increment se1 k l)) = Some d}
     \<union> {d. \<exists>k m. check_count ''tenant'' cap (fst (increment se2 k m)) = Some d}"
proof -
  let ?k1 = "(''api_key_rate'', the (rq_api_key_id r), now div 60)"
  let ?k2 = "(''tenant_rate'', the (rq_tenant_id r), now div 60)"
  obtain res1 l1 where i1: "increment se1 ?k1 l = (res1, l1)" by fastforce
  obtain res2 l2 where i2: "increment se2 ?k2 l1 = (res2, l2)" by fastforce
  have f: "fst (increment se1 ?k1 l) = res1" "fst (increment se2 ?k2 l1) = res2" using i1 i2 by simp_all
  let ?c1 = "check_count ''api_key'' (api_key_limit r) res1"
  let ?c2 = "check_count ''tenant'' cap res2"
  have "fst (dispatch cache_ok now cap se1 se2 r l) \<in> {Pass} \<union> range Forbidden \<union> set_option ?c1 \<union> set_option ?c2"
    by (simp add: dispatch_def Let_def i1 i2 split: option.split)
  then show ?thesis using f by fastforce
qed

lemma check_count_redis_failure:
  assumes "se_exn se = RedisFailure"
  shows "check_count scope most (fst (increment se k m)) \<noteq> Some ServerError"
    and "se_eval se \<noteq> EvalReturned \<Longrightarrow> 0 \<le> most \<Longrightarrow> check_count scope most (fst (increment se k m)) \<in> {None, Some Pass}"
  using increment_outcome [of se k m] assms by (auto simp: check_count_def split: if_splits)

text \<open>
  Redis trouble disables rate limiting and never fails a request: when both increments can
  only raise Redis connection or timeout errors, no request ends in a server error; and when
  neither script returns a count, every request that is not forbidden passes.
\<close>

theorem redis_trouble_fails_open:
  assumes "se_exn se1 = RedisFailure" and "se_exn se2 = RedisFailure" and "0 \<le> cap"
  shows "fst (dispatch cache_ok now cap se1 se2 r l) \<noteq> ServerError \<and>
         (se_eval se1 \<noteq> EvalReturned \<and> se_eval se2 \<noteq> EvalReturned \<longrightarrow>
            fst (dispatch cache_ok now cap se1 se2 r l) \<in> {Pass} \<union> range Forbidden)"
proof -
  have "0 \<le> api_key_limit r" by (simp add: api_key_limit_def)
  note c1 = check_count_redis_failure [OF assms(1)] and c2 = check_count_redis_failure [OF assms(2)]
  let ?d = "fst (dispatch cache_ok now cap se1 se2 r l)"
  consider "?d = Pass" | p where "?d = Forbidden p"
    | k where "check_count ''api_key'' (api_key_limit r) (fst (increment se1 k l)) = Some ?d"
    | k m where "check_count ''tenant'' cap (fst (increment se2 k m)) = Some ?d"
    using dispatch_decision [of cache_ok now cap se1 se2 r l] by blast
  then show ?thesis
  proof cases
    case (3 k)
    then show ?thesis
      using c1(1) [of "''api_key''" "api_key_limit r" k l] c1(2) [OF _ \<open>0 \<le> api_key_limit r\<close>, of "''api_key''" k l] by auto
  next
    case (4 k m)
    then show ?thesis using c2(1) [of "''tenant''" cap k m] c2(2) [OF _ assms(3), of "''tenant''" k m] by auto
  qed auto
qed

theorem redis_trouble_fails_open_witness:
  "fst (dispatch True 60 100 (healthy\<lparr>se_eval := EvalNotRun\<rparr>) (healthy\<lparr>se_eval := EvalLostReply\<rparr>) add_request
     \<lparr>counters = (\<lambda>_. None), lim_breaker = Some (None, qdrant_breaker)\<rparr>) \<in> {Pass} \<union> range Forbidden"
  using redis_trouble_fails_open [of "healthy\<lparr>se_eval := EvalNotRun\<rparr>" "healthy\<lparr>se_eval := EvalLostReply\<rparr>" 100 True 60
      add_request "\<lparr>counters = (\<lambda>_. None), lim_breaker = Some (None, qdrant_breaker)\<rparr>"]
  by (simp add: healthy_def)

end
