(* ===== verification/Storage.thy ===== *)
theory Storage
  imports Prelude
begin

text \<open>
  The rows of \<open>src/api/db/models.py\<close> the memory components share, and the database as the
  record of its tables. A JSON column is the entry list of its dictionary; a nullable column
  is an option. A timestamp or a UUID that the code renders as text inside a JSON document
  is represented there by its number.

  \<open>uuid4()\<close> yields an id no row has; the database carries a supply of such ids. \<open>now()\<close>, the
  server time of the transaction, is the field \<open>db_now\<close>.
\<close>

section \<open>Rows\<close>

datatype memory_category = Preference | Fact | Goal | Procedure | Relationship | Expertise

fun category_value :: "memory_category \<Rightarrow> string" where
  "category_value Preference = ''preference''"
| "category_value Fact = ''fact''"
| "category_value Goal = ''goal''"
| "category_value Procedure = ''procedure''"
| "category_value Relationship = ''relationship''"
| "category_value Expertise = ''expertise''"

record memory =
  m_id :: uuid
  m_user_id :: uuid
  m_proxy_user_id :: uuid
  m_agent_id :: "uuid option"
  content :: string
  content_envelope :: pyval
  category :: memory_category
  importance_score :: pyfloat
  confidence_score :: pyfloat
  embedding_model_id :: string
  qdrant_collection :: "string option"
  created_at :: utc
  last_accessed_at :: "utc option"
  access_count :: int
  expires_at :: "utc option"
  effective_from :: "utc option"
  effective_until :: "utc option"
  previous_version_id :: "uuid option"
  source_event_id :: "uuid option"
  metadata_json :: "(string \<times> pyval) list"
  is_archived :: bool
  m_updated_at :: utc

record memory_version =
  v_id :: uuid
  v_memory_id :: uuid
  version_number :: int
  v_content :: string
  v_content_envelope :: pyval
  v_category :: string
  v_importance_score :: pyfloat
  v_confidence :: pyfloat
  change_type :: string
  change_reason :: "string option"
  changed_by :: string

datatype sync_operation = Upsert | Delete | Archive

datatype sync_status = Pending | Processing | Done | SyncFailed

record outbox_row =
  o_id :: uuid
  operation :: sync_operation
  o_memory_id :: uuid
  embedding :: "pyfloat list option"
  payload :: "(string \<times> pyval) list"
  o_status :: sync_status
  attempts :: int
  last_error :: "string option"
  o_created_at :: utc
  synced_at :: "utc option"

record memory_claim =
  c_id :: uuid
  c_tenant_id :: uuid
  c_proxy_user_id :: uuid
  c_category :: memory_category
  claim_fingerprint :: string
  subject_key :: string
  predicate_key :: string
  c_scope :: "(string \<times> pyval) list"
  active_value :: "string option"
  c_status :: string
  active_memory_id :: "uuid option"
  winning_revision_id :: "uuid option"
  c_authority_priority :: int
  c_confidence_score :: pyfloat
  c_observed_at :: "utc option"
  effective_at :: utc
  c_updated_at :: utc

record claim_revision =
  r_id :: uuid
  r_claim_id :: uuid
  r_memory_id :: "uuid option"
  r_source_event_id :: "uuid option"
  source_writer_id :: "uuid option"
  source_domain :: "string option"
  source_domain_record_id :: "string option"
  source_field :: "string option"
  asserted_value :: string
  r_status :: string
  r_authority_priority :: int
  r_confidence_score :: pyfloat
  r_observed_at :: "utc option"
  r_effective_from :: "utc option"
  r_effective_until :: "utc option"
  evidence_refs :: "pyval list"
  resolution_reason :: "string option"
  decision_evidence :: "(string \<times> pyval) list"
  schema_version :: int
  processor_version :: string
  r_created_at :: utc

record proxy_user =
  p_id :: uuid
  p_tenant_id :: uuid
  p_external_user_id :: string
  is_blocked :: bool

record db =
  memories :: "memory list"
  versions :: "memory_version list"
  outbox :: "outbox_row list"
  claims :: "memory_claim list"
  revisions :: "claim_revision list"
  proxy_users :: "proxy_user list"
  next_id :: uuid
  db_now :: utc

section \<open>Reading and writing rows\<close>

definition find_row :: "('r \<Rightarrow> bool) \<Rightarrow> 'r list \<Rightarrow> 'r option" where
  "find_row p rs = List.find p rs"

text \<open>\<open>session.get\<close> by primary key, and the write-back of a changed row.\<close>

definition get_memory :: "uuid \<Rightarrow> db \<Rightarrow> memory option" where
  "get_memory i d = find_row (\<lambda>m. m_id m = i) (memories d)"

definition put_memory :: "memory \<Rightarrow> db \<Rightarrow> db" where
  "put_memory m d = d\<lparr>memories := update_where (\<lambda>r. m_id r = m_id m) (\<lambda>_. m) (memories d)\<rparr>"

definition get_claim :: "uuid \<Rightarrow> db \<Rightarrow> memory_claim option" where
  "get_claim i d = find_row (\<lambda>c. c_id c = i) (claims d)"

definition put_claim :: "memory_claim \<Rightarrow> db \<Rightarrow> db" where
  "put_claim c d = d\<lparr>claims := update_where (\<lambda>r. c_id r = c_id c) (\<lambda>_. c) (claims d)\<rparr>"

definition get_revision :: "uuid \<Rightarrow> db \<Rightarrow> claim_revision option" where
  "get_revision i d = find_row (\<lambda>r. r_id r = i) (revisions d)"

definition put_revision :: "claim_revision \<Rightarrow> db \<Rightarrow> db" where
  "put_revision r d = d\<lparr>revisions := update_where (\<lambda>x. r_id x = r_id r) (\<lambda>_. r) (revisions d)\<rparr>"

definition tenant_of :: "uuid \<Rightarrow> db \<Rightarrow> uuid option" where
  "tenant_of proxy d = map_option p_tenant_id (find_row (\<lambda>p. p_id p = proxy) (proxy_users d))"

text \<open>Keys are unique, and every id in use is below the supply.\<close>

definition keys_ok :: "db \<Rightarrow> bool" where
  "keys_ok d \<longleftrightarrow>
     distinct (map m_id (memories d)) \<and> distinct (map c_id (claims d)) \<and>
     distinct (map r_id (revisions d)) \<and> distinct (map o_id (outbox d)) \<and>
     (\<forall>m \<in> set (memories d). m_id m < next_id d) \<and> (\<forall>c \<in> set (claims d). c_id c < next_id d) \<and>
     (\<forall>r \<in> set (revisions d). r_id r < next_id d) \<and> (\<forall>x \<in> set (outbox d). o_id x < next_id d)"

section \<open>Lemmas\<close>

lemma find_row_Some: "find_row p rs = Some r \<Longrightarrow> r \<in> set rs \<and> p r"
  by (auto simp: find_row_def find_Some_iff)

lemma find_row_None: "find_row p rs = None \<longleftrightarrow> (\<forall>r \<in> set rs. \<not> p r)"
  by (auto simp: find_row_def find_None_iff)

lemma find_row_cong: "(\<And>r. r \<in> set rs \<Longrightarrow> p r = q r) \<Longrightarrow> find_row p rs = find_row q rs"
  unfolding find_row_def by (induction rs) auto

lemma find_row_map: "find_row p (map f rs) = map_option f (find_row (\<lambda>r. p (f r)) rs)"
  unfolding find_row_def by (induction rs) auto

lemma find_row_filter: "find_row p (filter q rs) = find_row (\<lambda>r. q r \<and> p r) rs"
  unfolding find_row_def by (induction rs) auto

text \<open>The key/value view of a table with a primary key.\<close>

locale keyed_table =
  fixes key :: "'r \<Rightarrow> 'k"
begin

definition lookup :: "'k \<Rightarrow> 'r list \<Rightarrow> 'r option" where
  "lookup k rs = find_row (\<lambda>r. key r = k) rs"

definition store_row :: "'r \<Rightarrow> 'r list \<Rightarrow> 'r list" where
  "store_row r rs = update_where (\<lambda>x. key x = key r) (\<lambda>_. r) rs"

lemma store_keys: "map key (store_row r rs) = map key rs"
  by (simp add: store_row_def update_where_def)

lemma lookup_store_same: "lookup (key r) rs \<noteq> None \<Longrightarrow> lookup (key r) (store_row r rs) = Some r"
  by (induction rs) (auto simp: lookup_def store_row_def find_row_def)

lemma lookup_store_other: "k \<noteq> key r \<Longrightarrow> lookup k (store_row r rs) = lookup k rs"
  by (induction rs) (auto simp: lookup_def store_row_def find_row_def)

lemma lookup_store:
  "lookup k (store_row r rs) = (if k = key r \<and> lookup k rs \<noteq> None then Some r else lookup k rs)"
  by (induction rs) (auto simp: lookup_def store_row_def find_row_def)

lemma lookup_update_where:
  assumes "\<And>r. p r \<Longrightarrow> key (f r) = key r"
  shows "lookup k (update_where p f rs) = map_option (\<lambda>r. if p r then f r else r) (lookup k rs)"
  using assms by (induction rs) (auto simp: lookup_def find_row_def)

lemma lookup_None: "lookup k rs = None \<longleftrightarrow> k \<notin> key ` set rs"
  by (auto simp: lookup_def find_row_None)

lemma lookup_filter:
  assumes "distinct (map key rs)"
  shows "lookup k (filter p rs) = (case lookup k rs of None \<Rightarrow> None | Some r \<Rightarrow> if p r then Some r else None)"
  using assms
proof (induction rs)
  case (Cons r rs)
  have "lookup (key r) rs = None" using Cons.prems by (simp add: lookup_None)
  then show ?case using Cons by (auto simp: lookup_def find_row_def)
qed (simp add: lookup_def find_row_def)

lemma lookup_map: "(\<And>r. key (f r) = key r) \<Longrightarrow> lookup k (map f rs) = map_option f (lookup k rs)"
  by (simp add: lookup_def find_row_map)

lemma lookup_append: "lookup k (rs @ [r]) = (if lookup k rs = None \<and> key r = k then Some r else lookup k rs)"
  by (induction rs) (auto simp: lookup_def find_row_def)

lemma find_key:
  assumes "distinct (map key rs)"
  shows "find_row (\<lambda>r. key r = k \<and> P r) rs = (case lookup k rs of None \<Rightarrow> None | Some r \<Rightarrow> if P r then Some r else None)"
  using assms
proof (induction rs)
  case (Cons a rs)
  show ?case
  proof (cases "key a = k")
    case True
    have "\<forall>r \<in> set rs. key r \<noteq> k" using Cons.prems True by (auto simp: image_iff)
    then have "find_row (\<lambda>r. key r = k \<and> P r) rs = None" by (simp add: find_row_None)
    with True show ?thesis by (simp add: lookup_def find_row_def)
  next
    case False
    with Cons show ?thesis by (simp add: lookup_def find_row_def)
  qed
qed (simp add: lookup_def find_row_def)

lemma lookup_Some: "lookup k rs = Some r \<Longrightarrow> r \<in> set rs \<and> key r = k"
  by (auto simp: lookup_def dest: find_row_Some)

lemma lookup_in: "distinct (map key rs) \<Longrightarrow> r \<in> set rs \<Longrightarrow> lookup (key r) rs = Some r"
  by (induction rs) (auto simp: lookup_def find_row_def image_iff)

lemma set_store: "x \<in> set (store_row r rs) \<Longrightarrow> x = r \<or> x \<in> set rs \<and> key x \<noteq> key r"
  by (auto simp: store_row_def set_update_where split: if_splits)

lemma store_mem: "lookup (key r) rs \<noteq> None \<Longrightarrow> r \<in> set (store_row r rs)"
  using lookup_store_same [of r rs] lookup_Some [of "key r" "store_row r rs" r] by simp

end

interpretation mem_table: keyed_table m_id .

interpretation claim_table: keyed_table c_id .

interpretation rev_table: keyed_table r_id .

interpretation out_table: keyed_table o_id .

lemma get_put_memory [simp]:
  "get_memory i (put_memory m d) =
     (if i = m_id m \<and> get_memory i d \<noteq> None then Some m else get_memory i d)"
  using mem_table.lookup_store [of i m "memories d"]
  by (auto simp add: get_memory_def put_memory_def mem_table.lookup_def mem_table.store_row_def)

lemma get_put_claim [simp]:
  "get_claim i (put_claim c d) =
     (if i = c_id c \<and> get_claim i d \<noteq> None then Some c else get_claim i d)"
  using claim_table.lookup_store [of i c "claims d"]
  by (auto simp add: get_claim_def put_claim_def claim_table.lookup_def claim_table.store_row_def)

lemma get_put_revision [simp]:
  "get_revision i (put_revision r d) =
     (if i = r_id r \<and> get_revision i d \<noteq> None then Some r else get_revision i d)"
  using rev_table.lookup_store [of i r "revisions d"]
  by (auto simp add: get_revision_def put_revision_def rev_table.lookup_def rev_table.store_row_def)

lemma put_frames [simp]:
  "claims (put_memory m d) = claims d" "revisions (put_memory m d) = revisions d"
  "outbox (put_memory m d) = outbox d" "versions (put_memory m d) = versions d"
  "proxy_users (put_memory m d) = proxy_users d" "next_id (put_memory m d) = next_id d" "db_now (put_memory m d) = db_now d"
  "memories (put_claim c d) = memories d" "revisions (put_claim c d) = revisions d"
  "outbox (put_claim c d) = outbox d" "versions (put_claim c d) = versions d"
  "proxy_users (put_claim c d) = proxy_users d" "next_id (put_claim c d) = next_id d" "db_now (put_claim c d) = db_now d"
  "memories (put_revision r d) = memories d" "claims (put_revision r d) = claims d"
  "outbox (put_revision r d) = outbox d" "versions (put_revision r d) = versions d"
  "proxy_users (put_revision r d) = proxy_users d" "next_id (put_revision r d) = next_id d" "db_now (put_revision r d) = db_now d"
  by (simp_all add: put_memory_def put_claim_def put_revision_def)

text \<open>A small database, for the concrete instances of the theorems of the components.\<close>

definition example_memory :: memory where
  "example_memory =
     \<lparr>m_id = 1, m_user_id = 70, m_proxy_user_id = 80, m_agent_id = None, content = ''likes tea'',
      content_envelope = PNone, category = Preference, importance_score = 5, confidence_score = 1,
      embedding_model_id = ''e'', qdrant_collection = None, created_at = 0, last_accessed_at = Some 0,
      access_count = 0, expires_at = None, effective_from = None, effective_until = None,
      previous_version_id = None, source_event_id = None, metadata_json = [], is_archived = False, m_updated_at = 0\<rparr>"

definition example_db :: db where
  "example_db =
     \<lparr>memories = [example_memory], versions = [], outbox = [], claims = [], revisions = [],
      proxy_users = [\<lparr>p_id = 80, p_tenant_id = 90, p_external_user_id = ''ada'', is_blocked = False\<rparr>], next_id = 100, db_now = 0\<rparr>"

end
