(* ===== verification/Versions.thy ===== *)
theory Versions
  imports Storage
begin

text \<open>
  The version history of a memory: \<open>src/api/services/version_service.py\<close>. Recording a version
  copies the memory's state into a new row numbered one above the highest number the memory
  has. The \<open>safe\<close> variants turn a rejected change into no version.
\<close>

section \<open>Validation\<close>

definition allowed_change_types :: "string list" where
  "allowed_change_types =
     [''created'', ''conflict_update'', ''manual_edit'', ''importance_decay'', ''importance_boost'',
      ''archived'', ''conflict_resolved'']"

definition allowed_changed_by :: "string list" where
  "allowed_changed_by = [''system'', ''user'', ''operator'']"

datatype version_error = InvalidChangeType string | InvalidChangedBy string | PermissionError | EncryptionError

definition validate_change :: "string \<Rightarrow> string \<Rightarrow> version_error option" where
  "validate_change kind by =
     (if kind \<notin> set allowed_change_types then Some (InvalidChangeType kind)
      else if by \<notin> set allowed_changed_by then Some (InvalidChangedBy by)
      else None)"

section \<open>Recording\<close>

text \<open>\<open>coalesce(max(version_number), 0) + 1\<close> over the memory's versions.\<close>

definition next_version_number :: "uuid \<Rightarrow> db \<Rightarrow> int" where
  "next_version_number i d =
     fold (\<lambda>v n. max n (version_number v)) (filter (\<lambda>v. v_memory_id v = i) (versions d)) 0 + 1"

definition version_of :: "memory \<Rightarrow> string \<Rightarrow> string option \<Rightarrow> string \<Rightarrow> db \<Rightarrow> memory_version" where
  "version_of m kind reason by d =
     \<lparr>v_id = next_id d, v_memory_id = m_id m, version_number = next_version_number (m_id m) d,
      v_content = content m, v_content_envelope = content_envelope m, v_category = category_value (category m),
      v_importance_score = importance_score m, v_confidence = confidence_score m,
      change_type = kind, change_reason = reason, changed_by = by\<rparr>"

definition record_version ::
  "memory \<Rightarrow> string \<Rightarrow> string option \<Rightarrow> string \<Rightarrow> db \<Rightarrow> version_error + (memory_version \<times> db)" where
  "record_version m kind reason by d =
     (case validate_change kind by of
        Some err \<Rightarrow> Inl err
      | None \<Rightarrow>
          (let v = version_of m kind reason by d
           in Inr (v, d\<lparr>versions := versions d @ [v], next_id := Suc (next_id d)\<rparr>)))"

definition safe_record_version ::
  "memory \<Rightarrow> string \<Rightarrow> string option \<Rightarrow> string \<Rightarrow> db \<Rightarrow> memory_version option \<times> db" where
  "safe_record_version m kind reason by d =
     (case record_version m kind reason by d of Inl _ \<Rightarrow> (None, d) | Inr (v, d') \<Rightarrow> (Some v, d'))"

section \<open>Reading\<close>

definition verify_memory_tenant :: "uuid \<Rightarrow> uuid \<Rightarrow> db \<Rightarrow> version_error + memory" where
  "verify_memory_tenant i tenant d =
     (case get_memory i d of
        None \<Rightarrow> Inl PermissionError
      | Some m \<Rightarrow>
          (case find_row (\<lambda>p. p_id p = m_proxy_user_id m \<and> p_tenant_id p = tenant \<and> \<not> is_blocked p) (proxy_users d) of
             None \<Rightarrow> Inl PermissionError
           | Some _ \<Rightarrow> Inr m))"

definition get_history :: "uuid \<Rightarrow> uuid \<Rightarrow> db \<Rightarrow> version_error + memory_version list" where
  "get_history i tenant d =
     (case verify_memory_tenant i tenant d of
        Inl err \<Rightarrow> Inl err
      | Inr _ \<Rightarrow> Inr (sort_key version_number (filter (\<lambda>v. v_memory_id v = i) (versions d))))"

text \<open>
  The user export: the memories of a proxy user ordered by creation and id, each with its
  versions in order (the query orders by memory and number, and the loop distributes the rows
  to their memories). The tenant must own the proxy user. The column \<open>updated_at\<close>, which the
  database maintains, is not part of the row model.
\<close>

record exported_memory =
  x_id :: uuid
  x_content :: string
  x_category :: string
  x_importance_score :: pyfloat
  x_confidence :: pyfloat
  x_is_archived :: bool
  x_created_at :: utc
  x_versions :: "memory_version list"

definition get_user_data_export :: "uuid \<Rightarrow> uuid \<Rightarrow> db \<Rightarrow> version_error + exported_memory list" where
  "get_user_data_export proxy tenant d =
     (case find_row (\<lambda>p. p_id p = proxy) (proxy_users d) of
        None \<Rightarrow> Inl PermissionError
      | Some p \<Rightarrow>
          if p_tenant_id p \<noteq> tenant then Inl PermissionError
          else
            (let ms = sort_key created_at (sort_key m_id
                        (filter (\<lambda>m. m_proxy_user_id m = proxy) (memories d)));
                 vs = sort_key version_number (filter (\<lambda>v. v_memory_id v \<in> m_id ` set ms) (versions d))
             in Inr (map (\<lambda>m. \<lparr>x_id = m_id m, x_content = content m,
                               x_category = category_value (category m),
                               x_importance_score = importance_score m,
                               x_confidence = confidence_score m, x_is_archived = is_archived m,
                               x_created_at = created_at m,
                               x_versions = filter (\<lambda>v. v_memory_id v = m_id m) vs\<rparr>) ms)))"

section \<open>Universal memories\<close>

text \<open>
  Passport memories keep their own version table. The text of a version is also stored under
  the owner's envelope; \<open>encrypt owner record value\<close> stands for
  \<open>encrypt_universal_text_for_dual_write\<close>, which ends in a key management service and may
  raise (\<open>None\<close>).
\<close>

record universal_memory =
  u_id :: uuid
  u_user_uui_id :: uuid
  u_content :: string
  u_category :: memory_category
  u_importance_score :: pyfloat
  u_confidence :: pyfloat

record universal_version =
  uv_id :: uuid
  universal_memory_id :: uuid
  uv_number :: int
  uv_content :: string
  uv_content_envelope :: pyval
  uv_category :: string
  uv_importance_score :: pyfloat
  uv_confidence :: pyfloat
  uv_change_type :: string
  uv_change_reason :: "string option"
  uv_changed_by :: string
  changed_by_agent_id :: "uuid option"

record universal_db =
  u_memories :: "universal_memory list"
  u_versions :: "universal_version list"
  u_next_id :: uuid

definition allowed_universal_change_types :: "string list" where
  "allowed_universal_change_types =
     [''created'', ''user_corrected'', ''user_removed'', ''conflict_resolved'', ''agent_updated'',
      ''importance_decay'', ''importance_boost'', ''archived'']"

definition allowed_universal_changed_by :: "string list" where
  "allowed_universal_changed_by = [''system'', ''user'', ''agent'']"

definition validate_universal_change :: "string \<Rightarrow> string \<Rightarrow> version_error option" where
  "validate_universal_change kind by =
     (if kind \<notin> set allowed_universal_change_types then Some (InvalidChangeType kind)
      else if by \<notin> set allowed_universal_changed_by then Some (InvalidChangedBy by)
      else None)"

definition next_universal_version_number :: "uuid \<Rightarrow> universal_db \<Rightarrow> int" where
  "next_universal_version_number i u =
     fold (\<lambda>v n. max n (uv_number v)) (filter (\<lambda>v. universal_memory_id v = i) (u_versions u)) 0 + 1"

definition record_universal_version ::
  "(uuid \<Rightarrow> uuid \<Rightarrow> string \<Rightarrow> pyval option) \<Rightarrow> universal_memory \<Rightarrow> string \<Rightarrow> string option \<Rightarrow>
     string \<Rightarrow> uuid option \<Rightarrow> universal_db \<Rightarrow> version_error + (universal_version \<times> universal_db)" where
  "record_universal_version encrypt m kind reason by agent u =
     (case validate_universal_change kind by of
        Some err \<Rightarrow> Inl err
      | None \<Rightarrow>
          (case encrypt (u_user_uui_id m) (u_next_id u) (u_content m) of
             None \<Rightarrow> Inl EncryptionError
           | Some envelope \<Rightarrow>
               (let v = \<lparr>uv_id = u_next_id u, universal_memory_id = u_id m,
                         uv_number = next_universal_version_number (u_id m) u,
                         uv_content = u_content m, uv_content_envelope = envelope,
                         uv_category = category_value (u_category m),
                         uv_importance_score = u_importance_score m, uv_confidence = u_confidence m,
                         uv_change_type = kind, uv_change_reason = reason, uv_changed_by = by,
                         changed_by_agent_id = agent\<rparr>
                in Inr (v, u\<lparr>u_versions := u_versions u @ [v], u_next_id := Suc (u_next_id u)\<rparr>))))"

definition get_universal_history :: "uuid \<Rightarrow> uuid \<Rightarrow> universal_db \<Rightarrow> version_error + universal_version list" where
  "get_universal_history i owner u =
     (case find_row (\<lambda>m. u_id m = i) (u_memories u) of
        None \<Rightarrow> Inl PermissionError
      | Some m \<Rightarrow>
          if u_user_uui_id m \<noteq> owner then Inl PermissionError
          else Inr (sort_key uv_number (filter (\<lambda>v. universal_memory_id v = i) (u_versions u))))"

section \<open>The history of a memory\<close>

definition history_numbers :: "uuid \<Rightarrow> db \<Rightarrow> int list" where
  "history_numbers i d = map version_number (filter (\<lambda>v. v_memory_id v = i) (versions d))"

definition histories_ok :: "db \<Rightarrow> bool" where
  "histories_ok d \<longleftrightarrow> (\<forall>i. history_numbers i d = map int [1..<Suc (length (history_numbers i d))])"

text \<open>
  What the components that record versions rely on: a log that numbers the accepted entries
  of each subject consecutively, ignores the entries it rejects, and never touches the
  entries of another subject.
\<close>

locale numbered_log =
  fixes numbers :: "'k \<Rightarrow> 's \<Rightarrow> int list"
    and subject :: "'e \<Rightarrow> 'k"
    and accepts :: "'e \<Rightarrow> bool"
    and record_entry :: "'e \<Rightarrow> 's \<Rightarrow> 's"
    and ok :: "'s \<Rightarrow> bool"
  assumes ok_numbers: "ok s \<Longrightarrow> numbers k s = map int [1..<Suc (length (numbers k s))]"
    and record_ok: "ok s \<Longrightarrow> ok (record_entry e s)"
    and record_length: "ok s \<Longrightarrow> length (numbers k (record_entry e s)) =
          length (numbers k s) + (if accepts e \<and> subject e = k then 1 else 0)"
begin

lemma record_appends:
  "ok s \<Longrightarrow> accepts e \<Longrightarrow>
     numbers (subject e) (record_entry e s) =
       numbers (subject e) s @ [int (length (numbers (subject e) s)) + 1]"
  using ok_numbers [OF record_ok, of s "subject e" e] ok_numbers [of s "subject e"]
    record_length [of s "subject e" e]
  by (simp add: upt_Suc_append)

lemma record_frame:
  assumes "ok s" and "\<not> accepts e \<or> subject e \<noteq> k"
  shows "numbers k (record_entry e s) = numbers k s"
proof -
  have "length (numbers k (record_entry e s)) = length (numbers k s)"
    using record_length [OF assms(1), of k e] assms(2) by auto
  then show ?thesis
    using ok_numbers [OF assms(1), of k] ok_numbers [OF record_ok [OF assms(1)], of k e] by simp
qed

lemma records_ok: "ok s \<Longrightarrow> ok (fold record_entry es s)"
  by (induction es arbitrary: s) (auto intro: record_ok)

lemma records_count:
  "ok s \<Longrightarrow> length (numbers k (fold record_entry es s)) =
     length (numbers k s) + length (filter (\<lambda>e. accepts e \<and> subject e = k) es)"
  by (induction es arbitrary: s) (auto simp: record_length record_ok)

lemma records_numbers:
  assumes "ok s"
  shows "numbers k (fold record_entry es s) =
     map int [1..<Suc (length (numbers k s) + length (filter (\<lambda>e. accepts e \<and> subject e = k) es))]"
  using ok_numbers [OF records_ok [OF assms], of k es] records_count [OF assms, of k es] by simp

end

section \<open>Lemmas\<close>

lemma fold_max_upt: "fold (\<lambda>x n. max n x) (map int [1..<Suc k]) (0::int) = int k"
  by (induction k) auto

lemma next_version_number_ok:
  assumes "histories_ok d"
  shows "next_version_number i d = int (length (history_numbers i d)) + 1"
proof -
  let ?vs = "filter (\<lambda>v. v_memory_id v = i) (versions d)"
  have "fold (\<lambda>v n. max n (version_number v)) ?vs 0 = fold (\<lambda>x n. max n x) (history_numbers i d) (0::int)"
    by (simp add: history_numbers_def fold_map comp_def)
  also have "\<dots> = int (length (history_numbers i d))"
    using assms fold_max_upt [of "length (history_numbers i d)"] unfolding histories_ok_def by metis
  finally show ?thesis by (simp add: next_version_number_def)
qed

lemma record_version_numbers:
  assumes "record_version m kind reason by d = Inr (v, d')"
  shows "history_numbers i d' = history_numbers i d @ (if i = m_id m then [next_version_number i d] else [])"
  using assms by (auto simp: record_version_def version_of_def history_numbers_def Let_def split: option.splits)

lemma record_version_ok:
  assumes "histories_ok d" and "record_version m kind reason by d = Inr (v, d')"
  shows "histories_ok d'"
  unfolding histories_ok_def
proof
  fix i
  have "history_numbers i d = map int [1..<Suc (length (history_numbers i d))]"
    using assms(1) by (simp add: histories_ok_def)
  then show "history_numbers i d' = map int [1..<Suc (length (history_numbers i d'))]"
    using record_version_numbers [OF assms(2), of i] next_version_number_ok [OF assms(1), of i]
    by (auto simp: upt_Suc_append)
qed

lemma safe_record_version_ok: "histories_ok d \<Longrightarrow> histories_ok (snd (safe_record_version m kind reason by d))"
  by (auto simp: safe_record_version_def record_version_ok split: sum.splits)

lemma safe_record_version_frames [simp]:
  "memories (snd (safe_record_version m k r b d)) = memories d"
  "claims (snd (safe_record_version m k r b d)) = claims d"
  "revisions (snd (safe_record_version m k r b d)) = revisions d"
  "outbox (snd (safe_record_version m k r b d)) = outbox d"
  "proxy_users (snd (safe_record_version m k r b d)) = proxy_users d"
  "db_now (snd (safe_record_version m k r b d)) = db_now d"
  by (auto simp: safe_record_version_def record_version_def Let_def split: option.splits sum.splits)

lemma safe_record_version_next_id: "next_id d \<le> next_id (snd (safe_record_version m k r b d))"
  by (auto simp: safe_record_version_def record_version_def Let_def split: option.splits sum.splits)

section \<open>Both logs\<close>

text \<open>
  An entry of the log is a memory with the change recorded for it; recording ignores the
  outcome, as the callers of the \<open>safe\<close> variants do.
\<close>

type_synonym change = "memory \<times> string \<times> string option \<times> string"

definition record_change :: "change \<Rightarrow> db \<Rightarrow> db" where
  "record_change e d = (case e of (m, kind, reason, by) \<Rightarrow> snd (safe_record_version m kind reason by d))"

definition change_accepted :: "change \<Rightarrow> bool" where
  "change_accepted e = (case e of (m, kind, reason, by) \<Rightarrow> validate_change kind by = None)"

lemma record_change_length:
  "length (history_numbers k (record_change e d)) =
     length (history_numbers k d) + (if change_accepted e \<and> m_id (fst e) = k then 1 else 0)"
  by (auto simp: record_change_def change_accepted_def safe_record_version_def record_version_def
      history_numbers_def version_of_def Let_def split: prod.splits option.splits)

interpretation version_log: numbered_log history_numbers "\<lambda>e. m_id (fst e)" change_accepted record_change histories_ok
proof unfold_locales
  show "histories_ok s \<Longrightarrow> history_numbers k s = map int [1..<Suc (length (history_numbers k s))]" for s k
    by (simp add: histories_ok_def)
  show "histories_ok s \<Longrightarrow> histories_ok (record_change e s)" for s e
    by (auto simp: record_change_def safe_record_version_ok split: prod.splits)
qed (rule record_change_length)

type_synonym universal_change = "universal_memory \<times> string \<times> string option \<times> string \<times> uuid option \<times> (uuid \<Rightarrow> uuid \<Rightarrow> string \<Rightarrow> pyval)"

definition universal_numbers :: "uuid \<Rightarrow> universal_db \<Rightarrow> int list" where
  "universal_numbers i u = map uv_number (filter (\<lambda>v. universal_memory_id v = i) (u_versions u))"

definition universal_ok :: "universal_db \<Rightarrow> bool" where
  "universal_ok u \<longleftrightarrow> (\<forall>i. universal_numbers i u = map int [1..<Suc (length (universal_numbers i u))])"

definition record_universal_change :: "universal_change \<Rightarrow> universal_db \<Rightarrow> universal_db" where
  "record_universal_change e u =
     (case e of (m, kind, reason, by, agent, encrypt) \<Rightarrow>
        case record_universal_version (\<lambda>a b c. Some (encrypt a b c)) m kind reason by agent u of
          Inl _ \<Rightarrow> u | Inr (_, u') \<Rightarrow> u')"

definition universal_change_accepted :: "universal_change \<Rightarrow> bool" where
  "universal_change_accepted e =
     (case e of (m, kind, reason, by, agent, encrypt) \<Rightarrow> validate_universal_change kind by = None)"

lemma record_universal_numbers:
  "universal_numbers k (record_universal_change e u) = universal_numbers k u @
     (if universal_change_accepted e \<and> u_id (fst e) = k then [next_universal_version_number k u] else [])"
  by (auto simp: record_universal_change_def universal_change_accepted_def record_universal_version_def
      universal_numbers_def Let_def split: prod.splits option.splits)

lemma next_universal_version_number_ok:
  assumes "universal_ok u"
  shows "next_universal_version_number i u = int (length (universal_numbers i u)) + 1"
proof -
  let ?vs = "filter (\<lambda>v. universal_memory_id v = i) (u_versions u)"
  have "fold (\<lambda>v n. max n (uv_number v)) ?vs 0 = fold (\<lambda>x n. max n x) (universal_numbers i u) (0::int)"
    by (simp add: universal_numbers_def fold_map comp_def)
  also have "\<dots> = int (length (universal_numbers i u))"
    using assms fold_max_upt [of "length (universal_numbers i u)"] unfolding universal_ok_def by metis
  finally show ?thesis by (simp add: next_universal_version_number_def)
qed

lemma record_universal_ok:
  assumes "universal_ok u"
  shows "universal_ok (record_universal_change e u)"
  unfolding universal_ok_def
proof
  fix i
  have "universal_numbers i u = map int [1..<Suc (length (universal_numbers i u))]"
    using assms by (simp add: universal_ok_def)
  then show "universal_numbers i (record_universal_change e u) =
      map int [1..<Suc (length (universal_numbers i (record_universal_change e u)))]"
    using record_universal_numbers [of i e u] next_universal_version_number_ok [OF assms, of i]
    by (auto simp: upt_Suc_append)
qed

interpretation universal_log: numbered_log universal_numbers "\<lambda>e. u_id (fst e)" universal_change_accepted
  record_universal_change universal_ok
proof unfold_locales
  show "universal_ok s \<Longrightarrow> universal_numbers k s = map int [1..<Suc (length (universal_numbers k s))]" for s k
    by (simp add: universal_ok_def)
  show "universal_ok s \<Longrightarrow> universal_ok (record_universal_change e s)" for s e
    by (rule record_universal_ok)
  show "universal_ok s \<Longrightarrow> length (universal_numbers k (record_universal_change e s)) =
      length (universal_numbers k s) + (if universal_change_accepted e \<and> u_id (fst e) = k then 1 else 0)" for s k e
    using record_universal_numbers [of k e s] by auto
qed

section \<open>Properties\<close>

lemma sort_key_map_sorted: "map f xs = map int [1..<Suc n] \<Longrightarrow> sort_key f xs = xs"
proof -
  assume a: "map f xs = map int [1..<Suc n]"
  have "sorted (map int [1..<Suc n])" by (auto simp: sorted_iff_nth_mono simp del: upt_Suc)
  then have "sorted (map f xs)" by (simp only: a)
  then show ?thesis by (rule sort_key_id_if_sorted)
qed

lemma get_history_Inr:
  "get_history i tenant d = Inr vs \<Longrightarrow> vs = sort_key version_number (filter (\<lambda>v. v_memory_id v = i) (versions d))"
  by (auto simp: get_history_def split: sum.splits)

text \<open>
  However many changes, accepted or rejected, are recorded on a database whose histories
  are in order, the history the service returns for a memory carries the numbers 1, 2, ... in
  that order, without gaps or duplicates, one for each version the memory had and each change
  of it that was accepted.
\<close>

theorem history_is_consecutive:
  assumes "histories_ok d" and "get_history i tenant (fold record_change es d) = Inr vs"
  shows "map version_number vs =
    map int [1..<Suc (length (history_numbers i d) + length (filter (\<lambda>e. change_accepted e \<and> m_id (fst e) = i) es))]"
proof -
  let ?d = "fold record_change es d"
  have n: "history_numbers i ?d =
    map int [1..<Suc (length (history_numbers i d) + length (filter (\<lambda>e. change_accepted e \<and> m_id (fst e) = i) es))]"
    by (rule version_log.records_numbers [OF assms(1)])
  have "vs = filter (\<lambda>v. v_memory_id v = i) (versions ?d)"
    using get_history_Inr [OF assms(2)] sort_key_map_sorted [OF n [unfolded history_numbers_def]]
    by (simp add: history_numbers_def)
  then show ?thesis using n by (simp add: history_numbers_def)
qed

text \<open>
  A tenant reads the history of a memory only if the memory belongs to one of its own
  proxy users that is not blocked: every other request is refused with a permission error.
\<close>

theorem foreign_history_refused:
  assumes "\<And>m p. get_memory i d = Some m \<Longrightarrow> p \<in> set (proxy_users d) \<Longrightarrow> p_id p = m_proxy_user_id m \<Longrightarrow>
           p_tenant_id p \<noteq> tenant \<or> is_blocked p"
  shows "get_history i tenant d = Inl PermissionError"
proof (cases "get_memory i d")
  case (Some m)
  then have "find_row (\<lambda>p. p_id p = m_proxy_user_id m \<and> p_tenant_id p = tenant \<and> \<not> is_blocked p) (proxy_users d) = None"
    unfolding find_row_None using assms by blast
  with Some show ?thesis by (simp add: get_history_def verify_memory_tenant_def)
qed (simp add: get_history_def verify_memory_tenant_def)

lemma example_db_ok: "histories_ok example_db"
  by (simp add: histories_ok_def history_numbers_def example_db_def)

lemma example_history_read:
  "get_history 1 90 (fold record_change es example_db) =
     Inr (sort_key version_number (filter (\<lambda>v. v_memory_id v = 1) (versions (fold record_change es example_db))))"
proof -
  have mem: "memories (fold record_change es d) = memories d"
    and pu: "proxy_users (fold record_change es d) = proxy_users d" for d
    by (induction es arbitrary: d) (auto simp: record_change_def split: prod.splits)
  have "get_memory 1 (fold record_change es example_db) = Some example_memory"
    by (simp add: get_memory_def mem example_db_def find_row_def example_memory_def)
  moreover have "find_row (\<lambda>p. p_id p = 80 \<and> p_tenant_id p = 90 \<and> \<not> is_blocked p)
      (proxy_users (fold record_change es example_db)) \<noteq> None"
    by (simp add: pu example_db_def find_row_def)
  ultimately show ?thesis
    by (auto simp: get_history_def verify_memory_tenant_def example_memory_def split: option.splits)
qed

theorem history_is_consecutive_witness:
  "map version_number (sort_key version_number (filter (\<lambda>v. v_memory_id v = 1) (versions (fold record_change
      [(example_memory, ''created'', None, ''system''), (example_memory, ''renamed'', None, ''system''),
       (example_memory, ''archived'', None, ''user'')] example_db)))) = [1, 2]"
  using history_is_consecutive [OF example_db_ok example_history_read, of
      "[(example_memory, ''created'', None, ''system''), (example_memory, ''renamed'', None, ''system''),
       (example_memory, ''archived'', None, ''user'')]"]
  by (simp add: history_numbers_def example_db_def change_accepted_def validate_change_def
      allowed_change_types_def allowed_changed_by_def example_memory_def upt_rec)

theorem foreign_history_refused_witness: "get_history 1 91 example_db = Inl PermissionError"
  by (rule foreign_history_refused) (simp_all add: example_db_def)

end
