(* ===== verification/VectorStore.thy ===== *)
theory VectorStore
  imports Storage Circuit
begin

text \<open>
  The vector store: \<open>QdrantService\<close> of \<open>src/api/db/vector_store.py\<close>. Every request goes to the
  Qdrant client through the circuit breaker; \<open>_with_retries\<close> repeats it after connection errors.

  The client library and the server are not part of the repository. A client is the argument
  \<open>client\<close>: it maps the number of the request, the request and the server's state to an
  outcome and a new server state, so it may answer, fail before or after taking effect, and
  change its mind between two requests. A client answers a request with the kind of answer
  that belongs to it; the readers below fall back to the empty answer otherwise. The request
  counter also selects the clock and the Redis availability the breaker sees.
\<close>

section \<open>Requests and answers\<close>

type_synonym payload_dict = "(string \<times> pyval) list"

datatype condition = FieldMatch string pyval | FieldSince string pyval

datatype schema_type = Keyword | FloatSchema | BoolSchema | DatetimeSchema

record point =
  pt_id :: uuid
  pt_vector :: "pyfloat list"
  pt_payload :: payload_dict

record scored_point =
  sp_id :: uuid
  sp_score :: pyfloat
  sp_payload :: payload_dict

datatype qcommand =
    CollectionExists string
  | CreateCollection string int
  | CreatePayloadIndex string string schema_type
  | UpsertPoints string "point list"
  | SetPayload string payload_dict "uuid list"
  | DeleteIds string "uuid list"
  | DeleteWhere string "condition list"
  | CountWhere string "condition list"
  | QueryPoints string "pyfloat list" "condition list" int

datatype qanswer = Ack | Exists bool | Hits "scored_point list" | CountIs int | SearchUnavailable

datatype qerror =
    ResponseHandling string
  | ConnectionFailure string
  | CircuitOpen
  | VectorSearchUnavailable
  | OwnerRequired
  | RetriesWithoutResult
  | OtherFailure string

record 'i qdrant_env =
  client :: "nat \<Rightarrow> qcommand \<Rightarrow> 'i \<Rightarrow> (qanswer, qerror) fn_outcome \<times> 'i"
  breaker_env :: "nat \<Rightarrow> env \<times> env"

record 'i vstate =
  index :: 'i
  qbreaker :: world
  calls :: nat
  initialized_collections :: "string list"

definition exists_of :: "qanswer \<Rightarrow> bool" where
  "exists_of a = (case a of Exists b \<Rightarrow> b | _ \<Rightarrow> False)"

definition hits_of :: "qanswer \<Rightarrow> scored_point list" where
  "hits_of a = (case a of Hits ps \<Rightarrow> ps | _ \<Rightarrow> [])"

definition count_of :: "qanswer \<Rightarrow> int" where
  "count_of a = (case a of CountIs n \<Rightarrow> n | _ \<Rightarrow> 0)"

definition collection_name_default :: string where
  "collection_name_default = ''memories''"

definition universal_collection_name :: string where
  "universal_collection_name = ''universal_memories''"

definition vector_size :: int where
  "vector_size = 1536"

definition max_retries :: nat where
  "max_retries = 3"

section \<open>Guarded requests\<close>

text \<open>One \<open>breaker.call_sync\<close>: the client is reached only when the breaker lets the call through.\<close>

definition guarded ::
  "'i qdrant_env \<Rightarrow> qcommand \<Rightarrow> qanswer option \<Rightarrow> 'i vstate \<Rightarrow> (qanswer, qerror) call_result \<times> 'i vstate" where
  "guarded q cmd fb s =
     (let (out, i') = client q (calls s) cmd (index s);
          (e1, e2) = breaker_env q (calls s);
          ((res, invoked), w') = call_sync e1 e2 out fb (qbreaker s)
      in (res, s\<lparr>index := (if invoked then i' else index s), qbreaker := w', calls := Suc (calls s)\<rparr>))"

text \<open>
  \<open>_with_retries\<close>: the loop over the attempts that are left, and what follows the loop. A
  fallback that raises is represented by the answer \<^const>\<open>SearchUnavailable\<close>. The pause
  between two attempts is not modelled.
\<close>

definition after_retries :: "'i qdrant_env \<Rightarrow> qanswer option \<Rightarrow> qerror option \<Rightarrow> 'i vstate \<Rightarrow> (qerror + qanswer) \<times> 'i vstate" where
  "after_retries q fb err s =
     (let (st, w') = current_state (fst (breaker_env q (calls s))) (qbreaker s);
          s' = s\<lparr>qbreaker := w'\<rparr>
      in case (st = ''OPEN'', fb, err) of
           (True, Some v, _) \<Rightarrow> (Inr v, s')
         | (_, _, Some x) \<Rightarrow> (Inl x, s')
         | _ \<Rightarrow> (Inl RetriesWithoutResult, s'))"

fun retry_loop ::
  "'i qdrant_env \<Rightarrow> qcommand \<Rightarrow> qanswer option \<Rightarrow> bool \<Rightarrow> nat \<Rightarrow> qerror option \<Rightarrow> 'i vstate \<Rightarrow> (qerror + qanswer) \<times> 'i vstate" where
  "retry_loop q cmd fb fb_on_error 0 err s = after_retries q fb err s"
| "retry_loop q cmd fb fb_on_error (Suc k) err s =
     (case guarded q cmd fb s of
        (Value v, s') \<Rightarrow> (Inr v, s')
      | (Fallback v, s') \<Rightarrow> (Inr v, s')
      | (CircuitOpenError, s') \<Rightarrow> ((case fb of Some v \<Rightarrow> Inr v | None \<Rightarrow> Inl CircuitOpen), s')
      | (Failed x, s') \<Rightarrow>
          (case x of
             ResponseHandling m \<Rightarrow>
               (case (fb_on_error, fb) of
                  (True, Some v) \<Rightarrow> (Inr v, s'\<lparr>qbreaker := force_open (snd (breaker_env q (calls s))) (qbreaker s')\<rparr>)
                | _ \<Rightarrow> (Inl x, s'))
           | ConnectionFailure m \<Rightarrow> retry_loop q cmd fb fb_on_error k (Some x) s'
           | _ \<Rightarrow> (Inl x, s')))"

definition with_retries ::
  "'i qdrant_env \<Rightarrow> qcommand \<Rightarrow> qanswer option \<Rightarrow> bool \<Rightarrow> 'i vstate \<Rightarrow> (qerror + qanswer) \<times> 'i vstate" where
  "with_retries q cmd fb fb_on_error s = retry_loop q cmd fb fb_on_error max_retries None s"

section \<open>Collections\<close>

definition payload_indexes_for_collection :: "string \<Rightarrow> (string \<times> schema_type) list" where
  "payload_indexes_for_collection c =
     (if c = universal_collection_name
      then [(''user_uui_id'', Keyword), (''source_agent_id'', Keyword), (''category'', Keyword),
            (''importance_score'', FloatSchema), (''is_archived'', BoolSchema), (''created_at'', DatetimeSchema)]
      else [(''tenant_id'', Keyword), (''proxy_user_id'', Keyword), (''agent_id'', Keyword), (''category'', Keyword),
            (''importance_score'', FloatSchema), (''is_archived'', BoolSchema), (''created_at'', DatetimeSchema)])"

fun create_indexes ::
  "'i qdrant_env \<Rightarrow> string \<Rightarrow> (string \<times> schema_type) list \<Rightarrow> 'i vstate \<Rightarrow> (qerror + unit) \<times> 'i vstate" where
  "create_indexes q c [] s = (Inr (), s)"
| "create_indexes q c ((f, t) # fs) s =
     (case with_retries q (CreatePayloadIndex c f t) None False s of
        (Inl x, s') \<Rightarrow> (Inl x, s')
      | (Inr _, s') \<Rightarrow> create_indexes q c fs s')"

definition ensure_collection :: "'i qdrant_env \<Rightarrow> string \<Rightarrow> int \<Rightarrow> 'i vstate \<Rightarrow> (qerror + unit) \<times> 'i vstate" where
  "ensure_collection q c sz s =
     (case with_retries q (CollectionExists c) None False s of
        (Inl x, s1) \<Rightarrow> (Inl x, s1)
      | (Inr a, s1) \<Rightarrow>
          (case (if exists_of a then (Inr Ack, s1) else with_retries q (CreateCollection c sz) None False s1) of
             (Inl x, s2) \<Rightarrow> (Inl x, s2)
           | (Inr _, s2) \<Rightarrow> create_indexes q c (payload_indexes_for_collection c) s2))"

definition ensure_collection_if_possible ::
  "'i qdrant_env \<Rightarrow> string option \<Rightarrow> int option \<Rightarrow> 'i vstate \<Rightarrow> 'i vstate" where
  "ensure_collection_if_possible q name sz s =
     (let c = (case name of None \<Rightarrow> collection_name_default | Some n \<Rightarrow> if n = [] then collection_name_default else n);
          n = int_or sz vector_size
      in if c \<in> set (initialized_collections s) then s
         else case ensure_collection q c n s of
                (Inl _, s') \<Rightarrow> s'
              | (Inr _, s') \<Rightarrow> s'\<lparr>initialized_collections := c # initialized_collections s'\<rparr>)"

section \<open>Writing\<close>

text \<open>\<open>str_of\<close> is \<open>str(x)\<close> on a payload value that is not a string.\<close>

definition payload_collection :: "(pyval \<Rightarrow> string) \<Rightarrow> payload_dict \<Rightarrow> string" where
  "payload_collection str_of p =
     (case py_or (dget p ''qdrant_collection'' PNone) (PStr collection_name_default) of
        PStr c \<Rightarrow> c | v \<Rightarrow> str_of v)"

definition upsert_memory ::
  "(pyval \<Rightarrow> string) \<Rightarrow> 'i qdrant_env \<Rightarrow> uuid \<Rightarrow> pyfloat list \<Rightarrow> payload_dict \<Rightarrow> string option \<Rightarrow> int option \<Rightarrow>
     'i vstate \<Rightarrow> (qerror + bool) \<times> 'i vstate" where
  "upsert_memory str_of q i emb p name sz s =
     (let c = (case name of None \<Rightarrow> payload_collection str_of p
                | Some n \<Rightarrow> if n = [] then payload_collection str_of p else n);
          n = int_or sz (if emb = [] then vector_size else int (length emb))
      in case with_retries q (UpsertPoints c [\<lparr>pt_id = i, pt_vector = emb, pt_payload = p\<rparr>]) None False
                (ensure_collection_if_possible q (Some c) (Some n) s) of
           (Inl x, s') \<Rightarrow> (Inl x, s')
         | (Inr _, s') \<Rightarrow> (Inr True, s'))"

definition delete_memory :: "'i qdrant_env \<Rightarrow> uuid \<Rightarrow> string option \<Rightarrow> 'i vstate \<Rightarrow> (qerror + bool) \<times> 'i vstate" where
  "delete_memory q i name s =
     (let c = (case name of None \<Rightarrow> collection_name_default | Some n \<Rightarrow> if n = [] then collection_name_default else n)
      in case with_retries q (DeleteIds c [i]) None False (ensure_collection_if_possible q (Some c) None s) of
           (Inl x, s') \<Rightarrow> (Inl x, s')
         | (Inr _, s') \<Rightarrow> (Inr True, s'))"

text \<open>Counting and then deleting by filter, the step the three bulk deletions share.\<close>

definition delete_filtered :: "'i qdrant_env \<Rightarrow> string \<Rightarrow> condition list \<Rightarrow> 'i vstate \<Rightarrow> (qerror + int) \<times> 'i vstate" where
  "delete_filtered q c conds s =
     (case with_retries q (CountWhere c conds) None False s of
        (Inl x, s1) \<Rightarrow> (Inl x, s1)
      | (Inr a, s1) \<Rightarrow>
          if count_of a = 0 then (Inr 0, s1)
          else (case with_retries q (DeleteWhere c conds) None False s1 of
                  (Inl x, s2) \<Rightarrow> (Inl x, s2)
                | (Inr _, s2) \<Rightarrow> (Inr (count_of a), s2)))"

definition delete_user_memories :: "'i qdrant_env \<Rightarrow> uuid \<Rightarrow> 'i vstate \<Rightarrow> (qerror + int) \<times> 'i vstate" where
  "delete_user_memories q user s =
     delete_filtered q collection_name_default [FieldMatch ''user_id'' (PInt (int user))]
       (ensure_collection_if_possible q (Some collection_name_default) None s)"

definition delete_universal_user_memories :: "'i qdrant_env \<Rightarrow> uuid \<Rightarrow> string \<Rightarrow> 'i vstate \<Rightarrow> (qerror + int) \<times> 'i vstate" where
  "delete_universal_user_memories q user c s =
     delete_filtered q c [FieldMatch ''user_uui_id'' (PInt (int user))]
       (ensure_collection_if_possible q (Some c) None s)"

fun delete_in_collections ::
  "'i qdrant_env \<Rightarrow> condition list \<Rightarrow> string list \<Rightarrow> int \<Rightarrow> 'i vstate \<Rightarrow> (qerror + int) \<times> 'i vstate" where
  "delete_in_collections q conds [] n s = (Inr n, s)"
| "delete_in_collections q conds (c # cs) n s =
     (case delete_filtered q c conds s of
        (Inl x, s') \<Rightarrow> (Inl x, s')
      | (Inr k, s') \<Rightarrow> delete_in_collections q conds cs (n + k) s')"

definition owner_conditions :: "uuid \<Rightarrow> uuid \<Rightarrow> condition list" where
  "owner_conditions tenant proxy =
     [FieldMatch ''tenant_id'' (PInt (int tenant)), FieldMatch ''proxy_user_id'' (PInt (int proxy))]"

definition delete_proxy_user_memories ::
  "'i qdrant_env \<Rightarrow> uuid \<Rightarrow> uuid \<Rightarrow> string list \<Rightarrow> 'i vstate \<Rightarrow> (qerror + int) \<times> 'i vstate" where
  "delete_proxy_user_memories q tenant proxy names s =
     (let cs = (if names = [] then [collection_name_default] else names)
      in delete_in_collections q (owner_conditions tenant proxy) cs 0
           (fold (\<lambda>c. ensure_collection_if_possible q (Some c) None) cs s))"

section \<open>Searching\<close>

definition search_conditions ::
  "uuid option \<Rightarrow> uuid option \<Rightarrow> uuid option \<Rightarrow> string option \<Rightarrow> uuid option \<Rightarrow> bool \<Rightarrow> pyval option \<Rightarrow> condition list option" where
  "search_conditions tenant proxy user cat agent include_archived since =
     (case (case (tenant, proxy, user) of
              (Some t, Some p, _) \<Rightarrow> Some (owner_conditions t p)
            | (_, _, Some u) \<Rightarrow> Some [FieldMatch ''user_id'' (PInt (int u))]
            | _ \<Rightarrow> None) of
        None \<Rightarrow> None
      | Some owner \<Rightarrow>
          Some (owner
            @ (case cat of None \<Rightarrow> [] | Some c \<Rightarrow> [FieldMatch ''category'' (PStr c)])
            @ (case agent of None \<Rightarrow> [] | Some a \<Rightarrow> [FieldMatch ''agent_id'' (PInt (int a))])
            @ (if include_archived then [] else [FieldMatch ''is_archived'' (PBool False)])
            @ (case since of None \<Rightarrow> [] | Some v \<Rightarrow> [FieldSince ''created_at'' v])))"

text \<open>\<open>merged_points\<close>: a dictionary keyed by point id that keeps the better-scored point.\<close>

definition merge_point :: "scored_point \<Rightarrow> (uuid \<times> scored_point) list \<Rightarrow> (uuid \<times> scored_point) list" where
  "merge_point p m =
     (case map_of m (sp_id p) of
        None \<Rightarrow> AList.update (sp_id p) p m
      | Some old \<Rightarrow> if sp_score p > sp_score old then AList.update (sp_id p) p m else m)"

definition take_limit :: "int \<Rightarrow> 'a list \<Rightarrow> 'a list" where
  "take_limit n xs = take (nat (if 0 \<le> n then n else int (length xs) + n)) xs"

definition ranked :: "int \<Rightarrow> (uuid \<times> scored_point) list \<Rightarrow> scored_point list" where
  "ranked n m = take_limit n (sort_key (\<lambda>p. - sp_score p) (map snd m))"

record search_request =
  query_embedding :: "pyfloat list"
  sr_tenant :: "uuid option"
  sr_proxy_user :: "uuid option"
  sr_user :: "uuid option"
  sr_limit :: int
  category_filter :: "string option"
  sr_agent :: "uuid option"
  include_archived :: bool
  sr_collection :: "string option"
  sr_collections :: "string list"
  created_after :: "pyval option"
  require_available :: bool

definition target_collections :: "search_request \<Rightarrow> string list" where
  "target_collections r =
     (if sr_collections r \<noteq> [] then sr_collections r
      else [case sr_collection r of None \<Rightarrow> collection_name_default
              | Some n \<Rightarrow> if n = [] then collection_name_default else n])"

definition request_conditions :: "search_request \<Rightarrow> condition list option" where
  "request_conditions r =
     search_conditions (sr_tenant r) (sr_proxy_user r) (sr_user r) (category_filter r) (sr_agent r)
       (include_archived r) (created_after r)"

definition search_fallback :: "search_request \<Rightarrow> qanswer" where
  "search_fallback r = (if require_available r then SearchUnavailable else Hits [])"

definition search_failure :: "search_request \<Rightarrow> qerror \<Rightarrow> qerror" where
  "search_failure r x =
     (if require_available r \<and> (case x of ConnectionFailure _ \<Rightarrow> True | ResponseHandling _ \<Rightarrow> True | CircuitOpen \<Rightarrow> True | _ \<Rightarrow> False)
      then VectorSearchUnavailable else x)"

fun search_collections ::
  "'i qdrant_env \<Rightarrow> search_request \<Rightarrow> condition list \<Rightarrow> string list \<Rightarrow> (uuid \<times> scored_point) list \<Rightarrow> 'i vstate \<Rightarrow>
     (qerror + (uuid \<times> scored_point) list) \<times> 'i vstate" where
  "search_collections q r conds [] m s = (Inr m, s)"
| "search_collections q r conds (c # cs) m s =
     (case with_retries q (QueryPoints c (query_embedding r) conds (sr_limit r)) (Some (search_fallback r)) True s of
        (Inl x, s') \<Rightarrow> (Inl (search_failure r x), s')
      | (Inr a, s') \<Rightarrow>
          if a = SearchUnavailable then (Inl VectorSearchUnavailable, s')
          else search_collections q r conds cs (fold merge_point (hits_of a) m) s')"

definition search_memories :: "'i qdrant_env \<Rightarrow> search_request \<Rightarrow> 'i vstate \<Rightarrow> (qerror + scored_point list) \<times> 'i vstate" where
  "search_memories q r s =
     (let s1 = fold (\<lambda>c. ensure_collection_if_possible q (Some c) None) (target_collections r) s
      in case request_conditions r of
           None \<Rightarrow> (Inl OwnerRequired, s1)
         | Some conds \<Rightarrow>
             (case search_collections q r conds (target_collections r) [] s1 of
                (Inl x, s2) \<Rightarrow> (Inl x, s2)
              | (Inr m, s2) \<Rightarrow> (Inr (ranked (sr_limit r) m), s2)))"

section \<open>Lemmas\<close>

lemma guarded_value:
  assumes "guarded q cmd fb s = (Value v, s')"
  shows "\<exists>n i i'. client q n cmd i = (Returns v, i')"
proof -
  obtain out i' where c: "client q (calls s) cmd (index s) = (out, i')" by fastforce
  obtain e1 e2 where e: "breaker_env q (calls s) = (e1, e2)" by fastforce
  have "fst (fst (call_sync e1 e2 out fb (qbreaker s))) = Value v"
    using assms by (auto simp: guarded_def c e split: prod.splits)
  then have "out = Returns v" by (rule sync_call.value_only_from_fn)
  then show ?thesis using c by blast
qed

lemma guarded_fallback:
  assumes "guarded q cmd fb s = (Fallback v, s')"
  shows "fb = Some v"
proof -
  obtain out i' where c: "client q (calls s) cmd (index s) = (out, i')" by fastforce
  obtain e1 e2 where e: "breaker_env q (calls s) = (e1, e2)" by fastforce
  have "fst (fst (call_sync e1 e2 out fb (qbreaker s))) = Fallback v"
    using assms by (auto simp: guarded_def c e split: prod.splits)
  then show ?thesis by (rule conjunct1 [OF sync_call.fallback_value])
qed

lemma guarded_calls [simp]: "calls (snd (guarded q cmd fb s)) = Suc (calls s)"
  by (auto simp: guarded_def Let_def split: prod.splits)

lemma after_retries_answer: "fst (after_retries q fb err s) = Inr a \<Longrightarrow> fb = Some a"
  by (auto simp: after_retries_def Let_def split: prod.splits bool.splits option.splits)

lemma retry_loop_answer:
  "fst (retry_loop q cmd fb f k err s) = Inr a \<Longrightarrow> fb = Some a \<or> (\<exists>n i i'. client q n cmd i = (Returns a, i'))"
proof (induction k arbitrary: err s)
  case 0
  then show ?case by (simp add: after_retries_answer)
next
  case (Suc k)
  obtain res s' where g: "guarded q cmd fb s = (res, s')" by fastforce
  show ?case
  proof (cases res)
    case (Value v)
    with Suc.prems g have "v = a" by simp
    with Value g have "guarded q cmd fb s = (Value a, s')" by simp
    then show ?thesis by (intro disjI2) (rule guarded_value)
  next
    case (Fallback v)
    with Suc.prems g have "v = a" by simp
    with Fallback g have "guarded q cmd fb s = (Fallback a, s')" by simp
    then show ?thesis by (intro disjI1) (rule guarded_fallback)
  next
    case (Failed x)
    show ?thesis
    proof (cases x)
      case (ConnectionFailure m)
      with Suc.prems Failed g have "fst (retry_loop q cmd fb f k (Some x) s') = Inr a" by simp
      then show ?thesis by (rule Suc.IH)
    next
      case (ResponseHandling m)
      with Suc.prems Failed g show ?thesis by (cases f; cases fb) simp_all
    qed (use Suc.prems Failed g in simp_all)
  next
    case CircuitOpenError
    with Suc.prems g show ?thesis by (auto split: option.splits)
  qed
qed

lemma with_retries_answer:
  "fst (with_retries q cmd fb f s) = Inr a \<Longrightarrow> fb = Some a \<or> (\<exists>n i i'. client q n cmd i = (Returns a, i'))"
  by (auto simp: with_retries_def dest: retry_loop_answer)

lemma after_retries_calls [simp]: "calls (snd (after_retries q fb err s)) = calls s"
  by (auto simp: after_retries_def Let_def split: prod.splits bool.splits option.splits)

lemma retry_loop_calls: "calls (snd (retry_loop q cmd fb f k err s)) \<le> calls s + k"
proof (induction k arbitrary: err s)
  case (Suc k)
  obtain res s' where g: "guarded q cmd fb s = (res, s')" by fastforce
  then have "calls s' = Suc (calls s)" using guarded_calls [of q cmd fb s] by simp
  then show ?case
    using Suc.IH [of _ s'] g
    by (cases res) (auto split: qerror.splits bool.splits option.splits)
qed simp

section \<open>Ranking\<close>

lemma merge_point_keys: "distinct (map fst m) \<Longrightarrow> distinct (map fst (merge_point p m))"
  by (auto simp: merge_point_def distinct_update split: option.splits)

definition merged_ok :: "(uuid \<times> scored_point) list \<Rightarrow> bool" where
  "merged_ok m \<longleftrightarrow> distinct (map fst m) \<and> (\<forall>(k, p) \<in> set m. sp_id p = k)"

lemma merge_point_ok: "merged_ok m \<Longrightarrow> merged_ok (merge_point p m)"
proof -
  assume m: "merged_ok m"
  have "set (AList.update (sp_id p) p m) \<subseteq> insert (sp_id p, p) (set m)"
    using m by (induction m) (auto simp: merged_ok_def)
  then show ?thesis
    using m merge_point_keys [of m p]
    by (auto simp: merged_ok_def merge_point_def split: option.splits)
qed

lemma merge_points_ok: "merged_ok m \<Longrightarrow> merged_ok (fold merge_point ps m)"
  by (induction ps arbitrary: m) (auto intro: merge_point_ok)

lemma merge_point_values: "snd ` set (merge_point p m) \<subseteq> insert p (snd ` set m)"
proof -
  have "snd ` set (AList.update k p m) \<subseteq> insert p (snd ` set m)" for k
    by (induction m) auto
  then show ?thesis by (auto simp: merge_point_def split: option.splits)
qed

lemma merge_points_values: "snd ` set (fold merge_point ps m) \<subseteq> set ps \<union> snd ` set m"
proof (induction ps arbitrary: m)
  case (Cons p ps)
  then show ?case using merge_point_values [of p m] by (simp, blast)
qed simp

definition best_score :: "(uuid \<times> scored_point) list \<Rightarrow> uuid \<Rightarrow> pyfloat \<Rightarrow> bool" where
  "best_score m i x \<longleftrightarrow> (\<exists>p. map_of m i = Some p \<and> x \<le> sp_score p)"

lemma merge_point_best: "best_score m i x \<Longrightarrow> best_score (merge_point p m) i x"
  by (auto simp: best_score_def merge_point_def update_conv split: option.splits)

lemma merge_point_new: "best_score (merge_point p m) (sp_id p) (sp_score p)"
  by (auto simp: best_score_def merge_point_def update_conv split: option.splits)

lemma merge_points_best: "best_score m i x \<Longrightarrow> best_score (fold merge_point ps m) i x"
  by (induction ps arbitrary: m) (auto intro: merge_point_best)

lemma merge_points_new: "h \<in> set ps \<Longrightarrow> best_score (fold merge_point ps m) (sp_id h) (sp_score h)"
proof (induction ps arbitrary: m)
  case (Cons p ps)
  then show ?case using merge_points_best [OF merge_point_new, of ps p m] by auto
qed simp

lemma set_ranked: "set (ranked n m) \<subseteq> snd ` set m"
  by (auto simp: ranked_def take_limit_def dest: in_set_takeD)

lemma map_id_values: "merged_ok m \<Longrightarrow> map sp_id (map snd m) = map fst m"
  by (induction m) (auto simp: merged_ok_def)

lemma distinct_ranked: "merged_ok m \<Longrightarrow> distinct (map sp_id (ranked n m))"
proof -
  assume m: "merged_ok m"
  have "distinct (map sp_id (map snd m))"
    by (simp only: map_id_values [OF m]) (use m in \<open>simp add: merged_ok_def\<close>)
  then have "distinct (map sp_id (sort_key (\<lambda>p. - sp_score p) (map snd m)))"
    by (metis distinct_map distinct_sort set_sort)
  then show ?thesis by (simp add: ranked_def take_limit_def take_map [symmetric])
qed

lemma sorted_ranked: "sorted_wrt (\<lambda>p r. sp_score r \<le> sp_score p) (ranked n m)"
proof -
  have "sorted (map (\<lambda>p. - sp_score p) (sort_key (\<lambda>p. - sp_score p) (map snd m)))" by simp
  then have "sorted_wrt (\<lambda>p r. sp_score r \<le> sp_score p) (sort_key (\<lambda>p. - sp_score p) (map snd m))"
    by (simp add: sorted_map)
  then show ?thesis by (simp add: ranked_def take_limit_def sorted_wrt_take)
qed

lemma sorted_wrt_take_drop:
  "sorted_wrt R xs \<Longrightarrow> x \<in> set (take n xs) \<Longrightarrow> y \<in> set (drop n xs) \<Longrightarrow> R x y"
  by (metis append_take_drop_id sorted_wrt_append)

lemma ranked_keeps_best:
  assumes "p \<in> snd ` set m" and "p \<notin> set (ranked n m)" and "0 \<le> n"
  shows "length (ranked n m) = nat n \<and> (\<forall>r \<in> set (ranked n m). sp_score p \<le> sp_score r)"
proof -
  let ?xs = "sort_key (\<lambda>p. - sp_score p) (map snd m)"
  have r: "ranked n m = take (nat n) ?xs" using assms(3) by (simp add: ranked_def take_limit_def)
  have "p \<in> set ?xs" using assms(1) by simp
  then have d: "p \<in> set (drop (nat n) ?xs)"
    using assms(2) unfolding r by (metis Un_iff append_take_drop_id set_append)
  then have "nat n < length ?xs" by (metis drop_all empty_iff leI list.set(1))
  moreover have "sorted_wrt (\<lambda>p r. sp_score r \<le> sp_score p) ?xs"
    using sorted_sort_key [of "\<lambda>p. - sp_score p" "map snd m"] by (simp add: sorted_map)
  ultimately show ?thesis
    unfolding r using sorted_wrt_take_drop [OF _ _ d] by auto
qed

section \<open>What a search returns\<close>

lemma search_collections_values:
  assumes "\<And>c a n i i'. client q n (QueryPoints c (query_embedding r) conds (sr_limit r)) i = (Returns a, i') \<Longrightarrow>
      (\<forall>p \<in> set (hits_of a). P p)"
  shows "fst (search_collections q r conds cs m s) = Inr m' \<Longrightarrow> (\<forall>p \<in> snd ` set m. P p) \<Longrightarrow> \<forall>p \<in> snd ` set m'. P p"
proof (induction cs arbitrary: m s)
  case (Cons c cs)
  let ?cmd = "QueryPoints c (query_embedding r) conds (sr_limit r)"
  obtain x s' where w: "with_retries q ?cmd (Some (search_fallback r)) True s = (x, s')" by fastforce
  with Cons.prems(1) obtain a where a: "x = Inr a" "a \<noteq> SearchUnavailable"
    and rest: "fst (search_collections q r conds cs (fold merge_point (hits_of a) m) s') = Inr m'"
    by (cases x) (auto split: if_splits)
  have "Some (search_fallback r) = Some a \<or> (\<exists>n i i'. client q n ?cmd i = (Returns a, i'))"
    using with_retries_answer [of q ?cmd "Some (search_fallback r)" True s a] w a by simp
  then have "\<forall>p \<in> set (hits_of a). P p"
  proof
    assume "Some (search_fallback r) = Some a"
    then have "hits_of a = []" by (auto simp: search_fallback_def hits_of_def)
    then show ?thesis by simp
  next
    assume "\<exists>n i i'. client q n ?cmd i = (Returns a, i')"
    then show ?thesis using assms by blast
  qed
  then have "\<forall>p \<in> snd ` set (fold merge_point (hits_of a) m). P p"
    using Cons.prems(2) merge_points_values [of "hits_of a" m] by blast
  then show ?case using Cons.IH [OF rest] by blast
qed simp

lemma search_memories_Inr:
  assumes "fst (search_memories q r s) = Inr ps"
  obtains conds m s1 where "request_conditions r = Some conds"
    "fst (search_collections q r conds (target_collections r) [] s1) = Inr m" "ps = ranked (sr_limit r) m"
proof -
  let ?s = "fold (\<lambda>c. ensure_collection_if_possible q (Some c) None) (target_collections r) s"
  from assms obtain conds where c: "request_conditions r = Some conds"
    by (cases "request_conditions r") (simp_all add: search_memories_def Let_def)
  with assms obtain m where "fst (search_collections q r conds (target_collections r) [] ?s) = Inr m"
    "ps = ranked (sr_limit r) m"
    by (auto simp: search_memories_def Let_def split: prod.splits sum.splits)
  with c show ?thesis by (rule that)
qed

fun cond_holds :: "condition \<Rightarrow> payload_dict \<Rightarrow> bool" where
  "cond_holds (FieldMatch k v) p \<longleftrightarrow> map_of p k = Some v"
| "cond_holds (FieldSince k v) p \<longleftrightarrow> map_of p k \<noteq> None"

text \<open>
  The documented behaviour of a filtered query: a point of the answer satisfies the match
  conditions of the filter (of a range condition only that the field is there is used).
\<close>

definition honours_filters :: "'i qdrant_env \<Rightarrow> bool" where
  "honours_filters q \<longleftrightarrow>
     (\<forall>n c v conds k i ps i' p cond. client q n (QueryPoints c v conds k) i = (Returns (Hits ps), i') \<longrightarrow>
        p \<in> set ps \<longrightarrow> cond \<in> set conds \<longrightarrow> cond_holds cond (sp_payload p))"

lemma honours_hits:
  assumes "honours_filters q" and "client q n (QueryPoints c v conds k) i = (Returns a, i')" and "p \<in> set (hits_of a)"
    and "cond \<in> set conds"
  shows "cond_holds cond (sp_payload p)"
proof -
  obtain ps where "a = Hits ps" "p \<in> set ps"
    using assms(3) by (auto simp: hits_of_def split: qanswer.splits)
  then show ?thesis using assms(1,2,4) unfolding honours_filters_def by blast
qed

text \<open>
  (C21) A search for a tenant and one of its proxy users never returns a point of another owner:
  whatever collections are searched, whatever fails or is retried on the way, every point
  returned carries the tenant and the proxy user of the request, and no archived point is
  returned unless the request asks for archived points.
\<close>

theorem search_stays_with_owner:
  assumes "honours_filters q"
    and "sr_tenant r = Some tenant" and "sr_proxy_user r = Some proxy"
    and "fst (search_memories q r s) = Inr ps" and "p \<in> set ps"
  shows "map_of (sp_payload p) ''tenant_id'' = Some (PInt (int tenant)) \<and>
    map_of (sp_payload p) ''proxy_user_id'' = Some (PInt (int proxy)) \<and>
    (include_archived r \<or> map_of (sp_payload p) ''is_archived'' = Some (PBool False))"
proof -
  obtain conds m s1 where c: "request_conditions r = Some conds"
    and m: "fst (search_collections q r conds (target_collections r) [] s1) = Inr m"
    and ps: "ps = ranked (sr_limit r) m"
    by (rule search_memories_Inr [OF assms(4)])
  have "\<forall>p \<in> snd ` set m. \<forall>cond \<in> set conds. cond_holds cond (sp_payload p)"
  proof (rule search_collections_values [OF _ m])
    show "\<forall>p \<in> set (hits_of a). \<forall>cond \<in> set conds. cond_holds cond (sp_payload p)"
      if "client q n (QueryPoints c (query_embedding r) conds (sr_limit r)) i = (Returns a, i')" for c a n i i'
      using honours_hits [OF assms(1) that] by blast
  qed simp
  then have all: "\<forall>cond \<in> set conds. cond_holds cond (sp_payload p)"
    using assms(5) set_ranked [of "sr_limit r" m] ps by blast
  have "FieldMatch ''tenant_id'' (PInt (int tenant)) \<in> set conds"
    "FieldMatch ''proxy_user_id'' (PInt (int proxy)) \<in> set conds"
    "include_archived r \<or> FieldMatch ''is_archived'' (PBool False) \<in> set conds"
    using c assms(2,3)
    by (auto simp: request_conditions_def search_conditions_def owner_conditions_def split: if_splits)
  then have "cond_holds (FieldMatch ''tenant_id'' (PInt (int tenant))) (sp_payload p)"
    "cond_holds (FieldMatch ''proxy_user_id'' (PInt (int proxy))) (sp_payload p)"
    "include_archived r \<or> cond_holds (FieldMatch ''is_archived'' (PBool False)) (sp_payload p)"
    using all by blast+
  then show ?thesis by simp
qed

text \<open>
  Merging and ranking the points found in several collections: each memory appears at most
  once, the scores descend, at most \<open>limit\<close> points remain, and nothing better is dropped: a hit
  that is not represented by an equal or better score of the same memory scores no more than
  any of the \<open>limit\<close> points kept.
\<close>

theorem search_ranking_correct:
  assumes "0 \<le> n"
  shows "distinct (map sp_id (ranked n (fold merge_point hits []))) \<and>
    sorted_wrt (\<lambda>p r. sp_score r \<le> sp_score p) (ranked n (fold merge_point hits [])) \<and>
    length (ranked n (fold merge_point hits [])) \<le> nat n \<and>
    set (ranked n (fold merge_point hits [])) \<subseteq> set hits \<and>
    (\<forall>h \<in> set hits.
       (\<exists>p \<in> set (ranked n (fold merge_point hits [])). sp_id p = sp_id h \<and> sp_score h \<le> sp_score p) \<or>
       (length (ranked n (fold merge_point hits [])) = nat n \<and>
        (\<forall>p \<in> set (ranked n (fold merge_point hits [])). sp_score h \<le> sp_score p)))"
proof -
  let ?m = "fold merge_point hits []"
  have ok: "merged_ok ?m" by (rule merge_points_ok) (simp add: merged_ok_def)
  have "(\<exists>p \<in> set (ranked n ?m). sp_id p = sp_id h \<and> sp_score h \<le> sp_score p) \<or>
      (length (ranked n ?m) = nat n \<and> (\<forall>p \<in> set (ranked n ?m). sp_score h \<le> sp_score p))" if h: "h \<in> set hits" for h
  proof -
    obtain b where b: "map_of ?m (sp_id h) = Some b" "sp_score h \<le> sp_score b"
      using merge_points_new [OF h, of "[]"] by (auto simp: best_score_def)
    then have in_m: "b \<in> snd ` set ?m" "sp_id b = sp_id h"
      using map_of_SomeD [OF b(1)] ok by (force simp: merged_ok_def)+
    show ?thesis
    proof (cases "b \<in> set (ranked n ?m)")
      case False
      then show ?thesis using ranked_keeps_best [OF in_m(1) False assms] b(2) by fastforce
    qed (use b(2) in_m(2) in blast)
  qed
  moreover have "length (ranked n ?m) \<le> nat n" using assms by (simp add: ranked_def take_limit_def)
  moreover have "set (ranked n ?m) \<subseteq> set hits"
    using set_ranked [of n ?m] merge_points_values [of hits "[]"] by auto
  ultimately show ?thesis using distinct_ranked [OF ok, of n] sorted_ranked [of n ?m] by blast
qed

lemma search_collections_answered:
  assumes "require_available r"
  shows "fst (search_collections q r conds cs m s) = Inr m' \<Longrightarrow> c \<in> set cs \<Longrightarrow>
    \<exists>a n i i'. client q n (QueryPoints c (query_embedding r) conds (sr_limit r)) i = (Returns a, i')"
proof (induction cs arbitrary: m s)
  case (Cons d cs)
  let ?cmd = "QueryPoints d (query_embedding r) conds (sr_limit r)"
  obtain x s' where w: "with_retries q ?cmd (Some (search_fallback r)) True s = (x, s')" by fastforce
  with Cons.prems(1) obtain a where a: "x = Inr a" "a \<noteq> SearchUnavailable"
    and rest: "fst (search_collections q r conds cs (fold merge_point (hits_of a) m) s') = Inr m'"
    by (cases x) (auto split: if_splits)
  have "Some (search_fallback r) = Some a \<or> (\<exists>n i i'. client q n ?cmd i = (Returns a, i'))"
    using with_retries_answer [of q ?cmd "Some (search_fallback r)" True s a] w a by simp
  then have "\<exists>n i i'. client q n ?cmd i = (Returns a, i')"
    using a(2) assms by (auto simp: search_fallback_def)
  then show ?case using Cons.prems(2) Cons.IH [OF rest] by auto
qed simp

text \<open>
  A search that requires availability never passes off an outage as an empty result: when
  it returns points, the client has answered the query of every collection searched. In every
  other case it ends in an error.
\<close>

theorem required_search_is_complete:
  assumes "require_available r" and "fst (search_memories q r s) = Inr ps" and "c \<in> set (target_collections r)"
  shows "\<exists>conds a n i i'. request_conditions r = Some conds \<and>
    client q n (QueryPoints c (query_embedding r) conds (sr_limit r)) i = (Returns a, i')"
proof -
  obtain conds m s1 where "request_conditions r = Some conds"
    "fst (search_collections q r conds (target_collections r) [] s1) = Inr m"
    by (rule search_memories_Inr [OF assms(2)])
  then show ?thesis using search_collections_answered [OF assms(1) _ assms(3)] by blast
qed

section \<open>Witnesses\<close>

text \<open>A client over a list of points of one collection that answers every request.\<close>

definition example_client :: "scored_point list qdrant_env" where
  "example_client =
     \<lparr>client = (\<lambda>n cmd i.
        case cmd of
          CollectionExists c \<Rightarrow> (Returns (Exists True), i)
        | QueryPoints c v conds k \<Rightarrow>
            (Returns (Hits (filter (\<lambda>p. list_all (\<lambda>cond. cond_holds cond (sp_payload p)) conds) i)), i)
        | CountWhere c conds \<Rightarrow>
            (Returns (CountIs (int (length (filter (\<lambda>p. list_all (\<lambda>cond. cond_holds cond (sp_payload p)) conds) i)))), i)
        | DeleteWhere c conds \<Rightarrow>
            (Returns Ack, filter (\<lambda>p. \<not> list_all (\<lambda>cond. cond_holds cond (sp_payload p)) conds) i)
        | _ \<Rightarrow> (Returns Ack, i)),
      breaker_env = (\<lambda>n. (example_env 10, example_env 10))\<rparr>"

lemma example_client_honours: "honours_filters example_client"
  by (auto simp: honours_filters_def example_client_def list_all_iff)

definition example_point :: "uuid \<Rightarrow> pyfloat \<Rightarrow> uuid \<Rightarrow> scored_point" where
  "example_point i x tenant =
     \<lparr>sp_id = i, sp_score = x,
      sp_payload = [(''tenant_id'', PInt (int tenant)), (''proxy_user_id'', PInt 80), (''is_archived'', PBool False)]\<rparr>"

definition example_vstate :: "scored_point list vstate" where
  "example_vstate =
     \<lparr>index = [example_point 1 (1/2) 90, example_point 2 (3/4) 91], qbreaker = (None, qdrant_breaker), calls = 0,
      initialized_collections = [''memories'']\<rparr>"

definition example_request :: search_request where
  "example_request =
     \<lparr>query_embedding = [1], sr_tenant = Some 90, sr_proxy_user = Some 80, sr_user = None, sr_limit = 5,
      category_filter = None, sr_agent = None, include_archived = False, sr_collection = None, sr_collections = [],
      created_after = None, require_available = True\<rparr>"

lemma example_search:
  "fst (search_memories example_client example_request example_vstate) = Inr [example_point 1 (1/2) 90]"
  by code_simp

theorem search_stays_with_owner_witness:
  "map_of (sp_payload (example_point 1 (1/2) 90)) ''tenant_id'' = Some (PInt 90)"
  using search_stays_with_owner [OF example_client_honours _ _ example_search, of 90 80 "example_point 1 (1/2) 90"]
  by (simp add: example_request_def)

theorem search_ranking_correct_witness:
  "length (ranked 1 (fold merge_point [example_point 1 (1/2) 90, example_point 1 (3/4) 90] [])) \<le> 1"
  using search_ranking_correct [of 1 "[example_point 1 (1/2) 90, example_point 1 (3/4) 90]"] by simp

theorem required_search_is_complete_witness:
  "\<exists>conds a n i i'. request_conditions example_request = Some conds \<and>
    client example_client n (QueryPoints ''memories'' [1] conds 5) i = (Returns a, i')"
  using required_search_is_complete [OF _ example_search, of "''memories''"]
  by (simp add: example_request_def target_collections_def collection_name_default_def)

end
