(* ===== verification/Outbox.thy ===== *)
theory Outbox
  imports VectorStore
begin

text \<open>
  The vector sync outbox: \<open>src/api/services/vector_outbox.py\<close>, which writes the rows, and
  \<open>src/api/tasks/vector_sync_tasks.py\<close>, whose periodic cycle claims pending rows, applies them
  to the vector store in chunks of ten and settles each of them. \<open>str_of\<close> is \<open>str(x)\<close> on a
  payload value that is not a string.
\<close>

section \<open>Payloads and enqueueing\<close>

definition opt_id :: "uuid option \<Rightarrow> pyval" where
  "opt_id x = (case x of None \<Rightarrow> PNone | Some i \<Rightarrow> PInt (int i))"

definition isoformat_or_none :: "utc option \<Rightarrow> pyval" where
  "isoformat_or_none x = (case x of None \<Rightarrow> PNone | Some t \<Rightarrow> PInt t)"

definition opt_text :: "string option \<Rightarrow> pyval" where
  "opt_text x = (case x of None \<Rightarrow> PNone | Some t \<Rightarrow> PStr t)"

text \<open>
  \<open>include_content\<close> is the setting \<open>vector_payload_include_content\<close>. The row model has no
  memory without a creation time, so the substitute for it is not needed.
\<close>

definition build_vector_payload ::
  "bool \<Rightarrow> memory \<Rightarrow> uuid option \<Rightarrow> uuid option \<Rightarrow> uuid option \<Rightarrow> string option \<Rightarrow> string option \<Rightarrow> payload_dict" where
  "build_vector_payload include_content m tenant proxy user model collection =
     [(''memory_id'', PInt (int (m_id m))),
      (''agent_id'', opt_id (m_agent_id m)),
      (''category'', PStr (category_value (category m))),
      (''importance_score'', PFloat (importance_score m)),
      (''confidence_score'', PFloat (float_or (Some (confidence_score m)) 1)),
      (''is_archived'', PBool (is_archived m)),
      (''created_at'', PInt (created_at m)),
      (''last_accessed_at'', isoformat_or_none (last_accessed_at m)),
      (''previous_version_id'', opt_id (previous_version_id m)),
      (''source_event_id'', opt_id (source_event_id m)),
      (''effective_from'', isoformat_or_none (effective_from m)),
      (''effective_until'', isoformat_or_none (effective_until m)),
      (''provenance'', dget (metadata_json m) ''provenance'' PNone),
      (''embedding_model_id'', py_or (opt_text model) (PStr (embedding_model_id m))),
      (''qdrant_collection'', py_or (opt_text collection) (opt_text (qdrant_collection m)))]
     @ (if include_content then [(''content'', PStr (content m))] else [])
     @ (case (tenant, proxy) of
          (Some t, Some p) \<Rightarrow> [(''tenant_id'', PInt (int t)), (''proxy_user_id'', PInt (int p))]
        | _ \<Rightarrow> (case user of None \<Rightarrow> [] | Some u \<Rightarrow> [(''user_id'', PInt (int u))]))"

definition new_outbox_row :: "sync_operation \<Rightarrow> uuid \<Rightarrow> pyfloat list option \<Rightarrow> payload_dict \<Rightarrow> db \<Rightarrow> outbox_row" where
  "new_outbox_row op i emb p d =
     \<lparr>o_id = next_id d, operation = op, o_memory_id = i, embedding = emb, payload = p, o_status = Pending,
      attempts = 0, last_error = None, o_created_at = db_now d, synced_at = None\<rparr>"

definition add_outbox_row :: "outbox_row \<Rightarrow> db \<Rightarrow> db" where
  "add_outbox_row r d = d\<lparr>outbox := outbox d @ [r], next_id := Suc (next_id d)\<rparr>"

definition enqueue_vector_upsert :: "uuid \<Rightarrow> pyfloat list \<Rightarrow> payload_dict \<Rightarrow> db \<Rightarrow> db" where
  "enqueue_vector_upsert i emb p d = add_outbox_row (new_outbox_row Upsert i (Some emb) p d) d"

definition enqueue_vector_archive :: "uuid \<Rightarrow> payload_dict \<Rightarrow> db \<Rightarrow> db" where
  "enqueue_vector_archive i p d = add_outbox_row (new_outbox_row Archive i None p d) d"

definition enqueue_vector_delete :: "uuid \<Rightarrow> payload_dict \<Rightarrow> db \<Rightarrow> db" where
  "enqueue_vector_delete i p d = add_outbox_row (new_outbox_row Delete i None p d) d"

section \<open>Claiming\<close>

definition in_tenant :: "uuid option \<Rightarrow> db \<Rightarrow> outbox_row \<Rightarrow> bool" where
  "in_tenant tenant d r =
     (case tenant of
        None \<Rightarrow> True
      | Some t \<Rightarrow>
          (case get_memory (o_memory_id r) d of
             None \<Rightarrow> False
           | Some m \<Rightarrow> tenant_of (m_proxy_user_id m) d = Some t))"

definition pending_ids :: "uuid option \<Rightarrow> nat \<Rightarrow> db \<Rightarrow> uuid list" where
  "pending_ids tenant batch d =
     map o_id (take batch (sort_key o_created_at (sort_key o_id
       (filter (\<lambda>r. o_status r = Pending \<and> in_tenant tenant d r) (outbox d)))))"

definition claimed_row :: "outbox_row \<Rightarrow> outbox_row" where
  "claimed_row r = r\<lparr>o_status := Processing, attempts := attempts r + 1, last_error := None\<rparr>"

definition claim_outbox_row :: "uuid \<Rightarrow> db \<Rightarrow> outbox_row option \<times> db" where
  "claim_outbox_row i d =
     (map_option claimed_row (find_row (\<lambda>r. o_id r = i \<and> o_status r = Pending) (outbox d)),
      d\<lparr>outbox := update_where (\<lambda>r. o_id r = i \<and> o_status r = Pending) claimed_row (outbox d)\<rparr>)"

fun claim_rows :: "uuid list \<Rightarrow> db \<Rightarrow> outbox_row list \<times> db" where
  "claim_rows [] d = ([], d)"
| "claim_rows (i # is) d =
     (case claim_outbox_row i d of
        (r, d1) \<Rightarrow> (case claim_rows is d1 of (rs, d2) \<Rightarrow> ((case r of None \<Rightarrow> rs | Some x \<Rightarrow> x # rs), d2)))"

section \<open>Applying\<close>

text \<open>A dictionary of the rows by collection, in order of first occurrence.\<close>

definition group_rows :: "(pyval \<Rightarrow> string) \<Rightarrow> outbox_row list \<Rightarrow> (string \<times> outbox_row list) list" where
  "group_rows str_of rows =
     fold (\<lambda>r g. let c = payload_collection str_of (payload r) in AList.update c (dget g c [] @ [r]) g) rows []"

text \<open>\<open>breaker.call_sync\<close> without a fallback: the exception raised, if any.\<close>

definition raised :: "(qanswer, qerror) call_result \<Rightarrow> qerror option" where
  "raised r = (case r of Value _ \<Rightarrow> None | Fallback _ \<Rightarrow> None | Failed x \<Rightarrow> Some x | CircuitOpenError \<Rightarrow> Some CircuitOpen)"

fun run_commands :: "'i qdrant_env \<Rightarrow> qcommand list \<Rightarrow> 'i vstate \<Rightarrow> qerror option \<times> 'i vstate" where
  "run_commands q [] s = (None, s)"
| "run_commands q (c # cs) s =
     (case guarded q c None s of
        (res, s') \<Rightarrow> (case raised res of Some x \<Rightarrow> (Some x, s') | None \<Rightarrow> run_commands q cs s'))"

fun apply_groups ::
  "'i qdrant_env \<Rightarrow> (outbox_row list \<Rightarrow> int) \<Rightarrow> (string \<Rightarrow> outbox_row list \<Rightarrow> qcommand list) \<Rightarrow>
     (string \<times> outbox_row list) list \<Rightarrow> 'i vstate \<Rightarrow> qerror option \<times> 'i vstate" where
  "apply_groups q sz cmds [] s = (None, s)"
| "apply_groups q sz cmds ((c, rs) # gs) s =
     (case run_commands q (cmds c rs) (ensure_collection_if_possible q (Some c) (Some (sz rs)) s) of
        (Some x, s') \<Rightarrow> (Some x, s')
      | (None, s') \<Rightarrow> apply_groups q sz cmds gs s')"

definition row_vector :: "outbox_row \<Rightarrow> pyfloat list" where
  "row_vector r = (case embedding r of None \<Rightarrow> [] | Some e \<Rightarrow> e)"

definition upsert_size :: "outbox_row list \<Rightarrow> int" where
  "upsert_size rs = (if rs \<noteq> [] \<and> row_vector (hd rs) \<noteq> [] then int (length (row_vector (hd rs))) else vector_size)"

definition upsert_commands :: "string \<Rightarrow> outbox_row list \<Rightarrow> qcommand list" where
  "upsert_commands c rs =
     [UpsertPoints c (map (\<lambda>r. \<lparr>pt_id = o_memory_id r, pt_vector = row_vector r, pt_payload = payload r\<rparr>) rs)]"

definition archive_commands :: "string \<Rightarrow> outbox_row list \<Rightarrow> qcommand list" where
  "archive_commands c rs = map (\<lambda>r. SetPayload c (payload r) [o_memory_id r]) rs"

definition delete_commands :: "string \<Rightarrow> outbox_row list \<Rightarrow> qcommand list" where
  "delete_commands c rs = [DeleteIds c (map o_memory_id rs)]"

definition apply_upsert_batch ::
  "(pyval \<Rightarrow> string) \<Rightarrow> 'i qdrant_env \<Rightarrow> outbox_row list \<Rightarrow> 'i vstate \<Rightarrow> qerror option \<times> 'i vstate" where
  "apply_upsert_batch str_of q rows s = apply_groups q upsert_size upsert_commands (group_rows str_of rows) s"

definition apply_archive_batch ::
  "(pyval \<Rightarrow> string) \<Rightarrow> 'i qdrant_env \<Rightarrow> outbox_row list \<Rightarrow> 'i vstate \<Rightarrow> qerror option \<times> 'i vstate" where
  "apply_archive_batch str_of q rows s = apply_groups q (\<lambda>_. vector_size) archive_commands (group_rows str_of rows) s"

definition apply_delete_batch ::
  "(pyval \<Rightarrow> string) \<Rightarrow> 'i qdrant_env \<Rightarrow> outbox_row list \<Rightarrow> 'i vstate \<Rightarrow> qerror option \<times> 'i vstate" where
  "apply_delete_batch str_of q rows s = apply_groups q (\<lambda>_. vector_size) delete_commands (group_rows str_of rows) s"

section \<open>Settling\<close>

definition error_text :: "qerror \<Rightarrow> string" where
  "error_text x =
     (case x of
        ResponseHandling m \<Rightarrow> m | ConnectionFailure m \<Rightarrow> m | OtherFailure m \<Rightarrow> m
      | CircuitOpen \<Rightarrow> ''Circuit 'qdrant' is open.''
      | VectorSearchUnavailable \<Rightarrow> ''Vector search unavailable''
      | OwnerRequired \<Rightarrow> ''search_memories requires tenant_id+proxy_user_id or legacy user_id.''
      | RetriesWithoutResult \<Rightarrow> ''Retry wrapper exited without a result or exception.'')"

definition mark_rows_done :: "utc \<Rightarrow> outbox_row list \<Rightarrow> db \<Rightarrow> db" where
  "mark_rows_done now rows d =
     d\<lparr>outbox := update_where (\<lambda>r. o_id r \<in> o_id ` set rows)
        (\<lambda>r. r\<lparr>o_status := Done, synced_at := Some now, last_error := None\<rparr>) (outbox d)\<rparr>"

definition privacy_delete :: "outbox_row \<Rightarrow> bool" where
  "privacy_delete r = truthy (dget (payload r) ''privacy_delete'' PNone)"

definition gives_up :: "outbox_row \<Rightarrow> bool" where
  "gives_up r \<longleftrightarrow> 3 \<le> attempts r \<and> \<not> privacy_delete r"

definition failed_row :: "string \<Rightarrow> outbox_row \<Rightarrow> outbox_row" where
  "failed_row msg r = r\<lparr>o_status := (if gives_up r then SyncFailed else Pending), last_error := Some msg\<rparr>"

text \<open>
  A row that has disappeared makes the attribute assignment raise, which nothing in the cycle
  catches: \<open>None\<close>.
\<close>

fun mark_rows_failed_or_pending :: "outbox_row list \<Rightarrow> string \<Rightarrow> db \<Rightarrow> (int \<times> db) option" where
  "mark_rows_failed_or_pending [] msg d = Some (0, d)"
| "mark_rows_failed_or_pending (r # rs) msg d =
     (case find_row (\<lambda>x. o_id x = o_id r) (outbox d) of
        None \<Rightarrow> None
      | Some x \<Rightarrow>
          (case mark_rows_failed_or_pending rs msg
                  (d\<lparr>outbox := update_where (\<lambda>y. o_id y = o_id r) (\<lambda>_. failed_row msg x) (outbox d)\<rparr>) of
             None \<Rightarrow> None
           | Some (n, d') \<Rightarrow> Some (n + (if gives_up x then 1 else 0), d')))"

fun chunks :: "nat \<Rightarrow> 'a list \<Rightarrow> 'a list list" where
  "chunks k [] = []"
| "chunks k (x # xs) = (x # take k xs) # chunks k (drop k xs)"

type_synonym 'i apply_fn = "outbox_row list \<Rightarrow> 'i vstate \<Rightarrow> qerror option \<times> 'i vstate"

fun process_each :: "'i apply_fn \<Rightarrow> utc \<Rightarrow> outbox_row list list \<Rightarrow> db \<times> 'i vstate \<Rightarrow> ((int \<times> int) \<times> db \<times> 'i vstate) option" where
  "process_each f now [] (d, s) = Some ((0, 0), d, s)"
| "process_each f now (c # cs) (d, s) =
     (case f c s of
        (None, s') \<Rightarrow>
          (case process_each f now cs (mark_rows_done now c d, s') of
             None \<Rightarrow> None
           | Some ((done, failed), w) \<Rightarrow> Some ((done + int (length c), failed), w))
      | (Some x, s') \<Rightarrow>
          (case mark_rows_failed_or_pending c (error_text x) d of
             None \<Rightarrow> None
           | Some (n, d') \<Rightarrow>
               (case process_each f now cs (d', s') of
                  None \<Rightarrow> None
                | Some ((done, failed), w) \<Rightarrow> Some ((done, failed + n), w))))"

text \<open>Chunks of \<open>DEFAULT_QDRANT_SYNC_CHUNK_SIZE\<close>, that is of one row and nine more.\<close>

definition process_chunks :: "'i apply_fn \<Rightarrow> utc \<Rightarrow> outbox_row list \<Rightarrow> db \<times> 'i vstate \<Rightarrow> ((int \<times> int) \<times> db \<times> 'i vstate) option" where
  "process_chunks f now rows w = process_each f now (chunks 9 rows) w"

record cycle_counts =
  n_claimed :: int
  n_done :: int
  n_failed :: int

definition run_outbox_cycle ::
  "(pyval \<Rightarrow> string) \<Rightarrow> 'i qdrant_env \<Rightarrow> utc \<Rightarrow> uuid option \<Rightarrow> nat \<Rightarrow> db \<times> 'i vstate \<Rightarrow>
     (cycle_counts \<times> db \<times> 'i vstate) option" where
  "run_outbox_cycle str_of q now tenant batch w =
     (let (rows, d1) = claim_rows (pending_ids tenant batch (fst w)) (fst w)
      in if rows = [] then Some (\<lparr>n_claimed = 0, n_done = 0, n_failed = 0\<rparr>, d1, snd w)
         else
           case process_chunks (apply_upsert_batch str_of q) now (filter (\<lambda>r. operation r = Upsert) rows) (d1, snd w) of
             None \<Rightarrow> None
           | Some ((u, fu), w2) \<Rightarrow>
           (case process_chunks (apply_archive_batch str_of q) now (filter (\<lambda>r. operation r = Archive) rows) w2 of
             None \<Rightarrow> None
           | Some ((a, fa), w3) \<Rightarrow>
           (case process_chunks (apply_delete_batch str_of q) now (filter (\<lambda>r. operation r = Delete) rows) w3 of
             None \<Rightarrow> None
           | Some ((x, fx), w4) \<Rightarrow>
               Some (\<lparr>n_claimed = int (length rows), n_done = u + a + x, n_failed = fu + fa + fx\<rparr>, w4))))"

section \<open>Lemmas\<close>

definition outbox_keys :: "db \<Rightarrow> bool" where
  "outbox_keys d \<longleftrightarrow> distinct (map o_id (outbox d))"

definition row_at :: "db \<Rightarrow> uuid \<Rightarrow> outbox_row option" where
  "row_at d i = find_row (\<lambda>r. o_id r = i) (outbox d)"

lemma row_at_lookup: "row_at d i = out_table.lookup i (outbox d)"
  by (simp add: row_at_def out_table.lookup_def)

definition status_at :: "db \<Rightarrow> uuid \<Rightarrow> sync_status option" where
  "status_at d i = map_option o_status (row_at d i)"

lemma row_at_update:
  "(\<And>r. p r \<Longrightarrow> o_id (f r) = o_id r) \<Longrightarrow>
     row_at (d\<lparr>outbox := update_where p f (outbox d)\<rparr>) i = map_option (\<lambda>r. if p r then f r else r) (row_at d i)"
  by (simp add: row_at_lookup out_table.lookup_update_where)

lemma row_at_id: "row_at d i = Some r \<Longrightarrow> o_id r = i"
  by (auto simp: row_at_lookup dest: out_table.lookup_Some)

lemma row_at_None: "row_at d i = None \<longleftrightarrow> i \<notin> o_id ` set (outbox d)"
  by (simp add: row_at_lookup out_table.lookup_None)

lemma row_at_in: "outbox_keys d \<Longrightarrow> r \<in> set (outbox d) \<Longrightarrow> row_at d (o_id r) = Some r"
  by (simp add: row_at_lookup outbox_keys_def out_table.lookup_in)

lemma row_ids [simp]: "o_id (claimed_row r) = o_id r" "o_id (failed_row msg r) = o_id r"
  by (simp_all add: claimed_row_def failed_row_def)

subsection \<open>Claiming\<close>

lemma claim_outbox_row_keys [simp]: "outbox_keys (snd (claim_outbox_row i d)) = outbox_keys d"
  by (simp add: outbox_keys_def claim_outbox_row_def map_update_where)

lemma claim_outbox_row_fst:
  "outbox_keys d \<Longrightarrow> fst (claim_outbox_row i d) =
     (case row_at d i of None \<Rightarrow> None | Some r \<Rightarrow> if o_status r = Pending then Some (claimed_row r) else None)"
  by (auto simp: claim_outbox_row_def outbox_keys_def row_at_lookup out_table.find_key split: option.splits)

lemma claim_outbox_row_at:
  "row_at (snd (claim_outbox_row i d)) j =
     map_option (\<lambda>r. if j = i \<and> o_status r = Pending then claimed_row r else r) (row_at d j)"
  by (cases "row_at d j") (auto simp: claim_outbox_row_def row_at_update dest: row_at_id)

lemma claim_rows_Cons:
  "claim_rows (i # is) d =
     ((case fst (claim_outbox_row i d) of None \<Rightarrow> fst (claim_rows is (snd (claim_outbox_row i d)))
        | Some x \<Rightarrow> x # fst (claim_rows is (snd (claim_outbox_row i d)))),
      snd (claim_rows is (snd (claim_outbox_row i d))))"
proof -
  obtain r d1 rs d2 where "claim_outbox_row i d = (r, d1)" "claim_rows is d1 = (rs, d2)" by fastforce
  then show ?thesis by (cases r) simp_all
qed

lemma claim_rows_keys [simp]: "outbox_keys (snd (claim_rows is d)) = outbox_keys d"
  by (induction "is" arbitrary: d) (simp_all add: claim_rows_Cons del: claim_rows.simps(2))

lemma claim_rows_at:
  "row_at (snd (claim_rows is d)) j =
     map_option (\<lambda>r. if j \<in> set is \<and> o_status r = Pending then claimed_row r else r) (row_at d j)"
proof (induction "is" arbitrary: d)
  case (Cons i "is")
  show ?case
    by (cases "row_at d j")
      (auto simp: claim_rows_Cons Cons.IH claim_outbox_row_at claimed_row_def simp del: claim_rows.simps(2))
qed (simp add: option.map_ident)

lemma claim_rows_rows:
  assumes "outbox_keys d"
  shows "set (fst (claim_rows is d)) = {claimed_row r | r. \<exists>i \<in> set is. row_at d i = Some r \<and> o_status r = Pending} \<and>
    distinct (map o_id (fst (claim_rows is d)))"
  using assms
proof (induction "is" arbitrary: d)
  case (Cons i "is")
  let ?d = "snd (claim_outbox_row i d)"
  have k: "outbox_keys ?d" using Cons.prems by simp
  show ?case
  proof (cases "\<exists>r. row_at d i = Some r \<and> o_status r = Pending")
    case True
    then obtain r where r: "row_at d i = Some r" "o_status r = Pending" by blast
    have head: "fst (claim_rows (i # is) d) = claimed_row r # fst (claim_rows is ?d)"
      using r Cons.prems by (simp add: claim_rows_Cons claim_outbox_row_fst del: claim_rows.simps(2))
    have others: "row_at ?d j = Some x \<and> o_status x = Pending \<longleftrightarrow> row_at d j = Some x \<and> o_status x = Pending \<and> j \<noteq> i" for j x
      using r by (cases "row_at d j") (auto simp: claim_outbox_row_at claimed_row_def)
    have set_tail: "set (fst (claim_rows is ?d)) =
        {claimed_row x | x. \<exists>j \<in> set is. row_at d j = Some x \<and> o_status x = Pending \<and> j \<noteq> i}"
      using Cons.IH [OF k] others by simp
    then have "i \<notin> o_id ` set (fst (claim_rows is ?d))" by (auto dest: row_at_id)
    then have dist: "distinct (map o_id (claimed_row r # fst (claim_rows is ?d)))"
      using Cons.IH [OF k] row_at_id [OF r(1)] by simp
    have "insert (claimed_row r) {claimed_row x | x. \<exists>j \<in> set is. row_at d j = Some x \<and> o_status x = Pending \<and> j \<noteq> i} =
        {claimed_row x | x. \<exists>j \<in> set (i # is). row_at d j = Some x \<and> o_status x = Pending}"
      using r by auto (metis option.inject)
    with dist show ?thesis unfolding head by (simp add: set_tail)
  next
    case False
    then have head: "fst (claim_rows (i # is) d) = fst (claim_rows is ?d)"
      using Cons.prems by (auto simp: claim_rows_Cons claim_outbox_row_fst simp del: claim_rows.simps(2) split: option.splits)
    have "row_at ?d j = row_at d j" for j
      using False by (cases "row_at d j") (auto simp: claim_outbox_row_at)
    then show ?thesis using Cons.IH [OF k] False unfolding head by auto
  qed
qed simp

lemma pending_ids_distinct: "outbox_keys d \<Longrightarrow> distinct (pending_ids tenant batch d)"
proof -
  assume "outbox_keys d"
  then have "distinct (map o_id (filter P (outbox d)))" for P
    by (simp add: outbox_keys_def distinct_map_filter)
  then have "distinct (map o_id (sort_key o_created_at (sort_key o_id (filter P (outbox d)))))" for P
    by (metis distinct_map distinct_sort set_sort)
  then show ?thesis by (simp add: pending_ids_def take_map [symmetric])
qed

lemma pending_ids_row:
  assumes "outbox_keys d" and "i \<in> set (pending_ids tenant batch d)"
  shows "\<exists>r. row_at d i = Some r \<and> o_status r = Pending \<and> in_tenant tenant d r"
proof -
  obtain r where "r \<in> set (outbox d)" "o_id r = i" "o_status r = Pending" "in_tenant tenant d r"
    using assms(2) by (auto simp: pending_ids_def dest!: in_set_takeD)
  then show ?thesis using row_at_in [OF assms(1)] by blast
qed

subsection \<open>Settling\<close>

definition done_row :: "utc \<Rightarrow> outbox_row \<Rightarrow> outbox_row" where
  "done_row now r = r\<lparr>o_status := Done, synced_at := Some now, last_error := None\<rparr>"

text \<open>What becomes of a claimed row.\<close>

definition row_settled :: "utc \<Rightarrow> outbox_row \<Rightarrow> outbox_row \<Rightarrow> bool" where
  "row_settled now r r' \<longleftrightarrow> r' = done_row now r \<or> (\<exists>msg. r' = failed_row msg r)"

text \<open>
  The effect of processing rows with the ids \<open>is\<close> of a table: those rows are settled, the
  others untouched, and the two counts are those of the rows done and given up.
\<close>

definition settles :: "utc \<Rightarrow> uuid list \<Rightarrow> db \<Rightarrow> int \<times> int \<Rightarrow> db \<Rightarrow> bool" where
  "settles now is d c d' \<longleftrightarrow>
     d' = d\<lparr>outbox := outbox d'\<rparr> \<and> map o_id (outbox d') = map o_id (outbox d) \<and>
     (\<forall>i. i \<notin> set is \<longrightarrow> row_at d' i = row_at d i) \<and>
     (\<forall>i \<in> set is. \<exists>r r'. row_at d i = Some r \<and> row_at d' i = Some r' \<and> row_settled now r r') \<and>
     fst c = int (length (filter (\<lambda>i. status_at d' i = Some Done) is)) \<and>
     snd c = int (length (filter (\<lambda>i. status_at d' i = Some SyncFailed) is))"

lemma settles_Nil: "settles now [] d (0, 0) d"
  by (simp add: settles_def)

lemma settles_append:
  assumes 1: "settles now xs d (a, b) d1" and 2: "settles now ys d1 (a', b') d2" and dis: "set xs \<inter> set ys = {}"
  shows "settles now (xs @ ys) d (a + a', b + b') d2"
proof -
  have x: "row_at d2 i = row_at d1 i" if "i \<in> set xs" for i using 2 dis that unfolding settles_def by blast
  have y: "row_at d1 i = row_at d i" if "i \<in> set ys" for i using 1 dis that unfolding settles_def by blast
  have f: "filter (\<lambda>i. status_at d2 i = st) xs = filter (\<lambda>i. status_at d1 i = st) xs" for st
    by (rule filter_cong) (simp_all add: status_at_def x)
  have e: "d1 = d\<lparr>outbox := outbox d1\<rparr>" "d2 = d1\<lparr>outbox := outbox d2\<rparr>" using 1 2 unfolding settles_def by blast+
  have "d1\<lparr>outbox := outbox d2\<rparr> = d\<lparr>outbox := outbox d2\<rparr>" by (subst e(1)) simp
  with e(2) have "d2 = d\<lparr>outbox := outbox d2\<rparr>" by (rule trans)
  moreover have "map o_id (outbox d2) = map o_id (outbox d)" using 1 2 by (simp add: settles_def)
  moreover have "row_at d2 i = row_at d i" if "i \<notin> set (xs @ ys)" for i
    using 1 2 that by (simp add: settles_def)
  moreover have "\<exists>r r'. row_at d i = Some r \<and> row_at d2 i = Some r' \<and> row_settled now r r'" if "i \<in> set (xs @ ys)" for i
  proof (cases "i \<in> set xs")
    case True
    then show ?thesis using 1 x unfolding settles_def by metis
  next
    case False
    then show ?thesis using 2 y that unfolding settles_def by (metis Un_iff set_append)
  qed
  ultimately show ?thesis using 1 2 f unfolding settles_def by simp
qed

lemma settles_keys: "settles now is d c d' \<Longrightarrow> outbox_keys d' = outbox_keys d"
  by (simp add: settles_def outbox_keys_def)

lemma settles_ids: "settles now is d c d' \<Longrightarrow> o_id ` set (outbox d') = o_id ` set (outbox d)"
  unfolding settles_def by (metis list.set_map)

lemma mark_done_settles:
  assumes "o_id ` set c \<subseteq> o_id ` set (outbox d)"
  shows "settles now (map o_id c) d (int (length c), 0) (mark_rows_done now c d)"
proof -
  let ?d = "mark_rows_done now c d"
  have at_d: "row_at ?d i = map_option (\<lambda>r. if o_id r \<in> o_id ` set c then done_row now r else r) (row_at d i)" for i
    by (cases "row_at d i") (simp_all add: mark_rows_done_def row_at_update done_row_def)
  have out: "row_at ?d i = row_at d i" if "i \<notin> o_id ` set c" for i
    using that by (cases "row_at d i") (auto simp: at_d dest: row_at_id)
  have here: "\<exists>r. row_at d i = Some r \<and> row_at ?d i = Some (done_row now r)" if "i \<in> o_id ` set c" for i
  proof -
    have "row_at d i \<noteq> None" using that assms by (auto simp: row_at_None)
    then obtain r where "row_at d i = Some r" by blast
    with that show ?thesis by (auto simp: at_d dest: row_at_id)
  qed
  have st: "status_at ?d i = Some Done" if "i \<in> set (map o_id c)" for i
    using here [of i] that by (auto simp: status_at_def done_row_def)
  have f1: "filter (\<lambda>i. status_at ?d i = Some Done) (map o_id c) = map o_id c"
    by (rule filter_True) (use st in blast)
  have f2: "filter (\<lambda>i. status_at ?d i = Some SyncFailed) (map o_id c) = []"
    by (rule filter_False) (use st in force)
  have "map o_id (outbox ?d) = map o_id (outbox d)" by (simp add: mark_rows_done_def map_update_where)
  moreover have "?d = d\<lparr>outbox := outbox ?d\<rparr>" by (simp add: mark_rows_done_def)
  moreover have "\<exists>r r'. row_at d i = Some r \<and> row_at ?d i = Some r' \<and> row_settled now r r'" if "i \<in> set (map o_id c)" for i
    using here [of i] that by (auto simp: row_settled_def)
  ultimately show ?thesis using f1 f2 out unfolding settles_def by auto
qed

lemma mark_one_settles:
  assumes "row_at d i = Some x"
  shows "settles now [i] d (0, if gives_up x then 1 else 0)
    (d\<lparr>outbox := update_where (\<lambda>y. o_id y = i) (\<lambda>_. failed_row msg x) (outbox d)\<rparr>)"
proof -
  let ?d = "d\<lparr>outbox := update_where (\<lambda>y. o_id y = i) (\<lambda>_. failed_row msg x) (outbox d)\<rparr>"
  have "o_id x = i" using assms by (rule row_at_id)
  then have at_d: "row_at ?d j = map_option (\<lambda>r. if o_id r = i then failed_row msg x else r) (row_at d j)" for j
    by (subst row_at_update) auto
  have "row_at ?d i = Some (failed_row msg x)" using assms \<open>o_id x = i\<close> by (simp add: at_d)
  moreover have "row_at ?d j = row_at d j" if "j \<noteq> i" for j
    using that by (cases "row_at d j") (auto simp: at_d dest: row_at_id)
  moreover have "map o_id (outbox ?d) = map o_id (outbox d)"
    using \<open>o_id x = i\<close> by (simp add: update_where_def)
  ultimately show ?thesis
    using assms unfolding settles_def by (auto simp: row_settled_def status_at_def failed_row_def)
qed

lemma mark_failed_settles:
  "distinct (map o_id c) \<Longrightarrow> o_id ` set c \<subseteq> o_id ` set (outbox d) \<Longrightarrow>
     \<exists>n d'. mark_rows_failed_or_pending c msg d = Some (n, d') \<and> settles now (map o_id c) d (0, n) d'"
proof (induction c arbitrary: d)
  case (Cons r c)
  then have "row_at d (o_id r) \<noteq> None" by (auto simp: row_at_None)
  then obtain x where x: "row_at d (o_id r) = Some x" by blast
  let ?d = "d\<lparr>outbox := update_where (\<lambda>y. o_id y = o_id r) (\<lambda>_. failed_row msg x) (outbox d)\<rparr>"
  have one: "settles now [o_id r] d (0, if gives_up x then 1 else 0) ?d" by (rule mark_one_settles [OF x])
  have "o_id ` set c \<subseteq> o_id ` set (outbox ?d)"
    using Cons.prems(2) settles_ids [OF one] by (metis image_insert insert_subset list.simps(15))
  then obtain n d' where rest: "mark_rows_failed_or_pending c msg ?d = Some (n, d')" "settles now (map o_id c) ?d (0, n) d'"
    using Cons.IH [of ?d] Cons.prems(1) by auto
  have "settles now ([o_id r] @ map o_id c) d (0 + 0, (if gives_up x then 1 else 0) + n) d'"
    by (rule settles_append [OF one rest(2)]) (use Cons.prems(1) in auto)
  moreover have "find_row (\<lambda>x. o_id x = o_id r) (outbox d) = Some x"
    using x by (simp add: row_at_lookup out_table.lookup_def)
  ultimately show ?case using rest(1) by (simp add: add.commute)
qed (simp add: settles_Nil)

lemma concat_chunks: "concat (chunks k xs) = xs"
  by (induction k xs rule: chunks.induct) auto

lemma process_each_settles:
  "distinct (map o_id (concat cs)) \<Longrightarrow> o_id ` set (concat cs) \<subseteq> o_id ` set (outbox d) \<Longrightarrow>
     \<exists>c d' s'. process_each f now cs (d, s) = Some (c, d', s') \<and> settles now (map o_id (concat cs)) d c d'"
proof (induction cs arbitrary: d s)
  case (Cons c cs)
  have in_c: "o_id ` set c \<subseteq> o_id ` set (outbox d)" "distinct (map o_id c)" using Cons.prems by auto
  obtain x s' where f: "f c s = (x, s')" by fastforce
  obtain n m d1 where step: "settles now (map o_id c) d (n, m) d1"
    and eq: "process_each f now (c # cs) (d, s) =
      (case process_each f now cs (d1, s') of None \<Rightarrow> None | Some ((a, b), w) \<Rightarrow> Some ((n + a, m + b), w))"
  proof (cases x)
    case None
    show thesis
      by (rule that [OF mark_done_settles [OF in_c(1), of now]])
        (use f None in \<open>auto split: option.splits\<close>)
  next
    case (Some e)
    obtain k d1 where k: "mark_rows_failed_or_pending c (error_text e) d = Some (k, d1)" "settles now (map o_id c) d (0, k) d1"
      using mark_failed_settles [OF in_c(2,1)] by blast
    show thesis by (rule that [OF k(2)]) (use f Some k(1) in \<open>auto split: option.splits\<close>)
  qed
  have "o_id ` set (concat cs) \<subseteq> o_id ` set (outbox d1)" using Cons.prems(2) settles_ids [OF step] by auto
  then obtain a b d' s'' where rest: "process_each f now cs (d1, s') = Some ((a, b), d', s'')"
    "settles now (map o_id (concat cs)) d1 (a, b) d'"
    using Cons.IH [of d1 s'] Cons.prems(1) by fastforce
  have "settles now (map o_id c @ map o_id (concat cs)) d (n + a, m + b) d'"
    by (rule settles_append [OF step rest(2)]) (use Cons.prems(1) in auto)
  then show ?case using eq rest(1) by simp
qed (simp add: settles_Nil)

lemma process_chunks_settles:
  assumes "distinct (map o_id rows)" and "o_id ` set rows \<subseteq> o_id ` set (outbox d)"
  shows "\<exists>a b d' s'. process_chunks f now rows (d, s) = Some ((a, b), d', s') \<and> settles now (map o_id rows) d (a, b) d'"
  using process_each_settles [of "chunks 9 rows" d f now s] assms
  by (auto simp: process_chunks_def concat_chunks)

section \<open>The cycle\<close>

lemma filter_three:
  "length (filter P xs) = length (filter P (filter (\<lambda>r. op r = Upsert) xs)) + length (filter P (filter (\<lambda>r. op r = Archive) xs))
     + length (filter P (filter (\<lambda>r. op r = Delete) xs))"
proof (induction xs)
  case (Cons x xs)
  then show ?case by (cases "op x") auto
qed simp

lemma settles_three:
  assumes "settles now (map o_id (filter (\<lambda>r. operation r = Upsert) rows)) d1 (a, b) d2"
    and "settles now (map o_id (filter (\<lambda>r. operation r = Archive) rows)) d2 (a', b') d3"
    and "settles now (map o_id (filter (\<lambda>r. operation r = Delete) rows)) d3 (a'', b'') d4"
    and dist: "distinct (map o_id rows)"
  shows "settles now (map o_id rows) d1 (a + a' + a'', b + b' + b'') d4"
proof -
  let ?u = "filter (\<lambda>r. operation r = Upsert) rows" and ?a = "filter (\<lambda>r. operation r = Archive) rows"
    and ?x = "filter (\<lambda>r. operation r = Delete) rows"
  have inj: "inj_on o_id (set rows)" using dist by (simp add: distinct_map)
  have apart: "o_id r \<noteq> o_id t" if "r \<in> set rows" "t \<in> set rows" "operation r \<noteq> operation t" for r t
    using inj_on_eq_iff [OF inj that(1,2)] that(3) by auto
  have "set (map o_id ?u) \<inter> set (map o_id ?a) = {}" using apart by fastforce
  then have 1: "settles now (map o_id ?u @ map o_id ?a) d1 (a + a', b + b') d3"
    by (rule settles_append [OF assms(1,2)])
  have "set (map o_id ?u @ map o_id ?a) \<inter> set (map o_id ?x) = {}" using apart by fastforce
  then have 2: "settles now ((map o_id ?u @ map o_id ?a) @ map o_id ?x) d1 (a + a' + a'', b + b' + b'') d4"
    by (rule settles_append [OF 1 assms(3)])
  have cover: "operation r = Upsert \<or> operation r = Archive \<or> operation r = Delete" for r
    by (cases "operation r") auto
  have "set ((map o_id ?u @ map o_id ?a) @ map o_id ?x) = set (map o_id rows)" using cover by auto
  moreover have "length (filter P ((map o_id ?u @ map o_id ?a) @ map o_id ?x)) = length (filter P (map o_id rows))" for P
    using filter_three [of "P \<circ> o_id" rows operation] by (simp add: filter_map)
  ultimately show ?thesis using 2 unfolding settles_def by presburger
qed

lemma process_operations_settle:
  assumes "distinct (map o_id rows)" and "o_id ` set rows \<subseteq> o_id ` set (outbox d)"
  shows "\<exists>u fu w2 a fa w3 x fx d' s'.
     process_chunks f now (filter (\<lambda>r. operation r = Upsert) rows) (d, s) = Some ((u, fu), w2) \<and>
     process_chunks g now (filter (\<lambda>r. operation r = Archive) rows) w2 = Some ((a, fa), w3) \<and>
     process_chunks h now (filter (\<lambda>r. operation r = Delete) rows) w3 = Some ((x, fx), d', s') \<and>
     settles now (map o_id rows) d (u + a + x, fu + fa + fx) d'"
proof -
  let ?r = "\<lambda>op. filter (\<lambda>r. operation r = op) rows"
  have dist: "distinct (map o_id (?r op))" for op using assms(1) by (simp add: distinct_map_filter)
  have sub: "o_id ` set (?r op) \<subseteq> o_id ` set (outbox d)" for op using assms(2) by auto
  obtain u fu d2 s2 where 1: "process_chunks f now (?r Upsert) (d, s) = Some ((u, fu), d2, s2)"
    "settles now (map o_id (?r Upsert)) d (u, fu) d2"
    using process_chunks_settles [OF dist sub] by blast
  have sub2: "o_id ` set (?r op) \<subseteq> o_id ` set (outbox d2)" for op using sub settles_ids [OF 1(2)] by simp
  obtain a fa d3 s3 where 2: "process_chunks g now (?r Archive) (d2, s2) = Some ((a, fa), d3, s3)"
    "settles now (map o_id (?r Archive)) d2 (a, fa) d3"
    using process_chunks_settles [OF dist sub2] by blast
  have sub3: "o_id ` set (?r op) \<subseteq> o_id ` set (outbox d3)" for op using sub2 settles_ids [OF 2(2)] by simp
  obtain x fx d4 s4 where 3: "process_chunks h now (?r Delete) (d3, s3) = Some ((x, fx), d4, s4)"
    "settles now (map o_id (?r Delete)) d3 (x, fx) d4"
    using process_chunks_settles [OF dist sub3] by blast
  show ?thesis using 1 2 3 settles_three [OF 1(2) 2(2) 3(2) assms(1)] by blast
qed

lemma claimed_pending_ids:
  assumes "outbox_keys d"
  shows "set (map o_id (fst (claim_rows (pending_ids t b d) d))) = set (pending_ids t b d)"
    and "length (fst (claim_rows (pending_ids t b d) d)) = length (pending_ids t b d)"
proof -
  let ?is = "pending_ids t b d" and ?rows = "fst (claim_rows (pending_ids t b d) d)"
  show s: "set (map o_id ?rows) = set ?is"
    using claim_rows_rows [OF assms, of ?is] pending_ids_row [OF assms, of _ t b]
    by (auto simp: image_iff dest: row_at_id) (metis row_at_id row_ids(1))
  show "length ?rows = length ?is"
    using s claim_rows_rows [OF assms, of ?is] pending_ids_distinct [OF assms, of t b]
    by (metis distinct_card length_map)
qed

lemma cycle_effect:
  assumes k: "outbox_keys d"
  shows "\<exists>c d' s' rows d1. run_outbox_cycle str_of q now tenant batch (d, s) = Some (c, d', s') \<and>
     claim_rows (pending_ids tenant batch d) d = (rows, d1) \<and>
     settles now (map o_id rows) d1 (n_done c, n_failed c) d' \<and> n_claimed c = int (length rows)"
proof -
  obtain rows d1 where cl: "claim_rows (pending_ids tenant batch d) d = (rows, d1)" by fastforce
  have dist: "distinct (map o_id rows)" using claim_rows_rows [OF k, of "pending_ids tenant batch d"] cl by simp
  have sub: "o_id ` set rows \<subseteq> o_id ` set (outbox d1)"
  proof
    fix i assume "i \<in> o_id ` set rows"
    then have i: "i \<in> set (pending_ids tenant batch d)" using claimed_pending_ids(1) [OF k, of tenant batch] cl by simp
    then have "row_at d1 i \<noteq> None"
      using pending_ids_row [OF k i] claim_rows_at [of "pending_ids tenant batch d" d i] cl by auto
    then show "i \<in> o_id ` set (outbox d1)" by (simp add: row_at_None)
  qed
  show ?thesis
  proof (cases "rows = []")
    case True
    then show ?thesis using cl by (simp add: run_outbox_cycle_def settles_Nil)
  next
    case False
    obtain u fu w2 a fa w3 x fx d' s' where
      "process_chunks (apply_upsert_batch str_of q) now (filter (\<lambda>r. operation r = Upsert) rows) (d1, s) = Some ((u, fu), w2)"
      "process_chunks (apply_archive_batch str_of q) now (filter (\<lambda>r. operation r = Archive) rows) w2 = Some ((a, fa), w3)"
      "process_chunks (apply_delete_batch str_of q) now (filter (\<lambda>r. operation r = Delete) rows) w3 = Some ((x, fx), d', s')"
      "settles now (map o_id rows) d1 (u + a + x, fu + fa + fx) d'"
      using process_operations_settle [OF dist sub, where f = "apply_upsert_batch str_of q" and g = "apply_archive_batch str_of q"
          and h = "apply_delete_batch str_of q" and now = now and s = s] by blast
    then show ?thesis using cl False by (simp add: run_outbox_cycle_def)
  qed
qed

section \<open>Rows over time\<close>

text \<open>
  The life of a row: at most three attempts for a row that is not a privacy deletion, and
  failure only after the third.
\<close>

definition row_ok :: "outbox_row \<Rightarrow> bool" where
  "row_ok r \<longleftrightarrow> 0 \<le> attempts r \<and>
     (\<not> privacy_delete r \<longrightarrow> attempts r \<le> 3 \<and> (o_status r = Pending \<longrightarrow> attempts r \<le> 2)) \<and>
     (o_status r = SyncFailed \<longrightarrow> 3 \<le> attempts r \<and> \<not> privacy_delete r)"

definition outbox_inv :: "db \<Rightarrow> bool" where
  "outbox_inv d \<longleftrightarrow> outbox_keys d \<and> (\<forall>r \<in> set (outbox d). row_ok r \<and> o_id r < next_id d)"

text \<open>
  The steps of the outbox, over the database with the vector store: enqueueing, a complete
  cycle, a worker that dies after it committed its claim, and anything else that happens to
  the vector store and its breaker.
\<close>

inductive outbox_step :: "db \<times> 'i vstate \<Rightarrow> db \<times> 'i vstate \<Rightarrow> bool" where
  step_upsert: "outbox_step (d, s) (enqueue_vector_upsert i emb p d, s)"
| step_archive: "outbox_step (d, s) (enqueue_vector_archive i p d, s)"
| step_delete: "outbox_step (d, s) (enqueue_vector_delete i p d, s)"
| step_cycle: "run_outbox_cycle str_of q now tenant batch (d, s) = Some (c, d', s') \<Longrightarrow> outbox_step (d, s) (d', s')"
| step_crash: "outbox_step (d, s) (snd (claim_rows is d), s)"
| step_store: "outbox_step (d, s) (d, s')"

definition outbox_init :: "db \<times> 'i vstate \<Rightarrow> bool" where
  "outbox_init w \<longleftrightarrow> outbox (fst w) = []"

lemma claimed_row_ok: "row_ok r \<Longrightarrow> o_status r = Pending \<Longrightarrow> row_ok (claimed_row r)"
  by (auto simp: row_ok_def claimed_row_def privacy_delete_def)

lemma settled_row_ok: "row_settled now r r' \<Longrightarrow> row_ok r \<Longrightarrow> row_ok r'"
  by (auto simp: row_settled_def row_ok_def done_row_def failed_row_def gives_up_def privacy_delete_def split: if_splits)

lemma inv_rows: "outbox_inv d \<longleftrightarrow> outbox_keys d \<and> (\<forall>i r. row_at d i = Some r \<longrightarrow> row_ok r \<and> i < next_id d)"
proof
  assume "outbox_inv d"
  then show "outbox_keys d \<and> (\<forall>i r. row_at d i = Some r \<longrightarrow> row_ok r \<and> i < next_id d)"
    by (auto simp: outbox_inv_def row_at_lookup dest: out_table.lookup_Some)
next
  assume "outbox_keys d \<and> (\<forall>i r. row_at d i = Some r \<longrightarrow> row_ok r \<and> i < next_id d)"
  then show "outbox_inv d" unfolding outbox_inv_def using row_at_in [of d] by blast
qed

lemma claim_rows_frame [simp]: "next_id (snd (claim_rows is d)) = next_id d"
proof (induction "is" arbitrary: d)
  case (Cons i "is")
  then show ?case by (simp add: claim_rows_Cons claim_outbox_row_def del: claim_rows.simps(2))
qed simp

lemma claim_rows_inv: "outbox_inv d \<Longrightarrow> outbox_inv (snd (claim_rows is d))"
  by (auto simp: inv_rows claim_rows_at claimed_row_ok split: if_splits)

lemma settles_inv:
  assumes "outbox_inv d" and "settles now is d c d'"
  shows "outbox_inv d'"
proof -
  have "next_id d' = next_id d" using assms(2) unfolding settles_def by (metis db.select_convs(7) db.surjective db.update_convs(3))
  moreover have "row_ok r' \<and> i < next_id d" if "row_at d' i = Some r'" for i r'
  proof (cases "i \<in> set is")
    case True
    then obtain r where "row_at d i = Some r" "row_settled now r r'"
      using assms(2) \<open>row_at d' i = Some r'\<close> unfolding settles_def by (metis option.inject)
    then show ?thesis using assms(1) settled_row_ok by (auto simp: inv_rows)
  next
    case False
    then show ?thesis using assms that by (auto simp: inv_rows settles_def)
  qed
  ultimately show ?thesis using assms(1) settles_keys [OF assms(2)] by (auto simp: inv_rows)
qed

lemma cycle_inv:
  assumes "outbox_inv d" and "run_outbox_cycle str_of q now tenant batch (d, s) = Some (c, d', s')"
  shows "outbox_inv d'"
proof -
  have "outbox_keys d" using assms(1) by (simp add: outbox_inv_def)
  then obtain rows d1 where "claim_rows (pending_ids tenant batch d) d = (rows, d1)"
    "settles now (map o_id rows) d1 (n_done c, n_failed c) d'"
    using cycle_effect [of d str_of q now tenant batch s] assms(2) by auto
  then show ?thesis
    using settles_inv [of d1] claim_rows_inv [OF assms(1), of "pending_ids tenant batch d"] by auto
qed

lemma add_row_inv: "outbox_inv d \<Longrightarrow> outbox_inv (add_outbox_row (new_outbox_row op i e p d) d)"
  by (force simp: outbox_inv_def outbox_keys_def add_outbox_row_def new_outbox_row_def row_ok_def)

lemma outbox_step_inv: "outbox_step w w' \<Longrightarrow> outbox_inv (fst w) \<Longrightarrow> outbox_inv (fst w')"
  by (induction rule: outbox_step.induct)
    (auto simp: enqueue_vector_upsert_def enqueue_vector_archive_def enqueue_vector_delete_def
      intro: add_row_inv claim_rows_inv cycle_inv)

interpretation outbox_machine: invariant_system outbox_init outbox_step "\<lambda>w. outbox_inv (fst w)"
proof unfold_locales
  show "outbox_init w \<Longrightarrow> outbox_inv (fst w)" for w :: "db \<times> 'i vstate"
    by (simp add: outbox_init_def outbox_inv_def outbox_keys_def)
  show "outbox_inv (fst w) \<Longrightarrow> outbox_step w w' \<Longrightarrow> outbox_inv (fst w')" for w w' :: "db \<times> 'i vstate"
    by (rule outbox_step_inv)
qed

section \<open>Properties\<close>

text \<open>
  (C14) A sync cycle always runs to its end and settles exactly what it claimed. It claims the
  pending rows it selected; each of them leaves with one more attempt and is done, or pending
  again, or failed, never left in processing; every other row of the outbox is untouched; and
  the counts it reports are those of the rows claimed, done and given up. This holds whatever
  the vector store answers and whatever the circuit breaker does.
\<close>

theorem cycle_settles_what_it_claims:
  assumes "outbox_keys d"
  shows "\<exists>c d' s'. run_outbox_cycle str_of q now tenant batch (d, s) = Some (c, d', s') \<and>
    n_claimed c = int (length (pending_ids tenant batch d)) \<and>
    n_done c = int (card {i \<in> set (pending_ids tenant batch d). status_at d' i = Some Done}) \<and>
    n_failed c = int (card {i \<in> set (pending_ids tenant batch d). status_at d' i = Some SyncFailed}) \<and>
    (\<forall>i. i \<notin> set (pending_ids tenant batch d) \<longrightarrow> row_at d' i = row_at d i) \<and>
    (\<forall>i \<in> set (pending_ids tenant batch d). \<exists>r r'. row_at d i = Some r \<and> row_at d' i = Some r' \<and>
       row_settled now (claimed_row r) r' \<and> o_status r' \<noteq> Processing)"
proof -
  let ?is = "pending_ids tenant batch d"
  obtain c d' s' rows d1 where run: "run_outbox_cycle str_of q now tenant batch (d, s) = Some (c, d', s')"
    and cl: "claim_rows ?is d = (rows, d1)" and st: "settles now (map o_id rows) d1 (n_done c, n_failed c) d'"
    and n: "n_claimed c = int (length rows)"
    using cycle_effect [OF assms] by blast
  have ids: "set (map o_id rows) = set ?is" "length rows = length ?is"
    using claimed_pending_ids [OF assms, of tenant batch] cl by simp_all
  have dist: "distinct (map o_id rows)" using claim_rows_rows [OF assms, of ?is] cl by simp
  have at1: "row_at d1 i = map_option (\<lambda>r. if i \<in> set ?is \<and> o_status r = Pending then claimed_row r else r) (row_at d i)" for i
    using claim_rows_at [of ?is d i] cl by simp
  have count: "length (filter P (map o_id rows)) = card {i \<in> set ?is. P i}" for P
    using distinct_length_filter [OF dist, of P] ids(1) by (simp add: Int_def conj_commute)
  have other: "row_at d' i = row_at d i" if "i \<notin> set ?is" for i
    using st that ids(1) at1 [of i] by (cases "row_at d i") (simp_all add: settles_def)
  have "\<exists>r r'. row_at d i = Some r \<and> row_at d' i = Some r' \<and> row_settled now (claimed_row r) r' \<and> o_status r' \<noteq> Processing"
    if i: "i \<in> set ?is" for i
  proof -
    obtain r where r: "row_at d i = Some r" "o_status r = Pending" using pending_ids_row [OF assms i] by blast
    then have "row_at d1 i = Some (claimed_row r)" using at1 i by simp
    then obtain r' where r': "row_at d' i = Some r'" "row_settled now (claimed_row r) r'"
      using st i ids(1) unfolding settles_def by force
    moreover have "o_status r' \<noteq> Processing"
      using r'(2) by (auto simp: row_settled_def done_row_def failed_row_def split: if_splits)
    ultimately show ?thesis using r(1) by blast
  qed
  moreover have "n_done c = int (card {i \<in> set ?is. status_at d' i = Some Done})"
    "n_failed c = int (card {i \<in> set ?is. status_at d' i = Some SyncFailed})"
    using st count by (simp_all add: settles_def)
  moreover have "n_claimed c = int (length ?is)" using n ids(2) by simp
  ultimately show ?thesis using run other by (intro exI [of _ c] exI [of _ d'] exI [of _ s']) blast
qed

text \<open>
  In every reachable state of the outbox (rows enqueued, cycles run against any vector
  store, workers lost after their claim) a row that is not a privacy deletion has been
  attempted at most three times and has failed only after the third attempt, and a privacy
  deletion is never given up.
\<close>

theorem outbox_attempts_bounded:
  assumes "reach outbox_init outbox_step (d, s)" and "r \<in> set (outbox d)"
  shows "(privacy_delete r \<or> attempts r \<le> 3) \<and> (o_status r = SyncFailed \<longrightarrow> attempts r = 3 \<and> \<not> privacy_delete r)"
  using outbox_machine.reachable_inv [OF assms(1)] assms(2) by (force simp: outbox_inv_def row_ok_def)

text \<open>
  However the claims of several workers interleave, no row is handed out twice: in any
  sequence of claim attempts each pending row that occurs in it is claimed exactly once, and
  no other row is.
\<close>

theorem claims_are_exclusive:
  assumes "outbox_keys d"
  shows "distinct (map o_id (fst (claim_rows is d))) \<and>
    o_id ` set (fst (claim_rows is d)) = {i \<in> set is. status_at d i = Some Pending}"
proof -
  have rows: "set (fst (claim_rows is d)) = claimed_row ` {r. \<exists>i \<in> set is. row_at d i = Some r \<and> o_status r = Pending}"
    using claim_rows_rows [OF assms, of "is"] by (simp add: setcompr_eq_image)
  have "o_id ` set (fst (claim_rows is d)) = o_id ` {r. \<exists>i \<in> set is. row_at d i = Some r \<and> o_status r = Pending}"
    unfolding rows by (simp add: image_image)
  also have "\<dots> = {i \<in> set is. status_at d i = Some Pending}"
    by (auto simp: status_at_def image_iff dest: row_at_id)
  finally show ?thesis using claim_rows_rows [OF assms, of "is"] by blast
qed

text \<open>
  A row in processing whose worker is lost stays in processing: no cycle of any worker
  ever selects, changes or settles it.
\<close>

theorem lost_claim_is_never_retried:
  assumes "outbox_keys d" and "status_at d i = Some Processing"
    and "run_outbox_cycle str_of q now tenant batch (d, s) = Some (c, d', s')"
  shows "row_at d' i = row_at d i"
proof -
  have "i \<notin> set (pending_ids tenant batch d)"
    using pending_ids_row [OF assms(1), of i tenant batch] assms(2) by (auto simp: status_at_def)
  then have "row_at (snd (claim_rows (pending_ids tenant batch d) d)) i = row_at d i"
    by (cases "row_at d i") (simp_all add: claim_rows_at)
  moreover obtain rows d1 where "claim_rows (pending_ids tenant batch d) d = (rows, d1)"
    "settles now (map o_id rows) d1 (n_done c, n_failed c) d'"
    using cycle_effect [OF assms(1), of str_of q now tenant batch s] assms(3) by auto
  moreover have "set (map o_id (fst (claim_rows (pending_ids tenant batch d) d))) = set (pending_ids tenant batch d)"
    using claimed_pending_ids(1) [OF assms(1)] by blast
  ultimately show ?thesis using \<open>i \<notin> set (pending_ids tenant batch d)\<close> unfolding settles_def by auto
qed

section \<open>Witnesses\<close>

text \<open>A client over the ids of the stored points that answers every request.\<close>

definition id_client :: "uuid list qdrant_env" where
  "id_client =
     \<lparr>client = (\<lambda>n cmd i.
        case cmd of
          CollectionExists c \<Rightarrow> (Returns (Exists True), i)
        | UpsertPoints c ps \<Rightarrow> (Returns Ack, map pt_id ps @ i)
        | DeleteIds c is \<Rightarrow> (Returns Ack, filter (\<lambda>x. x \<notin> set is) i)
        | _ \<Rightarrow> (Returns Ack, i)),
      breaker_env = (\<lambda>n. (example_env 10, example_env 10))\<rparr>"

definition id_vstate :: "uuid list vstate" where
  "id_vstate = \<lparr>index = [1], qbreaker = (None, qdrant_breaker), calls = 0, initialized_collections = [''memories'']\<rparr>"

definition example_outbox :: db where
  "example_outbox = enqueue_vector_upsert 1 [1] [] (enqueue_vector_delete 1 [] example_db)"

lemma example_outbox_keys: "outbox_keys example_outbox"
  by code_simp

lemma example_pending: "pending_ids None 100 example_outbox = [100, 101]"
  by code_simp

theorem cycle_settles_what_it_claims_witness:
  "\<exists>c d' s'. run_outbox_cycle (\<lambda>_. []) id_client 7 None 100 (example_outbox, id_vstate) = Some (c, d', s') \<and> n_claimed c = 2"
  using cycle_settles_what_it_claims [OF example_outbox_keys, of "\<lambda>_. []" id_client 7 None 100 id_vstate]
  unfolding example_pending by (simp, blast)

theorem claims_are_exclusive_witness:
  "distinct (map o_id (fst (claim_rows [100, 101, 100] example_outbox)))"
  using claims_are_exclusive [OF example_outbox_keys, of "[100, 101, 100]"] by blast

theorem outbox_attempts_bounded_witness:
  "privacy_delete (new_outbox_row Delete 1 None [] example_db) \<or> attempts (new_outbox_row Delete 1 None [] example_db) \<le> 3"
proof -
  have "reach outbox_init outbox_step (enqueue_vector_delete 1 [] example_db, id_vstate)"
    by (rule reach_step [where s = "(example_db, id_vstate)"])
      (auto intro: reach_init step_delete simp: outbox_init_def example_db_def)
  moreover have "new_outbox_row Delete 1 None [] example_db \<in> set (outbox (enqueue_vector_delete 1 [] example_db))"
    by (simp add: enqueue_vector_delete_def add_outbox_row_def)
  ultimately show ?thesis using outbox_attempts_bounded by blast
qed

theorem lost_claim_is_never_retried_witness:
  "\<exists>c d' s'. run_outbox_cycle (\<lambda>_. []) id_client 7 None 100 (snd (claim_rows [100, 101] example_outbox), id_vstate) = Some (c, d', s') \<and>
     status_at d' 100 = Some Processing"
proof -
  let ?d = "snd (claim_rows [100, 101] example_outbox)"
  have k: "outbox_keys ?d" using example_outbox_keys by (simp only: claim_rows_keys)
  obtain c d' s' where run: "run_outbox_cycle (\<lambda>_. []) id_client 7 None 100 (?d, id_vstate) = Some (c, d', s')"
    using cycle_effect [OF k] by blast
  have p: "status_at ?d 100 = Some Processing" by code_simp
  show ?thesis using lost_claim_is_never_retried [OF k p run] run p by (auto simp: status_at_def)
qed

text \<open>
  Order within a batch. A memory archived and then restored leaves a deletion followed by an
  upsert in the outbox. One cycle over both applies the upsert first and the deletion last: both
  rows end done, and the restored memory is missing from the index.
\<close>

theorem deletion_overtakes_later_upsert:
  "case run_outbox_cycle (\<lambda>_. []) id_client 7 None 100 (example_outbox, id_vstate) of
     None \<Rightarrow> False
   | Some (c, d', s') \<Rightarrow> map operation (outbox d') = [Delete, Upsert] \<and> map o_status (outbox d') = [Done, Done] \<and> index s' = []"
  by code_simp

end
