(* ===== verification/Importance.thy ===== *)
theory Importance
  imports Storage
begin

text \<open>
  The importance score of a memory: \<open>src/api/services/importance_scorer.py\<close>. Scores live in the
  range from 1 to 10. The first decay of a memory stores its score as the baseline in the
  metadata, and every later decay starts from that baseline.
\<close>

section \<open>The scorer\<close>

definition category_weights_default :: "(string \<times> pyfloat) list" where
  "category_weights_default =
     [(''goal'', 3/2), (''procedure'', 1), (''preference'', 1/2), (''fact'', 0), (''relationship'', 4/5), (''expertise'', 3/10)]"

definition max_access_boost_default :: pyfloat where
  "max_access_boost_default = 1/2"

definition access_boost_cap_count_default :: int where
  "access_boost_cap_count_default = 100"

record scorer =
  category_weights :: "(string \<times> pyfloat) list"
  max_access_boost :: pyfloat
  access_boost_cap_count :: int

definition importance_scorer :: "(string \<times> pyfloat) list option \<Rightarrow> pyfloat \<Rightarrow> int \<Rightarrow> scorer" where
  "importance_scorer weights boost cap =
     \<lparr>category_weights = (case weights of None \<Rightarrow> category_weights_default | Some w \<Rightarrow> if w = [] then category_weights_default else w),
      max_access_boost = boost, access_boost_cap_count = cap\<rparr>"

definition default_scorer :: scorer where
  "default_scorer = importance_scorer None max_access_boost_default access_boost_cap_count_default"

definition normalize_score :: "pyfloat \<Rightarrow> pyfloat" where
  "normalize_score x = max 1 (min 10 x)"

definition category_weight :: "scorer \<Rightarrow> string \<Rightarrow> pyfloat" where
  "category_weight sc c = dget (category_weights sc) (py_lower c) 0"

definition access_boost_for_count :: "scorer \<Rightarrow> int \<Rightarrow> pyfloat" where
  "access_boost_for_count sc n =
     of_int (max 0 (min n (access_boost_cap_count sc))) / of_int (access_boost_cap_count sc) * max_access_boost sc"

text \<open>\<open>int(x or 0)\<close>; \<open>None\<close> when \<open>int\<close> raises.\<close>

definition int_or_zero :: "pyval \<Rightarrow> int option" where
  "int_or_zero v = py_int (py_or v (PInt 0))"

text \<open>
  The context is a dictionary of JSON values; a listed memory is a dictionary, and a value of
  any other type has no \<open>access_count\<close>.
\<close>

definition memory_access_count :: "pyval \<Rightarrow> int option" where
  "memory_access_count v = (case v of PDict d \<Rightarrow> int_or_zero (dget d ''access_count'' (PInt 0)) | _ \<Rightarrow> Some 0)"

fun sum_counts :: "pyval list \<Rightarrow> int option" where
  "sum_counts [] = Some 0"
| "sum_counts (v # vs) =
     (case (memory_access_count v, sum_counts vs) of (Some a, Some b) \<Rightarrow> Some (a + b) | _ \<Rightarrow> None)"

definition extract_similar_access_count :: "(string \<times> pyval) list \<Rightarrow> int option" where
  "extract_similar_access_count ctx =
     (case map_of ctx ''similar_access_count'' of
        Some v \<Rightarrow> int_or_zero v
      | None \<Rightarrow>
          (case map_of ctx ''similar_memory_access_count'' of
             Some v \<Rightarrow> int_or_zero v
           | None \<Rightarrow>
               (case dget ctx ''similar_memories'' (PList []) of
                  PList vs \<Rightarrow> sum_counts vs
                | _ \<Rightarrow> Some 0)))"

definition calculate_access_pattern_boost :: "scorer \<Rightarrow> (string \<times> pyval) list \<Rightarrow> pyfloat option" where
  "calculate_access_pattern_boost sc ctx = map_option (access_boost_for_count sc) (extract_similar_access_count ctx)"

definition score :: "scorer \<Rightarrow> pyfloat \<Rightarrow> string \<Rightarrow> (string \<times> pyval) list \<Rightarrow> pyfloat option" where
  "score sc llm_score cat ctx =
     map_option (\<lambda>boost. normalize_score (llm_score + category_weight sc cat + boost)) (calculate_access_pattern_boost sc ctx)"

definition record_access :: "scorer \<Rightarrow> utc \<Rightarrow> memory \<Rightarrow> memory" where
  "record_access sc now m =
     (let n = access_count m;
          delta = access_boost_for_count sc (n + 1) - access_boost_for_count sc n
      in m\<lparr>access_count := n + 1, last_accessed_at := Some now,
           importance_score := normalize_score (py_round (importance_score m + delta) 6)\<rparr>)"

definition day_us :: int where
  "day_us = 86400000000"

text \<open>\<open>(reference_time - last_accessed_at).days\<close> rounds towards minus infinity.\<close>

definition inactive_days :: "utc \<Rightarrow> int \<Rightarrow> memory \<Rightarrow> int" where
  "inactive_days now grace m =
     max 0 ((now - (case last_accessed_at m of None \<Rightarrow> created_at m | Some t \<Rightarrow> t)) div day_us - grace)"

text \<open>
  \<open>compute_decay\<close>: the memory, with the baseline stored if it was not, and the score. \<open>None\<close>: the
  stored baseline is not a number and \<open>float\<close> raises. No model class has a column
  \<open>original_importance_score\<close>, so the second place the code looks for a baseline is empty.
\<close>

definition compute_decay :: "scorer \<Rightarrow> utc \<Rightarrow> int \<Rightarrow> pyfloat \<Rightarrow> memory \<Rightarrow> (pyfloat \<times> memory) option" where
  "compute_decay sc now grace decay m =
     (let stored = dget (metadata_json m) ''original_importance_score'' PNone;
          baseline = (if stored = PNone then PFloat (importance_score m) else stored);
          m' = (if stored = PNone
                then m\<lparr>metadata_json := AList.update ''original_importance_score'' baseline (metadata_json m)\<rparr> else m)
      in case py_float baseline of
           None \<Rightarrow> None
         | Some b \<Rightarrow>
             Some (normalize_score (py_round (b - (of_int (inactive_days now grace m) / 30) * decay
                     + access_boost_for_count sc (access_count m)) 6), m'))"

definition recompute_baseline :: "utc \<Rightarrow> memory \<Rightarrow> pyfloat \<times> memory" where
  "recompute_baseline now m =
     (let md = (if map_of (metadata_json m) ''original_importance_score'' = None
                then AList.update ''original_importance_score'' (PFloat (importance_score m)) (metadata_json m)
                else metadata_json m)
      in (importance_score m, m\<lparr>metadata_json := AList.update ''last_baseline_rescored_at'' (PInt now) md\<rparr>))"

section \<open>Lemmas\<close>

definition score_ok :: "pyfloat \<Rightarrow> bool" where
  "score_ok x \<longleftrightarrow> 1 \<le> x \<and> x \<le> 10"

lemma normalize_score_ok [simp]: "score_ok (normalize_score x)"
  by (simp add: normalize_score_def score_ok_def)

lemma normalize_score_mono: "x \<le> y \<Longrightarrow> normalize_score x \<le> normalize_score y"
  by (auto simp: normalize_score_def)

lemma normalize_score_id: "score_ok x \<Longrightarrow> normalize_score x = x"
  by (auto simp: normalize_score_def score_ok_def)

lemma inactive_days_mono: "t \<le> u \<Longrightarrow> inactive_days t g m \<le> inactive_days u g m"
proof -
  let ?l = "case last_accessed_at m of None \<Rightarrow> created_at m | Some t \<Rightarrow> t"
  assume "t \<le> u"
  then have "(t - ?l) div day_us \<le> (u - ?l) div day_us" by (intro zdiv_mono1) (simp_all add: day_us_def)
  then show ?thesis by (simp add: inactive_days_def)
qed

lemma inactive_days_cong [simp]:
  "inactive_days t g (m\<lparr>importance_score := x\<rparr>) = inactive_days t g m"
  "inactive_days t g (m\<lparr>metadata_json := md\<rparr>) = inactive_days t g m"
  by (simp_all add: inactive_days_def split: option.split)

lemma access_boost_mono:
  assumes "0 < access_boost_cap_count sc" and "0 \<le> max_access_boost sc" and "n \<le> k"
  shows "access_boost_for_count sc n \<le> access_boost_for_count sc k"
proof -
  have "max 0 (min n (access_boost_cap_count sc)) \<le> max 0 (min k (access_boost_cap_count sc))" using assms(3) by auto
  then have "(of_int (max 0 (min n (access_boost_cap_count sc))) :: rat) \<le> of_int (max 0 (min k (access_boost_cap_count sc)))"
    by (simp only: of_int_le_iff)
  then show ?thesis
    using assms(1,2) by (simp add: access_boost_for_count_def divide_right_mono mult_right_mono)
qed

lemma default_scorer_simps [simp]:
  "access_boost_cap_count default_scorer = 100" "max_access_boost default_scorer = 1/2"
  by (simp_all add: default_scorer_def importance_scorer_def access_boost_cap_count_default_def max_access_boost_default_def)

lemma compute_decay_some:
  "compute_decay sc t g k m = Some (x, m') \<Longrightarrow>
     \<exists>b v. py_float v = Some b \<and> v \<noteq> PNone \<and> dget (metadata_json m') ''original_importance_score'' PNone = v \<and>
       (m' = m \<or> m' = m\<lparr>metadata_json := AList.update ''original_importance_score'' v (metadata_json m)\<rparr>) \<and>
       (\<forall>u. compute_decay sc u g k m = Some (normalize_score (py_round (b - (of_int (inactive_days u g m) / 30) * k
           + access_boost_for_count sc (access_count m)) 6), m'))"
  by (cases "dget (metadata_json m) ''original_importance_score'' PNone = PNone")
    (auto simp: compute_decay_def Let_def split: option.splits)

lemma compute_decay_again:
  assumes "compute_decay sc t g k m = Some (x, m')"
  shows "compute_decay sc u g k (m'\<lparr>importance_score := y\<rparr>) =
    map_option (\<lambda>(z, _). (z, m'\<lparr>importance_score := y\<rparr>)) (compute_decay sc u g k m)"
proof -
  obtain b v where v: "py_float v = Some b" "v \<noteq> PNone"
      "dget (metadata_json m') ''original_importance_score'' PNone = v"
      "m' = m \<or> m' = m\<lparr>metadata_json := AList.update ''original_importance_score'' v (metadata_json m)\<rparr>"
    and eq: "\<forall>u. compute_decay sc u g k m = Some (normalize_score (py_round (b - (of_int (inactive_days u g m) / 30) * k
           + access_boost_for_count sc (access_count m)) 6), m')"
    using compute_decay_some [OF assms] by blast
  have "inactive_days u g m' = inactive_days u g m" "access_count m' = access_count m" using v(4) by auto
  then show ?thesis using v(1-3) eq by (simp add: compute_decay_def Let_def)
qed

section \<open>Properties\<close>

text \<open>
  Every score the scorer produces, from extraction, from an access or from decay, lies
  between 1 and 10, whatever score, category, counts, baseline and times it is given.
\<close>

theorem scores_stay_in_range:
  "(\<forall>x. score sc llm cat ctx = Some x \<longrightarrow> score_ok x) \<and> score_ok (importance_score (record_access sc now m)) \<and>
   (\<forall>x m'. compute_decay sc now g k m = Some (x, m') \<longrightarrow> score_ok x)"
  by (auto simp: score_def record_access_def compute_decay_def Let_def split: option.splits)

theorem scores_stay_in_range_witness:
  "\<exists>x. score default_scorer 9 ''goal'' [] = Some x \<and> score_ok x"
proof -
  obtain x where x: "score default_scorer 9 ''goal'' [] = Some x"
    by (simp add: score_def calculate_access_pattern_boost_def extract_similar_access_count_def)
  then show ?thesis using scores_stay_in_range [of default_scorer 9 "''goal''" "[]" 0 example_memory 30 1] by blast
qed

text \<open>
  Decay is idempotent and does not depend on how often it ran. Once a memory has been
  decayed and the score stored, decaying it again at any time \<open>u\<close>, with a baseline rescoring in
  between or not, gives exactly the score that one decay of the original memory at \<open>u\<close> gives;
  and the score never rises with time.
\<close>

theorem decay_is_path_independent:
  assumes "compute_decay sc t g k m = Some (x, m')" and "0 \<le> k"
  shows "\<exists>y. map_option fst (compute_decay sc u g k m) = Some y \<and>
    map_option fst (compute_decay sc u g k (m'\<lparr>importance_score := x\<rparr>)) = Some y \<and>
    map_option fst (compute_decay sc u g k (snd (recompute_baseline n (m'\<lparr>importance_score := x\<rparr>)))) = Some y \<and>
    (t \<le> u \<longrightarrow> y \<le> x)"
proof -
  obtain b v where v: "py_float v = Some b" "v \<noteq> PNone"
      "dget (metadata_json m') ''original_importance_score'' PNone = v"
      "m' = m \<or> m' = m\<lparr>metadata_json := AList.update ''original_importance_score'' v (metadata_json m)\<rparr>"
    and eq: "\<forall>u. compute_decay sc u g k m = Some (normalize_score (py_round (b - (of_int (inactive_days u g m) / 30) * k
           + access_boost_for_count sc (access_count m)) 6), m')"
    using compute_decay_some [OF assms(1)] by blast
  let ?y = "normalize_score (py_round (b - (of_int (inactive_days u g m) / 30) * k + access_boost_for_count sc (access_count m)) 6)"
  have x: "x = normalize_score (py_round (b - (of_int (inactive_days t g m) / 30) * k + access_boost_for_count sc (access_count m)) 6)"
    using eq assms(1) by simp
  have "?y \<le> x" if "t \<le> u"
  proof -
    have "(of_int (inactive_days t g m) :: rat) \<le> of_int (inactive_days u g m)"
      using inactive_days_mono [OF that] by (simp only: of_int_le_iff)
    then have "(of_int (inactive_days t g m) / 30) * k \<le> (of_int (inactive_days u g m) / 30) * k"
      using assms(2) by (intro mult_right_mono) simp_all
    then show ?thesis unfolding x by (intro normalize_score_mono py_round_mono) simp
  qed
  moreover have "map_option fst (compute_decay sc u g k (m'\<lparr>importance_score := x\<rparr>)) = Some ?y"
    using compute_decay_again [OF assms(1), of u x] eq by simp
  moreover have "map_option fst (compute_decay sc u g k (snd (recompute_baseline n (m'\<lparr>importance_score := x\<rparr>)))) = Some ?y"
  proof -
    have "map_of (metadata_json m') ''original_importance_score'' = Some v" using v(2,3) by (auto simp: dget_def split: option.splits)
    moreover have "inactive_days u g m' = inactive_days u g m" "access_count m' = access_count m" using v(4) by auto
    ultimately show ?thesis
      using v(1-3) by (simp add: compute_decay_def recompute_baseline_def Let_def)
  qed
  ultimately show ?thesis using eq by auto
qed

theorem decay_is_path_independent_witness:
  "map_option fst (compute_decay default_scorer (90 * day_us) 30 (1/2) example_memory) = Some 4"
proof -
  obtain x m' where "compute_decay default_scorer (60 * day_us) 30 (1/2) example_memory = Some (x, m')"
    by (simp add: compute_decay_def example_memory_def Let_def)
  then show ?thesis
    using decay_is_path_independent [of default_scorer "60 * day_us" 30 "1/2" example_memory x m' "90 * day_us" 0]
    by (auto simp: compute_decay_def example_memory_def Let_def inactive_days_def day_us_def access_boost_for_count_def
        normalize_score_def py_round_def round_half_even_def)
qed

definition stored_score :: "pyfloat \<Rightarrow> bool" where
  "stored_score x \<longleftrightarrow> score_ok x \<and> py_round x 6 = x"

text \<open>
  An access never lowers a score that the scorer stored, and never raises it by more than
  the access boost of one more access, a hundredth of half a point, rounded to six digits.
\<close>

theorem access_never_lowers_score:
  assumes "stored_score (importance_score m)"
  shows "importance_score m \<le> importance_score (record_access default_scorer now m) \<and>
    importance_score (record_access default_scorer now m) \<le> py_round (importance_score m + 1/200) 6"
proof -
  let ?d = "access_boost_for_count default_scorer (access_count m + 1) - access_boost_for_count default_scorer (access_count m)"
  let ?s = "importance_score m"
  have ok: "score_ok ?s" "py_round ?s 6 = ?s" using assms by (auto simp: stored_score_def)
  have "access_boost_for_count default_scorer (access_count m) \<le> access_boost_for_count default_scorer (access_count m + 1)"
    by (rule access_boost_mono) simp_all
  then have d0: "0 \<le> ?d" by simp
  have "max 0 (min (access_count m + 1) 100) \<le> max 0 (min (access_count m) 100) + (1 :: int)" by auto
  then have "(of_int (max 0 (min (access_count m + 1) 100)) :: rat) \<le> of_int (max 0 (min (access_count m) 100) + 1)"
    by (simp only: of_int_le_iff)
  then have d1: "?d \<le> 1/200" by (simp add: access_boost_for_count_def)
  have new: "importance_score (record_access default_scorer now m) = normalize_score (py_round (?s + ?d) 6)"
    by (simp add: record_access_def Let_def)
  have "py_round ?s 6 \<le> py_round (?s + ?d) 6" using d0 by (intro py_round_mono) simp
  then have "normalize_score ?s \<le> normalize_score (py_round (?s + ?d) 6)" using ok(2) by (intro normalize_score_mono) simp
  then have low: "?s \<le> importance_score (record_access default_scorer now m)"
    using normalize_score_id [OF ok(1)] new by simp
  have "1 \<le> py_round (?s + ?d) 6"
    using py_round_ge_int [of 1 "?s + ?d" 6] ok(1) d0 by (simp add: score_ok_def)
  then have "normalize_score (py_round (?s + ?d) 6) \<le> py_round (?s + ?d) 6" by (simp add: normalize_score_def)
  moreover have "py_round (?s + ?d) 6 \<le> py_round (?s + 1/200) 6" using d1 by (intro py_round_mono) simp
  ultimately show ?thesis using low new by simp
qed

theorem access_never_lowers_score_witness:
  "importance_score example_memory \<le> importance_score (record_access default_scorer 5 example_memory)"
proof -
  have "stored_score (importance_score example_memory)"
    using py_round_of_int [of 5 6] by (simp add: stored_score_def score_ok_def example_memory_def)
  then show ?thesis using access_never_lowers_score by blast
qed

end
