(* ===== verification/ClaimTables.thy ===== *)
theory ClaimTables
  imports Storage
begin

text \<open>
  The agreement of the three tables behind the claim ledger (memories, claims and revisions of
  \<open>src/api/db/models.py\<close>), stated over their key/value views, with the two elementary moves the
  services make: taking the place of a claim's winner away and giving a claim without an
  activated revision to a memory.
\<close>

section \<open>The ledger invariant\<close>

text \<open>
  The agreement between the three tables, over their key/value views: an activated revision
  is the winner its claim names; the winner a claim names is one of its revisions and belongs
  to the claim's active memory; the active memory of a claim exists and has won, and it is
  unarchived exactly when the winning revision is activated (an archived winner that the claim
  still names is the tombstone an explicit archiving leaves). A memory has at most one
  revision, and a claim holds revisions of memories or revisions of domain fields, not both.
\<close>

definition winners_ok :: "(uuid \<Rightarrow> memory option) \<Rightarrow> (uuid \<Rightarrow> memory_claim option) \<Rightarrow> (uuid \<Rightarrow> claim_revision option) \<Rightarrow> bool" where
  "winners_ok M C R \<longleftrightarrow>
     (\<forall>i r. R i = Some r \<longrightarrow> r_status r = ''activated'' \<longrightarrow>
        (\<exists>c. C (r_claim_id r) = Some c \<and> winning_revision_id c = Some i)) \<and>
     (\<forall>k c w. C k = Some c \<longrightarrow> winning_revision_id c = Some w \<longrightarrow>
        (\<exists>r. R w = Some r \<and> r_claim_id r = k \<and> r_memory_id r = active_memory_id c)) \<and>
     (\<forall>k c i. C k = Some c \<longrightarrow> active_memory_id c = Some i \<longrightarrow>
        (\<exists>w r m. winning_revision_id c = Some w \<and> R w = Some r \<and> M i = Some m \<and> (r_status r = ''activated'' \<longleftrightarrow> \<not> is_archived m)))"

definition revisions_ok :: "(uuid \<Rightarrow> claim_revision option) \<Rightarrow> bool" where
  "revisions_ok R \<longleftrightarrow>
     (\<forall>i j r r'. R i = Some r \<longrightarrow> R j = Some r' \<longrightarrow> r_memory_id r = r_memory_id r' \<longrightarrow> r_memory_id r \<noteq> None \<longrightarrow> i = j) \<and>
     (\<forall>i j r r'. R i = Some r \<longrightarrow> R j = Some r' \<longrightarrow> r_claim_id r = r_claim_id r' \<longrightarrow>
        (r_memory_id r = None \<longleftrightarrow> r_memory_id r' = None))"

definition mem_view :: "db \<Rightarrow> uuid \<Rightarrow> memory option" where
  "mem_view d i = get_memory i d"

definition claim_view :: "db \<Rightarrow> uuid \<Rightarrow> memory_claim option" where
  "claim_view d i = get_claim i d"

definition rev_view :: "db \<Rightarrow> uuid \<Rightarrow> claim_revision option" where
  "rev_view d i = get_revision i d"

definition ledger_inv :: "db \<Rightarrow> bool" where
  "ledger_inv d \<longleftrightarrow> distinct (map r_id (revisions d)) \<and> revisions_ok (rev_view d) \<and>
     winners_ok (mem_view d) (claim_view d) (rev_view d)"

lemma ledger_invD:
  assumes "ledger_inv d"
  shows "distinct (map r_id (revisions d))" and "revisions_ok (rev_view d)" and "winners_ok (mem_view d) (claim_view d) (rev_view d)"
  using assms by (simp_all add: ledger_inv_def)

subsection \<open>Transitions of the views\<close>

lemma winners_activated:
  assumes "winners_ok M C R" and "R i = Some r" and "r_status r = ''activated''"
  obtains c where "C (r_claim_id r) = Some c" "winning_revision_id c = Some i"
  using assms unfolding winners_ok_def by blast

lemma winners_winner:
  assumes "winners_ok M C R" and "C k = Some c" and "winning_revision_id c = Some w"
  obtains r where "R w = Some r" "r_claim_id r = k" "r_memory_id r = active_memory_id c"
  using assms unfolding winners_ok_def by blast

lemma winners_active:
  assumes "winners_ok M C R" and "C k = Some c" and "active_memory_id c = Some i"
  obtains w r m where "winning_revision_id c = Some w" "R w = Some r" "r_claim_id r = k"
    "r_memory_id r = Some i" "M i = Some m" "r_status r = ''activated'' \<longleftrightarrow> \<not> is_archived m"
proof -
  obtain w r m where w: "winning_revision_id c = Some w" "R w = Some r" "M i = Some m" "r_status r = ''activated'' \<longleftrightarrow> \<not> is_archived m"
    using assms unfolding winners_ok_def by blast
  obtain r' where "R w = Some r'" "r_claim_id r' = k" "r_memory_id r' = active_memory_id c"
    by (rule winners_winner [OF assms(1,2) w(1)])
  then have "r_claim_id r = k" "r_memory_id r = Some i" using w(2) assms(3) by simp_all
  then show thesis using that w by blast
qed

text \<open>A claim without an activated revision.\<close>

definition idle_claim :: "(uuid \<Rightarrow> claim_revision option) \<Rightarrow> uuid \<Rightarrow> bool" where
  "idle_claim R k \<longleftrightarrow> (\<forall>v y. R v = Some y \<longrightarrow> r_claim_id y = k \<longrightarrow> r_status y \<noteq> ''activated'')"

lemma idle_no_winner:
  assumes "winners_ok M C R" and "C k = Some c" and "winning_revision_id c = None"
  shows "idle_claim R k"
  unfolding idle_claim_def
proof (intro allI impI notI)
  fix v y
  assume y: "R v = Some y" "r_claim_id y = k" "r_status y = ''activated''"
  obtain c' where "C (r_claim_id y) = Some c'" "winning_revision_id c' = Some v"
    by (rule winners_activated [OF assms(1) y(1,3)])
  then show False using assms(2,3) y(2) by simp
qed

lemma revisions_same:
  assumes "revisions_ok R" and "R i = Some r" and "R j = Some r'" and "r_memory_id r = Some x" and "r_memory_id r' = Some x"
  shows "i = j"
proof -
  have "r_memory_id r = r_memory_id r'" "r_memory_id r \<noteq> None" using assms(4,5) by simp_all
  then show ?thesis using assms(1-3) unfolding revisions_ok_def by blast
qed

lemma revisions_kind:
  assumes "revisions_ok R" and "R i = Some r" and "R j = Some r'" and "r_claim_id r = r_claim_id r'" and "r_memory_id r' = Some x"
  shows "r_memory_id r \<noteq> None"
proof -
  have "r_memory_id r = None \<longleftrightarrow> r_memory_id r' = None" using assms(1-4) unfolding revisions_ok_def by blast
  then show ?thesis using assms(5) by simp
qed

text \<open>Taking the place of a winner away, and giving a vacant place to a memory.\<close>

lemma demote_ok:
  assumes ok: "winners_ok M C R" and rev: "revisions_ok R"
    and r: "R w = Some r" "r_memory_id r = Some i" "r_claim_id r = k"
    and c: "C k = Some c"
    and r': "r_memory_id r' = Some i" "r_claim_id r' = k" "r_status r' \<noteq> ''activated''"
    and c': "active_memory_id c' = None" "winning_revision_id c' = None"
    and won: "active_memory_id c = Some i"
    and m': "m_id m' = i"
  shows "winners_ok (M(i := Some m')) (C(k := Some c')) (R(w := Some r'))"
proof -
  obtain w' x where w': "winning_revision_id c = Some w'" and x: "R w' = Some x" "r_memory_id x = Some i"
    by (rule winners_active [OF ok c won])
  have "w' = w" by (rule revisions_same [OF rev x(1) r(1) x(2) r(2)])
  with w' have w: "winning_revision_id c = Some w" by simp
  have others: "active_memory_id c2 \<noteq> Some i" if prem: "C k2 = Some c2" "k2 \<noteq> k" for k2 c2
  proof
    assume a: "active_memory_id c2 = Some i"
    obtain v y where y: "R v = Some y" "r_claim_id y = k2" "r_memory_id y = Some i"
      by (rule winners_active [OF ok prem(1) a])
    then have "v = w" using revisions_same [OF rev y(1) r(1) y(3) r(2)] by simp
    then show False using \<open>R v = Some y\<close> \<open>r_claim_id y = k2\<close> r prem(2) by simp
  qed
  have A: "\<exists>c2. (C(k := Some c')) (r_claim_id y) = Some c2 \<and> winning_revision_id c2 = Some j"
    if prem: "(R(w := Some r')) j = Some y" "r_status y = ''activated''" for j y
  proof -
    have j: "j \<noteq> w" "R j = Some y" using prem r'(3) by (auto split: if_splits)
    obtain c2 where c2: "C (r_claim_id y) = Some c2" "winning_revision_id c2 = Some j"
      by (rule winners_activated [OF ok j(2) prem(2)])
    then have "r_claim_id y \<noteq> k" using c w j(1) by auto
    then show ?thesis using c2 by simp
  qed
  have B: "\<exists>y. (R(w := Some r')) v = Some y \<and> r_claim_id y = k2 \<and> r_memory_id y = active_memory_id c2"
    if prem: "(C(k := Some c')) k2 = Some c2" "winning_revision_id c2 = Some v" for k2 c2 v
  proof -
    have k2: "k2 \<noteq> k" "C k2 = Some c2" using prem c'(2) by (auto split: if_splits)
    obtain y where y: "R v = Some y" "r_claim_id y = k2" "r_memory_id y = active_memory_id c2"
      by (rule winners_winner [OF ok k2(2) prem(2)])
    then have "v \<noteq> w" using r k2(1) by auto
    then show ?thesis using y by simp
  qed
  have D: "\<exists>v y m. winning_revision_id c2 = Some v \<and> (R(w := Some r')) v = Some y \<and> (M(i := Some m')) j = Some m \<and>
      (r_status y = ''activated'' \<longleftrightarrow> \<not> is_archived m)"
    if prem: "(C(k := Some c')) k2 = Some c2" "active_memory_id c2 = Some j" for k2 c2 j
  proof -
    have k2: "k2 \<noteq> k" "C k2 = Some c2" using prem c'(1) by (auto split: if_splits)
    then have ji: "j \<noteq> i" using others prem(2) by blast
    obtain v y m where y: "winning_revision_id c2 = Some v" "R v = Some y" "r_claim_id y = k2" "M j = Some m"
        "r_status y = ''activated'' \<longleftrightarrow> \<not> is_archived m"
      by (rule winners_active [OF ok k2(2) prem(2)])
    then have "v \<noteq> w" using r k2(1) by auto
    with y ji show ?thesis by simp
  qed
  show ?thesis unfolding winners_ok_def using A B D by blast
qed

lemma promote_ok:
  assumes ok: "winners_ok M C R" and rev: "revisions_ok R"
    and r: "R w = Some r" "r_memory_id r = Some i" "r_claim_id r = k"
    and idle: "idle_claim R k"
    and r': "r_memory_id r' = Some i" "r_claim_id r' = k" "r_status r' = ''activated''"
    and c': "active_memory_id c' = Some i" "winning_revision_id c' = Some w"
    and m': "\<not> is_archived m'"
  shows "winners_ok (M(i := Some m')) (C(k := Some c')) (R(w := Some r'))"
proof -
  have A: "\<exists>c2. (C(k := Some c')) (r_claim_id y) = Some c2 \<and> winning_revision_id c2 = Some j"
    if y: "(R(w := Some r')) j = Some y" "r_status y = ''activated''" for j y
  proof (cases "j = w")
    case True
    then show ?thesis using y r' c' by simp
  next
    case False
    then have j: "R j = Some y" using y by simp
    obtain c2 where c2: "C (r_claim_id y) = Some c2" "winning_revision_id c2 = Some j"
      by (rule winners_activated [OF ok j y(2)])
    have "r_claim_id y \<noteq> k" using idle j y(2) unfolding idle_claim_def by blast
    then show ?thesis using c2 by simp
  qed
  have B: "\<exists>y. (R(w := Some r')) v = Some y \<and> r_claim_id y = k2 \<and> r_memory_id y = active_memory_id c2"
    if y: "(C(k := Some c')) k2 = Some c2" "winning_revision_id c2 = Some v" for k2 c2 v
  proof (cases "k2 = k")
    case True
    then show ?thesis using y r' c' by simp
  next
    case False
    then have k2: "C k2 = Some c2" using y by simp
    obtain z where z: "R v = Some z" "r_claim_id z = k2" "r_memory_id z = active_memory_id c2"
      by (rule winners_winner [OF ok k2 y(2)])
    then have "v \<noteq> w" using r False by auto
    then show ?thesis using z by simp
  qed
  have D: "\<exists>v y m. winning_revision_id c2 = Some v \<and> (R(w := Some r')) v = Some y \<and> (M(i := Some m')) j = Some m \<and>
      (r_status y = ''activated'' \<longleftrightarrow> \<not> is_archived m)"
    if y: "(C(k := Some c')) k2 = Some c2" "active_memory_id c2 = Some j" for k2 c2 j
  proof (cases "k2 = k")
    case True
    then show ?thesis using y c' m' r' by auto
  next
    case False
    then have k2: "C k2 = Some c2" using y by simp
    obtain v z m where z: "winning_revision_id c2 = Some v" "R v = Some z" "r_claim_id z = k2" "r_memory_id z = Some j"
        "M j = Some m" "r_status z = ''activated'' \<longleftrightarrow> \<not> is_archived m"
      by (rule winners_active [OF ok k2 y(2)])
    have vw: "v \<noteq> w" using z r False by auto
    then have "j \<noteq> i" using revisions_same [OF rev z(2) r(1) z(4)] r(2) by blast
    with z vw show ?thesis by simp
  qed
  show ?thesis unfolding winners_ok_def using A B D by blast
qed

text \<open>The tombstone: the claim keeps naming a winner whose revision and memory are archived.\<close>

lemma tombstone_ok:
  assumes ok: "winners_ok M C R" and rev: "revisions_ok R" and c: "C k = Some c" "active_memory_id c = Some i" "winning_revision_id c = Some w"
    and r: "R w = Some r" and c': "active_memory_id c' = Some i" "winning_revision_id c' = Some w"
    and r': "r_memory_id r' = r_memory_id r" "r_claim_id r' = r_claim_id r" "r_status r' \<noteq> ''activated''" and m': "is_archived m'"
  shows "winners_ok (M(i := Some m')) (C(k := Some c')) (R(w := Some r'))"
proof -
  obtain r0 where r0: "R w = Some r0" "r_claim_id r0 = k" "r_memory_id r0 = active_memory_id c" by (rule winners_winner [OF ok c(1,3)])
  then have rk: "r_claim_id r = k" "r_memory_id r = Some i" using r c(2) by simp_all
  have others: "active_memory_id c2 \<noteq> Some i" if p: "C k2 = Some c2" "k2 \<noteq> k" for k2 c2
  proof
    assume a: "active_memory_id c2 = Some i"
    obtain v y where y: "R v = Some y" "r_claim_id y = k2" "r_memory_id y = Some i" by (rule winners_active [OF ok p(1) a])
    have "v = w" by (rule revisions_same [OF rev y(1) r y(3) rk(2)])
    then show False using y r rk p(2) by simp
  qed
  have A: "\<exists>c2. (C(k := Some c')) (r_claim_id y) = Some c2 \<and> winning_revision_id c2 = Some j"
    if p: "(R(w := Some r')) j = Some y" "r_status y = ''activated''" for j y
  proof -
    have j: "j \<noteq> w" "R j = Some y" using p r'(3) by (auto split: if_splits)
    obtain c2 where c2: "C (r_claim_id y) = Some c2" "winning_revision_id c2 = Some j" by (rule winners_activated [OF ok j(2) p(2)])
    then have "r_claim_id y \<noteq> k" using c j(1) by auto
    then show ?thesis using c2 by simp
  qed
  have B: "\<exists>y. (R(w := Some r')) v = Some y \<and> r_claim_id y = k2 \<and> r_memory_id y = active_memory_id c2"
    if p: "(C(k := Some c')) k2 = Some c2" "winning_revision_id c2 = Some v" for k2 c2 v
  proof (cases "k2 = k")
    case True
    then show ?thesis using p c' r' rk by auto
  next
    case False
    then have k2: "C k2 = Some c2" using p by simp
    obtain y where y: "R v = Some y" "r_claim_id y = k2" "r_memory_id y = active_memory_id c2" by (rule winners_winner [OF ok k2 p(2)])
    then have "v \<noteq> w" using r rk False by auto
    then show ?thesis using y by simp
  qed
  have D: "\<exists>v y m. winning_revision_id c2 = Some v \<and> (R(w := Some r')) v = Some y \<and> (M(i := Some m')) j = Some m \<and>
      (r_status y = ''activated'' \<longleftrightarrow> \<not> is_archived m)"
    if p: "(C(k := Some c')) k2 = Some c2" "active_memory_id c2 = Some j" for k2 c2 j
  proof (cases "k2 = k")
    case True
    then show ?thesis using p c' r'(3) m' by auto
  next
    case False
    then have k2: "C k2 = Some c2" using p by simp
    then have ji: "j \<noteq> i" using others False p(2) by blast
    obtain v y m where y: "winning_revision_id c2 = Some v" "R v = Some y" "r_claim_id y = k2" "M j = Some m"
        "r_status y = ''activated'' \<longleftrightarrow> \<not> is_archived m"
      by (rule winners_active [OF ok k2 p(2)])
    then have "v \<noteq> w" using r rk False by auto
    with y ji show ?thesis by simp
  qed
  show ?thesis unfolding winners_ok_def using A B D by blast
qed

lemma unclaimed_ok:
  assumes ok: "winners_ok M C R" and free: "\<And>k c. C k = Some c \<Longrightarrow> active_memory_id c \<noteq> Some i"
  shows "winners_ok (M(i := Some m')) C R"
proof -
  have "\<exists>w r m. winning_revision_id c = Some w \<and> R w = Some r \<and> (M(i := Some m')) j = Some m \<and>
      (r_status r = ''activated'' \<longleftrightarrow> \<not> is_archived m)"
    if p: "C k = Some c" "active_memory_id c = Some j" for k c j
  proof -
    have "j \<noteq> i" using free [OF p(1)] p(2) by auto
    moreover obtain w r m where "winning_revision_id c = Some w" "R w = Some r" "M j = Some m"
        "r_status r = ''activated'' \<longleftrightarrow> \<not> is_archived m"
      by (rule winners_active [OF ok p])
    ultimately show ?thesis by simp
  qed
  then show ?thesis using ok unfolding winners_ok_def by blast
qed

text \<open>Forgetting a memory with its revision, after which the claims in \<open>ks\<close> are set anew.\<close>

lemma forget_ok:
  assumes ok: "winners_ok M C R"
    and R': "\<And>w r. R' w = Some r \<longleftrightarrow> R w = Some r \<and> r_memory_id r \<noteq> Some i"
    and M': "\<And>j m. j \<noteq> i \<Longrightarrow> M j = Some m \<Longrightarrow> \<exists>m'. M' j = Some m' \<and> is_archived m' = is_archived m"
    and ks: "\<And>w r. R w = Some r \<Longrightarrow> r_memory_id r = Some i \<Longrightarrow> r_claim_id r \<in> ks"
    and out: "\<And>k. k \<notin> ks \<Longrightarrow> C' k = C k"
    and act: "\<And>w r. R' w = Some r \<Longrightarrow> r_claim_id r \<in> ks \<Longrightarrow> r_status r = ''activated'' \<Longrightarrow>
      \<exists>c'. C' (r_claim_id r) = Some c' \<and> winning_revision_id c' = Some w"
    and set: "\<And>k c'. k \<in> ks \<Longrightarrow> C' k = Some c' \<Longrightarrow> (winning_revision_id c' = None \<and> active_memory_id c' = None) \<or>
      (\<exists>w r. R' w = Some r \<and> r_claim_id r = k \<and> r_status r = ''activated'' \<and> winning_revision_id c' = Some w \<and> active_memory_id c' = r_memory_id r)"
  shows "winners_ok M' C' R'"
proof -
  have A: "\<exists>c. C' (r_claim_id r) = Some c \<and> winning_revision_id c = Some w"
    if p: "R' w = Some r" "r_status r = ''activated''" for w r
  proof (cases "r_claim_id r \<in> ks")
    case False
    have "R w = Some r" using p R' by blast
    then obtain c where "C (r_claim_id r) = Some c" "winning_revision_id c = Some w" by (rule winners_activated [OF ok _ p(2)])
    then show ?thesis using out [OF False] by simp
  qed (rule act [OF p(1) _ p(2)])
  have B: "\<exists>r. R' w = Some r \<and> r_claim_id r = k \<and> r_memory_id r = active_memory_id c"
    if p: "C' k = Some c" "winning_revision_id c = Some w" for k c w
  proof (cases "k \<in> ks")
    case True
    then show ?thesis using set [OF True p(1)] p(2) by auto
  next
    case False
    then have "C k = Some c" using out p(1) by simp
    then obtain r where "R w = Some r" "r_claim_id r = k" "r_memory_id r = active_memory_id c" by (rule winners_winner [OF ok _ p(2)])
    then show ?thesis using R' ks False by blast
  qed
  have D: "\<exists>w r m. winning_revision_id c = Some w \<and> R' w = Some r \<and> M' j = Some m \<and> (r_status r = ''activated'' \<longleftrightarrow> \<not> is_archived m)"
    if p: "C' k = Some c" "active_memory_id c = Some j" for k c j
  proof (cases "k \<in> ks")
    case True
    then obtain w r where r: "R' w = Some r" "r_claim_id r = k" "r_status r = ''activated''" "winning_revision_id c = Some w" "r_memory_id r = Some j"
      using set [OF True p(1)] p(2) by auto
    have rw: "R w = Some r" "j \<noteq> i" using r R' by auto
    obtain c0 where c0: "C k = Some c0" "winning_revision_id c0 = Some w"
      using r(2) by (auto intro: winners_activated [OF ok rw(1) r(3)])
    obtain r0 where "R w = Some r0" "r_memory_id r0 = active_memory_id c0" by (rule winners_winner [OF ok c0])
    then have "active_memory_id c0 = Some j" using rw r(5) by simp
    then obtain w' r' m where "winning_revision_id c0 = Some w'" "R w' = Some r'" "M j = Some m" "r_status r' = ''activated'' \<longleftrightarrow> \<not> is_archived m"
      by (rule winners_active [OF ok c0(1)])
    then have "M j = Some m" "\<not> is_archived m" using c0(2) rw r(3) by simp_all
    then show ?thesis using M' [OF rw(2)] r by blast
  next
    case False
    then have "C k = Some c" using out p(1) by simp
    then obtain w r m where r: "winning_revision_id c = Some w" "R w = Some r" "r_claim_id r = k" "r_memory_id r = Some j" "M j = Some m"
      "r_status r = ''activated'' \<longleftrightarrow> \<not> is_archived m" by (rule winners_active [OF ok _ p(2)])
    have "j \<noteq> i" using ks [OF r(2)] r(3,4) False by auto
    then show ?thesis using M' [OF _ r(5)] R' r by fastforce
  qed
  show ?thesis unfolding winners_ok_def using A B D by blast
qed

lemma revisions_ok_sub: "revisions_ok R \<Longrightarrow> (\<And>w r. R' w = Some r \<Longrightarrow> R w = Some r) \<Longrightarrow> revisions_ok R'"
  unfolding revisions_ok_def by metis

lemma revisions_ok_update:
  assumes "revisions_ok R" and "R w = Some r" and "r_memory_id r' = r_memory_id r" and "r_claim_id r' = r_claim_id r"
  shows "revisions_ok (R(w := Some r'))"
proof -
  have e: "\<exists>y. R i = Some y \<and> r_memory_id x = r_memory_id y \<and> r_claim_id x = r_claim_id y" if "(R(w := Some r')) i = Some x" for i x
    using that assms(2-4) by (cases "i = w") auto
  show ?thesis
    unfolding revisions_ok_def
  proof (intro conjI allI impI)
    fix i j x y
    assume a: "(R(w := Some r')) i = Some x" "(R(w := Some r')) j = Some y"
    obtain x0 y0 where b: "R i = Some x0" "r_memory_id x = r_memory_id x0" "r_claim_id x = r_claim_id x0"
        "R j = Some y0" "r_memory_id y = r_memory_id y0" "r_claim_id y = r_claim_id y0"
      using e [OF a(1)] e [OF a(2)] by blast
    show "r_memory_id x = r_memory_id y \<Longrightarrow> r_memory_id x \<noteq> None \<Longrightarrow> i = j"
      using b assms(1) unfolding revisions_ok_def by metis
    show "r_claim_id x = r_claim_id y \<Longrightarrow> (r_memory_id x = None) = (r_memory_id y = None)"
      using b assms(1) unfolding revisions_ok_def by metis
  qed
qed

lemma revisions_ok_map:
  assumes "revisions_ok R" and "\<And>r. r_memory_id (f r) = r_memory_id r" and "\<And>r. r_claim_id (f r) = r_claim_id r"
  shows "revisions_ok (\<lambda>i. map_option f (R i))"
  unfolding revisions_ok_def
proof (intro conjI allI impI)
  fix i j x y
  assume "map_option f (R i) = Some x" "map_option f (R j) = Some y"
  then obtain u v where uv: "R i = Some u" "x = f u" "R j = Some v" "y = f v" by auto
  show "r_memory_id x = r_memory_id y \<Longrightarrow> r_memory_id x \<noteq> None \<Longrightarrow> i = j"
    using uv assms unfolding revisions_ok_def by metis
  show "r_claim_id x = r_claim_id y \<Longrightarrow> (r_memory_id x = None) = (r_memory_id y = None)"
    using uv assms unfolding revisions_ok_def by metis
qed

subsection \<open>The views of the operations\<close>

lemma view_put_memory: "mem_view d (m_id m) \<noteq> None \<Longrightarrow> mem_view (put_memory m d) = (mem_view d)(m_id m := Some m)"
  by (auto simp: mem_view_def fun_eq_iff)

lemma view_put_claim: "claim_view d (c_id c) \<noteq> None \<Longrightarrow> claim_view (put_claim c d) = (claim_view d)(c_id c := Some c)"
  by (auto simp: claim_view_def fun_eq_iff)

lemma view_put_revision: "rev_view d (r_id r) \<noteq> None \<Longrightarrow> rev_view (put_revision r d) = (rev_view d)(r_id r := Some r)"
  by (auto simp: rev_view_def fun_eq_iff)

lemma view_frames:
  "memories d' = memories d \<Longrightarrow> mem_view d' = mem_view d"
  "claims d' = claims d \<Longrightarrow> claim_view d' = claim_view d"
  "revisions d' = revisions d \<Longrightarrow> rev_view d' = rev_view d"
  by (auto simp: mem_view_def claim_view_def rev_view_def fun_eq_iff get_memory_def get_claim_def get_revision_def)

lemma put_views [simp]:
  "claim_view (put_memory m d) = claim_view d" "rev_view (put_memory m d) = rev_view d"
  "mem_view (put_claim c d) = mem_view d" "rev_view (put_claim c d) = rev_view d"
  "mem_view (put_revision r d) = mem_view d" "claim_view (put_revision r d) = claim_view d"
  by (rule view_frames, simp)+

lemma distinct_put_revision [simp]: "distinct (map r_id (revisions (put_revision r d))) = distinct (map r_id (revisions d))"
  using rev_table.store_keys [of r "revisions d"] by (simp add: put_revision_def rev_table.store_row_def)

lemma view_ids:
  "mem_view d i = Some m \<Longrightarrow> m_id m = i" "claim_view d k = Some c \<Longrightarrow> c_id c = k" "rev_view d w = Some r \<Longrightarrow> r_id r = w"
  by (auto simp: mem_view_def claim_view_def rev_view_def get_memory_def get_claim_def get_revision_def dest: find_row_Some)

lemma rev_view_in: "distinct (map r_id (revisions d)) \<Longrightarrow> r \<in> set (revisions d) \<Longrightarrow> rev_view d (r_id r) = Some r"
  using rev_table.lookup_in [of "revisions d" r] by (simp add: rev_view_def get_revision_def rev_table.lookup_def)

lemma rev_view_same:
  assumes "rev_view d (r_id r) = Some r" and "rev_view d (r_id r') = Some r'" and "r_id r = r_id r'"
  shows "r = r'"
proof -
  have "Some r = Some r'" by (rule trans [OF assms(1) [symmetric]]) (simp only: assms(2,3))
  then show ?thesis by (rule option.inject [THEN iffD1])
qed

lemma rev_view_mem: "rev_view d w = Some r \<Longrightarrow> r \<in> set (revisions d)"
  by (auto simp: rev_view_def get_revision_def dest: find_row_Some)

lemma mem_view_in: "distinct (map m_id (memories d)) \<Longrightarrow> m \<in> set (memories d) \<Longrightarrow> mem_view d (m_id m) = Some m"
  using mem_table.lookup_in [of "memories d" m] by (simp add: mem_view_def get_memory_def mem_table.lookup_def)

section \<open>New rows\<close>

lemma claim_fields_ok:
  assumes "winners_ok M C R" and "C k = Some c" and "active_memory_id c' = active_memory_id c"
    and "winning_revision_id c' = winning_revision_id c"
  shows "winners_ok M (C(k := Some c')) R"
proof -
  have e: "\<exists>c2. C k2 = Some c2 \<and> active_memory_id c2 = active_memory_id c1 \<and> winning_revision_id c2 = winning_revision_id c1"
    if "(C(k := Some c')) k2 = Some c1" for k2 c1
    using that assms(2-4) by (cases "k2 = k") auto
  have A: "\<exists>c2. (C(k := Some c')) (r_claim_id r) = Some c2 \<and> winning_revision_id c2 = Some i"
    if p: "R i = Some r" "r_status r = ''activated''" for i r
  proof -
    obtain c2 where "C (r_claim_id r) = Some c2" "winning_revision_id c2 = Some i"
      by (rule winners_activated [OF assms(1) p])
    then show ?thesis using assms(2,4) by (cases "r_claim_id r = k") auto
  qed
  have B: "\<exists>r. R w = Some r \<and> r_claim_id r = k2 \<and> r_memory_id r = active_memory_id c1"
    if p: "(C(k := Some c')) k2 = Some c1" "winning_revision_id c1 = Some w" for k2 c1 w
  proof -
    obtain c2 where c2: "C k2 = Some c2" "active_memory_id c2 = active_memory_id c1" "winning_revision_id c2 = winning_revision_id c1"
      using e [OF p(1)] by blast
    obtain r where "R w = Some r" "r_claim_id r = k2" "r_memory_id r = active_memory_id c2"
      by (rule winners_winner [OF assms(1) c2(1)]) (use c2 p in simp)
    then show ?thesis using c2 by auto
  qed
  have D: "\<exists>w r m. winning_revision_id c1 = Some w \<and> R w = Some r \<and> M i = Some m \<and> (r_status r = ''activated'' \<longleftrightarrow> \<not> is_archived m)"
    if p: "(C(k := Some c')) k2 = Some c1" "active_memory_id c1 = Some i" for k2 c1 i
  proof -
    obtain c2 where c2: "C k2 = Some c2" "active_memory_id c2 = active_memory_id c1" "winning_revision_id c2 = winning_revision_id c1"
      using e [OF p(1)] by blast
    have a: "active_memory_id c2 = Some i" using c2 p by simp
    obtain w r m where "winning_revision_id c2 = Some w" "R w = Some r" "M i = Some m" "r_status r = ''activated'' \<longleftrightarrow> \<not> is_archived m"
      by (rule winners_active [OF assms(1) c2(1) a])
    then show ?thesis using c2(3) by auto
  qed
  show ?thesis unfolding winners_ok_def using A B D by blast
qed

lemma new_claim_ok:
  assumes "winners_ok M C R" and "C k = None" and "active_memory_id c = None" and "winning_revision_id c = None"
  shows "winners_ok M (C(k := Some c)) R"
proof -
  have A: "\<exists>c2. (C(k := Some c)) (r_claim_id r) = Some c2 \<and> winning_revision_id c2 = Some i"
    if p: "R i = Some r" "r_status r = ''activated''" for i r
  proof -
    obtain c2 where c2: "C (r_claim_id r) = Some c2" "winning_revision_id c2 = Some i"
      by (rule winners_activated [OF assms(1) p])
    then have "r_claim_id r \<noteq> k" using assms(2) by auto
    then show ?thesis using c2 by simp
  qed
  have B: "\<exists>r. R w = Some r \<and> r_claim_id r = k2 \<and> r_memory_id r = active_memory_id c1"
    if p: "(C(k := Some c)) k2 = Some c1" "winning_revision_id c1 = Some w" for k2 c1 w
  proof -
    have "C k2 = Some c1" using p assms(4) by (cases "k2 = k") auto
    then show ?thesis using winners_winner [OF assms(1) _ p(2)] by metis
  qed
  have D: "\<exists>w r m. winning_revision_id c1 = Some w \<and> R w = Some r \<and> M i = Some m \<and> (r_status r = ''activated'' \<longleftrightarrow> \<not> is_archived m)"
    if p: "(C(k := Some c)) k2 = Some c1" "active_memory_id c1 = Some i" for k2 c1 i
  proof -
    have k2: "C k2 = Some c1" using p assms(3) by (cases "k2 = k") auto
    obtain w r m where "winning_revision_id c1 = Some w" "R w = Some r" "M i = Some m" "r_status r = ''activated'' \<longleftrightarrow> \<not> is_archived m"
      by (rule winners_active [OF assms(1) k2 p(2)])
    then show ?thesis by blast
  qed
  show ?thesis unfolding winners_ok_def using A B D by blast
qed

lemma new_revision_ok:
  assumes "winners_ok M C R" and "R n = None" and "r_status r \<noteq> ''activated''"
  shows "winners_ok M C (R(n := Some r))"
proof -
  have other: "(R(n := Some r)) w = Some x" if "R w = Some x" for w x using that assms(2) by auto
  have A: "\<exists>c. C (r_claim_id x) = Some c \<and> winning_revision_id c = Some i"
    if p: "(R(n := Some r)) i = Some x" "r_status x = ''activated''" for i x
  proof -
    have "R i = Some x" using p assms(3) by (cases "i = n") auto
    then show ?thesis using winners_activated [OF assms(1) _ p(2)] by metis
  qed
  have B: "\<exists>x. (R(n := Some r)) w = Some x \<and> r_claim_id x = k \<and> r_memory_id x = active_memory_id c"
    if p: "C k = Some c" "winning_revision_id c = Some w" for k c w
  proof -
    obtain x where "R w = Some x" "r_claim_id x = k" "r_memory_id x = active_memory_id c"
      by (rule winners_winner [OF assms(1) p])
    then show ?thesis using other by blast
  qed
  have D: "\<exists>w x m. winning_revision_id c = Some w \<and> (R(n := Some r)) w = Some x \<and> M i = Some m \<and> (r_status x = ''activated'' \<longleftrightarrow> \<not> is_archived m)"
    if p: "C k = Some c" "active_memory_id c = Some i" for k c i
  proof -
    obtain w x m where "winning_revision_id c = Some w" "R w = Some x" "M i = Some m" "r_status x = ''activated'' \<longleftrightarrow> \<not> is_archived m"
      by (rule winners_active [OF assms(1) p])
    then show ?thesis using other by blast
  qed
  show ?thesis unfolding winners_ok_def using A B D by blast
qed

lemma new_revision_revisions_ok:
  assumes "revisions_ok R" and "\<And>w x. R w = Some x \<Longrightarrow> r_memory_id x \<noteq> r_memory_id r \<or> r_memory_id r = None"
    and "\<And>w x. R w = Some x \<Longrightarrow> r_claim_id x = r_claim_id r \<Longrightarrow> (r_memory_id x = None \<longleftrightarrow> r_memory_id r = None)"
  shows "revisions_ok (R(n := Some r))"
proof -
  have split: "i = n \<and> x = r \<or> i \<noteq> n \<and> R i = Some x" if "(R(n := Some r)) i = Some x" for i x
    using that by (auto split: if_splits)
  show ?thesis
    unfolding revisions_ok_def
  proof (intro conjI allI impI)
    fix i j x y
    assume a: "(R(n := Some r)) i = Some x" "(R(n := Some r)) j = Some y"
    note s = split [OF a(1)] split [OF a(2)]
    show "r_memory_id x = r_memory_id y \<Longrightarrow> r_memory_id x \<noteq> None \<Longrightarrow> i = j"
      using s assms(1,2) unfolding revisions_ok_def by metis
    show "r_claim_id x = r_claim_id y \<Longrightarrow> (r_memory_id x = None) = (r_memory_id y = None)"
      using s assms(1,3) unfolding revisions_ok_def by metis
  qed
qed

lemma view_add_claim: "claim_view d (c_id c) = None \<Longrightarrow> claim_view (d\<lparr>claims := claims d @ [c], next_id := n\<rparr>) = (claim_view d)(c_id c := Some c)"
  using claim_table.lookup_append [of _ "claims d" c]
  by (auto simp: claim_view_def get_claim_def claim_table.lookup_def fun_eq_iff)

lemma view_add_revision:
  "rev_view d (r_id r) = None \<Longrightarrow> rev_view (d\<lparr>revisions := revisions d @ [r], next_id := n\<rparr>) = (rev_view d)(r_id r := Some r)"
  using rev_table.lookup_append [of _ "revisions d" r]
  by (auto simp: rev_view_def get_revision_def rev_table.lookup_def fun_eq_iff)

lemma keys_fresh:
  assumes "keys_ok d" and "next_id d \<le> n"
  shows "claim_view d n = None" and "rev_view d n = None"
proof -
  have "c_id c \<noteq> n" if "c \<in> set (claims d)" for c using assms that by (auto simp: keys_ok_def)
  then show "claim_view d n = None" by (simp add: claim_view_def get_claim_def find_row_None)
  have "r_id r \<noteq> n" if "r \<in> set (revisions d)" for r using assms that by (auto simp: keys_ok_def)
  then show "rev_view d n = None" by (simp add: rev_view_def get_revision_def find_row_None)
qed

section \<open>An example\<close>

text \<open>
  A claim whose winner, the memory 1, expires at time 5 and replaced the memory 2.
\<close>

definition example_revision :: "uuid \<Rightarrow> uuid \<Rightarrow> string \<Rightarrow> claim_revision" where
  "example_revision i m st =
     \<lparr>r_id = i, r_claim_id = 10, r_memory_id = Some m, r_source_event_id = None, source_writer_id = None, source_domain = None,
      source_domain_record_id = None, source_field = None, asserted_value = ''tea'', r_status = st, r_authority_priority = 50,
      r_confidence_score = 1, r_observed_at = None, r_effective_from = None, r_effective_until = None, evidence_refs = [],
      resolution_reason = None, decision_evidence = [], schema_version = 1, processor_version = ''v'', r_created_at = 0\<rparr>"

definition example_claim :: memory_claim where
  "example_claim =
     \<lparr>c_id = 10, c_tenant_id = 90, c_proxy_user_id = 80, c_category = Preference, claim_fingerprint = ''f'', subject_key = ''s'',
      predicate_key = ''p'', c_scope = [], active_value = Some ''tea'', c_status = ''active'', active_memory_id = Some 1,
      winning_revision_id = Some 11, c_authority_priority = 50, c_confidence_score = 1, c_observed_at = None, effective_at = 0,
      c_updated_at = 0\<rparr>"

definition example_ledger :: db where
  "example_ledger = example_db\<lparr>
     memories := [example_memory\<lparr>effective_until := Some 5, previous_version_id := Some 2, importance_score := 1\<rparr>,
                  example_memory\<lparr>m_id := 2, is_archived := True\<rparr>],
     claims := [example_claim], revisions := [example_revision 11 1 ''activated'', example_revision 12 2 ''superseded'']\<rparr>"

lemma example_views:
  "mem_view example_ledger i =
     (if i = 1 then Some (example_memory\<lparr>effective_until := Some 5, previous_version_id := Some 2, importance_score := 1\<rparr>)
      else if i = 2 then Some (example_memory\<lparr>m_id := 2, is_archived := True\<rparr>) else None)"
  "claim_view example_ledger i = (if i = 10 then Some example_claim else None)"
  "rev_view example_ledger i =
     (if i = 11 then Some (example_revision 11 1 ''activated'')
      else if i = 12 then Some (example_revision 12 2 ''superseded'') else None)"
  by (auto simp: mem_view_def claim_view_def rev_view_def get_memory_def get_claim_def get_revision_def find_row_def
      example_ledger_def example_claim_def example_revision_def example_memory_def)

lemma example_ledger_inv: "ledger_inv example_ledger"
proof -
  have "distinct (map r_id (revisions example_ledger))"
    by (simp add: example_ledger_def example_revision_def)
  moreover have "revisions_ok (rev_view example_ledger)"
    by (auto simp: revisions_ok_def example_views example_revision_def split: if_splits)
  moreover have "winners_ok (mem_view example_ledger) (claim_view example_ledger) (rev_view example_ledger)"
    by (auto simp: winners_ok_def example_views example_revision_def example_claim_def example_memory_def split: if_splits)
  ultimately show ?thesis by (simp add: ledger_inv_def)
qed

end
