(* ===== verification/Lifecycle.thy ===== *)
theory Lifecycle
  imports Versions Outbox Importance ClaimTables
begin

text \<open>
  The memory lifecycle: \<open>src/api/services/lifecycle_manager.py\<close>. Temporal transitions expire
  memories whose validity interval has ended and activate scheduled ones, keeping the claim
  ledger in step; the nightly run also decays scores, archives what is unimportant, promotes
  hot memories to the cache and refreshes baselines.

  The session's objects are the rows of the database: a change of an attribute is a write of
  the row. \<open>skip_locked\<close> leaves out the rows other transactions hold; they are the argument
  \<open>locked\<close>. \<open>include_content\<close> is the payload setting of the outbox.
\<close>

section \<open>Claims of a memory\<close>

text \<open>The latest revision of a memory, and its claim.\<close>

definition lock_claim_for_memory :: "uuid \<Rightarrow> db \<Rightarrow> claim_revision option \<times> memory_claim option" where
  "lock_claim_for_memory i d =
     (case sort_key (\<lambda>r. - r_created_at r) (filter (\<lambda>r. r_memory_id r = Some i) (revisions d)) of
        [] \<Rightarrow> (None, None)
      | r # _ \<Rightarrow> (Some r, get_claim (r_claim_id r) d))"

definition valid_at :: "utc \<Rightarrow> memory \<Rightarrow> bool" where
  "valid_at t m \<longleftrightarrow>
     (case effective_from m of None \<Rightarrow> True | Some f \<Rightarrow> f \<le> t) \<and>
     (case effective_until m of None \<Rightarrow> True | Some u \<Rightarrow> u > t)"

definition eligible_predecessor :: "uuid \<Rightarrow> uuid option \<Rightarrow> utc \<Rightarrow> db \<Rightarrow> (memory \<times> claim_revision) option" where
  "eligible_predecessor claim pred t d =
     (case pred of
        None \<Rightarrow> None
      | Some i \<Rightarrow>
          (case get_memory i d of
             None \<Rightarrow> None
           | Some m \<Rightarrow>
               if valid_at t m
               then map_option (\<lambda>r. (m, r)) (find_row (\<lambda>r. r_memory_id r = Some i \<and> r_claim_id r = claim) (revisions d))
               else None))"

definition enqueue_lifecycle_payload :: "bool \<Rightarrow> memory \<Rightarrow> uuid \<Rightarrow> string \<Rightarrow> db \<Rightarrow> db" where
  "enqueue_lifecycle_payload include_content m tenant state d =
     (let p = build_vector_payload include_content m (Some tenant) (Some (m_proxy_user_id m)) (Some (m_user_id m))
                (Some (embedding_model_id m)) None;
          p1 = AList.update ''is_archived'' (PBool (is_archived m)) p
      in enqueue_vector_archive (m_id m) (AList.update ''lifecycle_state'' (PStr state) p1) d)"

definition lifecycle_metadata :: "string \<Rightarrow> utc \<Rightarrow> memory \<Rightarrow> memory" where
  "lifecycle_metadata state t m =
     m\<lparr>metadata_json := AList.update ''lifecycle_transitioned_at'' (PInt t)
         (AList.update ''lifecycle_state'' (PStr state) (metadata_json m))\<rparr>"

definition record_safely :: "memory \<Rightarrow> string \<Rightarrow> string \<Rightarrow> db \<Rightarrow> db" where
  "record_safely m kind reason d = snd (safe_record_version m kind (Some reason) ''system'' d)"

section \<open>Temporal transitions\<close>

definition activate_locked_winner ::
  "bool \<Rightarrow> memory \<Rightarrow> claim_revision \<Rightarrow> memory_claim \<Rightarrow> uuid \<Rightarrow> utc \<Rightarrow> string \<Rightarrow> db \<Rightarrow> db" where
  "activate_locked_winner ic m r c tenant t reason d =
     (let m' = lifecycle_metadata ''active'' t (m\<lparr>is_archived := False\<rparr>);
          r' = r\<lparr>r_status := ''activated''\<rparr>;
          c' = c\<lparr>active_memory_id := Some (m_id m), winning_revision_id := Some (r_id r),
                 active_value := Some (asserted_value r), c_status := ''active'', effective_at := t, c_updated_at := t\<rparr>
      in enqueue_lifecycle_payload ic m' tenant ''active''
           (record_safely m' ''conflict_resolved'' reason (put_claim c' (put_revision r' (put_memory m' d)))))"

definition expire_temporal_memory :: "bool \<Rightarrow> memory \<Rightarrow> uuid \<Rightarrow> utc \<Rightarrow> db \<Rightarrow> db" where
  "expire_temporal_memory ic m tenant t d =
     (let m' = lifecycle_metadata ''expired'' t (m\<lparr>is_archived := True\<rparr>);
          d1 = record_safely m' ''archived'' ''Semantic validity interval expired'' (put_memory m' d);
          (rev, cl) = lock_claim_for_memory (m_id m) d1;
          d2 = (case rev of
                  Some r \<Rightarrow> if r_status r = ''activated'' then put_revision (r\<lparr>r_status := ''archived''\<rparr>) d1 else d1
                | None \<Rightarrow> d1);
          d3 = (case cl of
                  None \<Rightarrow> d2
                | Some c \<Rightarrow>
                    if active_memory_id c \<noteq> Some (m_id m) then d2
                    else
                      (let c' = c\<lparr>active_memory_id := None, winning_revision_id := None, active_value := None,
                                  c_status := ''archived'', c_updated_at := t\<rparr>;
                           dc = put_claim c' d2
                       in case eligible_predecessor (c_id c) (previous_version_id m) t dc of
                            None \<Rightarrow> dc
                          | Some (pm, pr) \<Rightarrow>
                              activate_locked_winner ic pm pr c' tenant t ''Restored after successor validity expired'' dc))
      in enqueue_lifecycle_payload ic m' tenant ''expired'' d3)"

text \<open>The winner a scheduled memory displaces.\<close>

definition supersede_current :: "bool \<Rightarrow> memory \<Rightarrow> uuid \<Rightarrow> db \<Rightarrow> db" where
  "supersede_current ic cur tenant d =
     (let cur' = cur\<lparr>is_archived := True,
                     metadata_json := AList.update ''lifecycle_state'' (PStr ''superseded'') (metadata_json cur)\<rparr>;
          d1 = put_memory cur' d;
          d2 = (case fst (lock_claim_for_memory (m_id cur) d1) of
                  Some r \<Rightarrow> if r_status r = ''activated'' then put_revision (r\<lparr>r_status := ''superseded''\<rparr>) d1 else d1
                | None \<Rightarrow> d1)
      in enqueue_lifecycle_payload ic cur' tenant ''superseded''
           (record_safely cur' ''conflict_update'' ''Superseded by scheduled validity transition'' d2))"

definition activate_temporal_memory :: "bool \<Rightarrow> memory \<Rightarrow> uuid \<Rightarrow> utc \<Rightarrow> db \<Rightarrow> db" where
  "activate_temporal_memory ic m tenant t d =
     (case lock_claim_for_memory (m_id m) d of
        (Some r, Some c) \<Rightarrow>
          (let d1 = (if active_memory_id c \<in> {None, Some (m_id m)} then d
                     else case get_memory (the (active_memory_id c)) d of
                            None \<Rightarrow> d
                          | Some cur \<Rightarrow> if is_archived cur then d else supersede_current ic cur tenant d)
           in activate_locked_winner ic m r c tenant t ''Scheduled semantic validity began'' d1)
      | _ \<Rightarrow>
          (let m' = lifecycle_metadata ''active'' t (m\<lparr>is_archived := False\<rparr>)
           in enqueue_lifecycle_payload ic m' tenant ''active'' (put_memory m' d)))"

definition expiry_due :: "utc \<Rightarrow> memory \<Rightarrow> bool" where
  "expiry_due t m \<longleftrightarrow> \<not> is_archived m \<and> (case effective_until m of None \<Rightarrow> False | Some u \<Rightarrow> u \<le> t)"

definition activation_due :: "utc \<Rightarrow> memory \<Rightarrow> bool" where
  "activation_due t m \<longleftrightarrow>
     is_archived m \<and> dget (metadata_json m) ''lifecycle_state'' PNone = PStr ''scheduled'' \<and>
     (case effective_from m of None \<Rightarrow> False | Some f \<Rightarrow> f \<le> t) \<and>
     (case effective_until m of None \<Rightarrow> True | Some u \<Rightarrow> u > t)"

text \<open>One pass over the selected memories: each is looked at in its current state.\<close>

fun transition_pass :: "(memory \<Rightarrow> bool) \<Rightarrow> (memory \<Rightarrow> db \<Rightarrow> db) \<Rightarrow> uuid list \<Rightarrow> db \<Rightarrow> int \<times> db" where
  "transition_pass due act [] d = (0, d)"
| "transition_pass due act (i # is) d =
     (case get_memory i d of
        None \<Rightarrow> transition_pass due act is d
      | Some m \<Rightarrow>
          if due m then (case transition_pass due act is (act m d) of (n, d') \<Rightarrow> (n + 1, d'))
          else transition_pass due act is d)"

definition transition_candidates :: "uuid list \<Rightarrow> uuid \<Rightarrow> utc \<Rightarrow> db \<Rightarrow> uuid list" where
  "transition_candidates locked tenant t d =
     map m_id (sort_key m_id (filter (\<lambda>m.
       tenant_of (m_proxy_user_id m) d = Some tenant \<and> m_id m \<notin> set locked \<and>
       ((case effective_from m of None \<Rightarrow> False | Some f \<Rightarrow> f \<le> t) \<or>
        (case effective_until m of None \<Rightarrow> False | Some u \<Rightarrow> u \<le> t))) (memories d)))"

definition process_temporal_transitions :: "bool \<Rightarrow> uuid list \<Rightarrow> uuid \<Rightarrow> utc \<Rightarrow> db \<Rightarrow> (int \<times> int) \<times> db" where
  "process_temporal_transitions ic locked tenant t d =
     (let is = transition_candidates locked tenant t d;
          (expired, d1) = transition_pass (expiry_due t) (\<lambda>m. expire_temporal_memory ic m tenant t) is d;
          (activated, d2) = transition_pass (activation_due t) (\<lambda>m. activate_temporal_memory ic m tenant t) is d1
      in ((activated, expired), d2))"

section \<open>The nightly run\<close>

definition select_memories :: "uuid \<Rightarrow> (memory \<Rightarrow> bool) \<Rightarrow> db \<Rightarrow> memory list" where
  "select_memories tenant p d = filter (\<lambda>m. tenant_of (m_proxy_user_id m) d = Some tenant \<and> p m) (memories d)"

definition accessed_before :: "utc \<Rightarrow> memory \<Rightarrow> bool" where
  "accessed_before cutoff m = (case last_accessed_at m of None \<Rightarrow> False | Some t \<Rightarrow> t < cutoff)"

text \<open>
  Decay of the selected memories. \<open>show_change\<close> renders the reason of a recorded version.
  \<open>None\<close>: a stored baseline is not a number, which ends the run.
\<close>

fun decay_memories :: "(pyfloat \<Rightarrow> pyfloat \<Rightarrow> string) \<Rightarrow> scorer \<Rightarrow> utc \<Rightarrow> memory list \<Rightarrow> db \<Rightarrow> (int \<times> db) option" where
  "decay_memories show_change sc t [] d = Some (0, d)"
| "decay_memories show_change sc t (m # ms) d =
     (case compute_decay sc t 30 (1/2) m of
        None \<Rightarrow> None
      | Some (new, m1) \<Rightarrow>
          (let old = importance_score m;
               m2 = m1\<lparr>importance_score := new\<rparr>;
               d1 = (if old = new then put_memory m1 d
                     else if \<bar>old - new\<bar> > 1
                     then record_safely m2 (if new < old then ''importance_decay'' else ''importance_boost'')
                            (show_change old new) (put_memory m2 d)
                     else put_memory m2 d)
           in map_option (\<lambda>(n, d'). (n + (if old = new then 0 else 1), d')) (decay_memories show_change sc t ms d1)))"

definition decay_inactive_memories :: "(pyfloat \<Rightarrow> pyfloat \<Rightarrow> string) \<Rightarrow> scorer \<Rightarrow> uuid \<Rightarrow> utc \<Rightarrow> db \<Rightarrow> (int \<times> db) option" where
  "decay_inactive_memories show_change sc tenant t d =
     decay_memories show_change sc t
       (select_memories tenant (\<lambda>m. \<not> is_archived m \<and> accessed_before (t - 30 * day_us) m) d) d"

definition archive_importance_threshold :: pyfloat where
  "archive_importance_threshold = 3/2"

definition archive_days_threshold :: int where
  "archive_days_threshold = 90"

definition auto_archive_one :: "memory \<Rightarrow> db \<Rightarrow> db" where
  "auto_archive_one m d =
     (let m' = m\<lparr>is_archived := True\<rparr>
      in enqueue_vector_delete (m_id m) [(''memory_id'', PInt (int (m_id m)))]
           (record_safely m' ''archived'' ''Auto-archived: low importance, no access in 90 days'' (put_memory m' d)))"

definition archivable :: "utc \<Rightarrow> memory \<Rightarrow> bool" where
  "archivable t m \<longleftrightarrow>
     \<not> is_archived m \<and> importance_score m < archive_importance_threshold \<and>
     accessed_before (t - archive_days_threshold * day_us) m \<and> access_count m = 0"

definition auto_archive_memories :: "uuid \<Rightarrow> utc \<Rightarrow> db \<Rightarrow> int \<times> db" where
  "auto_archive_memories tenant t d =
     (let ms = select_memories tenant (archivable t) d in (int (length ms), fold auto_archive_one ms d))"

definition hot_tier_importance_threshold :: pyfloat where
  "hot_tier_importance_threshold = 8"

definition hot_tier_access_threshold :: int where
  "hot_tier_access_threshold = 5"

definition hot_tier_recent_days :: int where
  "hot_tier_recent_days = 7"

definition hot_memories :: "uuid \<Rightarrow> utc \<Rightarrow> db \<Rightarrow> memory list" where
  "hot_memories tenant t d =
     select_memories tenant (\<lambda>m.
       \<not> is_archived m \<and> hot_tier_importance_threshold \<le> importance_score m \<and> hot_tier_access_threshold \<le> access_count m \<and>
       (case last_accessed_at m of None \<Rightarrow> False | Some a \<Rightarrow> t - hot_tier_recent_days * day_us < a)) d"

definition rescore_baselines :: "utc \<Rightarrow> uuid \<Rightarrow> db \<Rightarrow> int \<times> db" where
  "rescore_baselines now tenant d =
     (let ms = select_memories tenant (\<lambda>_. True) d
      in (int (length ms), fold (\<lambda>m. put_memory (snd (recompute_baseline now m))) ms d))"

text \<open>09:00 to 22:00 in India, five and a half hours ahead of UTC.\<close>

definition is_peak_ist :: "utc \<Rightarrow> bool" where
  "is_peak_ist t =
     (let s = (t + (5 * 60 + 30) * 60000000) mod day_us in 9 * 3600000000 \<le> s \<and> s < 22 * 3600000000)"

record lifecycle_report =
  lr_tenant :: uuid
  decayed_count :: int
  archived_count :: int
  promoted_to_hot :: int
  rescored_count :: int
  activated_count :: int
  expired_count :: int
  skipped :: bool
  lr_reason :: "string option"

definition empty_report :: "uuid \<Rightarrow> lifecycle_report" where
  "empty_report tenant =
     \<lparr>lr_tenant = tenant, decayed_count = 0, archived_count = 0, promoted_to_hot = 0, rescored_count = 0,
      activated_count = 0, expired_count = 0, skipped = False, lr_reason = None\<rparr>"

text \<open>
  The run of one tenant: the report, the memories written to the hot tier of the cache, and
  the database. The cache writes themselves and the durations are not modelled.
\<close>

definition run_for_tenant ::
  "bool \<Rightarrow> (pyfloat \<Rightarrow> pyfloat \<Rightarrow> string) \<Rightarrow> scorer \<Rightarrow> uuid list \<Rightarrow> bool \<Rightarrow> uuid \<Rightarrow> utc \<Rightarrow> db \<Rightarrow>
     (lifecycle_report \<times> memory list \<times> db) option" where
  "run_for_tenant ic show_change sc locked enforce tenant t d =
     (if enforce \<and> is_peak_ist t
      then Some ((empty_report tenant)\<lparr>skipped := True, lr_reason := Some ''peak_hours_ist''\<rparr>, [], d)
      else
        case process_temporal_transitions ic locked tenant t d of
          ((act, ex), d1) \<Rightarrow>
            (case decay_inactive_memories show_change sc tenant t d1 of
               None \<Rightarrow> None
             | Some (dec, d2) \<Rightarrow>
                 (case auto_archive_memories tenant t d2 of
                    (arch, d3) \<Rightarrow>
                      (case rescore_baselines t tenant d3 of
                         (res, d4) \<Rightarrow>
                           Some ((empty_report tenant)\<lparr>activated_count := act, expired_count := ex, decayed_count := dec,
                                    archived_count := arch, promoted_to_hot := int (length (hot_memories tenant t d3)),
                                    rescored_count := res\<rparr>,
                                 hot_memories tenant t d3, d4)))))"

section \<open>Frames\<close>

lemma record_safely_frames [simp]:
  "memories (record_safely m k r d) = memories d" "claims (record_safely m k r d) = claims d"
  "revisions (record_safely m k r d) = revisions d" "proxy_users (record_safely m k r d) = proxy_users d"
  "outbox (record_safely m k r d) = outbox d"
  by (simp_all add: record_safely_def)

lemma enqueue_lifecycle_frames [simp]:
  "memories (enqueue_lifecycle_payload ic m t s d) = memories d" "claims (enqueue_lifecycle_payload ic m t s d) = claims d"
  "revisions (enqueue_lifecycle_payload ic m t s d) = revisions d"
  "proxy_users (enqueue_lifecycle_payload ic m t s d) = proxy_users d"
  "versions (enqueue_lifecycle_payload ic m t s d) = versions d"
  by (simp_all add: enqueue_lifecycle_payload_def enqueue_vector_archive_def add_outbox_row_def Let_def)

lemma side_views [simp]:
  "mem_view (record_safely m k r d) = mem_view d" "claim_view (record_safely m k r d) = claim_view d"
  "rev_view (record_safely m k r d) = rev_view d"
  "mem_view (enqueue_lifecycle_payload ic m t s d) = mem_view d"
  "claim_view (enqueue_lifecycle_payload ic m t s d) = claim_view d"
  "rev_view (enqueue_lifecycle_payload ic m t s d) = rev_view d"
  by (rule view_frames, simp)+

lemma lock_claim_cong:
  "revisions d' = revisions d \<Longrightarrow> claims d' = claims d \<Longrightarrow> lock_claim_for_memory i d' = lock_claim_for_memory i d"
  by (simp add: lock_claim_for_memory_def get_claim_def split: list.split)

lemma lock_claim_Some:
  assumes "lock_claim_for_memory i d = (Some r, cl)" and "distinct (map r_id (revisions d))"
  shows "rev_view d (r_id r) = Some r \<and> r_memory_id r = Some i \<and> cl = claim_view d (r_claim_id r)"
proof -
  let ?rs = "sort_key (\<lambda>r. - r_created_at r) (filter (\<lambda>r. r_memory_id r = Some i) (revisions d))"
  obtain rest where rest: "?rs = r # rest" and cl: "cl = get_claim (r_claim_id r) d"
    using assms(1) by (auto simp: lock_claim_for_memory_def split: list.splits)
  then have "r \<in> set ?rs" by simp
  then have "r \<in> set (revisions d)" "r_memory_id r = Some i" by simp_all
  then show ?thesis using cl rev_view_in [OF assms(2)] by (simp add: claim_view_def)
qed

lemma lock_claim_None: "lock_claim_for_memory i d = (None, cl) \<Longrightarrow> rev_view d w = Some r \<Longrightarrow> r_memory_id r \<noteq> Some i"
proof
  assume a: "lock_claim_for_memory i d = (None, cl)" "rev_view d w = Some r" "r_memory_id r = Some i"
  let ?rs = "sort_key (\<lambda>r. - r_created_at r) (filter (\<lambda>r. r_memory_id r = Some i) (revisions d))"
  have "r \<in> set ?rs" using rev_view_mem [OF a(2)] a(3) by simp
  then have "?rs \<noteq> []" by (metis empty_iff list.set(1))
  then show False using a(1) by (auto simp: lock_claim_for_memory_def split: list.splits)
qed

text \<open>The claim of an active memory is the one found for it.\<close>

lemma lock_claim_active:
  assumes inv: "ledger_inv d" and c: "claim_view d k = Some c" "active_memory_id c = Some i"
  obtains r m where "lock_claim_for_memory i d = (Some r, Some c)" "r_claim_id r = k" "rev_view d (r_id r) = Some r"
    "r_memory_id r = Some i" "get_memory i d = Some m" "r_status r = ''activated'' \<longleftrightarrow> \<not> is_archived m"
proof -
  note dist = ledger_invD(1) [OF inv] and ok = ledger_invD(2) [OF inv] and w = ledger_invD(3) [OF inv]
  obtain v x m where x: "rev_view d v = Some x" "r_claim_id x = k" "r_memory_id x = Some i" "mem_view d i = Some m"
      "r_status x = ''activated'' \<longleftrightarrow> \<not> is_archived m"
    by (rule winners_active [OF w c])
  obtain rev cl where l: "lock_claim_for_memory i d = (rev, cl)" by fastforce
  have "rev \<noteq> None"
  proof
    assume "rev = None"
    then have "lock_claim_for_memory i d = (None, cl)" using l by simp
    then show False using lock_claim_None [OF _ x(1)] x(3) by blast
  qed
  then obtain r where r: "lock_claim_for_memory i d = (Some r, cl)" using l by auto
  have r2: "rev_view d (r_id r) = Some r" "r_memory_id r = Some i" "cl = claim_view d (r_claim_id r)"
    using lock_claim_Some [OF r dist] by simp_all
  have "r_id r = v" by (rule revisions_same [OF ok r2(1) x(1) r2(2) x(3)])
  then have "r = x" using r2(1) x(1) by simp
  then show thesis using that [of r m] r r2 x c(1) by (simp add: mem_view_def)
qed

subsection \<open>The transitions keep the invariant\<close>

lemma lifecycle_metadata_simps [simp]:
  "m_id (lifecycle_metadata s t m) = m_id m" "is_archived (lifecycle_metadata s t m) = is_archived m"
  "effective_until (lifecycle_metadata s t m) = effective_until m" "effective_from (lifecycle_metadata s t m) = effective_from m"
  "m_proxy_user_id (lifecycle_metadata s t m) = m_proxy_user_id m"
  "previous_version_id (lifecycle_metadata s t m) = previous_version_id m"
  by (simp_all add: lifecycle_metadata_def)

lemma activate_winner_inv:
  assumes dist: "distinct (map r_id (revisions d))" and rok: "revisions_ok (rev_view d)"
    and wok: "winners_ok (mem_view d) ((claim_view d)(k := Some c0)) (rev_view d)" and idle: "idle_claim (rev_view d) k"
    and r: "rev_view d (r_id r) = Some r" "r_memory_id r = Some (m_id m)" "r_claim_id r = k"
    and c: "c_id c = k" "claim_view d k \<noteq> None" and m: "mem_view d (m_id m) \<noteq> None"
  shows "ledger_inv (activate_locked_winner ic m r c tenant t reason d)"
proof -
  let ?m = "lifecycle_metadata ''active'' t (m\<lparr>is_archived := False\<rparr>)"
  let ?r = "r\<lparr>r_status := ''activated''\<rparr>"
  let ?c = "c\<lparr>active_memory_id := Some (m_id m), winning_revision_id := Some (r_id r),
                 active_value := Some (asserted_value r), c_status := ''active'', effective_at := t, c_updated_at := t\<rparr>"
  let ?d = "activate_locked_winner ic m r c tenant t reason d"
  have M: "mem_view ?d = (mem_view d)(m_id m := Some ?m)"
    using m view_put_memory [of d ?m] by (simp add: activate_locked_winner_def Let_def)
  have R: "rev_view ?d = (rev_view d)(r_id r := Some ?r)"
    using r(1) view_put_revision [of "put_memory ?m d" ?r] by (simp add: activate_locked_winner_def Let_def)
  have C: "claim_view ?d = (claim_view d)(k := Some ?c)"
    using c view_put_claim [of "put_revision ?r (put_memory ?m d)" ?c] by (simp add: activate_locked_winner_def Let_def)
  have "winners_ok ((mem_view d)(m_id m := Some ?m)) ((claim_view d)(k := Some c0, k := Some ?c)) ((rev_view d)(r_id r := Some ?r))"
    by (rule promote_ok [OF wok rok r idle]) (use r in simp_all)
  then have "winners_ok (mem_view ?d) (claim_view ?d) (rev_view ?d)" unfolding M R C by simp
  moreover have "revisions_ok (rev_view ?d)" unfolding R by (rule revisions_ok_update [OF rok r(1)]) simp_all
  moreover have "distinct (map r_id (revisions ?d))" using dist by (simp add: activate_locked_winner_def Let_def)
  ultimately show ?thesis by (simp add: ledger_inv_def)
qed

lemma eligible_predecessor_Some:
  assumes "eligible_predecessor k pred t d = Some (m, r)" and "distinct (map r_id (revisions d))"
  shows "mem_view d (m_id m) = Some m \<and> rev_view d (r_id r) = Some r \<and> r_memory_id r = Some (m_id m) \<and> r_claim_id r = k \<and>
    valid_at t m \<and> pred = Some (m_id m)"
proof -
  obtain i where i: "pred = Some i" "get_memory i d = Some m" "valid_at t m"
    and f: "find_row (\<lambda>r. r_memory_id r = Some i \<and> r_claim_id r = k) (revisions d) = Some r"
    using assms(1) by (auto simp: eligible_predecessor_def split: option.splits if_splits)
  have "m_id m = i" using i(2) view_ids(1) [of d i m] by (simp add: mem_view_def)
  moreover have "r \<in> set (revisions d)" "r_memory_id r = Some i" "r_claim_id r = k" using find_row_Some [OF f] by auto
  ultimately show ?thesis using i rev_view_in [OF assms(2)] by (simp add: mem_view_def)
qed

text \<open>
  The steps of an expiry: the archived memory with its version, the demoted revision, and the
  claim with its predecessor.
\<close>

definition expired_memory :: "utc \<Rightarrow> memory \<Rightarrow> memory" where
  "expired_memory t m = lifecycle_metadata ''expired'' t (m\<lparr>is_archived := True\<rparr>)"

definition expired_db :: "utc \<Rightarrow> memory \<Rightarrow> db \<Rightarrow> db" where
  "expired_db t m d =
     record_safely (expired_memory t m) ''archived'' ''Semantic validity interval expired'' (put_memory (expired_memory t m) d)"

definition vacated_claim :: "utc \<Rightarrow> memory_claim \<Rightarrow> memory_claim" where
  "vacated_claim t c = c\<lparr>active_memory_id := None, winning_revision_id := None, active_value := None,
                          c_status := ''archived'', c_updated_at := t\<rparr>"

lemma expire_cases [consumes 3, case_names winner other]:
  assumes inv: "ledger_inv d" and m: "get_memory (m_id m) d = Some m" and live: "\<not> is_archived m"
  obtains
    (winner) r c where "lock_claim_for_memory (m_id m) d = (Some r, Some c)" "active_memory_id c = Some (m_id m)"
      "r_status r = ''activated''" "rev_view d (r_id r) = Some r" "r_memory_id r = Some (m_id m)"
      "claim_view d (r_claim_id r) = Some c"
      "expire_temporal_memory ic m tenant t d =
         enqueue_lifecycle_payload ic (expired_memory t m) tenant ''expired''
           (let dc = put_claim (vacated_claim t c) (put_revision (r\<lparr>r_status := ''archived''\<rparr>) (expired_db t m d))
            in case eligible_predecessor (c_id c) (previous_version_id m) t dc of
                 None \<Rightarrow> dc
               | Some (pm, pr) \<Rightarrow> activate_locked_winner ic pm pr (vacated_claim t c) tenant t
                   ''Restored after successor validity expired'' dc)"
  | (other) "\<And>k c. claim_view d k = Some c \<Longrightarrow> active_memory_id c \<noteq> Some (m_id m)"
      "expire_temporal_memory ic m tenant t d =
         enqueue_lifecycle_payload ic (expired_memory t m) tenant ''expired'' (expired_db t m d)"
proof -
  have dist: "distinct (map r_id (revisions d))" and w: "winners_ok (mem_view d) (claim_view d) (rev_view d)"
    using inv by (auto simp: ledger_inv_def)
  have lock: "lock_claim_for_memory (m_id m) (expired_db t m d) = lock_claim_for_memory (m_id m) d"
    by (rule lock_claim_cong) (simp_all add: expired_db_def)
  show thesis
  proof (cases "\<exists>k c. claim_view d k = Some c \<and> active_memory_id c = Some (m_id m)")
    case True
    then obtain k c where c: "claim_view d k = Some c" "active_memory_id c = Some (m_id m)" by blast
    obtain r m0 where r0: "lock_claim_for_memory (m_id m) d = (Some r, Some c)" "r_claim_id r = k"
        "rev_view d (r_id r) = Some r" "r_memory_id r = Some (m_id m)" "get_memory (m_id m) d = Some m0"
        "r_status r = ''activated'' \<longleftrightarrow> \<not> is_archived m0"
      by (rule lock_claim_active [OF inv c])
    have "r_status r = ''activated''" using r0(5,6) m live by simp
    note r = r0(1,2) this r0(3,4)
    show thesis
      by (rule winner [OF r(1) c(2) r(3,4,5)])
        (use c r lock in \<open>simp_all add: expire_temporal_memory_def expired_db_def expired_memory_def vacated_claim_def Let_def split: option.split\<close>)
  next
    case False
    obtain rev cl where l: "lock_claim_for_memory (m_id m) d = (rev, cl)" by fastforce
    have cl: "case cl of None \<Rightarrow> True | Some c \<Rightarrow> active_memory_id c \<noteq> Some (m_id m)"
    proof (cases rev)
      case None
      then show ?thesis using l by (auto simp: lock_claim_for_memory_def split: list.splits)
    next
      case (Some r)
      then have "cl = claim_view d (r_claim_id r)" using lock_claim_Some [OF _ dist] l by blast
      then show ?thesis using False by (auto split: option.splits)
    qed
    have rev: "r_status r \<noteq> ''activated''" if "rev = Some r" for r
    proof
      assume a: "r_status r = ''activated''"
      have r: "rev_view d (r_id r) = Some r" "r_memory_id r = Some (m_id m)"
        using lock_claim_Some [OF _ dist] l that by blast+
      obtain c where c: "claim_view d (r_claim_id r) = Some c" "winning_revision_id c = Some (r_id r)"
        by (rule winners_activated [OF w r(1) a])
      obtain x where "rev_view d (r_id r) = Some x" "r_memory_id x = active_memory_id c"
        by (rule winners_winner [OF w c])
      then show False using r c(1) False by auto
    qed
    show thesis
      by (rule other)
        (use False cl rev lock l in \<open>auto simp: expire_temporal_memory_def expired_db_def expired_memory_def Let_def split: option.splits\<close>)
  qed
qed

lemma expire_inv:
  assumes inv: "ledger_inv d" and m: "get_memory (m_id m) d = Some m" and live: "\<not> is_archived m"
  shows "ledger_inv (expire_temporal_memory ic m tenant t d)"
proof -
  have dist: "distinct (map r_id (revisions d))" and w: "winners_ok (mem_view d) (claim_view d) (rev_view d)"
    and rok: "revisions_ok (rev_view d)" using inv by (auto simp: ledger_inv_def)
  have M: "mem_view (expired_db t m d) = (mem_view d)(m_id m := Some (expired_memory t m))"
    using view_put_memory [of d "expired_memory t m"] m by (simp add: expired_db_def expired_memory_def mem_view_def)
  have CR: "claim_view (expired_db t m d) = claim_view d" "rev_view (expired_db t m d) = rev_view d"
    "revisions (expired_db t m d) = revisions d" by (simp_all add: expired_db_def)
  from inv m live show ?thesis
  proof (cases rule: expire_cases [where ic = ic and tenant = tenant and t = t])
    case (winner r c)
    let ?r = "r\<lparr>r_status := ''archived''\<rparr>"
    let ?dc = "put_claim (vacated_claim t c) (put_revision ?r (expired_db t m d))"
    have k: "c_id c = r_claim_id r" using view_ids(2) [OF winner(6)] .
    have Rdc: "rev_view ?dc = (rev_view d)(r_id r := Some ?r)"
      using view_put_revision [of "expired_db t m d" ?r] winner(4) by (simp add: CR)
    have Cdc: "claim_view ?dc = (claim_view d)(r_claim_id r := Some (vacated_claim t c))"
      using view_put_claim [of "put_revision ?r (expired_db t m d)" "vacated_claim t c"] winner(6) k
      by (simp add: CR vacated_claim_def)
    have Mdc: "mem_view ?dc = (mem_view d)(m_id m := Some (expired_memory t m))" by (simp add: M)
    have rdc: "revisions_ok (rev_view ?dc)" unfolding Rdc by (rule revisions_ok_update [OF rok winner(4)]) simp_all
    have ddc: "distinct (map r_id (revisions ?dc))" using dist by (simp add: CR)
    have wdc: "winners_ok (mem_view ?dc) (claim_view ?dc) (rev_view ?dc)"
      unfolding Mdc Cdc Rdc
      by (rule demote_ok [OF w rok winner(4,5) refl winner(6)])
        (use winner in \<open>simp_all add: vacated_claim_def expired_memory_def\<close>)
    have idle: "idle_claim (rev_view ?dc) (r_claim_id r)"
      by (rule idle_no_winner [OF wdc, of _ "vacated_claim t c"]) (simp_all only: Cdc fun_upd_same, simp add: vacated_claim_def)
    have "ledger_inv (case eligible_predecessor (c_id c) (previous_version_id m) t ?dc of
        None \<Rightarrow> ?dc
      | Some (pm, pr) \<Rightarrow> activate_locked_winner ic pm pr (vacated_claim t c) tenant t
          ''Restored after successor validity expired'' ?dc)"
    proof (cases "eligible_predecessor (c_id c) (previous_version_id m) t ?dc")
      case None
      then show ?thesis using wdc rdc ddc by (simp add: ledger_inv_def)
    next
      case (Some p)
      obtain pm pr where p: "p = (pm, pr)" by fastforce
      have e: "mem_view ?dc (m_id pm) = Some pm" "rev_view ?dc (r_id pr) = Some pr" "r_memory_id pr = Some (m_id pm)"
          "r_claim_id pr = c_id c"
        using eligible_predecessor_Some [OF Some [unfolded p] ddc] by auto
      have "ledger_inv (activate_locked_winner ic pm pr (vacated_claim t c) tenant t
          ''Restored after successor validity expired'' ?dc)"
        by (rule activate_winner_inv [OF ddc rdc, of "c_id c" "vacated_claim t c"])
          (use wdc idle e k Cdc in \<open>simp_all add: vacated_claim_def\<close>)
      then show ?thesis by (simp add: Some p)
    qed
    then show ?thesis unfolding winner(7) by (simp add: ledger_inv_def Let_def)
  next
    case other
    have "winners_ok ((mem_view d)(m_id m := Some (expired_memory t m))) (claim_view d) (rev_view d)"
      by (rule unclaimed_ok [OF w other(1)])
    then show ?thesis unfolding other(2) using rok dist by (simp add: ledger_inv_def M CR)
  qed
qed

lemma supersede_views:
  assumes inv: "ledger_inv d" and cur: "get_memory j d = Some cur" "\<not> is_archived cur"
    and c: "claim_view d k = Some c" "active_memory_id c = Some j"
  obtains w r cur' where "rev_view d w = Some r" "r_memory_id r = Some j" "r_claim_id r = k"
    "mem_view (supersede_current ic cur tenant d) = (mem_view d)(j := Some cur')" "m_id cur' = j"
    "effective_until cur' = effective_until cur" "is_archived cur'"
    "claim_view (supersede_current ic cur tenant d) = claim_view d"
    "rev_view (supersede_current ic cur tenant d) = (rev_view d)(w := Some (r\<lparr>r_status := ''superseded''\<rparr>))"
    "distinct (map r_id (revisions (supersede_current ic cur tenant d)))"
proof -
  have dist: "distinct (map r_id (revisions d))" using inv by (simp add: ledger_inv_def)
  obtain r m0 where r0: "lock_claim_for_memory j d = (Some r, Some c)" "r_claim_id r = k" "rev_view d (r_id r) = Some r"
      "r_memory_id r = Some j" "get_memory j d = Some m0" "r_status r = ''activated'' \<longleftrightarrow> \<not> is_archived m0"
    by (rule lock_claim_active [OF inv c])
  have "r_status r = ''activated''" using r0(5,6) cur by simp
  note r = r0(1,2) this r0(3,4)
  let ?cur = "cur\<lparr>is_archived := True, metadata_json := AList.update ''lifecycle_state'' (PStr ''superseded'') (metadata_json cur)\<rparr>"
  let ?r = "r\<lparr>r_status := ''superseded''\<rparr>"
  have j: "m_id cur = j" using cur(1) view_ids(1) [of d j cur] by (simp add: mem_view_def)
  have lock: "lock_claim_for_memory j (put_memory ?cur d) = (Some r, Some c)"
    using r(1) lock_claim_cong [of "put_memory ?cur d" d j] by simp
  have step: "supersede_current ic cur tenant d =
      enqueue_lifecycle_payload ic ?cur tenant ''superseded''
        (record_safely ?cur ''conflict_update'' ''Superseded by scheduled validity transition'' (put_revision ?r (put_memory ?cur d)))"
    using lock r(3) by (simp add: supersede_current_def Let_def j)
  have "mem_view (supersede_current ic cur tenant d) = (mem_view d)(j := Some ?cur)"
    unfolding step using view_put_memory [of d ?cur] cur(1) j by (simp add: mem_view_def)
  moreover have "claim_view (supersede_current ic cur tenant d) = claim_view d" unfolding step by simp
  moreover have "rev_view (supersede_current ic cur tenant d) = (rev_view d)(r_id r := Some ?r)"
    unfolding step using view_put_revision [of "put_memory ?cur d" ?r] r(4) by simp
  moreover have "distinct (map r_id (revisions (supersede_current ic cur tenant d)))" unfolding step using dist by simp
  ultimately show thesis using that [of "r_id r" r ?cur] r j by simp
qed

definition activated_memory :: "utc \<Rightarrow> memory \<Rightarrow> memory" where
  "activated_memory t m = lifecycle_metadata ''active'' t (m\<lparr>is_archived := False\<rparr>)"

lemma activate_winner_mem:
  "mem_view d (m_id m) \<noteq> None \<Longrightarrow>
     mem_view (activate_locked_winner ic m r c tenant t reason d) = (mem_view d)(m_id m := Some (activated_memory t m))"
  using view_put_memory [of d "activated_memory t m"] by (simp add: activate_locked_winner_def activated_memory_def Let_def)

lemma activate_cases [consumes 3, case_names vacant displaces unclaimed]:
  assumes inv: "ledger_inv d" and m: "get_memory (m_id m) d = Some m" and arch: "is_archived m"
  obtains
    (vacant) r c where "rev_view d (r_id r) = Some r" "r_memory_id r = Some (m_id m)" "claim_view d (r_claim_id r) = Some c"
      "idle_claim (rev_view d) (r_claim_id r)"
      "activate_temporal_memory ic m tenant t d = activate_locked_winner ic m r c tenant t ''Scheduled semantic validity began'' d"
  | (displaces) r c cur where "rev_view d (r_id r) = Some r" "r_memory_id r = Some (m_id m)" "claim_view d (r_claim_id r) = Some c"
      "active_memory_id c = Some (m_id cur)" "get_memory (m_id cur) d = Some cur" "\<not> is_archived cur" "m_id cur \<noteq> m_id m"
      "activate_temporal_memory ic m tenant t d =
         activate_locked_winner ic m r c tenant t ''Scheduled semantic validity began'' (supersede_current ic cur tenant d)"
  | (unclaimed) "\<And>k c. claim_view d k = Some c \<Longrightarrow> active_memory_id c \<noteq> Some (m_id m)"
      "activate_temporal_memory ic m tenant t d =
        enqueue_lifecycle_payload ic (activated_memory t m) tenant ''active'' (put_memory (activated_memory t m) d)"
proof -
  note dist = ledger_invD(1) [OF inv] and rok = ledger_invD(2) [OF inv] and w = ledger_invD(3) [OF inv]
  obtain rev cl where l: "lock_claim_for_memory (m_id m) d = (rev, cl)" by fastforce
  show thesis
  proof (cases "\<exists>r c. rev = Some r \<and> cl = Some c")
    case False
    have free: "active_memory_id c \<noteq> Some (m_id m)" if k: "claim_view d k = Some c" for k c
    proof
      assume "active_memory_id c = Some (m_id m)"
      then obtain r where "lock_claim_for_memory (m_id m) d = (Some r, Some c)" by (rule lock_claim_active [OF inv k])
      then show False using False l by simp
    qed
    have "activate_temporal_memory ic m tenant t d =
        enqueue_lifecycle_payload ic (activated_memory t m) tenant ''active'' (put_memory (activated_memory t m) d)"
      using l False by (cases rev; cases cl) (simp_all add: activate_temporal_memory_def activated_memory_def Let_def)
    with free show thesis by (rule unclaimed)
  next
    case True
    then obtain r c where rc: "lock_claim_for_memory (m_id m) d = (Some r, Some c)" using l by auto
    have r: "rev_view d (r_id r) = Some r" "r_memory_id r = Some (m_id m)" "claim_view d (r_claim_id r) = Some c"
      using lock_claim_Some [OF rc dist] by auto
    show thesis
    proof (cases "active_memory_id c")
      case None
      have "winning_revision_id c = None"
      proof (rule ccontr)
        assume "winning_revision_id c \<noteq> None"
        then obtain v where v: "winning_revision_id c = Some v" by blast
        obtain y where y: "rev_view d v = Some y" "r_claim_id y = r_claim_id r" "r_memory_id y = active_memory_id c"
          by (rule winners_winner [OF w r(3) v])
        then show False using revisions_kind [OF rok y(1) r(1) y(2) r(2)] None by simp
      qed
      then have "idle_claim (rev_view d) (r_claim_id r)" by (rule idle_no_winner [OF w r(3)])
      then show thesis by (rule vacant [OF r]) (simp add: activate_temporal_memory_def rc None)
    next
      case (Some j)
      obtain v x cur where x: "winning_revision_id c = Some v" "rev_view d v = Some x" "mem_view d j = Some cur"
          "r_status x = ''activated'' \<longleftrightarrow> \<not> is_archived cur"
        by (rule winners_active [OF w r(3) Some])
      have j: "m_id cur = j" "get_memory j d = Some cur" using view_ids(1) [OF x(3)] x(3) by (simp_all add: mem_view_def)
      show thesis
      proof (cases "is_archived cur")
        case True
        have "idle_claim (rev_view d) (r_claim_id r)"
          unfolding idle_claim_def
        proof (intro allI impI notI)
          fix u y
          assume y: "rev_view d u = Some y" "r_claim_id y = r_claim_id r" "r_status y = ''activated''"
          obtain c' where "claim_view d (r_claim_id y) = Some c'" "winning_revision_id c' = Some u"
            by (rule winners_activated [OF w y(1,3)])
          then have "u = v" using r(3) x(1) y(2) by simp
          then show False using x(2,4) y(1,3) True by simp
        qed
        then show thesis
          by (rule vacant [OF r]) (simp add: activate_temporal_memory_def rc Some j(2) True)
      next
        case False
        have jm: "j \<noteq> m_id m"
        proof
          assume "j = m_id m"
          then have "cur = m" using j(2) m by simp
          then show False using arch False by simp
        qed
        have step: "activate_temporal_memory ic m tenant t d =
            activate_locked_winner ic m r c tenant t ''Scheduled semantic validity began'' (supersede_current ic cur tenant d)"
          by (simp add: activate_temporal_memory_def rc Some j(2) False jm)
        show thesis
          by (rule displaces [OF r, of cur]) (simp_all only: step j Some False jm not_False_eq_True)
      qed
    qed
  qed
qed

lemma activate_inv:
  assumes inv: "ledger_inv d" and m: "get_memory (m_id m) d = Some m" and arch: "is_archived m"
  shows "ledger_inv (activate_temporal_memory ic m tenant t d)"
proof -
  note dist = ledger_invD(1) [OF inv] and rok = ledger_invD(2) [OF inv] and w = ledger_invD(3) [OF inv]
  from inv m arch show ?thesis
  proof (cases rule: activate_cases [where ic = ic and tenant = tenant and t = t])
    case (vacant r c)
    have "(claim_view d)(r_claim_id r := Some c) = claim_view d" using vacant(3) by auto
    then show ?thesis
      unfolding vacant(5)
      by (intro activate_winner_inv [OF dist rok, of "r_claim_id r" c])
        (use w vacant m view_ids(2) [OF vacant(3)] in \<open>simp_all add: mem_view_def\<close>)
  next
    case (displaces r c cur)
    let ?d = "supersede_current ic cur tenant d"
    obtain v x cur' where x: "rev_view d v = Some x" "r_memory_id x = Some (m_id cur)" "r_claim_id x = r_claim_id r"
        and M: "mem_view ?d = (mem_view d)(m_id cur := Some cur')" "m_id cur' = m_id cur"
        and C: "claim_view ?d = claim_view d" and R: "rev_view ?d = (rev_view d)(v := Some (x\<lparr>r_status := ''superseded''\<rparr>))"
        and D: "distinct (map r_id (revisions ?d))"
      by (rule supersede_views [OF inv displaces(5,6) displaces(3,4)])
    let ?c0 = "c\<lparr>active_memory_id := None, winning_revision_id := None\<rparr>"
    have w0: "winners_ok (mem_view ?d) ((claim_view ?d)(r_claim_id r := Some ?c0)) (rev_view ?d)"
      unfolding M(1) C R
      by (rule demote_ok [OF w rok x displaces(3)]) (use x displaces M in simp_all)
    have idle: "idle_claim (rev_view ?d) (r_claim_id r)" by (rule idle_no_winner [OF w0, of _ ?c0]) simp_all
    have r0: "revisions_ok (rev_view ?d)" unfolding R by (rule revisions_ok_update [OF rok x(1)]) simp_all
    have "v \<noteq> r_id r" using x(1,2) displaces(1,2,7) by auto
    then have rv: "rev_view ?d (r_id r) = Some r" using displaces(1) by (simp add: R)
    have mv: "mem_view ?d (m_id m) \<noteq> None" using m displaces(7) by (simp add: M(1) mem_view_def)
    show ?thesis
      unfolding displaces(8)
      by (rule activate_winner_inv [OF D r0 w0 idle rv displaces(2) refl _ _ mv])
        (use displaces(3) view_ids(2) [OF displaces(3)] C in simp_all)
  next
    case unclaimed
    have M: "mem_view (put_memory (activated_memory t m) d) = (mem_view d)(m_id m := Some (activated_memory t m))"
      using view_put_memory [of d "activated_memory t m"] m by (simp add: activated_memory_def mem_view_def)
    have "winners_ok ((mem_view d)(m_id m := Some (activated_memory t m))) (claim_view d) (rev_view d)"
      by (rule unclaimed_ok [OF w unclaimed(1)])
    then show ?thesis unfolding unclaimed(2) using M rok dist by (simp add: ledger_inv_def)
  qed
qed

section \<open>Passes over the due memories\<close>

definition due_at :: "(memory \<Rightarrow> bool) \<Rightarrow> db \<Rightarrow> uuid \<Rightarrow> bool" where
  "due_at due d i \<longleftrightarrow> (\<exists>m. mem_view d i = Some m \<and> due m)"

definition interval :: "memory \<Rightarrow> utc option \<times> utc option" where
  "interval m = (effective_from m, effective_until m)"

text \<open>What the other memories may rely on: intervals stay, and nothing becomes due.\<close>

definition calm :: "utc \<Rightarrow> db \<Rightarrow> db \<Rightarrow> bool" where
  "calm t d d' \<longleftrightarrow>
     (\<forall>i. map_option interval (mem_view d' i) = map_option interval (mem_view d i)) \<and>
     (\<forall>i. due_at (expiry_due t) d' i \<longrightarrow> due_at (expiry_due t) d i) \<and>
     (\<forall>i. due_at (activation_due t) d' i \<longrightarrow> due_at (activation_due t) d i)"

lemma calm_refl: "calm t d d"
  by (simp add: calm_def)

lemma calm_trans: "calm t a b \<Longrightarrow> calm t b c \<Longrightarrow> calm t a c"
  by (simp add: calm_def)

text \<open>
  The contract of a transition: applied to a due memory it keeps the state well-formed,
  settles that memory and makes nothing else due.
\<close>

locale due_transition =
  fixes due :: "memory \<Rightarrow> bool"
    and act :: "memory \<Rightarrow> db \<Rightarrow> db"
    and ok :: "db \<Rightarrow> bool"
    and rel :: "db \<Rightarrow> db \<Rightarrow> bool"
  assumes act_ok: "ok d \<Longrightarrow> get_memory (m_id m) d = Some m \<Longrightarrow> due m \<Longrightarrow> ok (act m d)"
    and act_settles: "ok d \<Longrightarrow> get_memory (m_id m) d = Some m \<Longrightarrow> due m \<Longrightarrow> \<not> due_at due (act m d) (m_id m)"
    and act_rel: "ok d \<Longrightarrow> get_memory (m_id m) d = Some m \<Longrightarrow> due m \<Longrightarrow> rel d (act m d)"
    and rel_refl: "rel d d"
    and rel_trans: "rel a b \<Longrightarrow> rel b c \<Longrightarrow> rel a c"
    and rel_due: "rel d d' \<Longrightarrow> due_at due d' i \<Longrightarrow> due_at due d i"
begin

lemma pass:
  "ok d \<Longrightarrow> ok (snd (transition_pass due act is d)) \<and> rel d (snd (transition_pass due act is d)) \<and>
     (\<forall>i \<in> set is. \<not> due_at due (snd (transition_pass due act is d)) i)"
proof (induction "is" arbitrary: d)
  case Nil
  then show ?case by (simp add: rel_refl)
next
  case (Cons i "is")
  show ?case
  proof (cases "due_at due d i")
    case True
    then obtain m where m: "get_memory i d = Some m" "due m" by (auto simp: due_at_def mem_view_def)
    have i: "m_id m = i" using view_ids(1) [of d i m] m(1) by (simp add: mem_view_def)
    have m': "get_memory (m_id m) d = Some m" using m i by simp
    have rest: "snd (transition_pass due act (i # is) d) = snd (transition_pass due act is (act m d))"
      using m by (simp split: prod.splits)
    have IH: "ok (snd (transition_pass due act is (act m d)))" "rel (act m d) (snd (transition_pass due act is (act m d)))"
        "\<forall>j \<in> set is. \<not> due_at due (snd (transition_pass due act is (act m d))) j"
      using Cons.IH [OF act_ok [OF Cons.prems m' m(2)]] by auto
    have "\<not> due_at due (snd (transition_pass due act is (act m d))) i"
      using act_settles [OF Cons.prems m' m(2)] rel_due [OF IH(2)] i by blast
    then show ?thesis unfolding rest using IH rel_trans [OF act_rel [OF Cons.prems m' m(2)] IH(2)] by simp
  next
    case False
    have rest: "snd (transition_pass due act (i # is) d) = snd (transition_pass due act is d)"
      using False by (auto simp: due_at_def mem_view_def split: option.splits)
    show ?thesis unfolding rest using Cons.IH [OF Cons.prems] False rel_due by auto
  qed
qed

end

lemma calm_update:
  assumes "mem_view d' = (mem_view d)(i := Some m')" and "mem_view d i = Some m" and "interval m' = interval m"
    and "\<not> expiry_due t m'" and "\<not> activation_due t m'"
  shows "calm t d d'" and "\<not> due_at (expiry_due t) d' i" and "\<not> due_at (activation_due t) d' i"
  using assms by (auto simp: calm_def due_at_def split: if_splits)

lemma expired_not_due: "\<not> expiry_due t (expired_memory t m)" "\<not> activation_due t (expired_memory t m)"
  by (simp_all add: expiry_due_def activation_due_def expired_memory_def lifecycle_metadata_def)

lemma activated_not_due:
  "(case effective_until m of None \<Rightarrow> True | Some u \<Rightarrow> t < u) \<Longrightarrow> \<not> expiry_due t (activated_memory t m)"
  "\<not> activation_due t (activated_memory t m)"
  by (auto simp: expiry_due_def activation_due_def activated_memory_def split: option.splits)

lemma interval_lifecycle [simp]:
  "interval (expired_memory t m) = interval m" "interval (activated_memory t m) = interval m"
  by (simp_all add: interval_def expired_memory_def activated_memory_def)

lemma expired_db_mem:
  "get_memory (m_id m) d = Some m \<Longrightarrow> mem_view (expired_db t m d) = (mem_view d)(m_id m := Some (expired_memory t m))"
  using view_put_memory [of d "expired_memory t m"] by (simp add: expired_db_def expired_memory_def mem_view_def)

lemma expire_calm:
  assumes inv: "ledger_inv d" and m: "get_memory (m_id m) d = Some m" and live: "\<not> is_archived m"
  shows "calm t d (expire_temporal_memory ic m tenant t d) \<and>
    \<not> due_at (expiry_due t) (expire_temporal_memory ic m tenant t d) (m_id m)"
proof -
  have mv: "mem_view d (m_id m) = Some m" using m by (simp add: mem_view_def)
  note E = calm_update [OF expired_db_mem [OF m] mv interval_lifecycle(1) expired_not_due]
  from inv m live show ?thesis
  proof (cases rule: expire_cases [where ic = ic and tenant = tenant and t = t])
    case other
    have same: "mem_view (expire_temporal_memory ic m tenant t d) = mem_view (expired_db t m d)" by (simp add: other(2))
    then show ?thesis using E by (simp add: calm_def due_at_def same)
  next
    case (winner r c)
    let ?dc = "put_claim (vacated_claim t c) (put_revision (r\<lparr>r_status := ''archived''\<rparr>) (expired_db t m d))"
    have ddc: "distinct (map r_id (revisions ?dc))" using inv by (simp add: ledger_inv_def expired_db_def)
    have dcm: "mem_view ?dc = mem_view (expired_db t m d)" by simp
    have Edc: "calm t d ?dc" "\<not> due_at (expiry_due t) ?dc (m_id m)" using E(1,2) by (simp_all add: calm_def due_at_def dcm)
    show ?thesis
    proof (cases "eligible_predecessor (c_id c) (previous_version_id m) t ?dc")
      case None
      then have "mem_view (expire_temporal_memory ic m tenant t d) = mem_view ?dc" by (simp add: winner(7) Let_def)
      then show ?thesis using Edc by (simp add: calm_def due_at_def)
    next
      case (Some p)
      obtain pm pr where p: "p = (pm, pr)" by fastforce
      have e: "mem_view ?dc (m_id pm) = Some pm" "valid_at t pm"
        using eligible_predecessor_Some [OF Some [unfolded p] ddc] by auto
      let ?d = "activate_locked_winner ic pm pr (vacated_claim t c) tenant t ''Restored after successor validity expired'' ?dc"
      have until: "case effective_until pm of None \<Rightarrow> True | Some u \<Rightarrow> t < u" using e(2) by (simp add: valid_at_def)
      have "mem_view ?d = (mem_view ?dc)(m_id pm := Some (activated_memory t pm))"
        by (rule activate_winner_mem) (use e(1) in simp)
      note A = calm_update [OF this e(1) interval_lifecycle(2) activated_not_due(1) [OF until] activated_not_due(2)]
      have same: "mem_view (expire_temporal_memory ic m tenant t d) = mem_view ?d" by (simp add: winner(7) Let_def Some p)
      have "\<not> due_at (expiry_due t) ?d (m_id m)" using A(1) Edc(2) unfolding calm_def by blast
      then show ?thesis using calm_trans [OF Edc(1) A(1)] by (simp add: calm_def due_at_def same)
    qed
  qed
qed

lemma activate_calm:
  assumes inv: "ledger_inv d" and m: "get_memory (m_id m) d = Some m" and due: "activation_due t m"
  shows "calm t d (activate_temporal_memory ic m tenant t d) \<and>
    \<not> due_at (activation_due t) (activate_temporal_memory ic m tenant t d) (m_id m)"
proof -
  have mv: "mem_view d (m_id m) = Some m" using m by (simp add: mem_view_def)
  have arch: "is_archived m" and until: "case effective_until m of None \<Rightarrow> True | Some u \<Rightarrow> t < u"
    using due by (auto simp: activation_due_def)
  note due' = interval_lifecycle(2) activated_not_due(1) [OF until] activated_not_due(2)
  from inv m arch show ?thesis
  proof (cases rule: activate_cases [where ic = ic and tenant = tenant and t = t])
    case (vacant r c)
    have "mem_view (activate_temporal_memory ic m tenant t d) = (mem_view d)(m_id m := Some (activated_memory t m))"
      unfolding vacant(5) by (rule activate_winner_mem) (use mv in simp)
    then show ?thesis using calm_update [OF _ mv due'] by blast
  next
    case unclaimed
    have "mem_view (activate_temporal_memory ic m tenant t d) = (mem_view d)(m_id m := Some (activated_memory t m))"
      unfolding unclaimed(2) using view_put_memory [of d "activated_memory t m"] mv by (simp add: activated_memory_def)
    then show ?thesis using calm_update [OF _ mv due'] by blast
  next
    case (displaces r c cur)
    let ?d = "supersede_current ic cur tenant d"
    let ?cur = "cur\<lparr>is_archived := True, metadata_json := AList.update ''lifecycle_state'' (PStr ''superseded'') (metadata_json cur)\<rparr>"
    have cv: "mem_view d (m_id cur) = Some cur" using displaces(5) by (simp add: mem_view_def)
    have M: "mem_view ?d = (mem_view d)(m_id cur := Some ?cur)"
      using view_put_memory [of d ?cur] cv by (auto simp: supersede_current_def Let_def split: option.splits)
    have S: "calm t d ?d"
      by (rule calm_update(1) [OF M cv]) (simp_all add: interval_def expiry_due_def activation_due_def)
    have mv2: "mem_view ?d (m_id m) = Some m" using mv displaces(7) by (simp add: M)
    have "mem_view (activate_temporal_memory ic m tenant t d) = (mem_view ?d)(m_id m := Some (activated_memory t m))"
      unfolding displaces(8) by (rule activate_winner_mem) (use mv2 in simp)
    note A = calm_update [OF this mv2 due']
    then show ?thesis using calm_trans [OF S A(1)] by blast
  qed
qed

lemma calm_due:
  "calm t d d' \<Longrightarrow> due_at (expiry_due t) d' i \<Longrightarrow> due_at (expiry_due t) d i"
  "calm t d d' \<Longrightarrow> due_at (activation_due t) d' i \<Longrightarrow> due_at (activation_due t) d i"
  by (simp_all add: calm_def)

interpretation expiry: due_transition "expiry_due t" "\<lambda>m. expire_temporal_memory ic m tenant t" ledger_inv "calm t"
  by unfold_locales (auto simp: expiry_due_def expire_inv expire_calm calm_refl intro: calm_trans calm_due)

interpretation activation: due_transition "activation_due t" "\<lambda>m. activate_temporal_memory ic m tenant t" ledger_inv "calm t"
proof unfold_locales
  show "ledger_inv d \<Longrightarrow> get_memory (m_id m) d = Some m \<Longrightarrow> activation_due t m \<Longrightarrow>
      ledger_inv (activate_temporal_memory ic m tenant t d)" for d m
    by (rule activate_inv) (simp_all add: activation_due_def)
qed (auto simp: activate_calm calm_refl intro: calm_trans calm_due)

lemma process_db:
  "snd (process_temporal_transitions ic locked tenant t d) =
     snd (transition_pass (activation_due t) (\<lambda>m. activate_temporal_memory ic m tenant t) (transition_candidates locked tenant t d)
       (snd (transition_pass (expiry_due t) (\<lambda>m. expire_temporal_memory ic m tenant t) (transition_candidates locked tenant t d) d)))"
  by (simp add: process_temporal_transitions_def Let_def split: prod.splits)

lemma process_effect:
  assumes "ledger_inv d" and d'_def: "d' = snd (process_temporal_transitions ic locked tenant t d)"
  shows "ledger_inv d'" and "calm t d d'"
    and "i \<in> set (transition_candidates locked tenant t d) \<Longrightarrow> \<not> due_at (expiry_due t) d' i \<and> \<not> due_at (activation_due t) d' i"
proof -
  let ?is = "transition_candidates locked tenant t d"
  let ?d1 = "snd (transition_pass (expiry_due t) (\<lambda>m. expire_temporal_memory ic m tenant t) ?is d)"
  have 1: "ledger_inv ?d1" "calm t d ?d1" "\<forall>i \<in> set ?is. \<not> due_at (expiry_due t) ?d1 i"
    using expiry.pass [OF assms(1), of t ic tenant ?is] by auto
  have 2: "ledger_inv d'" "calm t ?d1 d'" "\<forall>i \<in> set ?is. \<not> due_at (activation_due t) d' i"
    using activation.pass [OF 1(1), of t ic tenant ?is] unfolding d'_def process_db by auto
  show "ledger_inv d'" by (rule 2(1))
  show "calm t d d'" by (rule calm_trans [OF 1(2) 2(2)])
  show "i \<in> set ?is \<Longrightarrow> \<not> due_at (expiry_due t) d' i \<and> \<not> due_at (activation_due t) d' i"
    using 1(3) 2(3) calm_due(1) [OF 2(2)] by blast
qed

section \<open>Properties\<close>



lemma auto_archive_one_view:
  "mem_view d (m_id m) \<noteq> None \<Longrightarrow> mem_view (auto_archive_one m d) = (mem_view d)(m_id m := Some (m\<lparr>is_archived := True\<rparr>))"
proof -
  assume "mem_view d (m_id m) \<noteq> None"
  then have "mem_view (put_memory (m\<lparr>is_archived := True\<rparr>) d) = (mem_view d)(m_id m := Some (m\<lparr>is_archived := True\<rparr>))"
    using view_put_memory [of d "m\<lparr>is_archived := True\<rparr>"] by simp
  moreover have "mem_view (auto_archive_one m d) = mem_view (put_memory (m\<lparr>is_archived := True\<rparr>) d)"
    by (rule view_frames(1)) (simp add: auto_archive_one_def enqueue_vector_delete_def add_outbox_row_def Let_def)
  ultimately show ?thesis by simp
qed

lemma auto_archive_fold:
  "distinct (map m_id ms) \<Longrightarrow> (\<And>m. m \<in> set ms \<Longrightarrow> mem_view d (m_id m) = Some m) \<Longrightarrow>
     mem_view (fold auto_archive_one ms d) i =
       (if i \<in> m_id ` set ms then map_option (\<lambda>m. m\<lparr>is_archived := True\<rparr>) (mem_view d i) else mem_view d i)"
proof (induction ms arbitrary: d)
  case (Cons m ms)
  have v: "mem_view (auto_archive_one m d) = (mem_view d)(m_id m := Some (m\<lparr>is_archived := True\<rparr>))"
    by (rule auto_archive_one_view) (simp add: Cons.prems(2))
  have keep: "mem_view (auto_archive_one m d) (m_id x) = Some x" if x: "x \<in> set ms" for x
  proof -
    have "m_id x \<noteq> m_id m" using x Cons.prems(1) by (auto simp: image_iff)
    then show ?thesis using x Cons.prems(2) [of x] by (simp add: v)
  qed
  have IH: "mem_view (fold auto_archive_one ms (auto_archive_one m d)) i =
      (if i \<in> m_id ` set ms then map_option (\<lambda>m. m\<lparr>is_archived := True\<rparr>) (mem_view (auto_archive_one m d) i)
       else mem_view (auto_archive_one m d) i)"
    by (rule Cons.IH) (use Cons.prems(1) keep in simp_all)
  have "m_id m \<notin> m_id ` set ms" "mem_view d (m_id m) = Some m" using Cons.prems by simp_all
  then show ?case using IH by (cases "i = m_id m") (simp_all add: v)
qed simp

lemma auto_archive_view:
  assumes "distinct (map m_id (memories d))" and "m \<in> set (memories d)"
  shows "get_memory (m_id m) (snd (auto_archive_memories tenant t d)) =
      Some (if tenant_of (m_proxy_user_id m) d = Some tenant \<and> archivable t m then m\<lparr>is_archived := True\<rparr> else m)"
proof -
  let ?ms = "select_memories tenant (archivable t) d"
  have dist: "distinct (map m_id ?ms)" using assms(1) by (simp add: select_memories_def distinct_map_filter)
  have inj: "inj_on m_id (set (memories d))" using assms(1) by (simp add: distinct_map)
  have "set ?ms \<subseteq> set (memories d)" by (auto simp: select_memories_def)
  then have "m_id m \<in> m_id ` set ?ms \<longleftrightarrow> m \<in> set ?ms" by (rule inj_on_image_mem_iff [OF inj assms(2)])
  also have "\<dots> \<longleftrightarrow> tenant_of (m_proxy_user_id m) d = Some tenant \<and> archivable t m"
    using assms(2) by (simp add: select_memories_def)
  finally have sel: "m_id m \<in> m_id ` set ?ms \<longleftrightarrow> tenant_of (m_proxy_user_id m) d = Some tenant \<and> archivable t m" .
  have each: "mem_view d (m_id x) = Some x" if "x \<in> set ?ms" for x
    using that mem_view_in [OF assms(1), of x] by (simp add: select_memories_def)
  have "mem_view (fold auto_archive_one ?ms d) (m_id m) =
      (if m_id m \<in> m_id ` set ?ms then map_option (\<lambda>m. m\<lparr>is_archived := True\<rparr>) (mem_view d (m_id m)) else mem_view d (m_id m))"
    by (rule auto_archive_fold [OF dist each])
  also have "\<dots> = Some (if tenant_of (m_proxy_user_id m) d = Some tenant \<and> archivable t m then m\<lparr>is_archived := True\<rparr> else m)"
    unfolding sel mem_view_in [OF assms] by simp
  finally show ?thesis by (simp only: auto_archive_memories_def Let_def snd_conv mem_view_def)
qed

text \<open>
  Automatic archiving is exact: it archives the tenant's memories that are unarchived, of
  an importance below 1.5, never accessed and idle for ninety days, it changes nothing else
  about them and nothing at all about any other memory, and it reports their number.
\<close>

theorem auto_archive_is_exact:
  assumes "distinct (map m_id (memories d))" and "m \<in> set (memories d)"
  shows "get_memory (m_id m) (snd (auto_archive_memories tenant t d)) =
      Some (if tenant_of (m_proxy_user_id m) d = Some tenant \<and> archivable t m then m\<lparr>is_archived := True\<rparr> else m) \<and>
    fst (auto_archive_memories tenant t d) =
      int (card {x \<in> set (memories d). tenant_of (m_proxy_user_id x) d = Some tenant \<and> archivable t x})"
proof (rule conjI [OF auto_archive_view [OF assms]])
  let ?ms = "select_memories tenant (archivable t) d"
  have "distinct ?ms" using assms(1) by (simp add: select_memories_def distinct_map)
  then have "length ?ms = card (set ?ms)" by (rule distinct_card [symmetric])
  also have "set ?ms = {x \<in> set (memories d). tenant_of (m_proxy_user_id x) d = Some tenant \<and> archivable t x}"
    by (simp add: select_memories_def)
  finally show "fst (auto_archive_memories tenant t d) =
      int (card {x \<in> set (memories d). tenant_of (m_proxy_user_id x) d = Some tenant \<and> archivable t x})"
    by (simp add: auto_archive_memories_def Let_def)
qed

section \<open>Witnesses\<close>



theorem auto_archive_is_exact_witness:
  "\<exists>m'. get_memory 1 (snd (auto_archive_memories 90 (100 * day_us) example_ledger)) = Some m' \<and> is_archived m'"
proof -
  let ?m = "example_memory\<lparr>effective_until := Some 5, previous_version_id := Some 2, importance_score := 1\<rparr>"
  have 1: "distinct (map m_id (memories example_ledger))" "?m \<in> set (memories example_ledger)"
    by (simp_all add: example_ledger_def example_memory_def)
  have "tenant_of (m_proxy_user_id ?m) example_ledger = Some 90" "archivable (100 * day_us) ?m"
    by (simp_all add: example_ledger_def example_memory_def example_db_def tenant_of_def find_row_def archivable_def
        archive_importance_threshold_def archive_days_threshold_def accessed_before_def day_us_def)
  then show ?thesis using auto_archive_is_exact [OF 1, of 90 "100 * day_us"] by (simp add: example_memory_def)
qed

text \<open>
  Automatic archiving of a claim's winner does not tell the ledger: the claim stays active and
  names an archived memory, and its revision stays activated.
\<close>

theorem auto_archive_leaves_claim_active:
  "ledger_inv example_ledger \<and> \<not> ledger_inv (snd (auto_archive_memories 90 (100 * day_us) example_ledger)) \<and>
   claims (snd (auto_archive_memories 90 (100 * day_us) example_ledger)) = claims example_ledger"
proof -
  let ?d = "snd (auto_archive_memories 90 (100 * day_us) example_ledger)"
  have keep: "claims (fold auto_archive_one ms d) = claims d" for ms d
    by (induction ms arbitrary: d) (simp_all add: auto_archive_one_def enqueue_vector_delete_def add_outbox_row_def Let_def)
  then have c: "claims ?d = claims example_ledger" by (simp add: auto_archive_memories_def Let_def)
  have "revisions (fold auto_archive_one ms d) = revisions d" for ms d
    by (induction ms arbitrary: d) (simp_all add: auto_archive_one_def enqueue_vector_delete_def add_outbox_row_def Let_def)
  then have rv: "revisions ?d = revisions example_ledger" by (simp add: auto_archive_memories_def Let_def)
  have v: "claim_view ?d 10 = Some example_claim"
    using view_frames(2) [OF c] example_views(2) [of 10] by simp
  obtain m' where m': "get_memory 1 ?d = Some m'" "is_archived m'"
    using auto_archive_view [of example_ledger "example_memory\<lparr>effective_until := Some 5, previous_version_id := Some 2, importance_score := 1\<rparr>"
        90 "100 * day_us"]
    by (simp add: example_ledger_def example_memory_def example_db_def tenant_of_def find_row_def archivable_def
        archive_importance_threshold_def archive_days_threshold_def accessed_before_def day_us_def)
  have "\<not> ledger_inv ?d"
  proof
    assume "ledger_inv ?d"
    then have w: "winners_ok (mem_view ?d) (claim_view ?d) (rev_view ?d)" by (rule ledger_invD(3))
    have a: "active_memory_id example_claim = Some 1" "winning_revision_id example_claim = Some 11" by (simp_all add: example_claim_def)
    obtain v' r m where "winning_revision_id example_claim = Some v'" "rev_view ?d v' = Some r" "mem_view ?d 1 = Some m"
        "r_status r = ''activated'' \<longleftrightarrow> \<not> is_archived m"
      by (rule winners_active [OF w v a(1)])
    moreover have "rev_view ?d 11 = Some (example_revision 11 1 ''activated'')"
      using view_frames(3) [OF rv] example_views(3) [of 11] by simp
    ultimately show False using m' a(2) by (auto simp: mem_view_def example_revision_def)
  qed
  then show ?thesis using example_ledger_inv c by simp
qed

text \<open>
  The deletion that automatic archiving enqueues carries no collection, so it is applied to the
  default collection, whatever collection the memory's vector is in.
\<close>

theorem auto_archive_deletes_from_default_collection:
  "\<exists>row. outbox (auto_archive_one m d) = outbox d @ [row] \<and> operation row = Delete \<and> o_memory_id row = m_id m \<and>
     delete_commands (fst (hd (group_rows str_of [row]))) [row] = [DeleteIds ''memories'' [m_id m]]"
  by (simp add: auto_archive_one_def enqueue_vector_delete_def add_outbox_row_def new_outbox_row_def group_rows_def
      payload_collection_def py_or_def collection_name_default_def delete_commands_def Let_def)

end
