(* ===== verification/Ledger.thy ===== *)
theory Ledger
  imports ClaimTables "HOL-Library.List_Lexorder" "HOL-Library.Char_ord"
begin

text \<open>
  The claim ledger: \<open>src/api/services/claim_ledger_service.py\<close> and
  \<open>src/api/services/claim_versions.py\<close>. A claim groups the assertions of one proposition about one
  user; the ledger decides which assertion is the active one.

  Three things the service takes from elsewhere are the fields of \<open>ledger_env\<close>: the digest
  (SHA-256 over the \<open>repr\<close> of the identity), \<open>str\<close> and the two parsers of text into a timestamp and a
  UUID, and the validated preference declaration found in the provenance (\<open>Inl\<close>: validation
  raises). The session always has \<open>add\<close>, \<open>execute\<close>, \<open>get\<close> and \<open>flush\<close>. The provenance is a
  dictionary (an absent one is empty) whose \<open>evidence\<close> is a list.
\<close>

section \<open>Identities\<close>

type_synonym scope = "(string \<times> pyval) list"

datatype scope_value = ScopeText string | ScopeJson pyval

type_synonym scope_key = "(string \<times> scope_value) list"

record claim_identity =
  ci_fingerprint :: string
  ci_subject_key :: string
  ci_predicate_key :: string
  ci_value :: string
  ci_scope :: scope

record preference_request =
  property_key :: string
  preference_value :: string
  applicability :: scope

datatype ledger_error =
    InvalidDeclaration
  | PredecessorIdentityMismatch
  | PredecessorUnverified
  | ScopeBindingMismatch
  | MalformedProvenance
  | UnknownSelection
  | OneActivatedViolated

record ledger_env =
  digest :: "string \<times> string \<times> string \<times> scope_key \<Rightarrow> string"
  str_of :: "pyval \<Rightarrow> string"
  from_isoformat :: "string \<Rightarrow> utc option"
  uuid_of :: "string \<Rightarrow> uuid option"
  declared :: "scope \<Rightarrow> ledger_error + preference_request option"

definition generic_claim_subject :: string where
  "generic_claim_subject = ''exact_proposition_v1''"

definition preference_marker :: string where
  "preference_marker = ''explicit_preference_v1''"

text \<open>
  \<open>json.dumps(value, sort_keys=True)\<close>: two values have the same text exactly when they agree up to
  the order of dictionary keys, so the text is represented by the value with sorted keys.
\<close>

fun json_canonical :: "pyval \<Rightarrow> pyval" where
  "json_canonical (PList vs) = PList (map json_canonical vs)"
| "json_canonical (PDict d) = PDict (sort_key fst (map (\<lambda>kv. (fst kv, json_canonical (snd kv))) d))"
| "json_canonical v = v"

definition normalize_generic_scope :: "scope \<Rightarrow> scope_key" where
  "normalize_generic_scope sc =
     map (\<lambda>(k, v). (k, case v of PStr s \<Rightarrow> ScopeText s | _ \<Rightarrow> ScopeJson (json_canonical v))) (sort_key fst sc)"

definition py_str :: "ledger_env \<Rightarrow> pyval \<Rightarrow> string" where
  "py_str e v = (case v of PStr s \<Rightarrow> s | _ \<Rightarrow> str_of e v)"

definition normalize_scope :: "ledger_env \<Rightarrow> scope \<Rightarrow> scope_key" where
  "normalize_scope e sc = map (\<lambda>(k, v). (k, ScopeText (py_str e v))) (filter (\<lambda>(k, v). v \<noteq> PNone) (sort_key fst sc))"

definition build_claim_identity :: "ledger_env \<Rightarrow> string \<Rightarrow> string \<Rightarrow> scope \<Rightarrow> claim_identity" where
  "build_claim_identity e text cat sc =
     (let p = py_strip text
      in \<lparr>ci_fingerprint = digest e (cat, generic_claim_subject, p, normalize_generic_scope sc),
          ci_subject_key = generic_claim_subject, ci_predicate_key = take 255 p, ci_value = p, ci_scope = sc\<rparr>)"

definition build_domain_claim_identity :: "ledger_env \<Rightarrow> string \<Rightarrow> string \<Rightarrow> string \<Rightarrow> string \<Rightarrow> scope \<Rightarrow> claim_identity" where
  "build_domain_claim_identity e domain field cat v sc =
     (let p = domain @ ''.'' @ field
      in \<lparr>ci_fingerprint = digest e (cat, ''user'', p, normalize_scope e sc),
          ci_subject_key = ''user'', ci_predicate_key = take 255 p, ci_value = v, ci_scope = sc\<rparr>)"

definition preference_identity :: "ledger_env \<Rightarrow> preference_request \<Rightarrow> claim_identity" where
  "preference_identity e q =
     build_domain_claim_identity e preference_marker (property_key q) ''preference'' (preference_value q) (applicability q)"

text \<open>\<open>[\s.?!]+$\<close> and \<open>\s+\<close> of \<open>normalize_text\<close>; case folding is that of the ASCII range.\<close>

definition strip_trailing_punct :: "string \<Rightarrow> string" where
  "strip_trailing_punct s = rev (dropWhile (\<lambda>c. is_space c \<or> c \<in> set ''.?!'') (rev s))"

function collapse_spaces :: "string \<Rightarrow> string" where
  "collapse_spaces [] = []"
| "collapse_spaces (c # cs) =
     (if is_space c then CHR '' '' # collapse_spaces (dropWhile is_space cs) else c # collapse_spaces cs)"
  by pat_completeness auto

termination
  by (relation "measure length") (auto simp: le_imp_less_Suc length_dropWhile_le)

definition normalize_text :: "string \<Rightarrow> string" where
  "normalize_text s = collapse_spaces (strip_trailing_punct (py_strip (py_lower s)))"

section \<open>Authority and confidence\<close>

definition clamp_priority :: "int \<Rightarrow> int" where
  "clamp_priority n = max 0 (min n 100)"

text \<open>The provenance is a dictionary; \<open>None\<close>: \<open>dict\<close> raises on a truthy value that is not one.\<close>

definition authority_priority :: "scope \<Rightarrow> string \<Rightarrow> int option" where
  "authority_priority prov cat =
     (case py_dict (dget prov ''authority_rules'' PNone) of
        None \<Rightarrow> None
      | Some rules \<Rightarrow>
          (case py_dict (dget rules ''categories'' PNone) of
             None \<Rightarrow> None
           | Some cats \<Rightarrow>
               (case py_int (dget cats cat (dget rules ''default_priority'' (PInt 50))) of
                  None \<Rightarrow> Some 50
                | Some n \<Rightarrow> Some (clamp_priority n))))"

fun first_field_rule :: "(string \<times> pyval) list \<Rightarrow> string list \<Rightarrow> int option" where
  "first_field_rule rules [] = None"
| "first_field_rule rules (k # ks) =
     (case map_of rules k of
        None \<Rightarrow> first_field_rule rules ks
      | Some v \<Rightarrow> map_option clamp_priority (py_int v))"

definition domain_authority_priority :: "scope \<Rightarrow> string \<Rightarrow> string \<Rightarrow> string \<Rightarrow> int option" where
  "domain_authority_priority prov domain field cat =
     (case py_dict (dget prov ''authority_rules'' PNone) of
        None \<Rightarrow> None
      | Some rules \<Rightarrow>
          (case py_dict (dget rules ''domain_fields'' PNone) of
             None \<Rightarrow> None
           | Some frules \<Rightarrow>
               (case first_field_rule frules [domain @ ''.'' @ field, field] of
                  Some n \<Rightarrow> Some n
                | None \<Rightarrow> authority_priority prov cat)))"

definition domain_field_confidence :: "scope \<Rightarrow> pyfloat option" where
  "domain_field_confidence prov =
     (case py_dict (dget prov ''processing'' PNone) of
        None \<Rightarrow> None
      | Some p \<Rightarrow>
          (case py_float (dget p ''extraction_confidence'' (PFloat 1)) of
             None \<Rightarrow> Some 1
           | Some x \<Rightarrow> Some (max 0 (min x 1))))"

definition parse_observed_at :: "ledger_env \<Rightarrow> pyval \<Rightarrow> utc option" where
  "parse_observed_at e v = (if v = PNone then None else from_isoformat e (py_str e v))"

definition parse_uuid :: "ledger_env \<Rightarrow> pyval \<Rightarrow> uuid option" where
  "parse_uuid e v = (if v = PNone then None else uuid_of e (py_str e v))"

definition incoming_wins :: "memory_claim \<Rightarrow> int \<Rightarrow> pyfloat \<Rightarrow> utc option \<Rightarrow> bool" where
  "incoming_wins c priority confidence observed =
     (let current = int_or (Some (c_authority_priority c)) 50
      in if priority \<noteq> current then priority > current
         else case (observed, c_observed_at c) of
                (Some t, Some u) \<Rightarrow> t > u
              | _ \<Rightarrow> \<bar>confidence - c_confidence_score c\<bar> > 1/5 \<and> confidence > c_confidence_score c)"

section \<open>Versions of the claim schema\<close>

definition claim_schema_version :: int where
  "claim_schema_version = 1"

definition processor_version_for_resolution :: "string option \<Rightarrow> bool \<Rightarrow> string" where
  "processor_version_for_resolution reason passport =
     (let n = py_lower (py_strip (case reason of None \<Rightarrow> [] | Some r \<Rightarrow> r))
      in if py_contains ''backfill'' n \<or> prefix ''legacy_'' n
         then (if passport then ''passport-provenance-backfill-v1'' else ''tenant-provenance-backfill-v1'')
         else ''claim-ledger-v1'')"

section \<open>Reading the ledger\<close>

definition find_claim :: "uuid \<Rightarrow> uuid \<Rightarrow> string \<Rightarrow> db \<Rightarrow> memory_claim option" where
  "find_claim tenant proxy fp d =
     find_row (\<lambda>c. c_tenant_id c = tenant \<and> c_proxy_user_id c = proxy \<and> claim_fingerprint c = fp) (claims d)"

definition find_claim_for_memory :: "uuid \<Rightarrow> db \<Rightarrow> memory_claim option" where
  "find_claim_for_memory i d =
     (case sort_key (\<lambda>r. - r_created_at r) (filter (\<lambda>r. r_memory_id r = Some i \<and> get_claim (r_claim_id r) d \<noteq> None) (revisions d)) of
        [] \<Rightarrow> None
      | r # _ \<Rightarrow> get_claim (r_claim_id r) d)"

definition winning_revision :: "memory_claim \<Rightarrow> db \<Rightarrow> claim_revision option" where
  "winning_revision c d = (case winning_revision_id c of None \<Rightarrow> None | Some w \<Rightarrow> get_revision w d)"

definition mark_existing_winner_superseded :: "memory_claim \<Rightarrow> db \<Rightarrow> db" where
  "mark_existing_winner_superseded c d =
     (case winning_revision c d of None \<Rightarrow> d | Some r \<Rightarrow> put_revision (r\<lparr>r_status := ''superseded''\<rparr>) d)"

section \<open>Recording a memory\<close>

record assertion =
  as_identity :: claim_identity
  as_declared :: bool
  as_priority :: int
  as_observed_at :: "utc option"

definition add_claim :: "memory_claim \<Rightarrow> db \<Rightarrow> db" where
  "add_claim c d = d\<lparr>claims := claims d @ [c], next_id := Suc (next_id d)\<rparr>"

definition add_revision :: "claim_revision \<Rightarrow> db \<Rightarrow> db" where
  "add_revision r d = d\<lparr>revisions := revisions d @ [r], next_id := Suc (next_id d)\<rparr>"

definition new_memory_claim :: "uuid \<Rightarrow> uuid \<Rightarrow> assertion \<Rightarrow> utc \<Rightarrow> memory \<Rightarrow> db \<Rightarrow> memory_claim" where
  "new_memory_claim tenant proxy a now m d =
     \<lparr>c_id = next_id d, c_tenant_id = tenant, c_proxy_user_id = proxy, c_category = category m,
      claim_fingerprint = ci_fingerprint (as_identity a), subject_key = ci_subject_key (as_identity a),
      predicate_key = ci_predicate_key (as_identity a), c_scope = ci_scope (as_identity a),
      active_value = (if is_archived m then None else Some (ci_value (as_identity a))),
      c_status = (if is_archived m then ''disputed'' else ''active''),
      active_memory_id = (if is_archived m then None else Some (m_id m)), winning_revision_id = None,
      c_authority_priority = as_priority a, c_confidence_score = confidence_score m, c_observed_at = as_observed_at a,
      effective_at = now, c_updated_at = db_now d\<rparr>"

text \<open>
  An existing claim: the claim after the assertion, whether its winner was superseded, and the
  status of the new revision.
\<close>

definition winning_claim :: "assertion \<Rightarrow> utc \<Rightarrow> memory \<Rightarrow> memory_claim \<Rightarrow> memory_claim" where
  "winning_claim a now m c =
     c\<lparr>active_value := Some (ci_value (as_identity a)), c_status := ''active'', active_memory_id := Some (m_id m),
       c_authority_priority := as_priority a, c_confidence_score := confidence_score m,
       c_observed_at := (case as_observed_at a of None \<Rightarrow> c_observed_at c | Some t \<Rightarrow> Some t),
       effective_at := now, c_updated_at := now\<rparr>"

definition takes_over :: "bool \<Rightarrow> assertion \<Rightarrow> memory \<Rightarrow> memory_claim \<Rightarrow> bool" where
  "takes_over inherited a m c \<longleftrightarrow>
     \<not> is_archived m \<and>
     (inherited \<or> (as_declared a \<and> active_memory_id c = None) \<or>
      incoming_wins c (as_priority a) (confidence_score m) (as_observed_at a))"

definition disputes :: "assertion \<Rightarrow> memory \<Rightarrow> memory_claim \<Rightarrow> bool" where
  "disputes a m c \<longleftrightarrow>
     \<not> is_archived m \<and>
     (let current = normalize_text (case active_value c of None \<Rightarrow> [] | Some v \<Rightarrow> v)
      in current \<noteq> [] \<and> normalize_text (ci_value (as_identity a)) \<noteq> current)"

definition assert_on_claim :: "bool \<Rightarrow> assertion \<Rightarrow> utc \<Rightarrow> memory \<Rightarrow> memory_claim \<Rightarrow> db \<Rightarrow> string \<times> memory_claim \<times> db" where
  "assert_on_claim inherited a now m c d =
     (if takes_over inherited a m c
      then (let c' = winning_claim a now m c in (''activated'', c', put_claim c' (mark_existing_winner_superseded c d)))
      else if disputes a m c
      then (let c' = c\<lparr>c_status := ''disputed'', c_updated_at := now\<rparr> in (''disputed'', c', put_claim c' d))
      else if \<not> is_archived m then (''asserted'', c, d)
      else (''disputed'', c, d))"

definition new_memory_revision ::
  "ledger_env \<Rightarrow> scope \<Rightarrow> string \<Rightarrow> (string \<times> pyval) list \<Rightarrow> assertion \<Rightarrow> string \<Rightarrow> memory \<Rightarrow> uuid \<Rightarrow> db \<Rightarrow> claim_revision" where
  "new_memory_revision e prov resolution evidence a st m claim d =
     \<lparr>r_id = next_id d, r_claim_id = claim, r_memory_id = Some (m_id m), r_source_event_id = source_event_id m,
      source_writer_id = parse_uuid e (dget prov ''writer_id'' PNone), source_domain = None, source_domain_record_id = None,
      source_field = None, asserted_value = ci_value (as_identity a), r_status = st, r_authority_priority = as_priority a,
      r_confidence_score = confidence_score m, r_observed_at = as_observed_at a, r_effective_from = effective_from m,
      r_effective_until = effective_until m,
      evidence_refs = (case dget prov ''evidence'' PNone of PList xs \<Rightarrow> xs | _ \<Rightarrow> []),
      resolution_reason = Some resolution, decision_evidence = evidence, schema_version = claim_schema_version,
      processor_version = processor_version_for_resolution (Some resolution) False, r_created_at = db_now d\<rparr>"

text \<open>The revision is added, and an activated one becomes the winner of its claim.\<close>

definition add_memory_revision ::
  "ledger_env \<Rightarrow> scope \<Rightarrow> string \<Rightarrow> (string \<times> pyval) list \<Rightarrow> assertion \<Rightarrow> memory \<Rightarrow> string \<times> memory_claim \<times> db \<Rightarrow> memory_claim \<times> db" where
  "add_memory_revision e prov resolution evidence a m x =
     (case x of (st, c, d) \<Rightarrow>
        let r = new_memory_revision e prov resolution evidence a st m (c_id c) d;
            c' = (if st = ''activated'' then c\<lparr>winning_revision_id := Some (r_id r)\<rparr> else c);
            d1 = add_revision r d
        in (c', if st = ''activated'' then put_claim c' d1 else d1))"

definition joins_predecessor :: "string \<Rightarrow> bool" where
  "joins_predecessor resolution \<longleftrightarrow> resolution \<in> {''UPDATE'', ''MERGE''}"

text \<open>The checks on the claim of the predecessor; \<open>None\<close>: they pass.\<close>

definition predecessor_error ::
  "uuid \<Rightarrow> uuid \<Rightarrow> claim_identity \<Rightarrow> bool \<Rightarrow> string \<Rightarrow> uuid option \<Rightarrow> memory_claim option \<Rightarrow> memory \<Rightarrow> ledger_error option" where
  "predecessor_error tenant proxy ident decl resolution pred pc m =
     (if decl \<and> pred \<noteq> None \<and>
         (case pc of None \<Rightarrow> True
          | Some c \<Rightarrow> claim_fingerprint c \<noteq> ci_fingerprint ident \<or> c_tenant_id c \<noteq> tenant \<or> c_proxy_user_id c \<noteq> proxy)
      then Some PredecessorIdentityMismatch
      else if \<not> decl \<and> pred \<noteq> None \<and> joins_predecessor resolution \<and>
         (case pc of None \<Rightarrow> True
          | Some c \<Rightarrow> subject_key c \<noteq> generic_claim_subject \<or> c_tenant_id c \<noteq> tenant \<or> c_proxy_user_id c \<noteq> proxy \<or>
              c_category c \<noteq> category m \<or> normalize_generic_scope (c_scope c) \<noteq> normalize_generic_scope (ci_scope ident))
      then Some PredecessorUnverified
      else None)"

text \<open>The identity of the proposition, and whether it is a declared preference.\<close>

definition memory_identity :: "ledger_env \<Rightarrow> scope \<Rightarrow> memory \<Rightarrow> ledger_error + (claim_identity \<times> bool)" where
  "memory_identity e prov m =
     (case declared e prov of
        Inl x \<Rightarrow> Inl x
      | Inr (Some q) \<Rightarrow> Inr (preference_identity e q, True)
      | Inr None \<Rightarrow>
          (case py_dict (dget prov ''scope'' PNone) of
             None \<Rightarrow> Inl MalformedProvenance
           | Some sc \<Rightarrow> Inr (build_claim_identity e (content m) (category_value (category m)) sc, False)))"

definition predecessor_claim :: "string \<Rightarrow> uuid option \<Rightarrow> db \<Rightarrow> memory_claim option" where
  "predecessor_claim resolution pred d =
     (case pred of None \<Rightarrow> None | Some i \<Rightarrow> if joins_predecessor resolution then find_claim_for_memory i d else None)"

definition scope_mismatch :: "claim_identity \<Rightarrow> bool \<Rightarrow> memory_claim option \<Rightarrow> bool" where
  "scope_mismatch ident decl cl =
     (case cl of
        None \<Rightarrow> False
      | Some c \<Rightarrow> \<not> decl \<and> normalize_generic_scope (c_scope c) \<noteq> normalize_generic_scope (ci_scope ident))"

definition target_claim :: "uuid \<Rightarrow> uuid \<Rightarrow> claim_identity \<Rightarrow> string \<Rightarrow> uuid option \<Rightarrow> db \<Rightarrow> memory_claim option" where
  "target_claim tenant proxy ident resolution pred d =
     (case predecessor_claim resolution pred d of
        Some c \<Rightarrow> Some c
      | None \<Rightarrow> find_claim tenant proxy (ci_fingerprint ident) d)"

text \<open>The assertion on its claim, which is created when there is none.\<close>

definition assert_memory ::
  "uuid \<Rightarrow> uuid \<Rightarrow> bool \<Rightarrow> assertion \<Rightarrow> utc \<Rightarrow> memory \<Rightarrow> memory_claim option \<Rightarrow> db \<Rightarrow> string \<times> memory_claim \<times> db" where
  "assert_memory tenant proxy inherited a now m cl d =
     (case cl of
        None \<Rightarrow>
          (let c = new_memory_claim tenant proxy a now m d
           in (if is_archived m then ''disputed'' else ''activated'', c, add_claim c d))
      | Some c \<Rightarrow> assert_on_claim inherited a now m c d)"

text \<open>The rows the recording adds and changes in the session.\<close>

definition record_memory_rows ::
  "ledger_env \<Rightarrow> uuid option \<Rightarrow> uuid option \<Rightarrow> scope \<Rightarrow> string \<Rightarrow> (string \<times> pyval) list \<Rightarrow> uuid option \<Rightarrow> utc \<Rightarrow> memory \<Rightarrow> db \<Rightarrow>
     ledger_error + (memory_claim option \<times> db)" where
  "record_memory_rows e tenant proxy prov resolution evidence pred now m d =
     (case (tenant, proxy) of
        (Some t, Some p) \<Rightarrow>
          (case memory_identity e prov m of
             Inl x \<Rightarrow> Inl x
           | Inr (ident, decl) \<Rightarrow>
               (let pc = predecessor_claim resolution pred d;
                    cl = target_claim t p ident resolution pred d
                in case predecessor_error t p ident decl resolution pred pc m of
                     Some x \<Rightarrow> Inl x
                   | None \<Rightarrow>
                       if scope_mismatch ident decl cl then Inl ScopeBindingMismatch
                       else
                         (case authority_priority prov (category_value (category m)) of
                            None \<Rightarrow> Inl MalformedProvenance
                          | Some priority \<Rightarrow>
                              (let a = \<lparr>as_identity = ident, as_declared = decl, as_priority = priority,
                                        as_observed_at = parse_observed_at e (dget prov ''observed_at'' PNone)\<rparr>;
                                   (c, d') = add_memory_revision e prov resolution evidence a m
                                     (assert_memory t p (pc \<noteq> None) a now m cl d)
                               in Inr (Some c, d')))))
      | _ \<Rightarrow> Inr (None, d))"

text \<open>
  The flush: the index \<open>uq_memory_claim_revisions_one_activated\<close> of \<open>src/api/db/models.py\<close> allows one
  activated revision for each claim.
\<close>

definition one_activated :: "db \<Rightarrow> bool" where
  "one_activated d \<longleftrightarrow> distinct (map r_claim_id (filter (\<lambda>r. r_status r = ''activated'') (revisions d)))"

definition flushed :: "'a \<Rightarrow> db \<Rightarrow> ledger_error + ('a \<times> db)" where
  "flushed x d = (if one_activated d then Inr (x, d) else Inl OneActivatedViolated)"

definition record_memory ::
  "ledger_env \<Rightarrow> uuid option \<Rightarrow> uuid option \<Rightarrow> scope \<Rightarrow> string \<Rightarrow> (string \<times> pyval) list \<Rightarrow> uuid option \<Rightarrow> utc \<Rightarrow> memory \<Rightarrow> db \<Rightarrow>
     ledger_error + (memory_claim option \<times> db)" where
  "record_memory e tenant proxy prov resolution evidence pred now m d =
     (case record_memory_rows e tenant proxy prov resolution evidence pred now m d of
        Inl x \<Rightarrow> Inl x
      | Inr (None, d') \<Rightarrow> Inr (None, d')
      | Inr (Some c, d') \<Rightarrow> flushed (Some c) d')"

section \<open>Recording domain fields\<close>

definition new_domain_claim ::
  "uuid \<Rightarrow> uuid \<Rightarrow> claim_identity \<Rightarrow> memory_category \<Rightarrow> string \<Rightarrow> int \<Rightarrow> pyfloat \<Rightarrow> utc option \<Rightarrow> utc \<Rightarrow> db \<Rightarrow> memory_claim" where
  "new_domain_claim tenant proxy ident cat v priority confidence observed now d =
     \<lparr>c_id = next_id d, c_tenant_id = tenant, c_proxy_user_id = proxy, c_category = cat,
      claim_fingerprint = ci_fingerprint ident, subject_key = ci_subject_key ident, predicate_key = ci_predicate_key ident,
      c_scope = ci_scope ident, active_value = Some v, c_status = ''active'', active_memory_id = None,
      winning_revision_id = None, c_authority_priority = priority, c_confidence_score = confidence,
      c_observed_at = observed, effective_at = now, c_updated_at = db_now d\<rparr>"

definition assert_domain_value ::
  "memory_claim \<Rightarrow> string \<Rightarrow> int \<Rightarrow> pyfloat \<Rightarrow> utc option \<Rightarrow> uuid option \<Rightarrow> utc \<Rightarrow> db \<Rightarrow> string \<times> memory_claim \<times> db" where
  "assert_domain_value c v priority confidence observed writer now d =
     (let same_writer = (case winning_revision c d of None \<Rightarrow> True | Some w \<Rightarrow> source_writer_id w = writer)
      in if active_value c = Some v then (''asserted'', c, d)
         else if same_writer \<or> incoming_wins c priority confidence observed
         then (let c' = c\<lparr>active_value := Some v, c_status := ''active'', c_authority_priority := priority,
                          c_confidence_score := confidence,
                          c_observed_at := (case observed of None \<Rightarrow> c_observed_at c | Some t \<Rightarrow> Some t),
                          effective_at := now, c_updated_at := now\<rparr>
               in (''activated'', c', put_claim c' (mark_existing_winner_superseded c d)))
         else (let c' = c\<lparr>c_status := ''disputed'', c_updated_at := now\<rparr> in (''disputed'', c', put_claim c' d)))"

definition new_domain_revision ::
  "ledger_env \<Rightarrow> scope \<Rightarrow> string \<Rightarrow> string \<Rightarrow> string \<Rightarrow> string \<Rightarrow> int \<Rightarrow> pyfloat \<Rightarrow> utc option \<Rightarrow> uuid option \<Rightarrow> string \<Rightarrow> uuid \<Rightarrow> db \<Rightarrow>
     claim_revision" where
  "new_domain_revision e prov domain record_id field v priority confidence observed writer st claim d =
     \<lparr>r_id = next_id d, r_claim_id = claim, r_memory_id = None,
      r_source_event_id = parse_uuid e (dget prov ''source_event_id'' PNone), source_writer_id = writer,
      source_domain = Some domain, source_domain_record_id = Some record_id, source_field = Some field, asserted_value = v,
      r_status = st, r_authority_priority = priority, r_confidence_score = confidence, r_observed_at = observed,
      r_effective_from = None, r_effective_until = None,
      evidence_refs = (case dget prov ''evidence'' PNone of PList xs \<Rightarrow> xs | _ \<Rightarrow> []),
      resolution_reason = Some ''domain_field_extraction'', decision_evidence = [], schema_version = claim_schema_version,
      processor_version = processor_version_for_resolution (Some ''domain_field_extraction'') False, r_created_at = db_now d\<rparr>"

text \<open>The category of a domain field is one of the enumeration's values.\<close>

definition record_domain_field ::
  "ledger_env \<Rightarrow> uuid \<Rightarrow> uuid \<Rightarrow> string \<Rightarrow> string \<Rightarrow> string \<Rightarrow> memory_category \<Rightarrow> string \<Rightarrow> scope \<Rightarrow> utc \<Rightarrow> db \<Rightarrow>
     ledger_error + (memory_claim \<times> db)" where
  "record_domain_field e tenant proxy domain record_id field cat v prov now d =
     (case (py_dict (dget prov ''scope'' PNone), domain_authority_priority prov domain field (category_value cat),
            domain_field_confidence prov) of
        (Some sc, Some priority, Some confidence) \<Rightarrow>
          (let ident = build_domain_claim_identity e domain field (category_value cat) v (AList.update ''domain'' (PStr domain) sc);
               observed = parse_observed_at e (dget prov ''observed_at'' PNone);
               writer = parse_uuid e (dget prov ''writer_id'' PNone);
               (st, c, d1) =
                 (case find_claim tenant proxy (ci_fingerprint ident) d of
                    None \<Rightarrow>
                      (let c = new_domain_claim tenant proxy ident cat v priority confidence observed now d
                       in (''activated'', c, add_claim c d))
                  | Some c \<Rightarrow> assert_domain_value c v priority confidence observed writer now d);
               r = new_domain_revision e prov domain record_id field v priority confidence observed writer st (c_id c) d1;
               c' = (if st = ''activated'' then c\<lparr>winning_revision_id := Some (r_id r)\<rparr> else c);
               d2 = add_revision r d1
           in flushed c' (if st = ''activated'' then put_claim c' d2 else d2))
      | _ \<Rightarrow> Inl MalformedProvenance)"

section \<open>Manual resolution of a conflict\<close>

definition selected_memories :: "uuid \<Rightarrow> uuid \<Rightarrow> string \<Rightarrow> uuid set option" where
  "selected_memories a b selection =
     (if selection = ''A'' then Some {a}
      else if selection = ''B'' then Some {b}
      else if selection = ''both'' then Some {a, b}
      else if selection = ''neither'' then Some {}
      else None)"

definition selected_in :: "uuid set \<Rightarrow> uuid \<Rightarrow> claim_revision list \<Rightarrow> claim_revision list" where
  "selected_in sel k rs = filter (\<lambda>r. r_claim_id r = k \<and> (\<exists>i \<in> sel. r_memory_id r = Some i)) rs"

definition desired_status :: "string \<Rightarrow> uuid set \<Rightarrow> claim_revision list \<Rightarrow> claim_revision \<Rightarrow> string" where
  "desired_status selection sel rs r =
     (let chosen = selected_in sel (r_claim_id r) rs
      in if r \<in> set chosen then (if selection = ''both'' \<and> length chosen > 1 then ''disputed'' else ''activated'') else ''rejected'')"

definition manual_evidence :: "string \<Rightarrow> string \<Rightarrow> (string \<times> pyval) list" where
  "manual_evidence selection reason =
     [(''action'', PStr ''manual_resolution''), (''decision_level'', PStr ''manual''),
      (''reason_codes'', PList [PStr ''human_review_completed'']), (''explanation'', PStr reason),
      (''details'', PDict [(''selection'', PStr selection)])]"

fun join_values :: "string list \<Rightarrow> string" where
  "join_values [] = []"
| "join_values [v] = v"
| "join_values (v # vs) = v @ ''; '' @ join_values vs"

definition resolved_claim :: "string \<Rightarrow> claim_revision list \<Rightarrow> utc \<Rightarrow> memory_claim \<Rightarrow> memory_claim" where
  "resolved_claim selection chosen now c =
     (if selection = ''both'' \<and> length chosen > 1
      then c\<lparr>c_status := ''disputed'', active_value := Some (join_values (map asserted_value chosen)), active_memory_id := None,
             winning_revision_id := None, c_updated_at := now\<rparr>
      else case chosen of
        [w] \<Rightarrow> c\<lparr>c_status := ''active'', active_value := Some (asserted_value w), active_memory_id := r_memory_id w,
                 winning_revision_id := Some (r_id w), c_authority_priority := r_authority_priority w,
                 c_confidence_score := r_confidence_score w,
                 c_observed_at := (case r_observed_at w of None \<Rightarrow> c_observed_at c | Some t \<Rightarrow> Some t), c_updated_at := now\<rparr>
      | _ \<Rightarrow> c\<lparr>c_status := ''archived'', active_value := None, active_memory_id := None, winning_revision_id := None,
              c_updated_at := now\<rparr>)"

definition conflict_claims :: "uuid \<Rightarrow> uuid \<Rightarrow> db \<Rightarrow> uuid set" where
  "conflict_claims a b d = r_claim_id ` set (filter (\<lambda>r. r_memory_id r = Some a \<or> r_memory_id r = Some b) (revisions d))"

definition resolved_revision :: "string \<Rightarrow> uuid set \<Rightarrow> claim_revision list \<Rightarrow> string \<Rightarrow> claim_revision \<Rightarrow> claim_revision" where
  "resolved_revision selection sel rows reason r =
     r\<lparr>r_status := desired_status selection sel rows r, resolution_reason := Some reason,
       decision_evidence := manual_evidence selection reason\<rparr>"

definition resolved_tables :: "string \<Rightarrow> uuid set \<Rightarrow> uuid set \<Rightarrow> string \<Rightarrow> utc \<Rightarrow> db \<Rightarrow> db" where
  "resolved_tables selection sel ks reason now d =
     (let rows = filter (\<lambda>r. r_claim_id r \<in> ks) (revisions d)
      in d\<lparr>revisions := update_where (\<lambda>r. r_claim_id r \<in> ks) (resolved_revision selection sel rows reason) (revisions d),
           claims := update_where (\<lambda>c. c_id c \<in> ks)
             (\<lambda>c. resolved_claim selection (selected_in sel (c_id c) rows) now c) (claims d)\<rparr>)"

text \<open>
  The demotions are flushed before the promotions, so that only the tables after both can
  violate the index. The claims read fields of the selected revisions that the resolution does
  not change. An unknown selection is a key error, raised before anything is changed.
\<close>

definition apply_conflict_selection :: "uuid \<Rightarrow> uuid \<Rightarrow> string \<Rightarrow> string \<Rightarrow> utc \<Rightarrow> db \<Rightarrow> ledger_error + (unit \<times> db)" where
  "apply_conflict_selection a b selection reason now d =
     (case selected_memories a b selection of
        None \<Rightarrow> Inl UnknownSelection
      | Some sel \<Rightarrow> flushed () (resolved_tables selection sel (conflict_claims a b d) reason now d))"

section \<open>Lemmas\<close>

text \<open>
  What holds between the assertion on the claim and the new revision: either the claim is
  ready to receive the memory as its winner, or the tables already agree.
\<close>

definition assertion_ready :: "memory \<Rightarrow> string \<times> memory_claim \<times> db \<Rightarrow> bool" where
  "assertion_ready m x \<longleftrightarrow>
     (case x of (st, c, d) \<Rightarrow>
        claim_view d (c_id c) = Some c \<and> mem_view d (m_id m) = Some m \<and>
        distinct (map r_id (revisions d)) \<and> revisions_ok (rev_view d) \<and> rev_view d (next_id d) = None \<and>
        (\<forall>w r. rev_view d w = Some r \<longrightarrow> r_memory_id r \<noteq> Some (m_id m)) \<and>
        (\<forall>w r. rev_view d w = Some r \<longrightarrow> r_claim_id r = c_id c \<longrightarrow> r_memory_id r \<noteq> None) \<and>
        (if st = ''activated''
         then \<not> is_archived m \<and> active_memory_id c = Some (m_id m) \<and> idle_claim (rev_view d) (c_id c) \<and>
              (\<exists>c0. winners_ok (mem_view d) ((claim_view d)(c_id c := Some c0)) (rev_view d))
         else winners_ok (mem_view d) (claim_view d) (rev_view d)))"

lemma add_revision_views:
  assumes "rev_view d (r_id r) = None"
  shows "rev_view (add_revision r d) = (rev_view d)(r_id r := Some r)"
    and "claim_view (add_revision r d) = claim_view d" and "mem_view (add_revision r d) = mem_view d"
  using view_add_revision [OF assms] view_frames(1,2) [of "add_revision r d" d] by (simp_all add: add_revision_def)

lemma distinct_add_revision:
  assumes "distinct (map r_id (revisions d))" and "rev_view d (r_id r) = None"
  shows "distinct (map r_id (revisions (add_revision r d)))"
proof -
  have "r_id r \<notin> r_id ` set (revisions d)"
    using assms(2) by (auto simp: rev_view_def get_revision_def find_row_None)
  then show ?thesis using assms(1) by (simp add: add_revision_def)
qed

lemma add_memory_revision_inv:
  assumes ready: "assertion_ready m (st, c, d)"
  shows "ledger_inv (snd (add_memory_revision e prov resolution evidence a m (st, c, d)))"
proof -
  let ?r = "new_memory_revision e prov resolution evidence a st m (c_id c) d"
  let ?d = "add_revision ?r d"
  have c: "claim_view d (c_id c) = Some c" and mv: "mem_view d (m_id m) = Some m"
    and dist: "distinct (map r_id (revisions d))" and rok: "revisions_ok (rev_view d)"
    and fresh: "rev_view d (next_id d) = None"
    and own: "\<And>w r. rev_view d w = Some r \<Longrightarrow> r_memory_id r \<noteq> Some (m_id m)"
    and kind: "\<And>w r. rev_view d w = Some r \<Longrightarrow> r_claim_id r = c_id c \<Longrightarrow> r_memory_id r \<noteq> None"
    using ready by (auto simp: assertion_ready_def)
  have r: "r_id ?r = next_id d" "r_memory_id ?r = Some (m_id m)" "r_claim_id ?r = c_id c" "r_status ?r = st"
    by (simp_all add: new_memory_revision_def)
  have fr: "rev_view d (r_id ?r) = None" using fresh r(1) by simp
  note V = add_revision_views [OF fr]
  have rok': "revisions_ok ((rev_view d)(r_id ?r := Some x))" if "r_memory_id x = Some (m_id m)" "r_claim_id x = c_id c" for x
    by (rule new_revision_revisions_ok [OF rok]) (use that own kind in auto)
  have dist': "distinct (map r_id (revisions ?d))" by (rule distinct_add_revision [OF dist fr])
  show ?thesis
  proof (cases "st = ''activated''")
    case True
    then have live: "\<not> is_archived m" and act: "active_memory_id c = Some (m_id m)" and idle: "idle_claim (rev_view d) (c_id c)"
      using ready by (auto simp: assertion_ready_def)
    obtain c0 where w: "winners_ok (mem_view d) ((claim_view d)(c_id c := Some c0)) (rev_view d)"
      using ready True by (auto simp: assertion_ready_def)
    let ?q = "?r\<lparr>r_status := ''disputed''\<rparr>"
    let ?c = "c\<lparr>winning_revision_id := Some (r_id ?r)\<rparr>"
    let ?R = "(rev_view d)(r_id ?r := Some ?q)"
    have w1: "winners_ok (mem_view d) ((claim_view d)(c_id c := Some c0)) ?R" by (rule new_revision_ok [OF w fr]) simp
    have idle1: "idle_claim ?R (c_id c)" using idle unfolding idle_claim_def by (auto split: if_splits)
    have rok1: "revisions_ok ?R" by (rule rok') (simp_all add: r)
    have "winners_ok ((mem_view d)(m_id m := Some m)) ((claim_view d)(c_id c := Some c0, c_id c := Some ?c)) (?R(r_id ?r := Some ?r))"
      by (rule promote_ok [OF w1 rok1, of "r_id ?r" ?q "m_id m" "c_id c"]) (use r act live True idle1 in simp_all)
    moreover have "(mem_view d)(m_id m := Some m) = mem_view d" using mv by auto
    ultimately have w2: "winners_ok (mem_view d) ((claim_view d)(c_id c := Some ?c)) ((rev_view d)(r_id ?r := Some ?r))" by simp
    have "claim_view (put_claim ?c ?d) = (claim_view d)(c_id c := Some ?c)"
      using view_put_claim [of ?d ?c] c by (simp add: V)
    then have "ledger_inv (put_claim ?c ?d)"
      using w2 rok' [OF r(2,3)] dist' by (simp add: ledger_inv_def V)
    then show ?thesis using True by (simp add: add_memory_revision_def Let_def)
  next
    case False
    then have w: "winners_ok (mem_view d) (claim_view d) (rev_view d)" using ready by (simp add: assertion_ready_def)
    have "winners_ok (mem_view d) (claim_view d) ((rev_view d)(r_id ?r := Some ?r))"
      by (rule new_revision_ok [OF w fr]) (use False r(4) in simp)
    then have "ledger_inv ?d" using rok' [OF r(2,3)] dist' by (simp add: ledger_inv_def V)
    then show ?thesis using False by (simp add: add_memory_revision_def Let_def)
  qed
qed

lemma mark_superseded_frames [simp]:
  "mem_view (mark_existing_winner_superseded c d) = mem_view d"
  "claim_view (mark_existing_winner_superseded c d) = claim_view d"
  "next_id (mark_existing_winner_superseded c d) = next_id d"
  "distinct (map r_id (revisions (mark_existing_winner_superseded c d))) = distinct (map r_id (revisions d))"
  by (simp_all add: mark_existing_winner_superseded_def split: option.split)

text \<open>Superseding the winner leaves a claim that a memory can take over.\<close>

lemma mark_superseded_idle:
  assumes inv: "ledger_inv d" and c: "claim_view d (c_id c) = Some c"
    and kind: "\<forall>w r. rev_view d w = Some r \<longrightarrow> r_claim_id r = c_id c \<longrightarrow> r_memory_id r \<noteq> None"
  defines "d1 \<equiv> mark_existing_winner_superseded c d"
  shows "idle_claim (rev_view d1) (c_id c) \<and> revisions_ok (rev_view d1) \<and>
    (\<exists>c0. winners_ok (mem_view d) ((claim_view d)(c_id c := Some c0)) (rev_view d1)) \<and>
    (\<forall>w r. rev_view d1 w = Some r \<longrightarrow> (\<exists>r0. rev_view d w = Some r0 \<and> r_memory_id r = r_memory_id r0 \<and> r_claim_id r = r_claim_id r0)) \<and>
    (\<forall>w. rev_view d w = None \<longrightarrow> rev_view d1 w = None)"
proof -
  note rok = ledger_invD(2) [OF inv] and w = ledger_invD(3) [OF inv]
  show ?thesis
  proof (cases "winning_revision_id c")
    case None
    then have d1: "d1 = d" by (simp add: d1_def mark_existing_winner_superseded_def winning_revision_def)
    have "(claim_view d)(c_id c := Some c) = claim_view d" using c by auto
    then have "\<exists>c0. winners_ok (mem_view d) ((claim_view d)(c_id c := Some c0)) (rev_view d)" using w by (intro exI [of _ c]) simp
    then show ?thesis unfolding d1 using idle_no_winner [OF w c None] rok by auto
  next
    case (Some v)
    obtain r where r: "rev_view d v = Some r" "r_claim_id r = c_id c" "r_memory_id r = active_memory_id c"
      by (rule winners_winner [OF w c Some])
    have "r_memory_id r \<noteq> None" using kind r(1,2) by blast
    then obtain j where j: "active_memory_id c = Some j" using r(3) by auto
    obtain w' x m0 where m0: "mem_view d j = Some m0" by (rule winners_active [OF w c j])
    let ?r = "r\<lparr>r_status := ''superseded''\<rparr>"
    let ?c0 = "c\<lparr>active_memory_id := None, winning_revision_id := None\<rparr>"
    have id: "r_id r = v" by (rule view_ids(3) [OF r(1)])
    have d1: "d1 = put_revision ?r d"
      using r(1) Some by (simp add: d1_def mark_existing_winner_superseded_def winning_revision_def rev_view_def)
    have R: "rev_view d1 = (rev_view d)(v := Some ?r)" unfolding d1 using view_put_revision [of d ?r] r(1) id by simp
    have "winners_ok ((mem_view d)(j := Some m0)) ((claim_view d)(c_id c := Some ?c0)) ((rev_view d)(v := Some ?r))"
      by (rule demote_ok [OF w rok r(1) _ r(2) c]) (use r j view_ids(1) [OF m0] in simp_all)
    moreover have "(mem_view d)(j := Some m0) = mem_view d" using m0 by auto
    ultimately have w1: "winners_ok (mem_view d) ((claim_view d)(c_id c := Some ?c0)) (rev_view d1)" by (simp add: R)
    have "idle_claim (rev_view d1) (c_id c)" by (rule idle_no_winner [OF w1, of _ ?c0]) simp_all
    moreover have "revisions_ok (rev_view d1)" unfolding R by (rule revisions_ok_update [OF rok r(1)]) simp_all
    moreover have "\<exists>r0. rev_view d u = Some r0 \<and> r_memory_id y = r_memory_id r0 \<and> r_claim_id y = r_claim_id r0"
      if "rev_view d1 u = Some y" for u y
      using that r(1) unfolding R by (cases "u = v") auto
    moreover have "rev_view d1 u = None" if "rev_view d u = None" for u using that r(1) unfolding R by auto
    ultimately show ?thesis using w1 by blast
  qed
qed

lemma add_claim_views:
  assumes "claim_view d (c_id c) = None"
  shows "claim_view (add_claim c d) = (claim_view d)(c_id c := Some c)"
    and "rev_view (add_claim c d) = rev_view d" and "mem_view (add_claim c d) = mem_view d"
    and "revisions (add_claim c d) = revisions d" and "next_id (add_claim c d) = Suc (next_id d)"
  using view_add_claim [OF assms] view_frames(1,3) [of "add_claim c d" d] by (simp_all add: add_claim_def)

lemma ready_activated:
  assumes "claim_view d (c_id c) = Some c" and "mem_view d (m_id m) = Some m" and "distinct (map r_id (revisions d))"
    and "revisions_ok (rev_view d)" and "rev_view d (next_id d) = None"
    and "\<And>w r. rev_view d w = Some r \<Longrightarrow> r_memory_id r \<noteq> Some (m_id m)"
    and "\<And>w r. rev_view d w = Some r \<Longrightarrow> r_claim_id r = c_id c \<Longrightarrow> r_memory_id r \<noteq> None"
    and "\<not> is_archived m" and "active_memory_id c = Some (m_id m)" and "idle_claim (rev_view d) (c_id c)"
    and "winners_ok (mem_view d) ((claim_view d)(c_id c := Some cz)) (rev_view d)"
  shows "assertion_ready m (''activated'', c, d)"
  unfolding assertion_ready_def prod.case using assms by (simp, blast)

lemma ready_other:
  assumes "claim_view d (c_id c) = Some c" and "mem_view d (m_id m) = Some m" and "distinct (map r_id (revisions d))"
    and "revisions_ok (rev_view d)" and "rev_view d (next_id d) = None"
    and "\<And>w r. rev_view d w = Some r \<Longrightarrow> r_memory_id r \<noteq> Some (m_id m)"
    and "\<And>w r. rev_view d w = Some r \<Longrightarrow> r_claim_id r = c_id c \<Longrightarrow> r_memory_id r \<noteq> None"
    and "st \<noteq> ''activated''" and "winners_ok (mem_view d) (claim_view d) (rev_view d)"
  shows "assertion_ready m (st, c, d)"
  unfolding assertion_ready_def prod.case using assms by simp

lemma assert_on_claim_id [simp]: "c_id (fst (snd (assert_on_claim inh a now m c d))) = c_id c"
  by (simp add: assert_on_claim_def winning_claim_def Let_def)

lemma assert_memory_ready:
  assumes inv: "ledger_inv d" and keys: "keys_ok d" and mv: "mem_view d (m_id m) = Some m"
    and own: "\<And>w r. rev_view d w = Some r \<Longrightarrow> r_memory_id r \<noteq> Some (m_id m)"
    and cl: "\<And>c. cl = Some c \<Longrightarrow> claim_view d (c_id c) = Some c"
    and kind: "\<And>w r. rev_view d w = Some r \<Longrightarrow> r_claim_id r = c_id (fst (snd (assert_memory t p inh a now m cl d))) \<Longrightarrow> r_memory_id r \<noteq> None"
  shows "assertion_ready m (assert_memory t p inh a now m cl d)"
proof -
  note dist = ledger_invD(1) [OF inv] and rok = ledger_invD(2) [OF inv] and w = ledger_invD(3) [OF inv]
  show ?thesis
  proof (cases cl)
    case None
    let ?c = "new_memory_claim t p a now m d"
    have id: "c_id ?c = next_id d" "winning_revision_id ?c = None"
      and act: "active_memory_id ?c = (if is_archived m then None else Some (m_id m))"
      by (simp_all add: new_memory_claim_def)
    have nocl: "claim_view d (c_id ?c) = None" using keys_fresh(1) [OF keys, of "next_id d"] id(1) by simp
    note V = add_claim_views [OF nocl]
    have freshr: "rev_view d (Suc (next_id d)) = None" by (rule keys_fresh(2) [OF keys]) simp
    have kind': "r_memory_id r \<noteq> None" if "rev_view d v = Some r" "r_claim_id r = c_id ?c" for v r
      using kind [OF that(1)] that(2) None by (simp add: assert_memory_def Let_def)
    show ?thesis
    proof (cases "is_archived m")
      case True
      then have "winners_ok (mem_view d) ((claim_view d)(c_id ?c := Some ?c)) (rev_view d)"
        using new_claim_ok [OF w nocl, of ?c] act id(2) by simp
      then have "assertion_ready m (''disputed'', ?c, add_claim ?c d)"
        by (intro ready_other) (use mv dist rok freshr own kind' in \<open>simp_all add: V\<close>)
      then show ?thesis using None True by (simp add: assert_memory_def Let_def)
    next
      case False
      let ?cz = "?c\<lparr>active_memory_id := None\<rparr>"
      have w0: "winners_ok (mem_view d) ((claim_view d)(c_id ?c := Some ?cz)) (rev_view d)"
        by (rule new_claim_ok [OF w nocl]) (use id(2) in simp_all)
      have idle: "idle_claim (rev_view d) (c_id ?c)" by (rule idle_no_winner [OF w0, of _ ?cz]) (use id(2) in simp_all)
      have "assertion_ready m (''activated'', ?c, add_claim ?c d)"
        by (rule ready_activated [of _ _ _ ?cz]) (use mv dist rok freshr own kind' act False idle w0 in \<open>simp_all add: V\<close>)
      then show ?thesis using None False by (simp add: assert_memory_def Let_def)
    qed
  next
    case (Some c)
    note cv = cl [OF Some]
    have step: "assert_memory t p inh a now m cl d = assert_on_claim inh a now m c d" by (simp add: assert_memory_def Some)
    have kind': "r_memory_id r \<noteq> None" if "rev_view d v = Some r" "r_claim_id r = c_id c" for v r
      using kind [OF that(1)] that(2) by (simp add: step)
    have freshr: "rev_view d (next_id d) = None" by (rule keys_fresh(2) [OF keys]) simp
    consider (over) "takes_over inh a m c" | (dispute) "\<not> takes_over inh a m c" "disputes a m c"
      | (keep) "\<not> takes_over inh a m c" "\<not> disputes a m c" by blast
    then show ?thesis
    proof cases
      case over
      let ?d1 = "mark_existing_winner_superseded c d" and ?c = "winning_claim a now m c"
      have S: "idle_claim (rev_view ?d1) (c_id c)" "revisions_ok (rev_view ?d1)"
          "\<exists>cz. winners_ok (mem_view d) ((claim_view d)(c_id c := Some cz)) (rev_view ?d1)"
          "\<forall>w r. rev_view ?d1 w = Some r \<longrightarrow> (\<exists>r0. rev_view d w = Some r0 \<and> r_memory_id r = r_memory_id r0 \<and> r_claim_id r = r_claim_id r0)"
          "\<forall>w. rev_view d w = None \<longrightarrow> rev_view ?d1 w = None"
        using mark_superseded_idle [OF inv cv] kind' by blast+
      obtain cz where cz: "winners_ok (mem_view d) ((claim_view d)(c_id c := Some cz)) (rev_view ?d1)" using S(3) by blast
      have id: "c_id ?c = c_id c" "active_memory_id ?c = Some (m_id m)" by (simp_all add: winning_claim_def)
      have C: "claim_view (put_claim ?c ?d1) = (claim_view d)(c_id c := Some ?c)"
        using view_put_claim [of ?d1 ?c] cv id(1) by simp
      have live: "\<not> is_archived m" using over by (simp add: takes_over_def)
      have own1: "r_memory_id r \<noteq> Some (m_id m)" if "rev_view ?d1 v = Some r" for v r using S(4) own that by metis
      have kind1: "r_memory_id r \<noteq> None" if "rev_view ?d1 v = Some r" "r_claim_id r = c_id c" for v r using S(4) kind' that by metis
      have "assertion_ready m (''activated'', ?c, put_claim ?c ?d1)"
      proof (rule ready_activated [of _ _ _ cz])
        show "r_memory_id r \<noteq> Some (m_id m)" if "rev_view (put_claim ?c ?d1) v = Some r" for v r using own1 that by simp
        show "r_memory_id r \<noteq> None" if "rev_view (put_claim ?c ?d1) v = Some r" "r_claim_id r = c_id ?c" for v r
          using kind1 that id(1) by simp
      qed (use S(1,2,5) mv dist freshr live cz id in \<open>simp_all add: C\<close>)
      then show ?thesis using over by (simp add: step assert_on_claim_def Let_def)
    next
      case dispute
      let ?c = "c\<lparr>c_status := ''disputed'', c_updated_at := now\<rparr>"
      have C: "claim_view (put_claim ?c d) = (claim_view d)(c_id c := Some ?c)" using view_put_claim [of d ?c] cv by simp
      have "winners_ok (mem_view d) ((claim_view d)(c_id c := Some ?c)) (rev_view d)"
        by (rule claim_fields_ok [OF w cv]) simp_all
      then have "assertion_ready m (''disputed'', ?c, put_claim ?c d)"
        by (intro ready_other) (use mv dist rok freshr own kind' in \<open>simp_all add: C\<close>)
      then show ?thesis using dispute by (simp add: step assert_on_claim_def Let_def)
    next
      case keep
      have "assertion_ready m (st, c, d)" if "st \<noteq> ''activated''" for st
        by (rule ready_other [OF cv mv dist rok freshr own kind' that w])
      then show ?thesis using keep by (simp add: step assert_on_claim_def Let_def)
    qed
  qed
qed

lemma claim_view_in: "keys_ok d \<Longrightarrow> c \<in> set (claims d) \<Longrightarrow> claim_view d (c_id c) = Some c"
  using claim_table.lookup_in [of "claims d" c]
  by (simp add: claim_view_def get_claim_def claim_table.lookup_def keys_ok_def)

lemma find_claim_Some:
  "find_claim t p f d = Some c \<Longrightarrow> c \<in> set (claims d) \<and> c_tenant_id c = t \<and> c_proxy_user_id c = p \<and> claim_fingerprint c = f"
  by (auto simp: find_claim_def dest: find_row_Some)

lemma find_claim_for_memory_view: "find_claim_for_memory i d = Some c \<Longrightarrow> claim_view d (c_id c) = Some c"
  using view_ids(2) [of d _ c] by (auto simp: find_claim_for_memory_def claim_view_def split: list.splits)

lemma target_claim_view:
  assumes "keys_ok d" and "target_claim t p ident resolution pred d = Some c"
  shows "claim_view d (c_id c) = Some c"
proof (cases "predecessor_claim resolution pred d")
  case None
  then have "find_claim t p (ci_fingerprint ident) d = Some c" using assms(2) by (simp add: target_claim_def)
  then show ?thesis using claim_view_in [OF assms(1)] find_claim_Some by blast
next
  case (Some c')
  then have "c' = c" using assms(2) by (simp add: target_claim_def)
  with Some show ?thesis
    using find_claim_for_memory_view by (auto simp: predecessor_claim_def split: option.splits if_splits)
qed

lemma add_memory_revision_id:
  "c_id (fst (add_memory_revision e prov resolution evidence a m x)) = c_id (fst (snd x))"
  by (simp add: add_memory_revision_def Let_def split: prod.splits)

text \<open>What a successful recording has done.\<close>

lemma record_memory_Some:
  assumes "record_memory_rows e (Some t) (Some p) prov resolution evidence pred now m d = Inr (cl, d')"
  obtains ident decl priority a c where
    "memory_identity e prov m = Inr (ident, decl)" "authority_priority prov (category_value (category m)) = Some priority"
    "a = \<lparr>as_identity = ident, as_declared = decl, as_priority = priority,
          as_observed_at = parse_observed_at e (dget prov ''observed_at'' PNone)\<rparr>"
    "cl = Some c"
    "add_memory_revision e prov resolution evidence a m
       (assert_memory t p (predecessor_claim resolution pred d \<noteq> None) a now m (target_claim t p ident resolution pred d) d) = (c, d')"
  using assms
  by (auto simp: record_memory_rows_def Let_def split: sum.splits prod.splits option.splits if_splits)

lemma record_memory_flushed:
  "record_memory e t p prov resolution evidence pred now m d = Inr (cl, d') \<Longrightarrow>
   record_memory_rows e t p prov resolution evidence pred now m d = Inr (cl, d')"
  by (auto simp: record_memory_def flushed_def split: sum.splits prod.splits option.splits if_splits)

lemma ledger_one_activated:
  assumes "ledger_inv d"
  shows "one_activated d"
proof -
  have same: "r = r'" if r: "r \<in> set (revisions d)" "r' \<in> set (revisions d)" "r_claim_id r = r_claim_id r'"
      "r_status r = ''activated''" "r_status r' = ''activated''" for r r'
  proof -
    note V = rev_view_in [OF ledger_invD(1) [OF assms]]
    obtain c where c: "claim_view d (r_claim_id r) = Some c" "winning_revision_id c = Some (r_id r)"
      by (rule winners_activated [OF ledger_invD(3) [OF assms] V [OF r(1)] r(4)])
    obtain c' where c': "claim_view d (r_claim_id r') = Some c'" "winning_revision_id c' = Some (r_id r')"
      by (rule winners_activated [OF ledger_invD(3) [OF assms] V [OF r(2)] r(5)])
    have "c = c'" using c(1) c'(1) r(3) by simp
    then have "r_id r = r_id r'" using c(2) c'(2) by simp
    then show ?thesis by (rule rev_view_same [OF V [OF r(1)] V [OF r(2)]])
  qed
  have "inj_on r_claim_id (set (filter (\<lambda>r. r_status r = ''activated'') (revisions d)))"
    using same unfolding inj_on_def by simp
  moreover have "distinct (revisions d)" using ledger_invD(1) [OF assms] by (simp only: distinct_map)
  ultimately show ?thesis by (simp add: one_activated_def distinct_map)
qed

lemma flushed_inv: "ledger_inv d \<Longrightarrow> flushed x d = Inr (x, d)"
  by (simp add: flushed_def ledger_one_activated)

subsection \<open>Manual resolution\<close>

lemma resolved_revision_fields [simp]:
  "r_id (resolved_revision selection sel rows reason r) = r_id r"
  "r_claim_id (resolved_revision selection sel rows reason r) = r_claim_id r"
  "r_memory_id (resolved_revision selection sel rows reason r) = r_memory_id r"
  "r_status (resolved_revision selection sel rows reason r) = desired_status selection sel rows r"
  by (simp_all add: resolved_revision_def)

lemma resolved_claim_id [simp]: "c_id (resolved_claim selection chosen now c) = c_id c"
  by (simp add: resolved_claim_def split: list.split)

lemma resolved_claim_winner:
  "winning_revision_id (resolved_claim selection chosen now c) = (case chosen of [w] \<Rightarrow> Some (r_id w) | _ \<Rightarrow> None)"
  "active_memory_id (resolved_claim selection chosen now c) = (case chosen of [w] \<Rightarrow> r_memory_id w | _ \<Rightarrow> None)"
  by (auto simp: resolved_claim_def split: list.split)

text \<open>At most one revision of a claim is promoted, because a memory has one revision.\<close>

lemma singleton_list:
  assumes "distinct xs" and "\<And>x. x \<in> set xs \<Longrightarrow> x = y" and "y \<in> set xs"
  shows "xs = [y]"
proof -
  have "set xs = {y}" using assms(2,3) by blast
  moreover from this have "length xs = 1" using distinct_card [OF assms(1)] by simp
  ultimately show ?thesis by (cases xs) auto
qed

lemma desired_activated:
  assumes "selected_memories a b selection = Some sel" and rok: "revisions_ok (rev_view d)"
    and dist: "distinct (map r_id (revisions d))"
    and rows: "rows = filter p (revisions d)"
    and act: "desired_status selection sel rows r = ''activated''"
  shows "selected_in sel (r_claim_id r) rows = [r]"
proof -
  let ?chosen = "selected_in sel (r_claim_id r) rows"
  have r: "r \<in> set ?chosen" and few: "\<not> (selection = ''both'' \<and> length ?chosen > 1)"
    using act by (auto simp: desired_status_def Let_def split: if_splits)
  have "distinct (revisions d)" using dist by (simp only: distinct_map)
  then have d: "distinct ?chosen" by (simp add: rows selected_in_def)
  show ?thesis
  proof (cases "selection = ''both''")
    case True
    then have "length ?chosen \<le> 1" using few by simp
    then show ?thesis using r by (cases ?chosen) auto
  next
    case False
    then have one: "i = j" if "i \<in> sel" "j \<in> sel" for i j
      using that assms(1) by (auto simp: selected_memories_def split: if_splits)
    show ?thesis
    proof (rule singleton_list [OF d _ r])
      fix x
      assume x: "x \<in> set ?chosen"
      obtain i j where "i \<in> sel" "r_memory_id r = Some i" "j \<in> sel" "r_memory_id x = Some j"
        using x r by (auto simp: selected_in_def)
      then have i: "r_memory_id r = Some i" "r_memory_id x = Some i" using one [of i j] by simp_all
      have V: "rev_view d (r_id x) = Some x" "rev_view d (r_id r) = Some r"
        using x r rev_view_in [OF dist] by (auto simp: selected_in_def rows)
      show "x = r" by (rule rev_view_same [OF V revisions_same [OF rok V i(2,1)]])
    qed
  qed
qed

lemma chosen_activated:
  assumes "selected_in sel k rows = [r]"
  shows "desired_status selection sel rows r = ''activated''" and "r_claim_id r = k" and "\<exists>i \<in> sel. r_memory_id r = Some i" and "r \<in> set rows"
proof -
  have r: "r \<in> set (selected_in sel k rows)" using assms by simp
  then show "r_claim_id r = k" "\<exists>i \<in> sel. r_memory_id r = Some i" "r \<in> set rows" by (auto simp: selected_in_def)
  then show "desired_status selection sel rows r = ''activated''" using assms by (simp add: desired_status_def Let_def)
qed

text \<open>
  The tables after a manual resolution. The memories may have changed at the two memories of
  the conflict since the tables agreed; the selected ones are unarchived.
\<close>

definition resolution_of :: "string \<Rightarrow> uuid set \<Rightarrow> uuid set \<Rightarrow> claim_revision list \<Rightarrow> string \<Rightarrow> claim_revision \<Rightarrow> claim_revision" where
  "resolution_of selection sel ks rows reason r = (if r_claim_id r \<in> ks then resolved_revision selection sel rows reason r else r)"

definition resolution_claim :: "string \<Rightarrow> uuid set \<Rightarrow> uuid set \<Rightarrow> claim_revision list \<Rightarrow> utc \<Rightarrow> memory_claim \<Rightarrow> memory_claim" where
  "resolution_claim selection sel ks rows now c =
     (if c_id c \<in> ks then resolved_claim selection (selected_in sel (c_id c) rows) now c else c)"

lemma resolution_of_fields [simp]:
  "r_memory_id (resolution_of selection sel ks rows reason r) = r_memory_id r"
  "r_claim_id (resolution_of selection sel ks rows reason r) = r_claim_id r"
  by (simp_all add: resolution_of_def)

lemma resolution_views:
  fixes d :: db and ks :: "uuid set"
  defines "rows \<equiv> filter (\<lambda>r. r_claim_id r \<in> ks) (revisions d)"
  shows "rev_view (resolved_tables selection sel ks reason now d) = (\<lambda>i. map_option (resolution_of selection sel ks rows reason) (rev_view d i))"
    and "claim_view (resolved_tables selection sel ks reason now d) = (\<lambda>k. map_option (resolution_claim selection sel ks rows now) (claim_view d k))"
    and "mem_view (resolved_tables selection sel ks reason now d) = mem_view d"
    and "map r_id (revisions (resolved_tables selection sel ks reason now d)) = map r_id (revisions d)"
proof -
  note u = rev_table.lookup_update_where [of "\<lambda>r. r_claim_id r \<in> ks" "resolved_revision selection sel rows reason" _ "revisions d"]
    claim_table.lookup_update_where [of "\<lambda>c. c_id c \<in> ks" "\<lambda>c. resolved_claim selection (selected_in sel (c_id c) rows) now c" _ "claims d"]
  note defs = resolved_tables_def Let_def rows_def [symmetric] fun_eq_iff
  show "rev_view (resolved_tables selection sel ks reason now d) = (\<lambda>i. map_option (resolution_of selection sel ks rows reason) (rev_view d i))"
    using u(1) by (simp add: defs rev_view_def get_revision_def rev_table.lookup_def resolution_of_def [abs_def])
  show "claim_view (resolved_tables selection sel ks reason now d) = (\<lambda>k. map_option (resolution_claim selection sel ks rows now) (claim_view d k))"
    using u(2) by (simp add: defs claim_view_def get_claim_def claim_table.lookup_def resolution_claim_def [abs_def])
  show "mem_view (resolved_tables selection sel ks reason now d) = mem_view d" by (rule view_frames) (simp add: resolved_tables_def Let_def)
  show "map r_id (revisions (resolved_tables selection sel ks reason now d)) = map r_id (revisions d)"
    by (simp add: resolved_tables_def Let_def table_simps)
qed

lemma resolution_winners_ok:
  assumes sel: "selected_memories a b selection = Some sel"
    and dist: "distinct (map r_id (revisions d))" and rok: "revisions_ok (rev_view d)"
    and ok: "winners_ok M (claim_view d) (rev_view d)"
    and frame: "\<And>i. i \<noteq> a \<Longrightarrow> i \<noteq> b \<Longrightarrow> M' i = M i"
    and live: "\<And>i. i \<in> sel \<Longrightarrow> \<exists>m. M' i = Some m \<and> \<not> is_archived m"
    and fk: "\<And>w r. rev_view d w = Some r \<Longrightarrow> claim_view d (r_claim_id r) \<noteq> None"
  defines "ks \<equiv> conflict_claims a b d"
  defines "rows \<equiv> filter (\<lambda>r. r_claim_id r \<in> ks) (revisions d)"
  shows "winners_ok M' (\<lambda>k. map_option (resolution_claim selection sel ks rows now) (claim_view d k))
    (\<lambda>i. map_option (resolution_of selection sel ks rows reason) (rev_view d i))"
    (is "winners_ok M' ?C ?R")
proof -
  let ?f = "resolution_of selection sel ks rows reason" and ?g = "resolution_claim selection sel ks rows now"
  have C_in: "c' = resolved_claim selection (selected_in sel k rows) now c" if "claim_view d k = Some c" "?g c = c'" "k \<in> ks" for k c c'
    using that view_ids(2) [OF that(1)] by (simp add: resolution_claim_def)
  have C_out: "?g c = c" if "claim_view d k = Some c" "k \<notin> ks" for k c
    using that view_ids(2) [OF that(1)] by (simp add: resolution_claim_def)
  have R_out: "?f r = r" if "r_claim_id r \<notin> ks" for r using that by (simp add: resolution_of_def)
  have A: "\<exists>c. ?C (r_claim_id x) = Some c \<and> winning_revision_id c = Some i" if x: "?R i = Some x" "r_status x = ''activated''" for i x
  proof -
    obtain r where r: "rev_view d i = Some r" "x = ?f r" using x(1) by auto
    have id: "r_id r = i" by (rule view_ids(3) [OF r(1)])
    show ?thesis
    proof (cases "r_claim_id r \<in> ks")
      case True
      have act: "desired_status selection sel rows r = ''activated''" using x(2) r(2) True by (simp add: resolution_of_def)
      have one: "selected_in sel (r_claim_id r) rows = [r]" by (rule desired_activated [OF sel rok dist rows_def [THEN meta_eq_to_obj_eq] act])
      obtain c where c: "claim_view d (r_claim_id r) = Some c" using fk [OF r(1)] by auto
      have "winning_revision_id (?g c) = Some i" using C_in [OF c refl True] one id by (simp add: resolved_claim_winner)
      then show ?thesis using c r(2) by simp
    next
      case False
      then have "x = r" using r(2) R_out by simp
      obtain c where c: "claim_view d (r_claim_id r) = Some c" "winning_revision_id c = Some i"
        by (rule winners_activated [OF ok r(1)]) (use x(2) \<open>x = r\<close> in simp)
      then show ?thesis using C_out [OF c(1) False] \<open>x = r\<close> by simp
    qed
  qed
  have one: "\<exists>r. selected_in sel k rows = [r] \<and> rev_view d (r_id r) = Some r \<and> winning_revision_id c' = Some (r_id r) \<and> active_memory_id c' = r_memory_id r"
    if c: "?C k = Some c'" "k \<in> ks" "winning_revision_id c' \<noteq> None \<or> active_memory_id c' \<noteq> None" for k c'
  proof -
    obtain c where c0: "claim_view d k = Some c" "?g c = c'" using c(1) by auto
    then obtain r where r: "selected_in sel k rows = [r]"
      using c(3) C_in [OF c0 c(2)] by (auto simp: resolved_claim_winner split: list.splits)
    have "r \<in> set (revisions d)" using chosen_activated(4) [OF r] by (simp add: rows_def)
    then show ?thesis using r rev_view_in [OF dist] C_in [OF c0 c(2)] by (simp add: resolved_claim_winner)
  qed
  have B: "\<exists>x. ?R w = Some x \<and> r_claim_id x = k \<and> r_memory_id x = active_memory_id c'"
    if c: "?C k = Some c'" "winning_revision_id c' = Some w" for k c' w
  proof (cases "k \<in> ks")
    case True
    then obtain r where "selected_in sel k rows = [r]" "rev_view d (r_id r) = Some r" "winning_revision_id c' = Some (r_id r)"
        "active_memory_id c' = r_memory_id r" using one [OF c(1)] c(2) by auto
    then show ?thesis using c(2) chosen_activated(2) [of sel k rows r] by auto
  next
    case False
    obtain c0 where c0: "claim_view d k = Some c0" "?g c0 = c'" using c(1) by auto
    then have "claim_view d k = Some c'" using C_out [OF _ False] by simp
    then obtain r where r: "rev_view d w = Some r" "r_claim_id r = k" "r_memory_id r = active_memory_id c'"
      by (rule winners_winner [OF ok _ c(2)])
    then show ?thesis using R_out False by simp
  qed
  have D: "\<exists>w x m. winning_revision_id c' = Some w \<and> ?R w = Some x \<and> M' i = Some m \<and> (r_status x = ''activated'' \<longleftrightarrow> \<not> is_archived m)"
    if c: "?C k = Some c'" "active_memory_id c' = Some i" for k c' i
  proof (cases "k \<in> ks")
    case True
    then obtain r where r: "selected_in sel k rows = [r]" "rev_view d (r_id r) = Some r" "winning_revision_id c' = Some (r_id r)"
        "active_memory_id c' = r_memory_id r" using one [OF c(1)] c(2) by auto
    note ch = chosen_activated [OF r(1)]
    have "i \<in> sel" using ch(3) r(4) c(2) by auto
    then obtain m where "M' i = Some m" "\<not> is_archived m" using live by blast
    then show ?thesis using r ch(1,2) True by (auto simp: resolution_of_def)
  next
    case False
    obtain c0 where c0: "claim_view d k = Some c0" "?g c0 = c'" using c(1) by auto
    then have c1: "claim_view d k = Some c'" using C_out [OF _ False] by simp
    obtain w r m where w: "winning_revision_id c' = Some w" "rev_view d w = Some r" "r_claim_id r = k" "r_memory_id r = Some i"
        "M i = Some m" "r_status r = ''activated'' \<longleftrightarrow> \<not> is_archived m"
      by (rule winners_active [OF ok c1 c(2)])
    have "i \<noteq> a \<and> i \<noteq> b" using False w(3,4) rev_view_mem [OF w(2)] by (auto simp: ks_def conflict_claims_def)
    then show ?thesis using w frame R_out False by simp
  qed
  show ?thesis unfolding winners_ok_def using A B D by blast
qed

text \<open>
  The summary: the tables of \<open>d0\<close> agree, and \<open>d\<close> differs from \<open>d0\<close> in the two memories only.
\<close>

lemma apply_conflict_selection_ok:
  assumes sel: "selected_memories a b selection = Some sel" and inv: "ledger_inv d0"
    and same: "claim_view d = claim_view d0" "rev_view d = rev_view d0" "revisions d = revisions d0"
    and frame: "\<And>i. i \<noteq> a \<Longrightarrow> i \<noteq> b \<Longrightarrow> mem_view d i = mem_view d0 i"
    and live: "\<And>i. i \<in> sel \<Longrightarrow> \<exists>m. mem_view d i = Some m \<and> \<not> is_archived m"
    and fk: "\<And>r. r \<in> set (revisions d0) \<Longrightarrow> get_claim (r_claim_id r) d0 \<noteq> None"
  shows "\<exists>d'. apply_conflict_selection a b selection reason now d = Inr ((), d') \<and> ledger_inv d'"
proof -
  let ?d = "resolved_tables selection sel (conflict_claims a b d) reason now d"
  note I = ledger_invD [OF inv]
  have fk': "claim_view d (r_claim_id r) \<noteq> None" if "rev_view d w = Some r" for w r
    using fk rev_view_mem [OF that] same by (simp add: claim_view_def [symmetric])
  have "winners_ok (mem_view d) (claim_view ?d) (rev_view ?d)"
    unfolding resolution_views
  proof (rule resolution_winners_ok [OF sel _ _ _ frame live fk'])
    show "distinct (map r_id (revisions d))" "revisions_ok (rev_view d)" "winners_ok (mem_view d0) (claim_view d) (rev_view d)"
      using I same by simp_all
  qed
  moreover have "revisions_ok (rev_view ?d)" unfolding resolution_views by (rule revisions_ok_map) (use I(2) same in simp_all)
  ultimately have "ledger_inv ?d" using I(1) same(3) by (simp add: ledger_inv_def resolution_views(3,4))
  then show ?thesis by (simp add: apply_conflict_selection_def sel flushed_inv)
qed

section \<open>Properties\<close>

text \<open>
  (C8) Recording a memory keeps the claim ledger consistent: if the tables agree, the memory is
  stored and has no revision yet, and the claim it is recorded on holds no domain fields, then
  the flush succeeds (no claim has two activated revisions), every activated revision is again
  the winner its claim names, and the memory a claim names has won and is unarchived exactly
  when its revision is activated. This covers every branch: a new claim, a take-over, an inherited claim, a dispute, a repeated
  assertion and an archived memory.
\<close>

theorem record_memory_keeps_ledger:
  assumes inv: "ledger_inv d" and keys: "keys_ok d" and mem: "get_memory (m_id m) d = Some m"
    and own: "\<forall>r \<in> set (revisions d). r_memory_id r \<noteq> Some (m_id m)"
    and run: "record_memory_rows e tenant proxy prov resolution evidence pred now m d = Inr (cl, d')"
    and kind: "\<forall>c. cl = Some c \<longrightarrow> (\<forall>r \<in> set (revisions d). r_claim_id r = c_id c \<longrightarrow> r_memory_id r \<noteq> None)"
  shows "record_memory e tenant proxy prov resolution evidence pred now m d = Inr (cl, d') \<and> ledger_inv d'"
proof (cases "tenant \<noteq> None \<and> proxy \<noteq> None")
  case False
  then have "d' = d" "cl = None" using run by (cases tenant; cases proxy; simp add: record_memory_rows_def)+
  then show ?thesis using inv run by (simp add: record_memory_def)
next
  case True
  then obtain t p where tp: "tenant = Some t" "proxy = Some p" by blast
  obtain ident decl priority a c where cl: "cl = Some c"
    and step: "add_memory_revision e prov resolution evidence a m
       (assert_memory t p (predecessor_claim resolution pred d \<noteq> None) a now m (target_claim t p ident resolution pred d) d) = (c, d')"
    by (rule record_memory_Some [OF run [unfolded tp]])
  let ?x = "assert_memory t p (predecessor_claim resolution pred d \<noteq> None) a now m (target_claim t p ident resolution pred d) d"
  have id: "c_id (fst (snd ?x)) = c_id c" using add_memory_revision_id [of e prov resolution evidence a m ?x] step by simp
  have "assertion_ready m ?x"
  proof (rule assert_memory_ready [OF inv keys])
    show "mem_view d (m_id m) = Some m" using mem by (simp add: mem_view_def)
    show "r_memory_id r \<noteq> Some (m_id m)" if "rev_view d w = Some r" for w r using own rev_view_mem [OF that] by blast
    show "claim_view d (c_id c2) = Some c2" if "target_claim t p ident resolution pred d = Some c2" for c2
      by (rule target_claim_view [OF keys that])
    show "r_memory_id r \<noteq> None" if "rev_view d w = Some r" "r_claim_id r = c_id (fst (snd ?x))" for w r
      using kind cl rev_view_mem [OF that(1)] that(2) id by simp
  qed
  then have "ledger_inv (snd (add_memory_revision e prov resolution evidence a m ?x))"
    using add_memory_revision_inv by (metis prod.collapse)
  then have "ledger_inv d'" by (simp only: step snd_conv)
  then show ?thesis using run cl by (simp add: record_memory_def flushed_inv)
qed


text \<open>
  A claim stored with the lowest authority, 0, is compared as if it had the default
  authority 50: an incoming assertion of any authority from 1 to 49, higher than the claim's,
  does not win against it.
\<close>

theorem zero_authority_reads_as_default:
  assumes "c_authority_priority c = 0" and "0 < priority" and "priority < 50"
  shows "\<not> incoming_wins c priority confidence observed"
  using assms by (auto simp: incoming_wins_def int_or_def Let_def)

section \<open>Witnesses\<close>

text \<open>The example ledger with a third memory that is not yet recorded, and a low authority.\<close>

definition example_assertion :: memory where
  "example_assertion = example_memory\<lparr>m_id := 3\<rparr>"

definition example_unrecorded :: db where
  "example_unrecorded = example_ledger\<lparr>memories := memories example_ledger @ [example_assertion]\<rparr>"

definition example_env :: ledger_env where
  "example_env =
     \<lparr>digest = (\<lambda>_. ''f''), str_of = (\<lambda>_. []), from_isoformat = (\<lambda>_. None), uuid_of = (\<lambda>_. None), declared = (\<lambda>_. Inr None)\<rparr>"

definition low_authority :: scope where
  "low_authority = [(''authority_rules'', PDict [(''default_priority'', PInt 10)])]"

lemmas example_unrecorded_defs = example_unrecorded_def example_ledger_def example_assertion_def example_db_def example_memory_def
  example_claim_def example_revision_def

lemma example_unrecorded_views:
  "mem_view example_unrecorded = (mem_view example_ledger)(3 := Some example_assertion)"
  "claim_view example_unrecorded = claim_view example_ledger" "rev_view example_unrecorded = rev_view example_ledger"
proof -
  show "mem_view example_unrecorded = (mem_view example_ledger)(3 := Some example_assertion)"
    by (auto simp: fun_eq_iff mem_view_def get_memory_def find_row_def example_unrecorded_defs)
  show "claim_view example_unrecorded = claim_view example_ledger" "rev_view example_unrecorded = rev_view example_ledger"
    by (rule view_frames; simp add: example_unrecorded_def)+
qed

lemma example_unrecorded_inv: "ledger_inv example_unrecorded" "keys_ok example_unrecorded"
proof -
  have "active_memory_id c \<noteq> Some 3" if "claim_view example_ledger k = Some c" for k c
    using that by (auto simp: example_views example_claim_def split: if_splits)
  then have "winners_ok ((mem_view example_ledger)(3 := Some example_assertion)) (claim_view example_ledger) (rev_view example_ledger)"
    by (rule unclaimed_ok [OF ledger_invD(3) [OF example_ledger_inv]])
  moreover have "revisions example_unrecorded = revisions example_ledger" by (simp add: example_unrecorded_def)
  ultimately show "ledger_inv example_unrecorded"
    using ledger_invD(1,2) [OF example_ledger_inv] by (simp add: ledger_inv_def example_unrecorded_views)
  show "keys_ok example_unrecorded" by (simp add: keys_ok_def example_unrecorded_defs)
qed

lemma example_identity: "memory_identity example_env low_authority example_assertion = Inr
    (\<lparr>ci_fingerprint = ''f'', ci_subject_key = generic_claim_subject, ci_predicate_key = ''likes tea'', ci_value = ''likes tea'', ci_scope = []\<rparr>, False)"
  by (simp add: memory_identity_def example_env_def low_authority_def build_claim_identity_def py_dict_def example_assertion_def
      example_memory_def py_strip_def is_space_def Let_def)

lemma example_authority: "authority_priority low_authority (category_value (category example_assertion)) = Some 10"
  by (simp add: authority_priority_def low_authority_def py_dict_def clamp_priority_def)

lemma example_found: "find_claim 90 80 ''f'' example_unrecorded = Some example_claim"
  by (simp add: find_claim_def find_row_def example_unrecorded_defs)

lemma example_rows:
  "\<exists>c d'. record_memory_rows example_env (Some 90) (Some 80) low_authority ''CREATE'' [] None 7 example_assertion example_unrecorded = Inr (Some c, d')"
proof -
  have "target_claim 90 80 \<lparr>ci_fingerprint = ''f'', ci_subject_key = generic_claim_subject, ci_predicate_key = ''likes tea'', ci_value = ''likes tea'', ci_scope = []\<rparr>
      ''CREATE'' None example_unrecorded = Some example_claim"
    by (simp add: target_claim_def predecessor_claim_def example_found)
  then show ?thesis
    by (simp add: record_memory_rows_def example_identity example_authority predecessor_error_def predecessor_claim_def scope_mismatch_def
        example_claim_def normalize_generic_scope_def Let_def split: prod.split)
qed

theorem record_memory_keeps_ledger_witness:
  "\<exists>cl d'. record_memory example_env (Some 90) (Some 80) low_authority ''CREATE'' [] None 7 example_assertion example_unrecorded = Inr (cl, d') \<and> ledger_inv d'"
proof -
  obtain c d' where rows: "record_memory_rows example_env (Some 90) (Some 80) low_authority ''CREATE'' [] None 7 example_assertion example_unrecorded = Inr (Some c, d')"
    using example_rows by blast
  have m: "get_memory (m_id example_assertion) example_unrecorded = Some example_assertion"
    by (simp add: get_memory_def find_row_def example_unrecorded_defs)
  have r: "\<forall>r \<in> set (revisions example_unrecorded). r_memory_id r \<noteq> Some (m_id example_assertion)"
    by (simp add: example_unrecorded_defs)
  have k: "\<forall>c2. Some c = Some c2 \<longrightarrow> (\<forall>r \<in> set (revisions example_unrecorded). r_claim_id r = c_id c2 \<longrightarrow> r_memory_id r \<noteq> None)"
    by (simp add: example_unrecorded_defs)
  show ?thesis using record_memory_keeps_ledger [OF example_unrecorded_inv m r rows k] by blast
qed


theorem zero_authority_reads_as_default_witness:
  "\<not> incoming_wins (example_claim\<lparr>c_authority_priority := 0\<rparr>) 40 1 None"
  by (rule zero_authority_reads_as_default) simp_all

end
