(* ===== verification/Providers.thy ===== *)
theory Providers
  imports Storage "HOL-Library.List_Lexorder" "HOL-Library.Char_ord"
begin

text \<open>
  The providers of embeddings and extractions: \<open>src/api/infra/llm_router.py\<close>, which chooses a
  provider for a tenant, and \<open>src/api/services/embedding_service.py\<close>, which keeps the registry of
  embedding models.

  Both cache in Redis and treat every failing command as a miss. The cache is a table of entries
  with their expiry; \<open>faults n\<close> says that the command number \<open>n\<close> raises. A provider is what its
  factory gives: the factories, the breaker states, the settings of the environment and \<open>str\<close> of a
  cached value that is not a string are the fields of \<open>router_env\<close>.
\<close>

section \<open>The cache\<close>

record redis =
  entries :: "(string \<times> pyval \<times> utc) list"
  faults :: "nat \<Rightarrow> bool"
  commands :: nat

definition command_ok :: "redis \<Rightarrow> bool \<times> redis" where
  "command_ok r = (\<not> faults r (commands r), r\<lparr>commands := Suc (commands r)\<rparr>)"

definition live_entry :: "string \<Rightarrow> utc \<Rightarrow> redis \<Rightarrow> pyval option" where
  "live_entry k now r =
     (case map_of (entries r) k of None \<Rightarrow> None | Some (v, until) \<Rightarrow> if now < until then Some v else None)"

definition get_cached :: "string \<Rightarrow> utc \<Rightarrow> redis option \<Rightarrow> pyval option \<times> redis option" where
  "get_cached k now r =
     (case r of
        None \<Rightarrow> (None, None)
      | Some r \<Rightarrow> (case command_ok r of (ok, r') \<Rightarrow> (if ok then live_entry k now r else None, Some r')))"

definition set_cached :: "string \<Rightarrow> pyval \<Rightarrow> int \<Rightarrow> utc \<Rightarrow> redis option \<Rightarrow> redis option" where
  "set_cached k v ttl now r =
     (case r of
        None \<Rightarrow> None
      | Some r \<Rightarrow>
          (case command_ok r of
             (ok, r') \<Rightarrow> Some (if ok then r'\<lparr>entries := AList.update k (v, now + ttl * 1000000) (entries r)\<rparr> else r')))"

definition delete_cached :: "string \<Rightarrow> redis option \<Rightarrow> redis option" where
  "delete_cached k r =
     (case r of
        None \<Rightarrow> None
      | Some r \<Rightarrow> (case command_ok r of (ok, r') \<Rightarrow> Some (if ok then r'\<lparr>entries := AList.delete k (entries r)\<rparr> else r')))"

section \<open>Choosing a provider\<close>

record provider =
  provider_name :: string
  supports_embeddings :: bool
  supports_extraction :: bool
  is_available :: bool

record provider_config =
  embed_provider_primary :: string
  embed_provider_fallback :: string
  extract_provider_primary :: string
  extract_provider_fallback :: string

record config_row =
  cr_tenant_id :: "uuid option"
  cr_config :: provider_config

record router_env =
  factory :: "string \<Rightarrow> provider option"
  gemini_embed_open :: bool
  gemini_extract_open :: bool
  embedding_provider_setting :: string
  llm_provider_order :: string
  re_str :: "pyval \<Rightarrow> string"
  tenant_key :: "uuid option \<Rightarrow> string"
  re_now :: utc

datatype capability = Embed | Extract

datatype router_error = UnsupportedProvider string | ProviderUnavailable capability | MalformedConfig

definition default_config :: provider_config where
  "default_config =
     \<lparr>embed_provider_primary = ''openai'', embed_provider_fallback = [], extract_provider_primary = ''openai'',
      extract_provider_fallback = []\<rparr>"

fun split_commas :: "string \<Rightarrow> string list" where
  "split_commas [] = [[]]"
| "split_commas (c # cs) =
     (case split_commas cs of
        [] \<Rightarrow> [[c]]
      | w # ws \<Rightarrow> if c = CHR '','' then [] # w # ws else (c # w) # ws)"

definition env_provider_config :: "router_env \<Rightarrow> provider_config option" where
  "env_provider_config e =
     (let emb = py_lower (py_strip (embedding_provider_setting e));
          order = map (\<lambda>n. py_lower (py_strip n)) (filter (\<lambda>n. py_strip n \<noteq> []) (split_commas (py_strip (llm_provider_order e))));
          ext = (case order of [] \<Rightarrow> [] | n # _ \<Rightarrow> n)
      in if emb = [] \<and> ext = [] then None
         else Some \<lparr>embed_provider_primary = (if emb = [] then ''openai'' else emb), embed_provider_fallback = [],
                    extract_provider_primary = (if ext = [] then ''openai'' else ext), extract_provider_fallback = []\<rparr>)"

text \<open>The row of the tenant, or the one without a tenant; \<open>rows\<close> is \<open>None\<close> without a session.\<close>

definition load_provider_config :: "config_row list option \<Rightarrow> uuid option \<Rightarrow> provider_config" where
  "load_provider_config rows tenant =
     (case rows of
        None \<Rightarrow> default_config
      | Some rs \<Rightarrow>
          (let own = (case tenant of None \<Rightarrow> None | Some t \<Rightarrow> find_row (\<lambda>r. cr_tenant_id r = Some t) rs);
               row = (case own of None \<Rightarrow> find_row (\<lambda>r. cr_tenant_id r = None) rs | Some r \<Rightarrow> Some r)
           in case row of None \<Rightarrow> default_config | Some r \<Rightarrow> cr_config r))"

definition config_dict :: "provider_config \<Rightarrow> (string \<times> pyval) list" where
  "config_dict c =
     [(''embed_provider_primary'', PStr (embed_provider_primary c)), (''embed_provider_fallback'', PStr (embed_provider_fallback c)),
      (''extract_provider_primary'', PStr (extract_provider_primary c)), (''extract_provider_fallback'', PStr (extract_provider_fallback c))]"

text \<open>\<open>ProviderConfigRecord(**cached)\<close>: a value of another shape or with other keys raises.\<close>

definition config_text :: "router_env \<Rightarrow> pyval \<Rightarrow> string" where
  "config_text e v = (case v of PStr s \<Rightarrow> s | _ \<Rightarrow> if truthy v then re_str e v else [])"

definition config_from_cache :: "router_env \<Rightarrow> pyval \<Rightarrow> provider_config option" where
  "config_from_cache e v =
     (case v of
        PDict d \<Rightarrow>
          if set (map fst d) \<subseteq> set (map fst (config_dict default_config))
          then Some \<lparr>embed_provider_primary = config_text e (dget d ''embed_provider_primary'' (PStr ''openai'')),
                     embed_provider_fallback = config_text e (dget d ''embed_provider_fallback'' (PStr [])),
                     extract_provider_primary = config_text e (dget d ''extract_provider_primary'' (PStr ''openai'')),
                     extract_provider_fallback = config_text e (dget d ''extract_provider_fallback'' (PStr []))\<rparr>
          else None
      | _ \<Rightarrow> None)"

definition config_cache_ttl :: int where
  "config_cache_ttl = 300"

definition health_cache_ttl :: int where
  "health_cache_ttl = 60"

text \<open>A stored entry that is empty or \<open>null\<close> is a miss.\<close>

definition read_provider_config ::
  "router_env \<Rightarrow> config_row list option \<Rightarrow> uuid option \<Rightarrow> redis option \<Rightarrow> (router_error + provider_config) \<times> redis option" where
  "read_provider_config e rows tenant r =
     (case env_provider_config e of
        Some c \<Rightarrow> (Inr c, r)
      | None \<Rightarrow>
          (case get_cached (tenant_key e tenant) (re_now e) r of
             (hit, r1) \<Rightarrow>
               (case hit of
                  Some v \<Rightarrow>
                    if v = PNone
                    then (let c = load_provider_config rows tenant
                          in (Inr c, set_cached (tenant_key e tenant) (PDict (config_dict c)) config_cache_ttl (re_now e) r1))
                    else ((case config_from_cache e v of None \<Rightarrow> Inl MalformedConfig | Some c \<Rightarrow> Inr c), r1)
                | None \<Rightarrow>
                    (let c = load_provider_config rows tenant
                     in (Inr c, set_cached (tenant_key e tenant) (PDict (config_dict c)) config_cache_ttl (re_now e) r1)))))"

definition breaker_open :: "router_env \<Rightarrow> capability \<Rightarrow> string \<Rightarrow> bool" where
  "breaker_open e cap name =
     (name = ''gemini'' \<and> (case cap of Embed \<Rightarrow> gemini_embed_open e | Extract \<Rightarrow> gemini_extract_open e))"

definition health_key :: "capability \<Rightarrow> string \<Rightarrow> string" where
  "health_key cap name =
     ''llm_provider_health:'' @ (case cap of Embed \<Rightarrow> ''embed'' | Extract \<Rightarrow> ''extract'') @ '':'' @ name"

definition healthy :: "pyval option \<Rightarrow> bool" where
  "healthy v = (case v of Some (PDict d) \<Rightarrow> dget d ''available'' PNone = PBool True | _ \<Rightarrow> False)"

definition provider_available :: "router_env \<Rightarrow> capability \<Rightarrow> provider \<Rightarrow> redis option \<Rightarrow> bool \<times> redis option" where
  "provider_available e cap p r =
     (if breaker_open e cap (provider_name p) then (False, r)
      else
        (let k = health_key cap (provider_name p)
         in case get_cached k (re_now e) r of
              (hit, r1) \<Rightarrow>
                if healthy hit then (True, r1)
                else if is_available p
                then (True, set_cached k (PDict [(''available'', PBool True)]) health_cache_ttl (re_now e) r1)
                else (False, delete_cached k r1)))"

fun dedupe_names :: "string list \<Rightarrow> string list \<Rightarrow> string list" where
  "dedupe_names acc [] = rev acc"
| "dedupe_names acc (n # ns) =
     (let m = py_lower (py_strip n) in dedupe_names (if m = [] \<or> m \<in> set acc then acc else m # acc) ns)"

definition supports :: "capability \<Rightarrow> provider \<Rightarrow> bool" where
  "supports cap p = (case cap of Embed \<Rightarrow> supports_embeddings p | Extract \<Rightarrow> supports_extraction p)"

fun first_available ::
  "router_env \<Rightarrow> capability \<Rightarrow> string list \<Rightarrow> redis option \<Rightarrow> (router_error + provider) \<times> redis option" where
  "first_available e cap [] r = (Inl (ProviderUnavailable cap), r)"
| "first_available e cap (n # ns) r =
     (case factory e n of
        None \<Rightarrow> (Inl (UnsupportedProvider n), r)
      | Some p \<Rightarrow>
          if \<not> supports cap p then first_available e cap ns r
          else
            (case provider_available e cap p r of
               (ok, r1) \<Rightarrow> if ok then (Inr p, r1) else first_available e cap ns r1))"

definition configured_names :: "capability \<Rightarrow> provider_config \<Rightarrow> string list" where
  "configured_names cap c =
     dedupe_names [] (case cap of
       Embed \<Rightarrow> [embed_provider_primary c, embed_provider_fallback c]
     | Extract \<Rightarrow> [extract_provider_primary c, extract_provider_fallback c])"

text \<open>\<open>get_embed_provider\<close> and \<open>get_extract_provider\<close>.\<close>

definition get_provider_for ::
  "router_env \<Rightarrow> capability \<Rightarrow> config_row list option \<Rightarrow> uuid option \<Rightarrow> redis option \<Rightarrow> (router_error + provider) \<times> redis option" where
  "get_provider_for e cap rows tenant r =
     (case read_provider_config e rows tenant r of
        (Inl x, r1) \<Rightarrow> (Inl x, r1)
      | (Inr c, r1) \<Rightarrow> first_available e cap (configured_names cap c) r1)"

section \<open>The registry of embedding models\<close>

record embedding_model =
  em_id :: string
  em_provider :: string
  em_model_name :: string
  em_dimensions :: int
  em_collection :: string
  em_active :: bool
  em_deprecated_at :: "utc option"
  em_created_at :: utc

datatype embedding_error = ModelNotFound string | BothModelAndRecord | NeedsSession | UnknownProvider string | EmbeddingUnavailable string

text \<open>
  The state of the service: the rows, \<open>None\<close> without a session, and the cached active model with its
  expiry; \<open>up\<close> tells whether Redis answers.
\<close>

record registry =
  model_rows :: "embedding_model list option"
  active_cache :: "(embedding_model \<times> utc) option"
  redis_up :: bool

definition active_model_cache_ttl :: int where
  "active_model_cache_ttl = 300"

definition cache_active_model :: "utc \<Rightarrow> embedding_model \<Rightarrow> registry \<Rightarrow> registry" where
  "cache_active_model now m g = (if redis_up g then g\<lparr>active_cache := Some (m, now + active_model_cache_ttl * 1000000)\<rparr> else g)"

definition cached_active_model :: "utc \<Rightarrow> registry \<Rightarrow> embedding_model option" where
  "cached_active_model now g =
     (if redis_up g then case active_cache g of None \<Rightarrow> None | Some (m, until) \<Rightarrow> if now < until then Some m else None else None)"

definition get_active_model :: "embedding_model \<Rightarrow> utc \<Rightarrow> registry \<Rightarrow> embedding_model \<times> registry" where
  "get_active_model dflt now g =
     (case model_rows g of
        None \<Rightarrow> (case cached_active_model now g of None \<Rightarrow> (dflt, g) | Some m \<Rightarrow> (m, g))
      | Some rows \<Rightarrow>
          (case find_row em_active rows of
             None \<Rightarrow> (dflt, g)
           | Some m \<Rightarrow> (m, cache_active_model now m g)))"

definition get_model :: "embedding_model \<Rightarrow> string \<Rightarrow> registry \<Rightarrow> embedding_error + embedding_model" where
  "get_model dflt i g =
     (case model_rows g of
        None \<Rightarrow> if i \<noteq> em_id dflt then Inl (ModelNotFound i) else Inr dflt
      | Some rows \<Rightarrow> (case find_row (\<lambda>m. em_id m = i) rows of None \<Rightarrow> Inl (ModelNotFound i) | Some m \<Rightarrow> Inr m))"

definition list_models :: "embedding_model \<Rightarrow> registry \<Rightarrow> embedding_model list" where
  "list_models dflt g =
     (case model_rows g of None \<Rightarrow> [dflt] | Some rows \<Rightarrow> sort_key em_created_at (sort_key em_id rows))"

definition deactivate_others :: "utc \<Rightarrow> string \<Rightarrow> embedding_model list \<Rightarrow> embedding_model list" where
  "deactivate_others now i rows =
     update_where (\<lambda>m. em_active m \<and> em_id m \<noteq> i) (\<lambda>m. m\<lparr>em_active := False, em_deprecated_at := Some now\<rparr>) rows"

definition activate_row :: "string \<Rightarrow> embedding_model list \<Rightarrow> embedding_model list" where
  "activate_row i rows = update_where (\<lambda>m. em_id m = i) (\<lambda>m. m\<lparr>em_active := True, em_deprecated_at := None\<rparr>) rows"

text \<open>
  The answer and the cached record are the row read before the update, marked active: its time of
  deprecation is the old one.
\<close>

definition set_active_model ::
  "embedding_model \<Rightarrow> utc \<Rightarrow> string \<Rightarrow> registry \<Rightarrow> embedding_error + (embedding_model \<times> registry)" where
  "set_active_model dflt now i g =
     (case model_rows g of
        None \<Rightarrow> Inl NeedsSession
      | Some rows \<Rightarrow>
          (case get_model dflt i g of
             Inl x \<Rightarrow> Inl x
           | Inr target \<Rightarrow>
               (let answer = target\<lparr>em_active := True\<rparr>;
                    g1 = g\<lparr>model_rows := Some (activate_row i (deactivate_others now i rows))\<rparr>;
                    g2 = (if redis_up g then g1\<lparr>active_cache := None\<rparr> else g1)
                in Inr (answer, cache_active_model now answer g2))))"

definition embedding_providers :: "string list" where
  "embedding_providers = [''gemini'', ''openai'', ''local'']"

text \<open>
  Embedding a text: \<open>backend\<close> is the provider's answer for a model and a text, \<open>None\<close> when the
  provider is not available.
\<close>

definition embed_with_model ::
  "(embedding_model \<Rightarrow> string \<Rightarrow> pyfloat list option) \<Rightarrow> string \<Rightarrow> embedding_model \<Rightarrow> embedding_error + pyfloat list" where
  "embed_with_model backend text m =
     (if em_provider m \<notin> set embedding_providers then Inl (UnknownProvider (em_provider m))
      else case backend m text of None \<Rightarrow> Inl (EmbeddingUnavailable (em_provider m)) | Some v \<Rightarrow> Inr v)"

record embedding_result =
  er_vector :: "pyfloat list"
  er_model_id :: string
  er_dimensions :: int
  er_collection :: string

definition embed_text ::
  "embedding_model \<Rightarrow> (embedding_model \<Rightarrow> string \<Rightarrow> pyfloat list option) \<Rightarrow> utc \<Rightarrow> string \<Rightarrow> string option \<Rightarrow> embedding_model option \<Rightarrow>
     registry \<Rightarrow> (embedding_error + embedding_result) \<times> registry" where
  "embed_text dflt backend now text model_id detached g =
     (if detached \<noteq> None \<and> model_id \<noteq> None then (Inl BothModelAndRecord, g)
      else
        (let (found, g1) =
           (case detached of
              Some m \<Rightarrow> (Inr m, g)
            | None \<Rightarrow>
                (case model_id of
                   Some i \<Rightarrow> if i \<noteq> [] then (get_model dflt i g, g)
                             else (case get_active_model dflt now g of (m, g') \<Rightarrow> (Inr m, g'))
                 | None \<Rightarrow> (case get_active_model dflt now g of (m, g') \<Rightarrow> (Inr m, g'))))
         in case found of
              Inl x \<Rightarrow> (Inl x, g1)
            | Inr m \<Rightarrow>
                ((case embed_with_model backend text m of
                    Inl x \<Rightarrow> Inl x
                  | Inr v \<Rightarrow> Inr \<lparr>er_vector = v, er_model_id = em_id m, er_dimensions = em_dimensions m, er_collection = em_collection m\<rparr>),
                 g1)))"

section \<open>Lemmas\<close>

text \<open>
  The reference for the choice of a provider: the first configured one that supports the
  capability, whose circuit is not open and which answers.
\<close>

definition usable :: "router_env \<Rightarrow> capability \<Rightarrow> provider \<Rightarrow> bool" where
  "usable e cap p \<longleftrightarrow> supports cap p \<and> \<not> breaker_open e cap (provider_name p) \<and> is_available p"

fun reference_choice :: "router_env \<Rightarrow> capability \<Rightarrow> string list \<Rightarrow> router_error + provider" where
  "reference_choice e cap [] = Inl (ProviderUnavailable cap)"
| "reference_choice e cap (n # ns) =
     (case factory e n of
        None \<Rightarrow> Inl (UnsupportedProvider n)
      | Some p \<Rightarrow> if usable e cap p then Inr p else reference_choice e cap ns)"

text \<open>What a reader would find, if its command succeeded.\<close>

definition stored_value :: "string \<Rightarrow> utc \<Rightarrow> redis option \<Rightarrow> pyval option" where
  "stored_value k now r = (case r of None \<Rightarrow> None | Some s \<Rightarrow> live_entry k now s)"

lemma live_entry_commands [simp]: "live_entry k now (s\<lparr>commands := n\<rparr>) = live_entry k now s"
  by (simp add: live_entry_def)

lemma stored_value_get:
  assumes "get_cached k now r = (v, r')"
  shows "stored_value j t r' = stored_value j t r" and "v = None \<or> v = stored_value k now r"
  using assms by (auto simp: get_cached_def stored_value_def command_ok_def split: option.splits)

lemma stored_value_set: "j \<noteq> k \<Longrightarrow> stored_value j t (set_cached k v ttl now r) = stored_value j t r"
  by (simp add: set_cached_def stored_value_def command_ok_def live_entry_def update_conv' split: option.split)

lemma stored_value_delete: "stored_value j t (delete_cached k r) = None \<or> stored_value j t (delete_cached k r) = stored_value j t r"
  by (simp add: delete_cached_def stored_value_def command_ok_def live_entry_def delete_conv' split: option.split)

lemma healthy_None [simp]: "\<not> healthy None"
  by (simp add: healthy_def)

text \<open>A cache is sound for the health of the providers when a live positive entry is true.\<close>

definition health_sound :: "router_env \<Rightarrow> capability \<Rightarrow> redis option \<Rightarrow> bool" where
  "health_sound e cap r \<longleftrightarrow>
     (\<forall>n p. factory e n = Some p \<longrightarrow> healthy (stored_value (health_key cap (provider_name p)) (re_now e) r) \<longrightarrow> is_available p)"

lemma health_key_inj: "health_key cap a = health_key cap b \<longleftrightarrow> a = b"
  by (simp add: health_key_def)

lemma health_sound_get: "health_sound e cap r \<Longrightarrow> get_cached k now r = (v, r') \<Longrightarrow> health_sound e cap r'"
  by (simp add: health_sound_def stored_value_get(1))

lemma health_sound_set:
  assumes "health_sound e cap r" and same: "\<And>n q. factory e n = Some q \<Longrightarrow> provider_name q = provider_name p \<Longrightarrow> is_available q"
  shows "health_sound e cap (set_cached (health_key cap (provider_name p)) v ttl now r)"
  unfolding health_sound_def
proof (intro allI impI)
  fix n q
  assume q: "factory e n = Some q" "healthy (stored_value (health_key cap (provider_name q)) (re_now e) (set_cached (health_key cap (provider_name p)) v ttl now r))"
  show "is_available q"
  proof (cases "provider_name q = provider_name p")
    case False
    then have "healthy (stored_value (health_key cap (provider_name q)) (re_now e) r)"
      using q(2) stored_value_set [of "health_key cap (provider_name q)" "health_key cap (provider_name p)"] by (simp add: health_key_inj)
    then show ?thesis using assms(1) q(1) unfolding health_sound_def by blast
  qed (rule same [OF q(1)])
qed

lemma health_sound_delete:
  assumes "health_sound e cap r"
  shows "health_sound e cap (delete_cached k r)"
  unfolding health_sound_def
proof (intro allI impI)
  fix n q
  assume q: "factory e n = Some q" "healthy (stored_value (health_key cap (provider_name q)) (re_now e) (delete_cached k r))"
  then have "healthy (stored_value (health_key cap (provider_name q)) (re_now e) r)"
    using stored_value_delete [of "health_key cap (provider_name q)" "re_now e" k r] by auto
  then show "is_available q" using assms q(1) unfolding health_sound_def by blast
qed

lemma provider_available_correct:
  assumes sound: "health_sound e cap r" and p: "factory e n = Some p"
    and same: "\<And>n q. factory e n = Some q \<Longrightarrow> provider_name q = provider_name p \<Longrightarrow> is_available q = is_available p"
    and run: "provider_available e cap p r = (ok, r')"
  shows "ok = (\<not> breaker_open e cap (provider_name p) \<and> is_available p) \<and> health_sound e cap r'"
proof (cases "breaker_open e cap (provider_name p)")
  case True
  then show ?thesis using run sound by (simp add: provider_available_def)
next
  case False
  obtain hit r1 where g: "get_cached (health_key cap (provider_name p)) (re_now e) r = (hit, r1)" by fastforce
  have s1: "health_sound e cap r1" by (rule health_sound_get [OF sound g])
  have hit: "is_available p" if "healthy hit"
  proof -
    have "healthy (stored_value (health_key cap (provider_name p)) (re_now e) r)" using stored_value_get(2) [OF g] that by auto
    then show ?thesis using sound p unfolding health_sound_def by blast
  qed
  show ?thesis
  proof (cases "is_available p")
    case True
    then have "health_sound e cap (set_cached (health_key cap (provider_name p)) v ttl now r1)" for v ttl now
      using health_sound_set [OF s1] same by blast
    then show ?thesis using run False g True s1 by (auto simp: provider_available_def Let_def split: if_splits)
  next
    case na: False
    then have "\<not> healthy hit" using hit by blast
    then show ?thesis using run False g na health_sound_delete [OF s1] by (auto simp: provider_available_def Let_def)
  qed
qed

lemma first_available_correct:
  assumes "health_sound e cap r"
    and same: "\<And>m n p q. factory e m = Some p \<Longrightarrow> factory e n = Some q \<Longrightarrow> provider_name q = provider_name p \<Longrightarrow> is_available q = is_available p"
  shows "fst (first_available e cap ns r) = reference_choice e cap ns"
  using assms(1)
proof (induction ns arbitrary: r)
  case (Cons n ns)
  show ?case
  proof (cases "factory e n")
    case (Some p)
    obtain ok r1 where a: "provider_available e cap p r = (ok, r1)" by fastforce
    have c: "ok = (\<not> breaker_open e cap (provider_name p) \<and> is_available p) \<and> health_sound e cap r1"
      by (rule provider_available_correct [OF Cons.prems Some _ a]) (rule same [OF Some])
    then show ?thesis using Cons.IH Cons.prems Some a by (auto simp: usable_def)
  qed simp
qed simp

section \<open>Properties\<close>


text \<open>
  After a model is made the active one, exactly the rows of that model are active, every
  reader with a session gets that model, and so does every reader without one while Redis answers
  and the entry has not expired.
\<close>

theorem set_active_model_takes_effect:
  assumes "set_active_model dflt now i g = Inr (m, g')" and "model_rows g = Some rows"
  shows "\<exists>rows'. model_rows g' = Some rows' \<and> map em_id rows' = map em_id rows \<and> (\<forall>x \<in> set rows'. em_active x \<longleftrightarrow> em_id x = i) \<and>
    em_id (fst (get_active_model dflt later g')) = i \<and>
    (redis_up g \<and> later < now + 300000000 \<longrightarrow> em_id (fst (get_active_model dflt later (g'\<lparr>model_rows := None\<rparr>))) = i)"
proof -
  let ?rows = "activate_row i (deactivate_others now i rows)"
  obtain target where t: "find_row (\<lambda>m. em_id m = i) rows = Some target" and m: "m = target\<lparr>em_active := True\<rparr>"
    and g': "g' = cache_active_model now m (if redis_up g then g\<lparr>model_rows := Some ?rows, active_cache := None\<rparr> else g\<lparr>model_rows := Some ?rows\<rparr>)"
    using assms by (auto simp: set_active_model_def get_model_def Let_def split: option.splits sum.splits)
  have tid: "em_id target = i" "target \<in> set rows" using find_row_Some [OF t] by auto
  have rows: "model_rows g' = Some ?rows" by (simp add: g' cache_active_model_def)
  have ids: "map em_id ?rows = map em_id rows" by (simp add: activate_row_def deactivate_others_def update_where_def)
  have act: "em_active x \<longleftrightarrow> em_id x = i" if "x \<in> set ?rows" for x
    using that by (auto simp: activate_row_def deactivate_others_def update_where_def)
  have "\<exists>x \<in> set ?rows. em_active x"
  proof -
    have "i \<in> set (map em_id rows)" using tid by force
    then have "i \<in> em_id ` set ?rows" by (simp only: ids [symmetric] set_map)
    then show ?thesis using act by auto
  qed
  then obtain x where x: "find_row em_active ?rows = Some x" by (metis find_row_None not_None_eq)
  then have "em_id x = i" using find_row_Some [OF x] act by blast
  then have "em_id (fst (get_active_model dflt later g')) = i" using x rows by (simp add: get_active_model_def)
  moreover have "em_id (fst (get_active_model dflt later (g'\<lparr>model_rows := None\<rparr>))) = i"
    if "redis_up g" "later < now + 300000000"
    using that m tid by (simp add: get_active_model_def cached_active_model_def g' cache_active_model_def active_model_cache_ttl_def)
  ultimately show ?thesis using rows ids act by blast
qed

section \<open>Witnesses\<close>

definition example_provider :: "string \<Rightarrow> bool \<Rightarrow> provider" where
  "example_provider n up = \<lparr>provider_name = n, supports_embeddings = True, supports_extraction = True, is_available = up\<rparr>"

definition example_router :: router_env where
  "example_router =
     \<lparr>factory = (\<lambda>n. if n = ''gemini'' then Some (example_provider n False) else if n = ''openai'' then Some (example_provider n True) else None),
      gemini_embed_open = False, gemini_extract_open = False, embedding_provider_setting = [], llm_provider_order = [],
      re_str = (\<lambda>_. []), tenant_key = (\<lambda>_. ''llm_provider_config:global''), re_now = 0\<rparr>"

definition example_config_row :: config_row where
  "example_config_row = \<lparr>cr_tenant_id = None, cr_config = default_config\<lparr>embed_provider_primary := ''Gemini'', embed_provider_fallback := ''openai''\<rparr>\<rparr>"


definition example_model :: "string \<Rightarrow> bool \<Rightarrow> embedding_model" where
  "example_model i act =
     \<lparr>em_id = i, em_provider = ''openai'', em_model_name = ''m'', em_dimensions = 3, em_collection = i, em_active = act,
      em_deprecated_at = None, em_created_at = 0\<rparr>"

theorem set_active_model_takes_effect_witness:
  "\<exists>m g'. set_active_model (example_model ''d'' True) 5 ''b'' \<lparr>model_rows = Some [example_model ''a'' True, example_model ''b'' False],
      active_cache = None, redis_up = True\<rparr> = Inr (m, g') \<and> em_id (fst (get_active_model (example_model ''d'' True) 9 g')) = ''b''"
proof -
  let ?rows = "[example_model ''a'' True, example_model ''b'' False]"
  let ?g = "\<lparr>model_rows = Some ?rows, active_cache = None, redis_up = True\<rparr>"
  obtain m g' where r: "set_active_model (example_model ''d'' True) 5 ''b'' ?g = Inr (m, g')"
    by (auto simp: set_active_model_def get_model_def find_row_def example_model_def Let_def)
  from set_active_model_takes_effect [OF r, of ?rows 9] show ?thesis using r by auto
qed

end
