(* ===== verification/Conflicts.thy ===== *)
theory Conflicts
  imports Lifecycle Ledger Providers
begin

text \<open>
  Manual resolution of a conflict between two memories:
  \<open>src/api/services/conflict_resolution_service.py\<close> and the evidence records of
  \<open>src/api/services/conflict_decision_evidence.py\<close>. The chosen memories are unarchived and embedded
  again, the others archived, and the claim ledger follows.

  \<open>embedder\<close> is the embedding service: the result for a text, a model and a tenant, or the text of
  the exception it raises. \<open>include_content\<close> is the payload setting of the outbox.
\<close>

section \<open>Decision evidence\<close>

record decision_evidence_data =
  de_action :: string
  de_level :: string
  de_reason_codes :: "string list"
  de_explanation :: string
  de_confidence :: "pyfloat option"
  de_winner_source :: "string option"
  de_details :: "(string \<times> pyval) list"

definition evidence_dict :: "decision_evidence_data \<Rightarrow> (string \<times> pyval) list" where
  "evidence_dict e =
     [(''action'', PStr (de_action e)), (''decision_level'', PStr (de_level e)),
      (''reason_codes'', PList (map PStr (sort (remdups (de_reason_codes e))))),
      (''explanation'', PStr (de_explanation e)),
      (''confidence'', (case de_confidence e of None \<Rightarrow> PNone | Some x \<Rightarrow> PFloat x)),
      (''winner_source'', opt_text (de_winner_source e)), (''details'', PDict (de_details e))]"

definition automatic_evidence ::
  "string \<Rightarrow> string list \<Rightarrow> string \<Rightarrow> pyfloat option \<Rightarrow> string option \<Rightarrow> (string \<times> pyval) list \<Rightarrow> (string \<times> pyval) list" where
  "automatic_evidence action codes explanation confidence winner details =
     evidence_dict \<lparr>de_action = action, de_level = ''automatic'', de_reason_codes = codes, de_explanation = explanation,
       de_confidence = confidence, de_winner_source = winner, de_details = details\<rparr>"

definition review_evidence :: "string \<Rightarrow> string list \<Rightarrow> string \<Rightarrow> (string \<times> pyval) list \<Rightarrow> (string \<times> pyval) list" where
  "review_evidence action codes explanation details =
     evidence_dict \<lparr>de_action = action, de_level = (if action = ''USER_REVIEW'' then ''personal_truth'' else ''organisational_truth''),
       de_reason_codes = codes, de_explanation = explanation, de_confidence = None, de_winner_source = None, de_details = details\<rparr>"

definition manual_decision_evidence ::
  "string \<Rightarrow> string list \<Rightarrow> string \<Rightarrow> string option \<Rightarrow> (string \<times> pyval) list \<Rightarrow> (string \<times> pyval) list" where
  "manual_decision_evidence action codes explanation winner details =
     evidence_dict \<lparr>de_action = action, de_level = ''manual'', de_reason_codes = codes, de_explanation = explanation,
       de_confidence = Some 1, de_winner_source = winner, de_details = details\<rparr>"

section \<open>Resolution\<close>

record cross_user_conflict =
  cf_id :: uuid
  cf_tenant_id :: uuid
  user_a_memory_id :: "uuid option"
  user_b_memory_id :: "uuid option"
  cf_decision_evidence :: "(string \<times> pyval) list"

datatype conflict_error = ConflictMemoryMissing | EmbeddingFailed string | LedgerFailed ledger_error

type_synonym embed_fn = "string \<Rightarrow> string \<Rightarrow> uuid \<Rightarrow> string + embedding_result"

text \<open>\<open>desired_states\<close>: whether a memory is to be archived; of equal keys the later one counts.\<close>

definition desired_states :: "uuid \<Rightarrow> uuid \<Rightarrow> string \<Rightarrow> (uuid \<Rightarrow> bool) option" where
  "desired_states a b selection =
     (if selection = ''A'' then Some (\<lambda>i. i = b)
      else if selection = ''B'' then Some (\<lambda>i. i \<noteq> b)
      else if selection = ''both'' then Some (\<lambda>_. False)
      else if selection = ''neither'' then Some (\<lambda>_. True)
      else None)"

definition memory_label :: "uuid \<Rightarrow> uuid \<Rightarrow> string" where
  "memory_label i a = (if i = a then ''memory_a'' else ''memory_b'')"

definition conflict_note :: "cross_user_conflict \<Rightarrow> string \<Rightarrow> string \<Rightarrow> memory \<Rightarrow> memory" where
  "conflict_note cf selection reason m =
     m\<lparr>metadata_json := AList.update ''conflict_resolution''
         (PDict [(''conflict_id'', PInt (int (cf_id cf))), (''selection'', PStr selection), (''reason'', PStr reason)])
         (metadata_json m)\<rparr>"

definition record_decision :: "memory \<Rightarrow> string \<Rightarrow> string \<Rightarrow> db \<Rightarrow> db" where
  "record_decision m reason who d = snd (safe_record_version m ''conflict_resolved'' (Some reason) who d)"

definition archive_in_conflict :: "string \<Rightarrow> string \<Rightarrow> memory \<Rightarrow> db \<Rightarrow> db" where
  "archive_in_conflict reason who m d =
     enqueue_vector_delete (m_id m)
       [(''memory_id'', PInt (int (m_id m))), (''embedding_model_id'', PStr (embedding_model_id m))]
       (put_memory (m\<lparr>is_archived := True\<rparr>) (record_decision m reason who (put_memory m d)))"

definition restore_in_conflict :: "bool \<Rightarrow> uuid \<Rightarrow> string \<Rightarrow> string \<Rightarrow> embedding_result \<Rightarrow> memory \<Rightarrow> db \<Rightarrow> db" where
  "restore_in_conflict ic tenant reason who er m d =
     (let m' = m\<lparr>is_archived := False, embedding_model_id := er_model_id er\<rparr>
      in enqueue_vector_upsert (m_id m) (er_vector er)
           (build_vector_payload ic m' (Some tenant) (Some (m_proxy_user_id m)) (Some (m_user_id m))
              (Some (er_model_id er)) (Some (er_collection er)))
           (put_memory m' (record_decision m reason who (put_memory m d))))"

text \<open>One memory of the conflict: the label of its transition, if it changes, and the tables.\<close>

definition settle_memory ::
  "embed_fn \<Rightarrow> bool \<Rightarrow> cross_user_conflict \<Rightarrow> string \<Rightarrow> string \<Rightarrow> string \<Rightarrow> uuid \<Rightarrow> bool \<Rightarrow> uuid \<Rightarrow> db \<Rightarrow>
     conflict_error + (string list \<times> db)" where
  "settle_memory embedder ic cf selection who reason a should_archive i d =
     (case get_memory i d of
        None \<Rightarrow> Inl ConflictMemoryMissing
      | Some m0 \<Rightarrow>
          (let m = conflict_note cf selection reason m0
           in if should_archive
              then (if is_archived m then Inr ([], put_memory m d)
                    else Inr ([''archived_'' @ memory_label i a], archive_in_conflict reason who m d))
              else if \<not> is_archived m then Inr ([], put_memory m d)
              else case embedder (content m) (embedding_model_id m) (cf_tenant_id cf) of
                     Inl x \<Rightarrow> Inl (EmbeddingFailed x)
                   | Inr er \<Rightarrow> Inr ([''activated_'' @ memory_label i a], restore_in_conflict ic (cf_tenant_id cf) reason who er m d)))"

definition selection_evidence :: "string \<Rightarrow> string \<Rightarrow> string \<Rightarrow> (string \<times> pyval) list" where
  "selection_evidence selection who reason =
     manual_decision_evidence
       (if selection = ''both'' then ''KEEP_BOTH'' else if selection = ''neither'' then ''REJECT'' else ''UPDATE'')
       [''human_review_completed'', ''selection:'' @ selection] reason (Some selection)
       [(''changed_by'', PStr who), (''selection'', PStr selection)]"

fun join_transitions :: "string list \<Rightarrow> string" where
  "join_transitions [] = ''memory_states_unchanged''"
| "join_transitions [t] = t"
| "join_transitions (t # ts) = t @ ''_and_'' @ join_transitions ts"

definition resolve_conflict ::
  "embed_fn \<Rightarrow> bool \<Rightarrow> cross_user_conflict \<Rightarrow> string \<Rightarrow> string \<Rightarrow> string \<Rightarrow> utc \<Rightarrow> db \<Rightarrow>
     conflict_error + (string \<times> cross_user_conflict \<times> db)" where
  "resolve_conflict embedder ic cf selection who reason now d =
     (case (user_a_memory_id cf, user_b_memory_id cf) of
        (Some a, Some b) \<Rightarrow>
          if get_memory a d = None \<or> get_memory b d = None then Inl ConflictMemoryMissing
          else
            (case desired_states a b selection of
               None \<Rightarrow> Inl (LedgerFailed UnknownSelection)
             | Some archive \<Rightarrow>
                 (case settle_memory embedder ic cf selection who reason a (archive a) a d of
                    Inl x \<Rightarrow> Inl x
                  | Inr (ta, d1) \<Rightarrow>
                      (case settle_memory embedder ic cf selection who reason a (archive b) b d1 of
                         Inl x \<Rightarrow> Inl x
                       | Inr (tb, d2) \<Rightarrow>
                           (case apply_conflict_selection a b selection reason now d2 of
                              Inl x \<Rightarrow> Inl (LedgerFailed x)
                            | Inr (_, d3) \<Rightarrow>
                                Inr (join_transitions (ta @ tb),
                                     cf\<lparr>cf_decision_evidence := selection_evidence selection who reason\<rparr>, d3)))))
      | _ \<Rightarrow> Inl ConflictMemoryMissing)"

section \<open>Lemmas\<close>

lemma conflict_note_simps [simp]:
  "m_id (conflict_note cf s r m) = m_id m" "is_archived (conflict_note cf s r m) = is_archived m"
  by (simp_all add: conflict_note_def)

lemma record_decision_frames [simp]:
  "memories (record_decision m r who d) = memories d" "claims (record_decision m r who d) = claims d"
  "revisions (record_decision m r who d) = revisions d"
  by (simp_all add: record_decision_def)

lemma settle_tables:
  "claims (archive_in_conflict reason who m d) = claims d" "revisions (archive_in_conflict reason who m d) = revisions d"
  "memories (archive_in_conflict reason who m d) = memories (put_memory (m\<lparr>is_archived := True\<rparr>) (put_memory m d))"
  "claims (restore_in_conflict ic t reason who er m d) = claims d" "revisions (restore_in_conflict ic t reason who er m d) = revisions d"
  "memories (restore_in_conflict ic t reason who er m d) =
     memories (put_memory (m\<lparr>is_archived := False, embedding_model_id := er_model_id er\<rparr>) (put_memory m d))"
  by (simp_all add: archive_in_conflict_def restore_in_conflict_def enqueue_vector_delete_def enqueue_vector_upsert_def
      add_outbox_row_def put_memory_def Let_def)

text \<open>
  Settling one memory keeps the claims, the revisions and every other memory, and leaves the
  memory in the requested state.
\<close>

definition settled :: "uuid \<Rightarrow> bool \<Rightarrow> db \<Rightarrow> db \<Rightarrow> bool" where
  "settled i arch d d' \<longleftrightarrow> claims d' = claims d \<and> revisions d' = revisions d \<and>
     (\<forall>j. j \<noteq> i \<longrightarrow> mem_view d' j = mem_view d j) \<and> (\<exists>m'. mem_view d' i = Some m' \<and> is_archived m' = arch)"

lemma settledD:
  assumes "settled i arch d d'"
  shows "claims d' = claims d" and "revisions d' = revisions d" and "j \<noteq> i \<Longrightarrow> mem_view d' j = mem_view d j"
    and "\<exists>m'. mem_view d' i = Some m' \<and> is_archived m' = arch"
  using assms by (simp_all add: settled_def)

lemma settle_memory_ok:
  assumes m: "mem_view d i = Some m0" and embedder: "\<forall>c k t. \<exists>er. embedder c k t = Inr er"
  shows "\<exists>ts d'. settle_memory embedder ic cf selection who reason a arch i d = Inr (ts, d') \<and> settled i arch d d'"
proof -
  let ?m = "conflict_note cf selection reason m0"
  have id: "m_id m0 = i" by (rule view_ids(1) [OF m])
  have put: "mem_view (put_memory x d) = (mem_view d)(i := Some x)" if "m_id x = i" for x
    using view_put_memory [of d x] m that by simp
  have put2: "mem_view (put_memory y (put_memory x d)) = (mem_view d)(i := Some y)" if "m_id x = i" "m_id y = i" for x y
    using view_put_memory [of "put_memory x d" y] put [OF that(1)] that by simp
  obtain er where er: "embedder (content ?m) (embedding_model_id ?m) (cf_tenant_id cf) = Inr er" using embedder by blast
  have get: "get_memory i d = Some m0" using m by (simp add: mem_view_def)
  consider (keep) "is_archived m0 = arch" | (archive) "arch" "\<not> is_archived m0" | (restore) "\<not> arch" "is_archived m0" by blast
  then show ?thesis
  proof cases
    case keep
    then show ?thesis by (auto simp: settled_def settle_memory_def get Let_def put id)
  next
    case archive
    have "mem_view (archive_in_conflict reason who ?m d) = (mem_view d)(i := Some (?m\<lparr>is_archived := True\<rparr>))"
      using view_frames(1) [OF settle_tables(3) [of reason who ?m d]] put2 [of ?m "?m\<lparr>is_archived := True\<rparr>"] id by simp
    then show ?thesis using archive by (auto simp: settled_def settle_memory_def get Let_def settle_tables)
  next
    case restore
    have "mem_view (restore_in_conflict ic (cf_tenant_id cf) reason who er ?m d) =
        (mem_view d)(i := Some (?m\<lparr>is_archived := False, embedding_model_id := er_model_id er\<rparr>))"
      using view_frames(1) [OF settle_tables(6) [of ic "cf_tenant_id cf" reason who er ?m d]]
        put2 [of ?m "?m\<lparr>is_archived := False, embedding_model_id := er_model_id er\<rparr>"] id by simp
    then show ?thesis using restore er by (auto simp: settled_def settle_memory_def get Let_def settle_tables)
  qed
qed

lemma desired_selected:
  assumes "desired_states a b selection = Some archive" and "a \<noteq> b"
  shows "\<exists>sel. selected_memories a b selection = Some sel \<and> sel \<subseteq> {a, b} \<and> (\<forall>i \<in> {a, b}. i \<in> sel \<longleftrightarrow> \<not> archive i)"
  using assms by (auto simp: desired_states_def selected_memories_def split: if_splits)

section \<open>Properties\<close>

text \<open>
  (C17) Resolving a conflict by hand never fails while the embedding service answers, leaves
  exactly the chosen memories unarchived, and keeps the claim ledger consistent: whatever the
  selection, the activated revisions are again exactly the winners and every claim that names
  a memory names one whose state agrees with its revision. The memories of the conflict are
  two different stored ones, and every revision has its claim.
\<close>

theorem manual_resolution_keeps_ledger:
  assumes inv: "ledger_inv d" and fk: "\<forall>r \<in> set (revisions d). get_claim (r_claim_id r) d \<noteq> None"
    and conflict: "user_a_memory_id cf = Some a" "user_b_memory_id cf = Some b" "a \<noteq> b"
    and stored: "get_memory a d \<noteq> None" "get_memory b d \<noteq> None"
    and selection: "desired_states a b selection = Some archive"
    and embedder: "\<forall>c k t. \<exists>er. embedder c k t = Inr er"
  shows "\<exists>action cf' d'. resolve_conflict embedder ic cf selection who reason now d = Inr (action, cf', d') \<and> ledger_inv d' \<and>
    (\<exists>ma mb. get_memory a d' = Some ma \<and> is_archived ma = archive a \<and> get_memory b d' = Some mb \<and> is_archived mb = archive b)"
proof -
  obtain ma mb where m: "mem_view d a = Some ma" "mem_view d b = Some mb" using stored by (auto simp: mem_view_def)
  obtain ta d1 where 1: "settle_memory embedder ic cf selection who reason a (archive a) a d = Inr (ta, d1)" "settled a (archive a) d d1"
    using settle_memory_ok [OF m(1) embedder] by blast
  note S1 = settledD [OF 1(2)]
  have mb: "mem_view d1 b = Some mb" using S1(3) m(2) conflict(3) by simp
  obtain tb d2 where 2: "settle_memory embedder ic cf selection who reason a (archive b) b d1 = Inr (tb, d2)" "settled b (archive b) d1 d2"
    using settle_memory_ok [OF mb embedder] by blast
  note S2 = settledD [OF 2(2)]
  have a2: "\<exists>m'. mem_view d2 a = Some m' \<and> is_archived m' = archive a" using S1(4) S2(3) [of a] conflict(3) by simp
  obtain sel where sel: "selected_memories a b selection = Some sel" "sel \<subseteq> {a, b}" "\<forall>i \<in> {a, b}. i \<in> sel \<longleftrightarrow> \<not> archive i"
    using desired_selected [OF selection conflict(3)] by blast
  have "\<exists>d3. apply_conflict_selection a b selection reason now d2 = Inr ((), d3) \<and> ledger_inv d3"
  proof (rule apply_conflict_selection_ok [OF sel(1) inv])
    show "claim_view d2 = claim_view d" by (rule view_frames(2)) (simp only: S1(1) S2(1))
    show "rev_view d2 = rev_view d" by (rule view_frames(3)) (simp only: S1(2) S2(2))
    show "revisions d2 = revisions d" using S1(2) S2(2) by simp
    show "mem_view d2 i = mem_view d i" if "i \<noteq> a" "i \<noteq> b" for i using S1(3) S2(3) that by simp
    show "\<exists>m. mem_view d2 i = Some m \<and> \<not> is_archived m" if "i \<in> sel" for i using that sel(2,3) a2 S2(4) by auto
    show "get_claim (r_claim_id r) d \<noteq> None" if "r \<in> set (revisions d)" for r using fk that by blast
  qed
  then obtain d3 where d3: "apply_conflict_selection a b selection reason now d2 = Inr ((), d3)" "ledger_inv d3" by blast
  have "mem_view d3 = mem_view d2" using d3(1) sel(1) by (auto simp: apply_conflict_selection_def flushed_def resolution_views(3) split: if_splits)
  then have "\<exists>ma mb. get_memory a d3 = Some ma \<and> is_archived ma = archive a \<and> get_memory b d3 = Some mb \<and> is_archived mb = archive b"
    using a2 S2(4) by (simp add: mem_view_def [symmetric])
  moreover have "resolve_conflict embedder ic cf selection who reason now d =
      Inr (join_transitions (ta @ tb), cf\<lparr>cf_decision_evidence := selection_evidence selection who reason\<rparr>, d3)"
    using stored by (simp add: resolve_conflict_def conflict(1,2) selection 1(1) 2(1) d3(1))
  ultimately show ?thesis using d3(2) by blast
qed

section \<open>Witnesses\<close>

definition example_conflict :: cross_user_conflict where
  "example_conflict = \<lparr>cf_id = 60, cf_tenant_id = 90, user_a_memory_id = Some 1, user_b_memory_id = Some 2, cf_decision_evidence = []\<rparr>"

theorem manual_resolution_keeps_ledger_witness:
  "\<exists>action cf' d'. resolve_conflict (\<lambda>_ _ _. Inr \<lparr>er_vector = [1], er_model_id = ''e'', er_dimensions = 1, er_collection = ''m''\<rparr>) False example_conflict ''B'' ''user'' ''r'' 5
      example_ledger = Inr (action, cf', d') \<and> ledger_inv d' \<and> (\<exists>m. get_memory 1 d' = Some m \<and> is_archived m)"
proof -
  have fk: "\<forall>r \<in> set (revisions example_ledger). get_claim (r_claim_id r) example_ledger \<noteq> None"
    by (simp add: example_ledger_def example_revision_def example_claim_def get_claim_def find_row_def)
  have cf: "user_a_memory_id example_conflict = Some 1" "user_b_memory_id example_conflict = Some 2" "(1 :: uuid) \<noteq> 2"
    by (simp_all add: example_conflict_def)
  have m: "get_memory 1 example_ledger \<noteq> None" "get_memory 2 example_ledger \<noteq> None"
    using example_views(1) [of 1] example_views(1) [of 2] by (simp_all add: mem_view_def)
  have s: "desired_states 1 2 ''B'' = Some (\<lambda>i. i \<noteq> 2)" by (simp add: desired_states_def)
  have e: "\<forall>c k t. \<exists>er. (\<lambda>_ _ _. Inr \<lparr>er_vector = [1], er_model_id = ''e'', er_dimensions = 1, er_collection = ''m''\<rparr> :: string + embedding_result) (c :: string) (k :: string) (t :: uuid) = Inr er"
    by simp
  show ?thesis
    using manual_resolution_keeps_ledger [OF example_ledger_inv fk cf m s e, of False "''user''" "''r''" 5] by auto
qed

end
