(* ===== verification/Preferences.thy ===== *)
theory Preferences
  imports Ledger
begin

text \<open>
  Explicit preferences: the contract of \<open>src/api/schemas/preferences.py\<close> and the policy of
  \<open>src/api/services/preference_claim_service.py\<close>. An application declares a preference; the
  declaration is stored in the provenance of its memory, is read back by validating it again,
  and moves the claim of its identity only as \<open>transition_reason\<close> allows.

  The hashes, the text of a UUID and the identity digest are the fields of \<open>pref_env\<close>. \<open>None\<close> from
  a validator is the validation error.
\<close>

section \<open>The contract\<close>

record pref_applicability =
  pa_kind :: string
  pa_namespace :: "string option"
  pa_key :: "string option"

record pref_claim =
  pc_property_key :: string
  pc_value :: string
  pc_applicability :: pref_applicability
  pc_turn_index :: int
  pc_quote :: string
  pc_commitment :: string
  pc_choice_state :: string
  pc_replaces_memory_id :: "string option"
  pc_replaces_version :: "string option"

definition is_lower_letter :: "char \<Rightarrow> bool" where
  "is_lower_letter c \<longleftrightarrow> 97 \<le> (of_char c :: nat) \<and> of_char c \<le> (122 :: nat)"

definition is_hex :: "char \<Rightarrow> bool" where
  "is_hex c \<longleftrightarrow> is_digit c \<or> c \<in> set ''abcdef''"

definition valid_property_key :: "string \<Rightarrow> bool" where
  "valid_property_key s \<longleftrightarrow>
     1 \<le> length s \<and> length s \<le> 120 \<and> is_lower_letter (hd s) \<and>
     list_all (\<lambda>c. is_lower_letter c \<or> is_digit c \<or> c \<in> set ''._-'') s"

text \<open>The trimming of the schema library: white space without the separators of \<open>str.strip\<close>.\<close>

definition is_blank :: "char \<Rightarrow> bool" where
  "is_blank c \<longleftrightarrow> of_char c \<in> {9, 10, 11, 12, 13, 32 :: nat}"

definition trim :: "string \<Rightarrow> string" where
  "trim s = rev (dropWhile is_blank (rev (dropWhile is_blank s)))"

definition required_text :: "(string \<times> pyval) list \<Rightarrow> string \<Rightarrow> string option" where
  "required_text d k = (case map_of d k of Some (PStr s) \<Rightarrow> Some s | _ \<Rightarrow> None)"

definition optional_text :: "(string \<times> pyval) list \<Rightarrow> string \<Rightarrow> string option option" where
  "optional_text d k =
     (case map_of d k of None \<Rightarrow> Some None | Some PNone \<Rightarrow> Some None | Some (PStr s) \<Rightarrow> Some (Some s) | _ \<Rightarrow> None)"

definition defaulted_text :: "(string \<times> pyval) list \<Rightarrow> string \<Rightarrow> string \<Rightarrow> string option" where
  "defaulted_text d k x = (case map_of d k of None \<Rightarrow> Some x | Some (PStr s) \<Rightarrow> Some s | _ \<Rightarrow> None)"

definition applicability_ok :: "pref_applicability \<Rightarrow> bool" where
  "applicability_ok a \<longleftrightarrow>
     pa_kind a \<in> {''global'', ''context'', ''unresolved''} \<and>
     (case pa_namespace a of None \<Rightarrow> True | Some n \<Rightarrow> valid_property_key n) \<and>
     (case pa_key a of None \<Rightarrow> True | Some k \<Rightarrow> 1 \<le> length k \<and> length k \<le> 128) \<and>
     (pa_kind a = ''context'' \<longleftrightarrow> pa_namespace a \<noteq> None \<and> pa_key a \<noteq> None) \<and>
     (pa_kind a \<noteq> ''context'' \<longrightarrow> pa_namespace a = None \<and> pa_key a = None)"

definition validate_applicability :: "pyval \<Rightarrow> pref_applicability option" where
  "validate_applicability v =
     (case v of
        PDict d \<Rightarrow>
          (case (required_text d ''kind'', optional_text d ''namespace'', optional_text d ''key'') of
             (Some k, Some ns, Some ky) \<Rightarrow>
               (let a = \<lparr>pa_kind = k, pa_namespace = ns, pa_key = map_option trim ky\<rparr>
                in if set (map fst d) \<subseteq> {''kind'', ''namespace'', ''key''} \<and> applicability_ok a then Some a else None)
           | _ \<Rightarrow> None)
      | _ \<Rightarrow> None)"

text \<open>\<open>str(uuid.UUID(s))\<close> on 36 characters: 32 hexadecimal digits, printed in groups.\<close>

definition canonical_uuid :: "string \<Rightarrow> string option" where
  "canonical_uuid s =
     (let h = filter (\<lambda>c. c \<noteq> CHR ''-'') s
      in if length s = 36 \<and> list_all (\<lambda>c. is_hex c \<or> c = CHR ''-'') s \<and> length h = 32
         then Some (take 8 h @ ''-'' @ take 4 (drop 8 h) @ ''-'' @ take 4 (drop 12 h) @ ''-'' @ take 4 (drop 16 h) @ ''-'' @ drop 20 h)
         else None)"

definition valid_version :: "string \<Rightarrow> bool" where
  "valid_version s \<longleftrightarrow> length s = 64 \<and> list_all is_hex s"

definition binds_target :: "pref_claim \<Rightarrow> bool" where
  "binds_target c \<longleftrightarrow> pc_commitment c = ''replacement'' \<or> pc_choice_state c = ''current_choice_unresolved''"

definition claim_ok :: "pref_claim \<Rightarrow> bool" where
  "claim_ok c \<longleftrightarrow>
     valid_property_key (pc_property_key c) \<and> 1 \<le> length (pc_value c) \<and> length (pc_value c) \<le> 256 \<and>
     applicability_ok (pc_applicability c) \<and> 0 \<le> pc_turn_index c \<and> pc_turn_index c \<le> 63 \<and>
     1 \<le> length (pc_quote c) \<and> length (pc_quote c) \<le> 2000 \<and>
     pc_commitment c \<in> {''asserted'', ''uncertain'', ''replacement''} \<and>
     pc_choice_state c \<in> {''candidate_only'', ''current_choice_unresolved''} \<and>
     (case pc_replaces_version c of None \<Rightarrow> True | Some s \<Rightarrow> valid_version s) \<and>
     py_contains (pc_value c) (pc_quote c) \<and> pc_quote c = py_strip (pc_quote c) \<and>
     (pc_choice_state c = ''current_choice_unresolved'' \<longrightarrow>
        pc_commitment c = ''uncertain'' \<and> pa_kind (pc_applicability c) \<noteq> ''unresolved'') \<and>
     (if binds_target c then pc_replaces_memory_id c \<noteq> None \<and> pc_replaces_version c \<noteq> None
      else pc_replaces_memory_id c = None \<and> pc_replaces_version c = None)"

definition claim_fields :: "string set" where
  "claim_fields = {''property_key'', ''value'', ''applicability'', ''turn_index'', ''quote'', ''commitment'', ''choice_state'',
     ''replaces_memory_id'', ''replaces_version''}"

definition optional_uuid :: "string option \<Rightarrow> string option option" where
  "optional_uuid s = (case s of None \<Rightarrow> Some None | Some t \<Rightarrow> map_option Some (canonical_uuid t))"

definition validate_claim :: "pyval \<Rightarrow> pref_claim option" where
  "validate_claim v =
     (case v of
        PDict d \<Rightarrow>
          (case (required_text d ''property_key'', required_text d ''value'', map_of d ''applicability'', map_of d ''turn_index'',
                 required_text d ''quote'') of
             (Some key, Some val, Some app, Some (PInt turn), Some quote) \<Rightarrow>
               (case (validate_applicability app, defaulted_text d ''commitment'' ''asserted'',
                      defaulted_text d ''choice_state'' ''candidate_only'',
                      Option.bind (optional_text d ''replaces_memory_id'') optional_uuid, optional_text d ''replaces_version'') of
                  (Some a, Some commitment, Some choice, Some target, Some version) \<Rightarrow>
                    (let c = \<lparr>pc_property_key = key, pc_value = trim val, pc_applicability = a, pc_turn_index = turn, pc_quote = quote,
                              pc_commitment = commitment, pc_choice_state = choice, pc_replaces_memory_id = target,
                              pc_replaces_version = version\<rparr>
                     in if set (map fst d) \<subseteq> claim_fields \<and> claim_ok c then Some c else None)
                | _ \<Rightarrow> None)
           | _ \<Rightarrow> None)
      | _ \<Rightarrow> None)"

text \<open>\<open>model_dump(exclude_none=True)\<close>.\<close>

definition text_entry :: "string \<Rightarrow> string option \<Rightarrow> (string \<times> pyval) list" where
  "text_entry k s = (case s of None \<Rightarrow> [] | Some t \<Rightarrow> [(k, PStr t)])"

definition dump_applicability :: "pref_applicability \<Rightarrow> scope" where
  "dump_applicability a = (''kind'', PStr (pa_kind a)) # text_entry ''namespace'' (pa_namespace a) @ text_entry ''key'' (pa_key a)"

definition dump_claim :: "pref_claim \<Rightarrow> pyval" where
  "dump_claim c =
     PDict ([(''property_key'', PStr (pc_property_key c)), (''value'', PStr (pc_value c)),
        (''applicability'', PDict (dump_applicability (pc_applicability c))), (''turn_index'', PInt (pc_turn_index c)),
        (''quote'', PStr (pc_quote c)), (''commitment'', PStr (pc_commitment c)), (''choice_state'', PStr (pc_choice_state c))]
       @ text_entry ''replaces_memory_id'' (pc_replaces_memory_id c) @ text_entry ''replaces_version'' (pc_replaces_version c))"

section \<open>Lemmas on the contract\<close>

lemma trim_idem [simp]: "trim (trim s) = trim s"
proof -
  have hd: "u = [] \<or> \<not> is_blank (hd u)" if "u = dropWhile is_blank t" for t u :: string
    using that hd_dropWhile [of is_blank t] by blast
  define u where "u = dropWhile is_blank s"
  define w where "w = dropWhile is_blank (rev u)"
  have w: "w = [] \<or> \<not> is_blank (hd w)" by (rule hd [OF w_def])
  have "dropWhile is_blank (rev w) = rev w"
  proof (cases "w = []")
    case False
    obtain p where "rev u = p @ w" unfolding w_def by (metis takeWhile_dropWhile_id)
    then have "u = rev w @ rev p" by (metis rev_append rev_rev_ident)
    then have "hd (rev w) = hd u" using False by (simp add: hd_append)
    moreover have "u \<noteq> []" using \<open>u = rev w @ rev p\<close> False by simp
    ultimately have "\<not> is_blank (hd (rev w))" using hd [OF u_def] by simp
    then show ?thesis using False by (cases "rev w") simp_all
  qed simp
  moreover have "dropWhile is_blank w = w" using w by (cases w) simp_all
  ultimately show ?thesis by (simp add: trim_def u_def [symmetric] w_def [symmetric])
qed

text \<open>The printed groups of 32 digits.\<close>

definition uuid_groups :: "string \<Rightarrow> string" where
  "uuid_groups h = take 8 h @ ''-'' @ take 4 (drop 8 h) @ ''-'' @ take 4 (drop 12 h) @ ''-'' @ take 4 (drop 16 h) @ ''-'' @ drop 20 h"

lemma uuid_groups_digits:
  assumes "list_all is_hex h"
  shows "filter (\<lambda>c. c \<noteq> CHR ''-'') (uuid_groups h) = h"
proof -
  have "c \<noteq> CHR ''-''" if "c \<in> set h" for c using assms that by (auto simp: list_all_iff is_hex_def is_digit_def)
  then have nodash: "filter (\<lambda>c. c \<noteq> CHR ''-'') xs = xs" if "set xs \<subseteq> set h" for xs using that by (auto simp: filter_id_conv)
  have part: "filter (\<lambda>c. c \<noteq> CHR ''-'') (take n (drop m h)) = take n (drop m h)" "filter (\<lambda>c. c \<noteq> CHR ''-'') (drop m h) = drop m h"
      "filter (\<lambda>c. c \<noteq> CHR ''-'') (take n h) = take n h" for m n
    by (rule nodash; meson in_set_takeD in_set_dropD subsetI)+
  have d: "take 4 (drop 8 h) @ drop 12 h = drop 8 h" "take 4 (drop 12 h) @ drop 16 h = drop 12 h" "take 4 (drop 16 h) @ drop 20 h = drop 16 h"
    using append_take_drop_id [of 4 "drop 8 h"] append_take_drop_id [of 4 "drop 12 h"] append_take_drop_id [of 4 "drop 16 h"] by simp_all
  have "take 8 h @ take 4 (drop 8 h) @ take 4 (drop 12 h) @ take 4 (drop 16 h) @ drop 20 h = h" by (simp only: d append_take_drop_id)
  then show ?thesis by (simp add: uuid_groups_def part)
qed

lemma canonical_uuid_groups:
  "canonical_uuid s = (let h = filter (\<lambda>c. c \<noteq> CHR ''-'') s
     in if length s = 36 \<and> list_all (\<lambda>c. is_hex c \<or> c = CHR ''-'') s \<and> length h = 32 then Some (uuid_groups h) else None)"
  by (simp add: canonical_uuid_def uuid_groups_def Let_def)

lemma canonical_uuid_idem:
  assumes "canonical_uuid s = Some t"
  shows "canonical_uuid t = Some t"
proof -
  define h where "h = filter (\<lambda>c. c \<noteq> CHR ''-'') s"
  have h: "length h = 32" "list_all is_hex h" "t = uuid_groups h"
    using assms by (auto simp: canonical_uuid_groups Let_def list_all_iff h_def [symmetric] split: if_splits) (auto simp: h_def)
  note f = uuid_groups_digits [OF h(2)]
  have "length (uuid_groups h) = 36" using h(1) by (simp add: uuid_groups_def)
  moreover have "list_all (\<lambda>c. is_hex c \<or> c = CHR ''-'') (uuid_groups h)"
  proof -
    have "c = CHR ''-'' \<or> c \<in> set (filter (\<lambda>c. c \<noteq> CHR ''-'') (uuid_groups h))" if "c \<in> set (uuid_groups h)" for c using that by simp
    then show ?thesis unfolding f using h(2) by (auto simp: list_all_iff)
  qed
  ultimately show ?thesis using h(1,3) f by (simp add: canonical_uuid_groups Let_def)
qed

lemma validate_applicabilityD:
  assumes "validate_applicability v = Some a"
  shows "applicability_ok a" and "map_option trim (pa_key a) = pa_key a"
proof -
  have "applicability_ok a \<and> (\<exists>ky. pa_key a = map_option trim ky)"
    using assms by (auto simp: validate_applicability_def Let_def split: pyval.splits option.splits if_splits)
  then show "applicability_ok a" "map_option trim (pa_key a) = pa_key a"
    by (auto simp: option.map_comp comp_def)
qed

lemma validate_dump_applicability:
  assumes "applicability_ok a" and "map_option trim (pa_key a) = pa_key a"
  shows "validate_applicability (PDict (dump_applicability a)) = Some a"
proof -
  obtain k ns ky where a: "a = \<lparr>pa_kind = k, pa_namespace = ns, pa_key = ky\<rparr>" by (cases a) simp
  have "map_option trim ky = ky" using assms(2) by (simp add: a)
  then show ?thesis using assms(1)
    by (cases ns; cases ky)
      (simp_all add: a validate_applicability_def dump_applicability_def text_entry_def required_text_def optional_text_def Let_def)
qed

lemma validate_claimD:
  assumes "validate_claim v = Some c"
  shows "claim_ok c" and "trim (pc_value c) = pc_value c" and "optional_uuid (pc_replaces_memory_id c) = Some (pc_replaces_memory_id c)"
    and "map_option trim (pa_key (pc_applicability c)) = pa_key (pc_applicability c)"
proof -
  obtain val app ident where c: "claim_ok c" "pc_value c = trim val" "validate_applicability app = Some (pc_applicability c)"
      "optional_uuid ident = Some (pc_replaces_memory_id c)"
    using assms
    by (auto simp: validate_claim_def Let_def bind_eq_Some_conv split: pyval.splits option.splits if_splits prod.splits)
  show "claim_ok c" "trim (pc_value c) = pc_value c" using c by simp_all
  show "optional_uuid (pc_replaces_memory_id c) = Some (pc_replaces_memory_id c)"
    using c(4) canonical_uuid_idem by (auto simp: optional_uuid_def split: option.splits)
  show "map_option trim (pa_key (pc_applicability c)) = pa_key (pc_applicability c)" by (rule validate_applicabilityD(2) [OF c(3)])
qed

text \<open>
  A declaration survives its storage: whatever value is accepted as a declaration, the
  dump that the service writes into the provenance is accepted again and gives the same
  declaration. Reading a stored declaration therefore never raises, and trimming and the
  printing of the target id are stable.
\<close>

theorem declaration_roundtrip:
  assumes "validate_claim v = Some c"
  shows "validate_claim (dump_claim c) = Some c"
proof -
  note D = validate_claimD [OF assms]
  obtain key val a turn quote commitment choice target version where c: "c = \<lparr>pc_property_key = key, pc_value = val, pc_applicability = a,
      pc_turn_index = turn, pc_quote = quote, pc_commitment = commitment, pc_choice_state = choice, pc_replaces_memory_id = target,
      pc_replaces_version = version\<rparr>"
    by (cases c) simp
  have a: "validate_applicability (PDict (dump_applicability a)) = Some a"
    by (rule validate_dump_applicability) (use D(1,4) in \<open>simp_all add: c claim_ok_def\<close>)
  have t: "trim val = val" "optional_uuid target = Some target" using D(2,3) by (simp_all add: c)
  show ?thesis using D(1) a t
    by (cases target; cases version)
      (simp_all add: c validate_claim_def dump_claim_def text_entry_def required_text_def optional_text_def defaulted_text_def
        claim_fields_def Let_def)
qed

section \<open>Stored declarations\<close>

record pref_env =
  ledger_part :: ledger_env
  snapshot_digest :: "uuid \<times> uuid \<times> uuid \<times> string \<times> string \<times> bool \<times> utc option \<times> utc option \<times> utc option \<times> scope \<Rightarrow> string"
  choice_digest :: "pyval \<Rightarrow> string"
  uuid_str :: "uuid \<Rightarrow> string"

definition preference_declaration :: "scope \<Rightarrow> ledger_error + pref_claim option" where
  "preference_declaration prov =
     (case py_dict (dget prov ''extraction_evidence'' PNone) of
        None \<Rightarrow> Inl MalformedProvenance
      | Some ev \<Rightarrow>
          (let raw = dget ev preference_marker PNone
           in if raw = PNone then Inr None
              else case validate_claim raw of None \<Rightarrow> Inl InvalidDeclaration | Some c \<Rightarrow> Inr (Some c)))"

definition memory_declaration :: "memory \<Rightarrow> ledger_error + pref_claim option" where
  "memory_declaration m =
     (case py_dict (dget (metadata_json m) ''provenance'' PNone) of
        None \<Rightarrow> Inl MalformedProvenance
      | Some prov \<Rightarrow> preference_declaration prov)"

text \<open>The declaration as the ledger reads it.\<close>

definition to_request :: "pref_claim \<Rightarrow> preference_request" where
  "to_request c = \<lparr>property_key = pc_property_key c, preference_value = pc_value c, applicability = dump_applicability (pc_applicability c)\<rparr>"

definition with_declarations :: "ledger_env \<Rightarrow> ledger_env" where
  "with_declarations e =
     e\<lparr>declared := (\<lambda>prov. case preference_declaration prov of Inl x \<Rightarrow> Inl x | Inr q \<Rightarrow> Inr (map_option to_request q))\<rparr>"

definition declaration_identity :: "pref_env \<Rightarrow> pref_claim \<Rightarrow> claim_identity" where
  "declaration_identity E c = preference_identity (ledger_part E) (to_request c)"

definition preference_fingerprint :: "pref_env \<Rightarrow> string \<Rightarrow> pref_applicability \<Rightarrow> string" where
  "preference_fingerprint E key a =
     ci_fingerprint (build_domain_claim_identity (ledger_part E) preference_marker key ''preference'' [] (dump_applicability a))"

definition target_version :: "pref_env \<Rightarrow> memory \<Rightarrow> string" where
  "target_version E m =
     snapshot_digest E (m_id m, m_user_id m, m_proxy_user_id m, content m, category_value (category m), is_archived m, expires_at m,
       effective_from m, effective_until m, metadata_json m)"

definition choice_state_marker :: string where
  "choice_state_marker = ''preference_choice_state''"

definition choice_evidence_key :: "pref_env \<Rightarrow> pref_claim \<Rightarrow> string" where
  "choice_evidence_key E q = choice_digest E (dump_claim q)"

definition held_choice :: "pref_env \<Rightarrow> memory \<Rightarrow> memory_claim \<Rightarrow> ledger_error + bool" where
  "held_choice E m c =
     (case memory_declaration m of
        Inl x \<Rightarrow> Inl x
      | Inr q \<Rightarrow>
          Inr (case (dget (metadata_json m) choice_state_marker PNone, q) of
                 (PDict marker, Some q) \<Rightarrow>
                   dget marker ''state'' PNone = PStr ''current_choice_unresolved'' \<and>
                   dget marker ''fingerprint'' PNone = PStr (ci_fingerprint (declaration_identity E q)) \<and>
                   ci_fingerprint (declaration_identity E q) = claim_fingerprint c \<and>
                   active_memory_id c = Some (m_id m) \<and> active_value c = Some (pc_value q) \<and> m_proxy_user_id m = c_proxy_user_id c
               | _ \<Rightarrow> False))"

definition current_target :: "utc \<Rightarrow> memory \<Rightarrow> bool" where
  "current_target now m \<longleftrightarrow>
     \<not> is_archived m \<and>
     (case expires_at m of None \<Rightarrow> True | Some t \<Rightarrow> now < t) \<and> (case effective_until m of None \<Rightarrow> True | Some t \<Rightarrow> now < t) \<and>
     (case effective_from m of None \<Rightarrow> True | Some t \<Rightarrow> t \<le> now)"

text \<open>
  A hold or a release: the memory's marker gets a new generation, the claim its status. \<open>None\<close>: the
  stored marker is not a dictionary, or a hold comes without a declaration and without an
  operation key. An operation key is not empty.
\<close>

definition set_choice_state ::
  "pref_env \<Rightarrow> bool \<Rightarrow> pref_claim option \<Rightarrow> string option \<Rightarrow> uuid \<Rightarrow> utc \<Rightarrow> memory \<Rightarrow> memory_claim \<Rightarrow> (memory \<times> memory_claim) option" where
  "set_choice_state E unresolved q op generation now m c =
     (case (py_dict (dget (metadata_json m) choice_state_marker PNone),
            if unresolved then (case (op, q) of (Some k, _) \<Rightarrow> Some (PStr k) | (None, Some q) \<Rightarrow> Some (PStr (choice_evidence_key E q)) | _ \<Rightarrow> None)
            else Some PNone) of
        (Some previous, Some key) \<Rightarrow>
          (let marker =
             [(''state'', PStr (if unresolved then ''current_choice_unresolved'' else ''current'')),
              (''fingerprint'', PStr (claim_fingerprint c)), (''generation'', PStr (uuid_str E generation)),
              (''evidence_key'', if unresolved then key else dget previous ''evidence_key'' PNone)]
             @ text_entry ''operation_key'' op
           in Some (m\<lparr>metadata_json := AList.update choice_state_marker (PDict marker) (metadata_json m)\<rparr>,
                    c\<lparr>c_status := (if unresolved then ''disputed'' else ''active''), c_updated_at := now\<rparr>))
      | _ \<Rightarrow> None)"

section \<open>Transitions\<close>

definition authority_exceeds :: "memory \<Rightarrow> memory_claim \<Rightarrow> ledger_error + bool" where
  "authority_exceeds m c =
     (if c_authority_priority c > 20 then Inr True
      else case py_dict (dget (metadata_json m) ''provenance'' PNone) of
             None \<Rightarrow> Inl MalformedProvenance
           | Some prov \<Rightarrow>
               (case authority_priority prov ''preference'' of None \<Rightarrow> Inl MalformedProvenance | Some n \<Rightarrow> Inr (n > 20)))"

text \<open>The transition of a declaration that names its target.\<close>

definition bound_transition :: "pref_env \<Rightarrow> utc \<Rightarrow> pref_claim \<Rightarrow> pref_claim \<Rightarrow> bool \<Rightarrow> memory_claim \<Rightarrow> memory \<Rightarrow> ledger_error + string" where
  "bound_transition E now q stored holding c m =
     (if pc_replaces_memory_id q \<noteq> Some (uuid_str E (m_id m)) \<or> pc_replaces_version q \<noteq> Some (target_version E m)
      then Inr ''preference_target_stale''
      else
        (case authority_exceeds m c of
           Inl x \<Rightarrow> Inl x
         | Inr True \<Rightarrow> Inr ''preference_authority_insufficient''
         | Inr False \<Rightarrow>
             if pc_choice_state q = ''current_choice_unresolved''
             then Inr (if current_target now m then ''WITHHOLD'' else ''preference_target_stale'')
             else if holding \<and> current_target now m \<and> pc_value stored = pc_value q then Inr ''REAFFIRM''
             else if holding \<and> \<not> current_target now m then Inr ''UPDATE''
             else Inr (if is_archived m \<or> pc_value stored \<noteq> pc_value q then ''UPDATE'' else ''DEDUP'')))"

definition ledger_consistent :: "pref_claim \<Rightarrow> bool \<Rightarrow> memory_claim \<Rightarrow> memory \<Rightarrow> bool" where
  "ledger_consistent stored holding c m \<longleftrightarrow>
     (c_status c \<in> {''active'', ''archived''} \<or> (c_status c = ''disputed'' \<and> holding)) \<and>
     active_value c = Some (pc_value stored) \<and> (c_status c = ''archived'' \<longrightarrow> is_archived m)"

definition transition_reason :: "pref_env \<Rightarrow> utc \<Rightarrow> pref_claim \<Rightarrow> memory_claim option \<Rightarrow> memory option \<Rightarrow> ledger_error + string" where
  "transition_reason E now q ledger target =
     (if pa_kind (pc_applicability q) = ''unresolved'' \<or>
         (pc_commitment q = ''uncertain'' \<and> pc_choice_state q \<noteq> ''current_choice_unresolved'')
      then Inr ''preference_requires_review''
      else
        (case ledger of
           None \<Rightarrow> Inr ''preference_target_stale''
         | Some c \<Rightarrow>
             (case (active_memory_id c, target) of
                (None, _) \<Rightarrow> Inr (if binds_target q then ''preference_target_stale'' else ''NEW'')
              | (Some i, None) \<Rightarrow> Inr ''preference_target_stale''
              | (Some i, Some m) \<Rightarrow>
                  if m_id m \<noteq> i then Inr ''preference_target_stale''
                  else
                    (case memory_declaration m of
                       Inl x \<Rightarrow> Inl x
                     | Inr None \<Rightarrow> Inr ''preference_identity_mismatch''
                     | Inr (Some stored) \<Rightarrow>
                         if ci_fingerprint (declaration_identity E stored) \<noteq> ci_fingerprint (declaration_identity E q)
                         then Inr ''preference_identity_mismatch''
                         else
                           (case held_choice E m c of
                              Inl x \<Rightarrow> Inl x
                            | Inr holding \<Rightarrow>
                                if \<not> ledger_consistent stored holding c m then Inr ''preference_ledger_inconsistent''
                                else if binds_target q then bound_transition E now q stored holding c m
                                else if holding then Inr ''preference_requires_review''
                                else if is_archived m then Inr ''preference_target_stale''
                                else Inr (if pc_value stored = pc_value q then ''DEDUP'' else ''preference_conflict''))))))"

text \<open>
  Reaffirming a held choice from its review card. \<open>binding\<close> is what the card is bound to: the
  fingerprint, the evidence key and the claim, if it names one.
\<close>

definition reaffirm_review_choice ::
  "pref_env \<Rightarrow> (string \<times> string \<times> uuid option) option \<Rightarrow> uuid \<Rightarrow> utc \<Rightarrow> memory \<Rightarrow> memory_claim \<Rightarrow> ledger_error + (memory \<times> memory_claim) option" where
  "reaffirm_review_choice E binding generation now m c =
     (case py_dict (dget (metadata_json m) choice_state_marker PNone) of
        None \<Rightarrow> Inl MalformedProvenance
      | Some marker \<Rightarrow>
          (case held_choice E m c of
             Inl x \<Rightarrow> Inl x
           | Inr held \<Rightarrow>
               if \<not> held \<or> c_status c \<noteq> ''disputed'' \<or> \<not> current_target now m then Inr None
               else
                 (case authority_exceeds m c of
                    Inl x \<Rightarrow> Inl x
                  | Inr True \<Rightarrow> Inr None
                  | Inr False \<Rightarrow>
                      (case binding of
                         None \<Rightarrow> Inr None
                       | Some (fp, key, claim) \<Rightarrow>
                           if claim_fingerprint c \<noteq> fp \<or> dget marker ''evidence_key'' PNone \<noteq> PStr key \<or>
                              (case claim of None \<Rightarrow> False | Some i \<Rightarrow> c_id c \<noteq> i)
                           then Inr None
                           else Inr (set_choice_state E False None None generation now m c)))))"

section \<open>Claims of preferences\<close>

definition vacant_claim :: "pref_env \<Rightarrow> uuid \<Rightarrow> uuid \<Rightarrow> pref_claim \<Rightarrow> db \<Rightarrow> memory_claim" where
  "vacant_claim E tenant proxy q d =
     (let i = declaration_identity E q
      in \<lparr>c_id = next_id d, c_tenant_id = tenant, c_proxy_user_id = proxy, c_category = Preference, claim_fingerprint = ci_fingerprint i,
          subject_key = ci_subject_key i, predicate_key = ci_predicate_key i, c_scope = ci_scope i, active_value = None,
          c_status = ''disputed'', active_memory_id = None, winning_revision_id = None, c_authority_priority = 20,
          c_confidence_score = 0, c_observed_at = None, effective_at = db_now d, c_updated_at = db_now d\<rparr>)"

text \<open>\<open>INSERT \<dots> ON CONFLICT DO NOTHING\<close>, then the locked row.\<close>

definition reserve_claim :: "pref_env \<Rightarrow> uuid \<Rightarrow> uuid \<Rightarrow> pref_claim \<Rightarrow> bool \<Rightarrow> db \<Rightarrow> memory_claim option \<times> db" where
  "reserve_claim E tenant proxy q create d =
     (let fp = ci_fingerprint (declaration_identity E q);
          d' = (if create \<and> find_claim tenant proxy fp d = None then add_claim (vacant_claim E tenant proxy q d) d else d)
      in (find_claim tenant proxy fp d', d'))"

datatype lifecycle_error = LifecycleLedger ledger_error | MemoryNotFound

definition archive_winner :: "memory_claim \<Rightarrow> db \<Rightarrow> db" where
  "archive_winner c d =
     (let d1 = put_claim (c\<lparr>c_status := ''archived''\<rparr>) d
      in case winning_revision_id c of
           None \<Rightarrow> d1
         | Some w \<Rightarrow> (case get_revision w d1 of None \<Rightarrow> d1 | Some r \<Rightarrow> put_revision (r\<lparr>r_status := ''archived''\<rparr>) d1))"

definition lock_preference_lifecycle :: "pref_env \<Rightarrow> memory \<Rightarrow> bool \<Rightarrow> db \<Rightarrow> lifecycle_error + (memory \<times> db)" where
  "lock_preference_lifecycle E m archive d =
     (case memory_declaration m of
        Inl x \<Rightarrow> Inl (LifecycleLedger x)
      | Inr None \<Rightarrow> Inr (m, d)
      | Inr (Some q) \<Rightarrow>
          (let cl = find_row (\<lambda>c. c_proxy_user_id c = m_proxy_user_id m \<and> claim_fingerprint c = ci_fingerprint (declaration_identity E q)) (claims d)
           in case find_row (\<lambda>x. m_id x = m_id m \<and> m_proxy_user_id x = m_proxy_user_id m) (memories d) of
                None \<Rightarrow> Inl MemoryNotFound
              | Some current \<Rightarrow>
                  Inr (current, case cl of
                                  Some c \<Rightarrow> if archive \<and> active_memory_id c = Some (m_id current) then archive_winner c d else d
                                | None \<Rightarrow> d)))"

definition legacy_memory :: "memory \<Rightarrow> bool" where
  "legacy_memory m \<longleftrightarrow>
     (case dget (metadata_json m) ''provenance'' PNone of
        PDict prov \<Rightarrow> (case dget prov ''extraction_evidence'' PNone of PDict ev \<Rightarrow> dget ev preference_marker PNone = PNone | _ \<Rightarrow> True)
      | _ \<Rightarrow> True)"

section \<open>Properties of the transitions\<close>

text \<open>
  (C37) A stored preference changes only against its current version: whenever the policy lets a
  declaration update, withhold or reaffirm a claim, the declaration names the memory the claim
  holds and the version of it that is stored, both have the same identity, the claim agrees with
  the stored declaration, and neither the claim nor the memory carries more than the
  application's own authority. A new assertion goes through only when the claim holds nothing.
\<close>

theorem preference_changes_need_current_version:
  assumes run: "transition_reason E now q ledger target = Inr reason"
  shows "(reason \<in> {''UPDATE'', ''WITHHOLD'', ''REAFFIRM''} \<longrightarrow>
     (\<exists>c m stored. ledger = Some c \<and> target = Some m \<and> active_memory_id c = Some (m_id m) \<and>
        memory_declaration m = Inr (Some stored) \<and>
        ci_fingerprint (declaration_identity E stored) = ci_fingerprint (declaration_identity E q) \<and>
        active_value c = Some (pc_value stored) \<and> binds_target q \<and>
        pc_replaces_memory_id q = Some (uuid_str E (m_id m)) \<and> pc_replaces_version q = Some (target_version E m) \<and>
        c_authority_priority c \<le> 20 \<and> authority_exceeds m c = Inr False)) \<and>
   (reason = ''NEW'' \<longrightarrow> (\<exists>c. ledger = Some c \<and> active_memory_id c = None \<and> \<not> binds_target q))"
proof -
  have auth: "c_authority_priority c \<le> 20" if "authority_exceeds m c = Inr False" for c m
    using that by (auto simp: authority_exceeds_def split: if_splits)
  show ?thesis
  proof (cases "\<exists>c m i. ledger = Some c \<and> target = Some m \<and> active_memory_id c = Some i")
    case False
    then show ?thesis using run by (cases ledger; cases target) (auto simp: transition_reason_def split: if_splits option.splits)
  next
    case True
    then obtain c m i where c: "ledger = Some c" "target = Some m" "active_memory_id c = Some i" by blast
    consider (other) "reason \<notin> {''UPDATE'', ''WITHHOLD'', ''REAFFIRM'', ''NEW''}"
      | (bound) stored holding where "m_id m = i" "memory_declaration m = Inr (Some stored)"
          "ci_fingerprint (declaration_identity E stored) = ci_fingerprint (declaration_identity E q)"
          "ledger_consistent stored holding c m" "binds_target q" "bound_transition E now q stored holding c m = Inr reason"
      using run unfolding transition_reason_def c option.case prod.case
      by (auto split: if_splits sum.splits option.splits)
    then show ?thesis
    proof cases
      case other
      then show ?thesis by simp
    next
      case bound
      have "reason \<noteq> ''NEW''" using bound(6) by (auto simp: bound_transition_def split: if_splits sum.splits bool.splits)
      moreover have "pc_replaces_memory_id q = Some (uuid_str E (m_id m)) \<and> pc_replaces_version q = Some (target_version E m) \<and>
          authority_exceeds m c = Inr False" if "reason \<in> {''UPDATE'', ''WITHHOLD'', ''REAFFIRM''}"
        using bound(6) that by (auto simp: bound_transition_def split: if_splits sum.splits bool.splits)
      ultimately show ?thesis using bound c auth by (auto simp: ledger_consistent_def)
    qed
  qed
qed

section \<open>Claims of preferences and the ledger\<close>

lemma find_claim_fresh:
  assumes "find_claim t p fp d = None" and "c_tenant_id c = t" "c_proxy_user_id c = p" "claim_fingerprint c = fp"
  shows "find_claim t p fp (add_claim c d) = Some c"
proof -
  have "find_row q (xs @ [x]) = Some x" if "find_row q xs = None" "q x" for q :: "memory_claim \<Rightarrow> bool" and xs x
    using that by (induction xs) (auto simp: find_row_def split: if_splits)
  then show ?thesis using assms by (simp add: find_claim_def add_claim_def)
qed

text \<open>
  Reserving the claim of a preference is safe and repeatable: it keeps the ledger and the keys
  consistent and touches no memory and no revision, a reservation that may create always returns
  the claim of the declared identity, and reserving again changes nothing.
\<close>

theorem reserve_claim_is_idempotent:
  assumes inv: "ledger_inv d" and keys: "keys_ok d" and run: "reserve_claim E t p q create d = (cl, d')"
  shows "ledger_inv d' \<and> keys_ok d' \<and> memories d' = memories d \<and> revisions d' = revisions d \<and>
    reserve_claim E t p q create d' = (cl, d') \<and>
    (create \<longrightarrow> (\<exists>c. cl = Some c \<and> c_tenant_id c = t \<and> c_proxy_user_id c = p \<and> claim_fingerprint c = ci_fingerprint (declaration_identity E q)))"
proof (cases "create \<and> find_claim t p (ci_fingerprint (declaration_identity E q)) d = None")
  case False
  then have "d' = d" "cl = find_claim t p (ci_fingerprint (declaration_identity E q)) d" using run by (auto simp: reserve_claim_def Let_def)
  then show ?thesis using inv keys False run find_claim_Some [of t p _ d] by (auto simp: reserve_claim_def Let_def)
next
  case True
  let ?c = "vacant_claim E t p q d"
  have d': "d' = add_claim ?c d" and cl: "cl = find_claim t p (ci_fingerprint (declaration_identity E q)) d'"
    using run True by (auto simp: reserve_claim_def Let_def)
  have c: "c_id ?c = next_id d" "active_memory_id ?c = None" "winning_revision_id ?c = None" "c_tenant_id ?c = t" "c_proxy_user_id ?c = p"
      "claim_fingerprint ?c = ci_fingerprint (declaration_identity E q)"
    by (simp_all add: vacant_claim_def Let_def)
  have found: "cl = Some ?c" unfolding cl d' by (rule find_claim_fresh) (use True c in simp_all)
  have nocl: "claim_view d (c_id ?c) = None" using keys_fresh(1) [OF keys, of "next_id d"] c(1) by simp
  note V = add_claim_views [OF nocl]
  have "winners_ok (mem_view d) ((claim_view d)(c_id ?c := Some ?c)) (rev_view d)"
    by (rule new_claim_ok [OF ledger_invD(3) [OF inv] nocl c(2,3)])
  then have "ledger_inv d'" using ledger_invD(1,2) [OF inv] by (simp add: d' ledger_inv_def V)
  moreover have "keys_ok d'" using keys c(1) by (auto simp: d' add_claim_def keys_ok_def less_Suc_eq)
  moreover have "reserve_claim E t p q create d' = (cl, d')" using found cl True by (simp add: reserve_claim_def Let_def)
  moreover have "memories d' = memories d" "revisions d' = revisions d" by (simp_all add: d' add_claim_def)
  ultimately show ?thesis using found c by simp
qed

text \<open>The tables after the lock of an archiving call, once the memory is archived too.\<close>

lemma archive_winner_views:
  assumes "claim_view d (c_id c) = Some c" and "winning_revision_id c = Some w" and "rev_view d w = Some r"
  shows "claim_view (archive_winner c d) = (claim_view d)(c_id c := Some (c\<lparr>c_status := ''archived''\<rparr>))"
    and "rev_view (archive_winner c d) = (rev_view d)(w := Some (r\<lparr>r_status := ''archived''\<rparr>))"
    and "mem_view (archive_winner c d) = mem_view d"
    and "map r_id (revisions (archive_winner c d)) = map r_id (revisions d)"
proof -
  let ?c = "c\<lparr>c_status := ''archived''\<rparr>" and ?r = "r\<lparr>r_status := ''archived''\<rparr>"
  have id: "r_id r = w" by (rule view_ids(3) [OF assms(3)])
  have "get_revision w (put_claim ?c d) = Some r" using assms(3) by (simp add: rev_view_def [symmetric])
  then have a: "archive_winner c d = put_revision ?r (put_claim ?c d)" using assms(2) by (simp add: archive_winner_def Let_def)
  show "claim_view (archive_winner c d) = (claim_view d)(c_id c := Some ?c)"
    unfolding a using view_put_claim [of d ?c] assms(1) by simp
  show "rev_view (archive_winner c d) = (rev_view d)(w := Some ?r)"
    unfolding a using view_put_revision [of "put_claim ?c d" ?r] assms(3) id by simp
  show "mem_view (archive_winner c d) = mem_view d" unfolding a by simp
  show "map r_id (revisions (archive_winner c d)) = map r_id (revisions d)"
    unfolding a using rev_table.store_keys [of ?r "revisions d"] by (simp add: put_revision_def put_claim_def rev_table.store_row_def)
qed

lemma archive_winner_ok:
  assumes inv: "ledger_inv d" and c: "claim_view d (c_id c) = Some c" "active_memory_id c = Some i"
    and m': "is_archived m'" and d': "claim_view d' = claim_view (archive_winner c d)" "rev_view d' = rev_view (archive_winner c d)"
      "mem_view d' = (mem_view d)(i := Some m')" "map r_id (revisions d') = map r_id (revisions d)"
  shows "ledger_inv d'"
proof -
  note I = ledger_invD [OF inv]
  obtain w r where w: "winning_revision_id c = Some w" "rev_view d w = Some r" by (rule winners_active [OF I(3) c])
  note V = archive_winner_views [OF c(1) w]
  let ?c = "c\<lparr>c_status := ''archived''\<rparr>" and ?r = "r\<lparr>r_status := ''archived''\<rparr>"
  have "winners_ok ((mem_view d)(i := Some m')) ((claim_view d)(c_id c := Some ?c)) ((rev_view d)(w := Some ?r))"
    by (rule tombstone_ok [OF I(3,2) c w]) (use c w m' in simp_all)
  moreover have "revisions_ok ((rev_view d)(w := Some ?r))" by (rule revisions_ok_update [OF I(2) w(2)]) simp_all
  ultimately show ?thesis using I(1) by (simp add: ledger_inv_def d' V)
qed

section \<open>Witnesses\<close>

definition example_declaration :: pref_claim where
  "example_declaration =
     \<lparr>pc_property_key = ''drink'', pc_value = ''tea'', pc_applicability = \<lparr>pa_kind = ''global'', pa_namespace = None, pa_key = None\<rparr>,
      pc_turn_index = 0, pc_quote = ''tea'', pc_commitment = ''asserted'', pc_choice_state = ''candidate_only'',
      pc_replaces_memory_id = None, pc_replaces_version = None\<rparr>"

definition example_pref_env :: pref_env where
  "example_pref_env = \<lparr>ledger_part = example_env, snapshot_digest = (\<lambda>_. ''v''), choice_digest = (\<lambda>_. ''k''), uuid_str = (\<lambda>_. ''u'')\<rparr>"

definition example_raw :: pyval where
  "example_raw = PDict [(''property_key'', PStr ''drink''), (''value'', PStr '' tea''), (''applicability'', PDict [(''kind'', PStr ''global'')]),
     (''turn_index'', PInt 0), (''quote'', PStr ''tea'')]"

lemma example_validates: "validate_claim example_raw = Some example_declaration"
  by (simp add: validate_claim_def example_raw_def example_declaration_def required_text_def optional_text_def defaulted_text_def
      validate_applicability_def applicability_ok_def optional_uuid_def trim_def is_blank_def claim_fields_def claim_ok_def valid_property_key_def
      is_lower_letter_def is_digit_def py_contains_def py_strip_def is_space_def binds_target_def Let_def)

theorem declaration_roundtrip_witness: "validate_claim (dump_claim example_declaration) = Some example_declaration"
  by (rule declaration_roundtrip [OF example_validates])

theorem preference_changes_need_current_version_witness:
  "transition_reason example_pref_env 0 example_declaration (Some (example_claim\<lparr>active_memory_id := None\<rparr>)) None = Inr ''NEW'' \<and>
   active_memory_id (example_claim\<lparr>active_memory_id := None\<rparr>) = None"
proof -
  have r: "transition_reason example_pref_env 0 example_declaration (Some (example_claim\<lparr>active_memory_id := None\<rparr>)) None = Inr ''NEW''"
    by (simp add: transition_reason_def example_declaration_def binds_target_def)
  from preference_changes_need_current_version [OF r] r show ?thesis by simp
qed

theorem reserve_claim_is_idempotent_witness:
  "ledger_inv (snd (reserve_claim example_pref_env 90 80 example_declaration True example_unrecorded)) \<and>
   reserve_claim example_pref_env 90 80 example_declaration True (snd (reserve_claim example_pref_env 90 80 example_declaration True example_unrecorded)) =
     reserve_claim example_pref_env 90 80 example_declaration True example_unrecorded"
proof -
  obtain cl d' where r: "reserve_claim example_pref_env 90 80 example_declaration True example_unrecorded = (cl, d')" by fastforce
  from reserve_claim_is_idempotent [OF example_unrecorded_inv r] r show ?thesis by simp
qed

end
