(* ===== verification/Memories.thy ===== *)
theory Memories
  imports Preferences Conflicts "HOL-Library.Product_Lexorder"
begin

text \<open>
  The memory service: \<open>src/api/services/memory_service.py\<close> with the resolution of users in
  \<open>src/api/services/common.py\<close>. Listing with cursors, authorised reads, updates, archiving and hard
  deletion with the reconciliation of the claim ledger.

  The environment \<open>memory_env\<close> holds the users, the embedding models, the embedding service for the
  active model, the encryption of a text, the parser of UUIDs and the clock. The invalidation of
  the retrieval caches is part of the model of retrieval.
\<close>

section \<open>Callers\<close>

record user_row =
  u_id :: uuid
  u_external_id :: string

datatype api_error =
    Unauthorized
  | UserNotFound
  | Forbidden
  | ProxyUserBlocked
  | NoSuchMemory
  | RequiresVersionedReplacement
  | EmbeddingDown string
  | BadDeclaration ledger_error

record memory_env =
  me_users :: "user_row list"
  me_models :: "embedding_model list"
  me_embed :: "string \<Rightarrow> string + embedding_result"
  me_encrypt :: "uuid \<Rightarrow> uuid \<Rightarrow> string \<Rightarrow> pyval"
  me_uuid_of :: "string \<Rightarrow> uuid option"
  me_pref :: pref_env
  me_include_content :: bool
  me_now :: utc

definition get_user_by_identifier :: "memory_env \<Rightarrow> string \<Rightarrow> user_row option" where
  "get_user_by_identifier E s =
     (case Option.bind (me_uuid_of E s) (\<lambda>i. find_row (\<lambda>u. u_id u = i) (me_users E)) of
        Some u \<Rightarrow> Some u
      | None \<Rightarrow> find_row (\<lambda>u. u_external_id u = s) (me_users E))"

definition require_user_by_identifier :: "memory_env \<Rightarrow> string \<Rightarrow> api_error + user_row" where
  "require_user_by_identifier E s = (case get_user_by_identifier E s of None \<Rightarrow> Inl UserNotFound | Some u \<Rightarrow> Inr u)"

definition resolve_authorized_user :: "memory_env \<Rightarrow> string option \<Rightarrow> string \<Rightarrow> api_error + user_row" where
  "resolve_authorized_user E requested auth =
     (case require_user_by_identifier E auth of
        Inl x \<Rightarrow> Inl x
      | Inr u \<Rightarrow>
          (case requested of
             None \<Rightarrow> Inr u
           | Some r \<Rightarrow>
               (case require_user_by_identifier E r of
                  Inl x \<Rightarrow> Inl x
                | Inr v \<Rightarrow> if u_id v \<noteq> u_id u then Inl Forbidden else Inr v)))"

text \<open>An empty identifier counts as none.\<close>

definition given :: "string option \<Rightarrow> bool" where
  "given s = (case s of None \<Rightarrow> False | Some t \<Rightarrow> t \<noteq> [])"

definition proxy_of :: "memory \<Rightarrow> db \<Rightarrow> proxy_user option" where
  "proxy_of m d = find_row (\<lambda>p. p_id p = m_proxy_user_id m) (proxy_users d)"

definition tenant_owns :: "uuid \<Rightarrow> string option \<Rightarrow> db \<Rightarrow> memory \<Rightarrow> bool" where
  "tenant_owns t ext d m =
     (case proxy_of m d of
        None \<Rightarrow> False
      | Some p \<Rightarrow> p_tenant_id p = t \<and> \<not> is_blocked p \<and> (case ext of None \<Rightarrow> True | Some x \<Rightarrow> p_external_user_id p = x))"

definition unblocked_owner :: "db \<Rightarrow> memory \<Rightarrow> bool" where
  "unblocked_owner d m = (case proxy_of m d of None \<Rightarrow> False | Some p \<Rightarrow> \<not> is_blocked p)"

definition get_authorized_memory :: "memory_env \<Rightarrow> string option \<Rightarrow> uuid \<Rightarrow> uuid option \<Rightarrow> string option \<Rightarrow> db \<Rightarrow> api_error + memory" where
  "get_authorized_memory E auth i tenant ext d =
     (case tenant of
        Some t \<Rightarrow>
          (case find_row (\<lambda>m. m_id m = i \<and> tenant_owns t ext d m) (memories d) of None \<Rightarrow> Inl NoSuchMemory | Some m \<Rightarrow> Inr m)
      | None \<Rightarrow>
          if \<not> given auth then Inl Unauthorized
          else
            (case resolve_authorized_user E None (the auth) of
               Inl x \<Rightarrow> Inl x
             | Inr u \<Rightarrow>
                 (case get_memory i d of
                    None \<Rightarrow> Inl NoSuchMemory
                  | Some m \<Rightarrow> if m_user_id m = u_id u \<and> unblocked_owner d m then Inr m else Inl NoSuchMemory)))"

section \<open>Listing\<close>

definition listed :: "string list \<Rightarrow> uuid option \<Rightarrow> memory \<Rightarrow> bool" where
  "listed categories agent m \<longleftrightarrow>
     (categories = [] \<or> category_value (category m) \<in> set categories) \<and> (case agent of None \<Rightarrow> True | Some a \<Rightarrow> m_agent_id m = Some a)"

text \<open>The rows of the base query; an empty external id is no restriction, but its owner is checked.\<close>

definition base_rows ::
  "memory_env \<Rightarrow> string option \<Rightarrow> string option \<Rightarrow> uuid option \<Rightarrow> string option \<Rightarrow> string list \<Rightarrow> uuid option \<Rightarrow> db \<Rightarrow> api_error + memory list" where
  "base_rows E requested auth tenant ext categories agent d =
     (case tenant of
        Some t \<Rightarrow>
          if (case ext of
                None \<Rightarrow> False
              | Some x \<Rightarrow> (case find_row (\<lambda>p. p_tenant_id p = t \<and> p_external_user_id p = x) (proxy_users d) of
                             None \<Rightarrow> False | Some p \<Rightarrow> is_blocked p))
          then Inl ProxyUserBlocked
          else Inr (filter (\<lambda>m. tenant_owns t (if given ext then ext else None) d m \<and> listed categories agent m) (memories d))
      | None \<Rightarrow>
          if \<not> given auth then Inl Unauthorized
          else
            (case resolve_authorized_user E requested (the auth) of
               Inl x \<Rightarrow> Inl x
             | Inr u \<Rightarrow> Inr (filter (\<lambda>m. m_user_id m = u_id u \<and> unblocked_owner d m \<and> listed categories agent m) (memories d))))"

text \<open>The order of the listing: newest first, and by descending id.\<close>

definition page_key :: "memory \<Rightarrow> int \<times> int" where
  "page_key m = (- created_at m, - int (m_id m))"

definition after_cursor :: "uuid option \<Rightarrow> memory list \<Rightarrow> memory list" where
  "after_cursor cursor ms =
     (case Option.bind cursor (\<lambda>i. find_row (\<lambda>m. m_id m = i) ms) of
        None \<Rightarrow> ms
      | Some c \<Rightarrow> filter (\<lambda>m. created_at m < created_at c \<or> (created_at m = created_at c \<and> m_id m < m_id c)) ms)"

definition page_of :: "uuid option \<Rightarrow> nat \<Rightarrow> memory list \<Rightarrow> memory list \<times> uuid option" where
  "page_of cursor limit ms =
     (let page = take (limit + 1) (sort_key page_key (after_cursor cursor ms));
          shown = take limit page
      in (shown, if length page > limit \<and> shown \<noteq> [] then Some (m_id (last shown)) else None))"

definition list_memories ::
  "memory_env \<Rightarrow> string option \<Rightarrow> string option \<Rightarrow> uuid option \<Rightarrow> uuid option \<Rightarrow> nat \<Rightarrow> string list \<Rightarrow> uuid option \<Rightarrow> string option \<Rightarrow> db \<Rightarrow>
     api_error + (memory list \<times> uuid option \<times> nat)" where
  "list_memories E requested auth tenant cursor limit categories agent ext d =
     (case base_rows E requested auth tenant ext categories agent d of
        Inl x \<Rightarrow> Inl x
      | Inr ms \<Rightarrow> (case page_of cursor limit ms of (shown, next) \<Rightarrow> Inr (shown, next, length ms)))"

text \<open>The slice of a sorted listing, which the service keeps as a helper.\<close>

definition slice_with_cursor :: "memory list \<Rightarrow> uuid option \<Rightarrow> nat \<Rightarrow> memory list" where
  "slice_with_cursor items cursor limit =
     (case cursor of
        None \<Rightarrow> take limit items
      | Some c \<Rightarrow> (case dropWhile (\<lambda>m. m_id m \<noteq> c) items of [] \<Rightarrow> take limit items | _ # rest \<Rightarrow> take limit rest))"

text \<open>A client that follows the cursors of a listing, at most \<open>n\<close> calls after the first.\<close>

fun follow_cursors :: "nat \<Rightarrow> uuid option \<Rightarrow> (uuid option \<Rightarrow> api_error + (memory list \<times> uuid option \<times> nat)) \<Rightarrow> api_error + memory list" where
  "follow_cursors n cursor fetch =
     (case fetch cursor of
        Inl x \<Rightarrow> Inl x
      | Inr (shown, None, _) \<Rightarrow> Inr shown
      | Inr (shown, Some c, _) \<Rightarrow> (case n of 0 \<Rightarrow> Inr shown | Suc k \<Rightarrow> map_sum id (\<lambda>rest. shown @ rest) (follow_cursors k (Some c) fetch)))"

declare follow_cursors.simps [simp del]

section \<open>Updating and archiving\<close>

definition collection_for :: "memory_env \<Rightarrow> memory \<Rightarrow> string option" where
  "collection_for E m =
     (if embedding_model_id m = [] then None
      else map_option em_collection (find_row (\<lambda>x. em_id x = embedding_model_id m) (me_models E)))"

definition enqueue_removal :: "memory_env \<Rightarrow> memory \<Rightarrow> db \<Rightarrow> db" where
  "enqueue_removal E m d =
     enqueue_vector_delete (m_id m)
       [(''memory_id'', PInt (int (m_id m))), (''embedding_model_id'', PStr (embedding_model_id m)),
        (''qdrant_collection'', opt_text (collection_for E m))] d"

definition record_user_change :: "memory \<Rightarrow> string \<Rightarrow> string \<Rightarrow> db \<Rightarrow> db" where
  "record_user_change m kind reason d = snd (safe_record_version m kind (Some reason) ''user'' d)"

definition lifecycle_failure :: "lifecycle_error \<Rightarrow> api_error" where
  "lifecycle_failure x = (case x of LifecycleLedger y \<Rightarrow> BadDeclaration y | MemoryNotFound \<Rightarrow> NoSuchMemory)"

definition edited_memory :: "memory_env \<Rightarrow> uuid option \<Rightarrow> string option \<Rightarrow> pyfloat option \<Rightarrow> bool option \<Rightarrow> memory \<Rightarrow> memory" where
  "edited_memory E tenant text imp arch m =
     (let m1 = (case text of
                  None \<Rightarrow> m
                | Some s \<Rightarrow> (case tenant of
                              None \<Rightarrow> m\<lparr>content := s\<rparr>
                            | Some t \<Rightarrow> m\<lparr>content := s, content_envelope := me_encrypt E t (m_id m) s\<rparr>));
          m2 = (case imp of None \<Rightarrow> m1 | Some x \<Rightarrow> m1\<lparr>importance_score := x\<rparr>);
          m3 = (case arch of None \<Rightarrow> m2 | Some b \<Rightarrow> m2\<lparr>is_archived := b\<rparr>)
      in m3\<lparr>m_updated_at := me_now E\<rparr>)"

definition reindexed :: "memory_env \<Rightarrow> embedding_result \<Rightarrow> memory \<Rightarrow> db \<Rightarrow> db" where
  "reindexed E er m d =
     (let m' = m\<lparr>embedding_model_id := er_model_id er\<rparr>
      in enqueue_vector_upsert (m_id m) (er_vector er)
           (build_vector_payload (me_include_content E) m' (map_option p_tenant_id (proxy_of m d)) (Some (m_proxy_user_id m))
              (Some (m_user_id m)) (Some (er_model_id er)) (Some (er_collection er)))
           (put_memory m' d))"

definition update_memory ::
  "memory_env \<Rightarrow> string option \<Rightarrow> uuid \<Rightarrow> string option \<Rightarrow> pyfloat option \<Rightarrow> bool option \<Rightarrow> uuid option \<Rightarrow> string option \<Rightarrow> db \<Rightarrow> api_error + db" where
  "update_memory E auth i text imp arch tenant ext d =
     (case get_authorized_memory E auth i tenant ext d of
        Inl x \<Rightarrow> Inl x
      | Inr m \<Rightarrow>
          (case memory_declaration m of
             Inl x \<Rightarrow> Inl (BadDeclaration x)
           | Inr q \<Rightarrow>
               if q \<noteq> None \<and> (text \<noteq> None \<or> arch = Some False) then Inl RequiresVersionedReplacement
               else
                 (let sync = (text \<noteq> None \<or> imp \<noteq> None \<or> arch \<noteq> None);
                      next_archived = (case arch of None \<Rightarrow> is_archived m | Some b \<Rightarrow> b);
                      next_text = (case text of None \<Rightarrow> content m | Some s \<Rightarrow> s)
                  in case (if sync \<and> \<not> next_archived then map_sum id Some (me_embed E next_text) else Inr None) of
                       Inl x \<Rightarrow> Inl (EmbeddingDown x)
                     | Inr er \<Rightarrow>
                         (case (if arch = Some True then lock_preference_lifecycle (me_pref E) m True d else Inr (m, d)) of
                            Inl x \<Rightarrow> Inl (lifecycle_failure x)
                          | Inr (m1, d1) \<Rightarrow>
                              (let m2 = edited_memory E tenant text imp arch m1;
                                   d2 = put_memory m2 d1;
                                   d3 = (if text \<noteq> None \<or> imp \<noteq> None then record_user_change m2 ''manual_edit'' ''Edited by tenant admin'' d2
                                         else if arch = Some True then record_user_change m2 ''archived'' ''Archived by tenant admin'' d2
                                         else d2)
                               in Inr (if \<not> sync then d3
                                       else if is_archived m2 then enqueue_removal E m2 d3
                                       else case er of None \<Rightarrow> d3 | Some r \<Rightarrow> reindexed E r m2 d3))))))"

section \<open>Deletion\<close>

text \<open>
  Deleting the row: its versions and revisions go with it, references to it and to its revisions
  are set to null.
\<close>

definition clear_previous :: "uuid \<Rightarrow> memory \<Rightarrow> memory" where
  "clear_previous i m = (if previous_version_id m = Some i then m\<lparr>previous_version_id := None\<rparr> else m)"

definition clear_claim :: "uuid \<Rightarrow> uuid set \<Rightarrow> memory_claim \<Rightarrow> memory_claim" where
  "clear_claim i ws c =
     c\<lparr>active_memory_id := (if active_memory_id c = Some i then None else active_memory_id c),
       winning_revision_id := (case winning_revision_id c of None \<Rightarrow> None | Some w \<Rightarrow> if w \<in> ws then None else Some w)\<rparr>"

definition delete_row :: "uuid \<Rightarrow> db \<Rightarrow> db" where
  "delete_row i d =
     (let ws = r_id ` set (filter (\<lambda>r. r_memory_id r = Some i) (revisions d))
      in d\<lparr>memories := map (clear_previous i) (filter (\<lambda>m. m_id m \<noteq> i) (memories d)),
           versions := filter (\<lambda>v. v_memory_id v \<noteq> i) (versions d),
           revisions := filter (\<lambda>r. r_memory_id r \<noteq> Some i) (revisions d),
           claims := map (clear_claim i ws) (claims d)\<rparr>)"

definition reconciled_claim :: "utc \<Rightarrow> claim_revision list \<Rightarrow> memory_claim \<Rightarrow> memory_claim" where
  "reconciled_claim now rs c =
     (case filter (\<lambda>r. r_status r = ''activated'') rs of
        [w] \<Rightarrow> c\<lparr>c_status := ''active'', active_value := Some (asserted_value w), active_memory_id := r_memory_id w,
                 winning_revision_id := Some (r_id w), c_authority_priority := r_authority_priority w,
                 c_confidence_score := r_confidence_score w,
                 c_observed_at := (case r_observed_at w of None \<Rightarrow> c_observed_at c | Some t \<Rightarrow> Some t), c_updated_at := now\<rparr>
      | _ \<Rightarrow> c\<lparr>c_status := ''archived'', active_value := None, active_memory_id := None, winning_revision_id := None,
              c_updated_at := now\<rparr>)"

definition reconcile_claims :: "uuid set \<Rightarrow> utc \<Rightarrow> db \<Rightarrow> db" where
  "reconcile_claims ks now d =
     (let rows = (\<lambda>k. sort_key (\<lambda>r. - r_created_at r) (filter (\<lambda>r. r_claim_id r = k) (revisions d)))
      in d\<lparr>claims := map (\<lambda>c. if c_id c \<in> ks then reconciled_claim now (rows (c_id c)) c else c)
             (filter (\<lambda>c. c_id c \<notin> ks \<or> rows (c_id c) \<noteq> []) (claims d))\<rparr>)"

definition hard_delete :: "utc \<Rightarrow> uuid \<Rightarrow> db \<Rightarrow> db" where
  "hard_delete now i d =
     reconcile_claims (r_claim_id ` set (filter (\<lambda>r. r_memory_id r = Some i) (revisions d))) now (delete_row i d)"

definition delete_stored_memory :: "memory_env \<Rightarrow> string option \<Rightarrow> uuid \<Rightarrow> bool \<Rightarrow> uuid option \<Rightarrow> string option \<Rightarrow> db \<Rightarrow> api_error + db" where
  "delete_stored_memory E auth i hard tenant ext d =
     (case get_authorized_memory E auth i tenant ext d of
        Inl x \<Rightarrow> Inl x
      | Inr m0 \<Rightarrow>
          (case lock_preference_lifecycle (me_pref E) m0 (\<not> hard) d of
             Inl x \<Rightarrow> Inl (lifecycle_failure x)
           | Inr (m, d1) \<Rightarrow>
               if hard
               then Inr (hard_delete (me_now E) (m_id m)
                      (enqueue_removal E m (record_user_change m ''archived'' ''Deleted by tenant admin'' d1)))
               else
                 (let m' = m\<lparr>is_archived := True\<rparr>
                  in Inr (enqueue_removal E m' (record_user_change m' ''archived'' ''Deleted by tenant admin'' (put_memory m' d1))))))"

section \<open>Listing follows one order\<close>

lemma page_key_less: "page_key c < page_key m \<longleftrightarrow> created_at m < created_at c \<or> (created_at m = created_at c \<and> m_id m < m_id c)"
  by (auto simp: page_key_def)

lemma page_key_distinct: "distinct (map m_id ms) \<Longrightarrow> distinct (map page_key ms)"
  by (auto simp: distinct_map inj_on_def page_key_def)

lemma listing_strict:
  assumes "distinct (map m_id ms)"
  shows "sorted_wrt (\<lambda>a b. page_key a < page_key b) (sort_key page_key ms)"
proof -
  have "distinct (map page_key (sort_key page_key ms))"
    using page_key_distinct [OF assms] by (simp add: distinct_map)
  then have "sorted_wrt (<) (map page_key (sort_key page_key ms))" by (simp add: strict_sorted_iff)
  then show ?thesis by (simp add: sorted_wrt_map)
qed

lemma strict_after:
  assumes "sorted_wrt (\<lambda>a b. page_key a < page_key b) (ys @ c # zs)"
  shows "filter (\<lambda>m. page_key c < page_key m) (ys @ c # zs) = zs"
  using assms by (auto simp: sorted_wrt_append filter_empty_conv intro!: filter_True dest: less_asym)

text \<open>What follows a cursor: nothing is skipped and nothing comes back.\<close>

lemma after_cursor_rest:
  assumes "distinct (map m_id ms)" and "sort_key page_key ms = ys @ c # zs"
  shows "sort_key page_key (after_cursor (Some (m_id c)) ms) = zs"
proof -
  have "c \<in> set (sort_key page_key ms)" unfolding assms(2) by simp
  then have "find_row (\<lambda>m. m_id m = m_id c) ms = Some c"
    using mem_table.lookup_in [OF assms(1)] by (simp add: mem_table.lookup_def)
  then have "after_cursor (Some (m_id c)) ms = filter (\<lambda>m. page_key c < page_key m) ms"
    by (simp add: after_cursor_def page_key_less)
  then have "sort_key page_key (after_cursor (Some (m_id c)) ms) = filter (\<lambda>m. page_key c < page_key m) (ys @ c # zs)"
    by (simp only: filter_sort [symmetric] assms(2))
  also have "\<dots> = zs" by (rule strict_after) (use listing_strict [OF assms(1)] in \<open>simp only: assms(2)\<close>)
  finally show ?thesis .
qed

lemma page_of_rest:
  assumes "sort_key page_key (after_cursor cursor ms) = rest"
  shows "page_of cursor limit ms =
    (take limit rest, if length rest > limit \<and> take limit rest \<noteq> [] then Some (m_id (last (take limit rest))) else None)"
  using assms by (auto simp: page_of_def Let_def min_def)

text \<open>
  The page the database selects by comparing keys is the slice of the sorted listing that
  follows the cursor row: the query and the in-memory slicing agree for every cursor, known or
  not, and every page size.
\<close>

theorem page_is_slice:
  assumes "distinct (map m_id ms)"
  shows "fst (page_of cursor limit ms) = slice_with_cursor (sort_key page_key ms) cursor limit"
proof (cases "\<exists>c \<in> set ms. cursor = Some (m_id c)")
  case True
  then obtain c where c: "c \<in> set ms" "cursor = Some (m_id c)" by blast
  then have "c \<in> set (sort_key page_key ms)" by simp
  then obtain ys zs where split: "sort_key page_key ms = ys @ c # zs" by (meson split_list)
  have "distinct (map m_id (sort_key page_key ms))" using assms by (simp add: distinct_map)
  then have "m_id m \<noteq> m_id c" if "m \<in> set ys" for m using that unfolding split by (force simp: image_iff)
  then have "dropWhile (\<lambda>m. m_id m \<noteq> m_id c) (ys @ c # zs) = c # zs" by (simp add: dropWhile_append2)
  then show ?thesis using c(2) split by (simp add: page_of_rest [OF after_cursor_rest [OF assms split]] slice_with_cursor_def)
next
  case False
  then have "after_cursor cursor ms = ms"
    by (cases cursor) (auto simp: after_cursor_def find_row_None dest: find_row_Some split: option.splits)
  moreover have none: "dropWhile (\<lambda>m. m_id m \<noteq> c) (sort_key page_key ms) = []" if "cursor = Some c" for c
    using False that by (auto simp: dropWhile_eq_Nil_conv)
  ultimately show ?thesis by (cases cursor) (simp_all add: page_of_rest slice_with_cursor_def none)
qed

lemma list_memories_page:
  assumes "base_rows E requested auth tenant ext categories agent d = Inr ms" and "sort_key page_key (after_cursor cursor ms) = rest"
  shows "list_memories E requested auth tenant cursor limit categories agent ext d =
    Inr (take limit rest, if length rest > limit \<and> take limit rest \<noteq> [] then Some (m_id (last (take limit rest))) else None, length ms)"
  using assms by (simp add: list_memories_def page_of_rest)

lemma follow_cursors_rest:
  assumes rows: "base_rows E requested auth tenant ext categories agent d = Inr ms" and ids: "distinct (map m_id ms)" and limit: "1 \<le> limit"
    and "sort_key page_key ms = ys @ rest" and "sort_key page_key (after_cursor cursor ms) = rest" and "length rest \<le> n + limit"
  shows "follow_cursors n cursor (\<lambda>c. list_memories E requested auth tenant c limit categories agent ext d) = Inr rest"
  using assms(4-6)
proof (induction n arbitrary: ys rest cursor)
  case 0
  then show ?case by (simp add: follow_cursors.simps [of 0] list_memories_page [OF rows 0(2)])
next
  case (Suc n)
  show ?case
  proof (cases "length rest > limit")
    case False
    then show ?thesis by (simp add: follow_cursors.simps [of "Suc n"] list_memories_page [OF rows Suc.prems(2)])
  next
    case True
    then have ne: "take limit rest \<noteq> []" using limit by auto
    let ?c = "last (take limit rest)"
    have split: "sort_key page_key ms = (ys @ butlast (take limit rest)) @ ?c # drop limit rest"
      using Suc.prems(1) append_butlast_last_id [OF ne] by (simp flip: append_assoc append_Cons) (metis append_take_drop_id append.assoc append_Cons append_Nil)
    have "follow_cursors n (Some (m_id ?c)) (\<lambda>c. list_memories E requested auth tenant c limit categories agent ext d) = Inr (drop limit rest)"
    proof (rule Suc.IH)
      show "sort_key page_key ms = (ys @ take limit rest) @ drop limit rest" using Suc.prems(1) by simp
      show "sort_key page_key (after_cursor (Some (m_id ?c)) ms) = drop limit rest" by (rule after_cursor_rest [OF ids split])
      show "length (drop limit rest) \<le> n + limit" using Suc.prems(3) limit by simp
    qed
    then show ?thesis using True ne by (simp add: follow_cursors.simps [of "Suc n"] list_memories_page [OF rows Suc.prems(2)])
  qed
qed

lemma base_rows_distinct:
  "base_rows E requested auth tenant ext categories agent d = Inr ms \<Longrightarrow> distinct (map m_id (memories d)) \<Longrightarrow> distinct (map m_id ms)"
  by (auto simp: base_rows_def distinct_map_filter split: option.splits if_splits sum.splits)

text \<open>
  (C33) A client that follows the cursors of a listing until there is none sees every memory the
  listing selects exactly once, newest first: the pages put together are the selected rows in
  the order of creation time and id, for every positive page size, and the loop needs no more
  calls than there are rows.
\<close>

theorem pages_cover_listing:
  assumes "distinct (map m_id (memories d))" and "base_rows E requested auth tenant ext categories agent d = Inr ms"
    and "1 \<le> limit" and "length ms \<le> n + limit"
  shows "follow_cursors n None (\<lambda>c. list_memories E requested auth tenant c limit categories agent ext d) = Inr (sort_key page_key ms)"
  by (rule follow_cursors_rest [OF assms(2) base_rows_distinct [OF assms(2,1)] assms(3), where ys = "[]"])
    (use assms(4) in \<open>simp_all add: after_cursor_def\<close>)

section \<open>Tenants\<close>

text \<open>
  (C19) A memory of another tenant, or of a blocked user, is out of reach: when no row with the
  identifier belongs to an unblocked user of the tenant, reading, updating and deleting it are
  refused as not found, and a listing for the tenant shows only memories of its unblocked users.
\<close>

theorem tenant_isolation:
  assumes "find_row (\<lambda>m. m_id m = i \<and> tenant_owns t ext d m) (memories d) = None"
  shows "get_authorized_memory E auth i (Some t) ext d = Inl NoSuchMemory \<and>
    update_memory E auth i text imp arch (Some t) ext d = Inl NoSuchMemory \<and>
    delete_stored_memory E auth i hard (Some t) ext d = Inl NoSuchMemory \<and>
    (base_rows E requested auth (Some t) ext categories agent d = Inr ms \<longrightarrow>
      (\<forall>m \<in> set ms. \<exists>p \<in> set (proxy_users d). p_id p = m_proxy_user_id m \<and> p_tenant_id p = t \<and> \<not> is_blocked p) \<and> (given ext \<longrightarrow> i \<notin> m_id ` set ms))"
proof -
  have a: "get_authorized_memory E auth i (Some t) ext d = Inl NoSuchMemory" using assms by (simp add: get_authorized_memory_def)
  have rows: "set ms \<subseteq> {m \<in> set (memories d). tenant_owns t (if given ext then ext else None) d m}"
    if "base_rows E requested auth (Some t) ext categories agent d = Inr ms"
    using that by (auto simp: base_rows_def split: if_splits)
  have own: "\<exists>p \<in> set (proxy_users d). p_id p = m_proxy_user_id m \<and> p_tenant_id p = t \<and> \<not> is_blocked p" if "tenant_owns t x d m" for m x
    using that by (auto simp: tenant_owns_def proxy_of_def dest: find_row_Some split: option.splits)
  show ?thesis using a rows own assms by (fastforce simp: update_memory_def delete_stored_memory_def find_row_None)
qed

section \<open>Hard deletion\<close>

definition remaining_rows :: "uuid \<Rightarrow> db \<Rightarrow> uuid \<Rightarrow> claim_revision list" where
  "remaining_rows i d k = sort_key (\<lambda>r. - r_created_at r) (filter (\<lambda>r. r_claim_id r = k) (filter (\<lambda>r. r_memory_id r \<noteq> Some i) (revisions d)))"

definition affected_claims :: "uuid \<Rightarrow> db \<Rightarrow> uuid set" where
  "affected_claims i d = r_claim_id ` set (filter (\<lambda>r. r_memory_id r = Some i) (revisions d))"

definition gone_revisions :: "uuid \<Rightarrow> db \<Rightarrow> uuid set" where
  "gone_revisions i d = r_id ` set (filter (\<lambda>r. r_memory_id r = Some i) (revisions d))"

lemma hard_delete_tables:
  "memories (hard_delete now i d) = map (clear_previous i) (filter (\<lambda>m. m_id m \<noteq> i) (memories d))"
  "versions (hard_delete now i d) = filter (\<lambda>v. v_memory_id v \<noteq> i) (versions d)"
  "revisions (hard_delete now i d) = filter (\<lambda>r. r_memory_id r \<noteq> Some i) (revisions d)"
  "claims (hard_delete now i d) =
     map (\<lambda>c. if c_id c \<in> affected_claims i d then reconciled_claim now (remaining_rows i d (c_id c)) c else c)
       (filter (\<lambda>c. c_id c \<notin> affected_claims i d \<or> remaining_rows i d (c_id c) \<noteq> []) (map (clear_claim i (gone_revisions i d)) (claims d)))"
  unfolding hard_delete_def reconcile_claims_def delete_row_def Let_def remaining_rows_def affected_claims_def gone_revisions_def
  by simp_all

lemma claim_ids [simp]: "c_id (clear_claim i ws c) = c_id c" "c_id (reconciled_claim now rs c) = c_id c"
  by (simp_all add: clear_claim_def reconciled_claim_def split: list.splits)

lemma clear_previous_fields [simp]: "m_id (clear_previous i m) = m_id m" "is_archived (clear_previous i m) = is_archived m"
  by (simp_all add: clear_previous_def)

lemma hard_delete_mem_view: "mem_view (hard_delete now i d) j = (if j = i then None else map_option (clear_previous i) (mem_view d j))"
proof -
  have "find_row (\<lambda>m. m_id m \<noteq> i \<and> m_id m = j) (memories d) = (if j = i then None else find_row (\<lambda>m. m_id m = j) (memories d))"
    by (auto simp: find_row_None intro: find_row_cong)
  then show ?thesis by (simp add: mem_view_def get_memory_def hard_delete_tables find_row_map find_row_filter)
qed

lemma hard_delete_rev_view:
  assumes "distinct (map r_id (revisions d))"
  shows "rev_view (hard_delete now i d) w = Some r \<longleftrightarrow> rev_view d w = Some r \<and> r_memory_id r \<noteq> Some i"
  using rev_table.lookup_filter [OF assms, of w "\<lambda>r. r_memory_id r \<noteq> Some i"]
  by (auto simp: rev_view_def get_revision_def rev_table.lookup_def hard_delete_tables split: option.splits)

lemma hard_delete_claim_view:
  assumes "distinct (map c_id (claims d))"
  shows "claim_view (hard_delete now i d) k =
    (case claim_view d k of
       None \<Rightarrow> None
     | Some c \<Rightarrow>
         if k \<notin> affected_claims i d then Some (clear_claim i (gone_revisions i d) c)
         else if remaining_rows i d k = [] then None
         else Some (reconciled_claim now (remaining_rows i d k) (clear_claim i (gone_revisions i d) c)))"
proof -
  let ?g = "\<lambda>c. if c_id c \<in> affected_claims i d then reconciled_claim now (remaining_rows i d (c_id c)) c else c"
    and ?q = "\<lambda>c. c_id c \<notin> affected_claims i d \<or> remaining_rows i d (c_id c) \<noteq> []"
    and ?h = "clear_claim i (gone_revisions i d)"
  have "distinct (map c_id (map ?h (claims d)))" using assms by (simp add: comp_def)
  then have "claim_view (hard_delete now i d) k =
      map_option ?g (case map_option ?h (claim_view d k) of None \<Rightarrow> None | Some c \<Rightarrow> if ?q c then Some c else None)"
    unfolding claim_view_def get_claim_def hard_delete_tables claim_table.lookup_def [symmetric]
    by (subst claim_table.lookup_map) (simp_all only: claim_ids claim_table.lookup_filter claim_table.lookup_map split: if_split, simp)
  then show ?thesis using view_ids(2) [of d k] by (auto split: option.splits)
qed

lemma remaining_rows_set: "set (remaining_rows i d k) = {r \<in> set (revisions d). r_memory_id r \<noteq> Some i \<and> r_claim_id r = k}"
  by (auto simp: remaining_rows_def)

lemma remaining_activated:
  assumes inv: "ledger_inv d" and r: "rev_view d w = Some r" "r_memory_id r \<noteq> Some i" "r_status r = ''activated''"
  shows "filter (\<lambda>x. r_status x = ''activated'') (remaining_rows i d (r_claim_id r)) = [r]"
proof (rule filter_unique)
  note I = ledger_invD [OF inv]
  show "distinct (remaining_rows i d (r_claim_id r))" using I(1) by (simp add: remaining_rows_def distinct_map)
  show "r \<in> set (remaining_rows i d (r_claim_id r))" using rev_view_mem [OF r(1)] r(2) by (simp add: remaining_rows_set)
  fix y
  assume "y \<in> set (remaining_rows i d (r_claim_id r))" and y: "r_status y = ''activated''"
  then have m: "y \<in> set (revisions d)" "r_claim_id y = r_claim_id r" by (simp_all add: remaining_rows_set)
  note yv = rev_view_in [OF I(1) m(1)]
  obtain c where c: "claim_view d (r_claim_id r) = Some c" "winning_revision_id c = Some w" by (rule winners_activated [OF I(3) r(1,3)])
  obtain c2 where c2: "claim_view d (r_claim_id y) = Some c2" "winning_revision_id c2 = Some (r_id y)" by (rule winners_activated [OF I(3) yv y])
  have "r_id y = w" using c c2 m(2) by simp
  then have "Some y = Some r" unfolding yv [symmetric] r(1) [symmetric] by simp
  then show "y = r" by simp
qed (use r in simp)

lemma affected_mem: "rev_view d w = Some r \<Longrightarrow> r_memory_id r = Some i \<Longrightarrow> r_claim_id r \<in> affected_claims i d"
  using rev_view_mem by (fastforce simp: affected_claims_def)

text \<open>Clearing the references changes no claim that has none of the revisions of the memory.\<close>

lemma clear_unaffected:
  assumes inv: "ledger_inv d" and c: "claim_view d k = Some c" and k: "k \<notin> affected_claims i d"
  shows "clear_claim i (gone_revisions i d) c = c"
proof -
  note I = ledger_invD [OF inv]
  have "active_memory_id c \<noteq> Some i"
  proof
    assume a: "active_memory_id c = Some i"
    obtain w r where "rev_view d w = Some r" "r_claim_id r = k" "r_memory_id r = Some i" by (rule winners_active [OF I(3) c a])
    then show False using affected_mem k by blast
  qed
  moreover have "w \<notin> gone_revisions i d" if w: "winning_revision_id c = Some w" for w
  proof
    assume "w \<in> gone_revisions i d"
    then obtain x where x: "x \<in> set (revisions d)" "r_memory_id x = Some i" "w = r_id x" by (auto simp: gone_revisions_def)
    have "rev_view d w = Some x" using rev_view_in [OF I(1) x(1)] x(3) by simp
    moreover obtain r where "rev_view d w = Some r" "r_claim_id r = k" by (rule winners_winner [OF I(3) c w])
    ultimately show False using affected_mem x(2) k by fastforce
  qed
  ultimately show ?thesis by (auto simp: clear_claim_def split: option.splits)
qed

lemma reconciled_claim_cases:
  assumes "reconciled_claim now rs c = c'"
  shows "(winning_revision_id c' = None \<and> active_memory_id c' = None) \<or>
    (\<exists>r. r \<in> set rs \<and> r_status r = ''activated'' \<and> winning_revision_id c' = Some (r_id r) \<and> active_memory_id c' = r_memory_id r)"
proof (cases "\<exists>r. filter (\<lambda>r. r_status r = ''activated'') rs = [r]")
  case True
  then obtain r where r: "filter (\<lambda>r. r_status r = ''activated'') rs = [r]" by blast
  have "r \<in> set rs \<and> r_status r = ''activated''" using arg_cong [OF r, of set] by auto
  then show ?thesis using assms r by (auto simp: reconciled_claim_def)
next
  case False
  then show ?thesis using assms by (auto simp: reconciled_claim_def split: list.splits)
qed

lemma hard_delete_ok:
  assumes inv: "ledger_inv d" and cs: "distinct (map c_id (claims d))"
  shows "ledger_inv (hard_delete now i d)"
proof -
  note I = ledger_invD [OF inv] and R = hard_delete_rev_view [OF ledger_invD(1) [OF inv], of now i] and C = hard_delete_claim_view [OF cs, of now i]
  let ?d = "hard_delete now i d"
  have "winners_ok (mem_view ?d) (claim_view ?d) (rev_view ?d)"
  proof (rule forget_ok [OF I(3), where ks = "affected_claims i d"])
    show "\<exists>m'. mem_view ?d j = Some m' \<and> is_archived m' = is_archived m" if "j \<noteq> i" "mem_view d j = Some m" for j m
      using that by (simp add: hard_delete_mem_view)
    show "claim_view ?d k = claim_view d k" if "k \<notin> affected_claims i d" for k
      using clear_unaffected [OF inv _ that] that by (simp add: C split: option.splits)
    show "\<exists>c'. claim_view ?d (r_claim_id r) = Some c' \<and> winning_revision_id c' = Some w"
      if p: "rev_view ?d w = Some r" "r_claim_id r \<in> affected_claims i d" "r_status r = ''activated''" for w r
    proof -
      have r: "rev_view d w = Some r" "r_memory_id r \<noteq> Some i" using p(1) R by blast+
      note one = remaining_activated [OF inv r p(3)]
      obtain c where c: "claim_view d (r_claim_id r) = Some c" by (rule winners_activated [OF I(3) r(1) p(3)])
      have "remaining_rows i d (r_claim_id r) \<noteq> []" using one by auto
      then show ?thesis using c p(2) one view_ids(3) [OF r(1)] by (simp add: C reconciled_claim_def)
    qed
    show "(winning_revision_id c' = None \<and> active_memory_id c' = None) \<or> (\<exists>w r. rev_view ?d w = Some r \<and> r_claim_id r = k \<and>
        r_status r = ''activated'' \<and> winning_revision_id c' = Some w \<and> active_memory_id c' = r_memory_id r)"
      if p: "k \<in> affected_claims i d" "claim_view ?d k = Some c'" for k c'
    proof -
      obtain c where "reconciled_claim now (remaining_rows i d k) c = c'" using p by (auto simp: C split: option.splits if_splits)
      from reconciled_claim_cases [OF this] show ?thesis
        using R rev_view_in [OF I(1)] by (auto simp: remaining_rows_set)
    qed
  qed (use R affected_mem in blast)+
  moreover have "revisions_ok (rev_view ?d)" by (rule revisions_ok_sub [OF I(2)]) (use R in blast)
  moreover have "distinct (map r_id (revisions ?d))" using I(1) by (simp add: hard_delete_tables distinct_map_filter)
  ultimately show ?thesis by (simp add: ledger_inv_def)
qed

lemma hard_delete_no_claim: "Some i \<notin> active_memory_id ` set (claims (hard_delete now i d))"
proof -
  have "Some i \<noteq> active_memory_id (reconciled_claim now (remaining_rows i d k) c)" for k c
    using reconciled_claim_cases [OF refl, of now "remaining_rows i d k" c] by (auto simp: remaining_rows_set)
  moreover have "Some i \<noteq> active_memory_id (clear_claim i ws c)" for ws c by (simp add: clear_claim_def)
  ultimately show ?thesis by (auto simp: hard_delete_tables)
qed

lemma authorized_id: "get_authorized_memory E auth i tenant ext d = Inr m \<Longrightarrow> m_id m = i"
  by (auto simp: get_authorized_memory_def get_memory_def dest: find_row_Some split: option.splits if_splits sum.splits)

lemma lock_without_archiving: "lock_preference_lifecycle P m False d = Inr (m', d') \<Longrightarrow> d' = d \<and> m_id m' = m_id m"
  by (auto simp: lock_preference_lifecycle_def Let_def dest: find_row_Some split: option.splits sum.splits)

lemma removal_frames [simp]:
  "memories (enqueue_removal E m d) = memories d" "claims (enqueue_removal E m d) = claims d" "revisions (enqueue_removal E m d) = revisions d"
  "memories (record_user_change m kind reason d) = memories d" "claims (record_user_change m kind reason d) = claims d"
  "revisions (record_user_change m kind reason d) = revisions d" "outbox (record_user_change m kind reason d) = outbox d"
  by (simp_all add: enqueue_removal_def enqueue_vector_delete_def add_outbox_row_def record_user_change_def)

lemma ledger_inv_frame: "memories d' = memories d \<Longrightarrow> claims d' = claims d \<Longrightarrow> revisions d' = revisions d \<Longrightarrow> ledger_inv d' = ledger_inv d"
  using view_frames(1) [of d' d] view_frames(2) [of d' d] view_frames(3) [of d' d] by (simp add: ledger_inv_def)


section \<open>Archiving a declared preference\<close>

lemma soft_delete_run:
  assumes "get_authorized_memory E auth i tenant ext d = Inr m" and "memory_declaration m = Inr (Some q)"
    and "delete_stored_memory E auth i False tenant ext d = Inr d'" and "distinct (map m_id (memories d))"
  obtains current d1 where "mem_view d i = Some current"
    "d1 = (case find_row (\<lambda>c. c_proxy_user_id c = m_proxy_user_id m \<and> claim_fingerprint c = ci_fingerprint (declaration_identity (me_pref E) q)) (claims d) of
             Some c \<Rightarrow> if active_memory_id c = Some i then archive_winner c d else d
           | None \<Rightarrow> d)"
    "memories d' = memories (put_memory (current\<lparr>is_archived := True\<rparr>) d1)" "claims d' = claims d1" "revisions d' = revisions d1"
proof -
  have id: "m_id m = i" by (rule authorized_id [OF assms(1)])
  obtain current where c: "find_row (\<lambda>x. m_id x = i \<and> m_proxy_user_id x = m_proxy_user_id m) (memories d) = Some current"
    using assms(1-3) id by (auto simp: delete_stored_memory_def lock_preference_lifecycle_def Let_def split: option.splits)
  then have cm: "current \<in> set (memories d)" "m_id current = i" by (auto dest: find_row_Some)
  have "mem_view d i = Some current" using mem_view_in [OF assms(4) cm(1)] cm(2) by simp
  then show thesis
    by (rule that [OF _ refl]) (use assms(1-3) id c cm in \<open>auto simp: delete_stored_memory_def lock_preference_lifecycle_def Let_def split: option.splits\<close>)
qed

text \<open>
  Archiving a declared preference keeps the ledger: when the claim that holds the memory, if
  any, is the one the lock finds for its owner and the identity of its declaration, then after a
  soft delete the memory is archived, a claim that still names it is archived as well, and the
  claims agree with their revisions and memories.
\<close>

theorem archiving_preference_keeps_ledger:
  assumes inv: "ledger_inv d" and keys: "distinct (map m_id (memories d))" "distinct (map c_id (claims d))"
    and m: "get_authorized_memory E auth i tenant ext d = Inr m" "memory_declaration m = Inr (Some q)"
    and held: "\<forall>c \<in> set (claims d). active_memory_id c = Some i \<longrightarrow>
      find_row (\<lambda>c. c_proxy_user_id c = m_proxy_user_id m \<and> claim_fingerprint c = ci_fingerprint (declaration_identity (me_pref E) q)) (claims d) = Some c"
    and run: "delete_stored_memory E auth i False tenant ext d = Inr d'"
  shows "ledger_inv d' \<and> (\<exists>m'. get_memory i d' = Some m' \<and> is_archived m') \<and>
    (\<forall>k c. get_claim k d' = Some c \<longrightarrow> active_memory_id c = Some i \<longrightarrow> c_status c = ''archived'')"
proof -
  obtain current d1 where cur: "mem_view d i = Some current"
    and d1: "d1 = (case find_row (\<lambda>c. c_proxy_user_id c = m_proxy_user_id m \<and> claim_fingerprint c = ci_fingerprint (declaration_identity (me_pref E) q)) (claims d) of
             Some c \<Rightarrow> if active_memory_id c = Some i then archive_winner c d else d | None \<Rightarrow> d)"
    and d': "memories d' = memories (put_memory (current\<lparr>is_archived := True\<rparr>) d1)" "claims d' = claims d1" "revisions d' = revisions d1"
    by (rule soft_delete_run [OF m run keys(1)])
  let ?m = "current\<lparr>is_archived := True\<rparr>"
  have id: "m_id ?m = i" using view_ids(1) [OF cur] by simp
  note I = ledger_invD [OF inv]
  have views: "claim_view d' = claim_view d1" "rev_view d' = rev_view d1" "mem_view d' = mem_view (put_memory ?m d1)"
    by (rule view_frames, rule d')+
  show ?thesis
  proof (cases "\<exists>c \<in> set (claims d). active_memory_id c = Some i")
    case True
    then obtain c where c: "c \<in> set (claims d)" "active_memory_id c = Some i" by blast
    then have a: "d1 = archive_winner c d" using d1 held by simp
    have cv: "claim_view d (c_id c) = Some c"
      using claim_table.lookup_in [OF keys(2) c(1)] by (simp add: claim_view_def get_claim_def claim_table.lookup_def)
    obtain w r where w: "winning_revision_id c = Some w" "rev_view d w = Some r" by (rule winners_active [OF I(3) cv c(2)])
    note V = archive_winner_views [OF cv w]
    have mv: "mem_view d' = (mem_view d)(i := Some ?m)"
      unfolding views a by (subst view_put_memory) (use V(3) cur id in simp_all)
    have "ledger_inv d'"
      by (rule archive_winner_ok [OF inv cv c(2), of ?m]) (use views mv V(4) a d'(3) in simp_all)
    moreover have "k = c_id c" if "claim_view d k = Some c2" "active_memory_id c2 = Some i" for k c2
    proof -
      have "c2 \<in> set (claims d)" using that(1) by (auto simp: claim_view_def get_claim_def dest: find_row_Some)
      then have "Some c2 = Some c" using held that(2) c by metis
      then show ?thesis using view_ids(2) [OF that(1)] by simp
    qed
    ultimately show ?thesis using mv V(1) views(1) a
      by (auto simp: mem_view_def [symmetric] claim_view_def [symmetric] split: if_splits)
  next
    case False
    then have a: "d1 = d" using d1 by (auto dest: find_row_Some split: option.splits)
    have mv: "mem_view d' = (mem_view d)(i := Some ?m)"
      unfolding views a by (subst view_put_memory) (use cur id in simp_all)
    have free: "active_memory_id c \<noteq> Some i" if "claim_view d k = Some c" for k c
      using that False by (auto simp: claim_view_def get_claim_def dest: find_row_Some)
    have "ledger_inv d'" using unclaimed_ok [OF I(3) free] I(1,2) d'(3) a by (simp add: ledger_inv_def mv views)
    then show ?thesis using mv free views(1) a by (auto simp: mem_view_def [symmetric] claim_view_def [symmetric])
  qed
qed

section \<open>Witnesses\<close>

definition example_memory_env :: memory_env where
  "example_memory_env =
     \<lparr>me_users = [\<lparr>u_id = 70, u_external_id = ''ada''\<rparr>], me_models = [], me_embed = (\<lambda>_. Inl ''down''), me_encrypt = (\<lambda>_ _ _. PNone),
      me_uuid_of = (\<lambda>_. None), me_pref = example_pref_env, me_include_content = False, me_now = 9\<rparr>"

definition example_declared :: db where
  "example_declared = put_memory (example_memory\<lparr>metadata_json :=
     [(''provenance'', PDict [(''extraction_evidence'', PDict [(preference_marker, example_raw)])])]\<rparr>) example_ledger"

lemmas example_declared_defs = example_declared_def example_ledger_def put_memory_def example_db_def example_memory_def
  example_claim_def example_revision_def

lemma example_keys: "distinct (map m_id (memories example_ledger))" "distinct (map c_id (claims example_ledger))"
  "distinct (map m_id (memories example_declared))" "distinct (map c_id (claims example_declared))"
  by (simp_all add: example_declared_defs update_where_def)

lemma example_declared_inv: "ledger_inv example_declared"
proof -
  have v: "claim_view example_declared = claim_view example_ledger" "rev_view example_declared = rev_view example_ledger"
    by (simp_all add: example_declared_def)
  have "mem_view example_declared = (mem_view example_ledger)(1 := Some (example_memory\<lparr>metadata_json :=
     [(''provenance'', PDict [(''extraction_evidence'', PDict [(preference_marker, example_raw)])])]\<rparr>))"
    unfolding example_declared_def by (subst view_put_memory) (simp_all add: example_views, simp_all add: example_memory_def)
  then have "winners_ok (mem_view example_declared) (claim_view example_declared) (rev_view example_declared)"
    by (auto simp: v winners_ok_def example_views example_revision_def example_claim_def example_memory_def split: if_splits)
  moreover have "revisions example_declared = revisions example_ledger" by (simp add: example_declared_def put_memory_def)
  ultimately show ?thesis using example_ledger_inv by (simp add: ledger_inv_def v)
qed

theorem pages_cover_listing_witness:
  "map_sum id (map m_id) (follow_cursors 1 None (\<lambda>c. list_memories example_memory_env None None (Some 90) c 1 [] None None example_ledger)) = Inr [2, 1]"
proof -
  have "base_rows example_memory_env None None (Some 90) None [] None example_ledger = Inr (memories example_ledger)"
    by (simp add: base_rows_def tenant_owns_def proxy_of_def find_row_def listed_def given_def example_declared_defs)
  from pages_cover_listing [OF example_keys(1) this, of 1 1] show ?thesis
    by (simp add: example_declared_defs page_key_def)
qed

theorem page_is_slice_witness:
  "map m_id (fst (page_of (Some 2) 1 (memories example_ledger))) = [1]"
  using page_is_slice [OF example_keys(1), of "Some 2" 1]
  by (simp add: slice_with_cursor_def example_declared_defs page_key_def)

theorem tenant_isolation_witness:
  "find_row (\<lambda>m. m_id m = 1 \<and> tenant_owns 91 None example_ledger m) (memories example_ledger) = None \<and>
   delete_stored_memory example_memory_env None 1 True (Some 91) None example_ledger = Inl NoSuchMemory"
proof -
  have f: "find_row (\<lambda>m. m_id m = 1 \<and> tenant_owns 91 None example_ledger m) (memories example_ledger) = None"
    by (simp add: tenant_owns_def proxy_of_def find_row_def example_declared_defs)
  from tenant_isolation [OF f] f show ?thesis by blast
qed


theorem archiving_preference_keeps_ledger_witness:
  "\<exists>d'. delete_stored_memory example_memory_env None 1 False (Some 90) None example_declared = Inr d' \<and> ledger_inv d'"
proof -
  have a: "get_authorized_memory example_memory_env None 1 (Some 90) None example_declared = Inr (example_memory\<lparr>metadata_json :=
     [(''provenance'', PDict [(''extraction_evidence'', PDict [(preference_marker, example_raw)])])]\<rparr>)" (is "_ = Inr ?m")
    by (simp add: get_authorized_memory_def tenant_owns_def proxy_of_def find_row_def example_declared_defs)
  have q: "memory_declaration ?m = Inr (Some example_declaration)"
    using example_validates by (simp add: memory_declaration_def preference_declaration_def py_dict_def example_raw_def Let_def)
  have h: "\<forall>c \<in> set (claims example_declared). active_memory_id c = Some 1 \<longrightarrow>
      find_row (\<lambda>c. c_proxy_user_id c = m_proxy_user_id ?m \<and> claim_fingerprint c = ci_fingerprint (declaration_identity (me_pref example_memory_env) example_declaration))
        (claims example_declared) = Some c"
    by (simp add: find_row_def example_declared_defs declaration_identity_def preference_identity_def build_domain_claim_identity_def
        example_memory_env_def example_pref_env_def Ledger.example_env_def Let_def)
  obtain d' where r: "delete_stored_memory example_memory_env None 1 False (Some 90) None example_declared = Inr d'"
    unfolding delete_stored_memory_def lock_preference_lifecycle_def a sum.case q option.case Let_def
    by (simp add: find_row_def example_declared_defs)
  from archiving_preference_keeps_ledger [OF example_declared_inv example_keys(3,4) a q h r] r show ?thesis by blast
qed

end
