(* ===== verification/Ranking.thy ===== *)
theory Ranking
  imports Memories VectorStore Quota
begin

text \<open>
  The results of a retrieval and their ranking: scores, validity in time, comparison of texts,
  removal of near duplicates, merging with the hot tier, the bound on nominated identifiers and the
  process-local caches of \<open>src/api/services/retriever.py\<close>.

  The environment holds the rendering of identifiers and times as text, their parsers and the
  configured weights. A provenance is a dictionary or absent; a stored value of another kind
  raises where the result is built.
\<close>

section \<open>Results\<close>

record memory_result =
  mr_id :: string
  mr_content :: string
  mr_category :: string
  mr_importance :: pyfloat
  mr_confidence :: pyfloat
  mr_semantic :: pyfloat
  mr_recency :: pyfloat
  mr_final :: pyfloat
  mr_agent_id :: "string option"
  mr_previous_version_id :: "string option"
  mr_last_accessed_at :: "string option"
  mr_created_at :: "string option"
  mr_source_event_id :: "string option"
  mr_provenance :: "scope option"
  mr_effective_from :: "string option"
  mr_effective_until :: "string option"

record retrieval_env =
  rv_pref :: pref_env
  rv_uuid_of :: "string \<Rightarrow> uuid option"
  rv_iso :: "utc \<Rightarrow> string"
  rv_from_iso :: "string \<Rightarrow> utc option"
  semantic_weight :: pyfloat
  importance_weight :: pyfloat
  recency_weight :: pyfloat
  min_semantic_score :: pyfloat
  overfetch_multiplier :: nat

abbreviation id_text :: "retrieval_env \<Rightarrow> uuid \<Rightarrow> string" where
  "id_text E \<equiv> uuid_str (rv_pref E)"

text \<open>The check at start-up, and the clamping of the configured values.\<close>

definition weights_ok :: "retrieval_env \<Rightarrow> bool" where
  "weights_ok E \<longleftrightarrow> \<bar>semantic_weight E + importance_weight E + recency_weight E - 1\<bar> \<le> 1/1000"

definition settings_ok :: "retrieval_env \<Rightarrow> bool" where
  "settings_ok E \<longleftrightarrow> weights_ok E \<and> 0 \<le> min_semantic_score E \<and> min_semantic_score E \<le> 1 \<and> 1 \<le> overfetch_multiplier E"

section \<open>Scores and validity\<close>

definition day :: int where
  "day = 86400000000"

definition recency_score :: "utc \<Rightarrow> utc option \<Rightarrow> pyfloat" where
  "recency_score now t =
     (case t of
        None \<Rightarrow> 0
      | Some x \<Rightarrow> (let age = (now - x) div day in if age \<le> 7 then 1 else if age \<le> 30 then 1/2 else 0))"

definition final_score :: "retrieval_env \<Rightarrow> utc \<Rightarrow> pyfloat \<Rightarrow> memory \<Rightarrow> pyfloat" where
  "final_score E now sem m =
     py_round (semantic_weight E * sem + importance_weight E * (importance_score m / 10) +
       recency_weight E * recency_score now (last_accessed_at m)) 6"

definition window_start :: "utc \<Rightarrow> int option \<Rightarrow> utc option" where
  "window_start now days = map_option (\<lambda>n. now - max 0 n * day) days"

definition is_valid_at :: "utc option \<Rightarrow> utc option \<Rightarrow> utc \<Rightarrow> bool" where
  "is_valid_at starts ends t \<longleftrightarrow> (case starts of None \<Rightarrow> True | Some s \<Rightarrow> s \<le> t) \<and> (case ends of None \<Rightarrow> True | Some e \<Rightarrow> t < e)"

definition memory_is_current :: "utc \<Rightarrow> memory \<Rightarrow> bool" where
  "memory_is_current now m \<longleftrightarrow> is_valid_at None (expires_at m) now \<and> is_valid_at (effective_from m) (effective_until m) now"

text \<open>A value of a payload that is no time bounds nothing.\<close>

definition parse_datetime :: "retrieval_env \<Rightarrow> pyval \<Rightarrow> utc option" where
  "parse_datetime E v = (case v of PNone \<Rightarrow> None | _ \<Rightarrow> rv_from_iso E (py_str (ledger_part (rv_pref E)) v))"

definition payload_is_valid_at :: "retrieval_env \<Rightarrow> payload_dict \<Rightarrow> utc \<Rightarrow> bool" where
  "payload_is_valid_at E p t =
     is_valid_at (parse_datetime E (dget p ''effective_from'' PNone)) (parse_datetime E (dget p ''effective_until'' PNone)) t"

definition filter_current_results :: "retrieval_env \<Rightarrow> utc \<Rightarrow> memory_result list \<Rightarrow> memory_result list" where
  "filter_current_results E now rs =
     filter (\<lambda>r. is_valid_at (Option.bind (mr_effective_from r) (rv_from_iso E)) (Option.bind (mr_effective_until r) (rv_from_iso E)) now) rs"

section \<open>From memories and cache entries to results\<close>

definition provenance_of :: "memory \<Rightarrow> ledger_error + scope option" where
  "provenance_of m =
     (case dget (metadata_json m) ''provenance'' PNone of PNone \<Rightarrow> Inr None | PDict p \<Rightarrow> Inr (Some p) | _ \<Rightarrow> Inl MalformedProvenance)"

definition preference_provenance :: "retrieval_env \<Rightarrow> memory \<Rightarrow> ledger_error + scope option" where
  "preference_provenance E m =
     (case provenance_of m of
        Inl x \<Rightarrow> Inl x
      | Inr None \<Rightarrow> Inr None
      | Inr (Some p) \<Rightarrow>
          (case preference_declaration p of
             Inl x \<Rightarrow> Inl x
           | Inr None \<Rightarrow> Inr (Some p)
           | Inr (Some q) \<Rightarrow> Inr (Some (AList.update ''preference_version'' (PStr (target_version (rv_pref E) m)) p))))"

definition result_with :: "retrieval_env \<Rightarrow> utc \<Rightarrow> pyfloat \<Rightarrow> scope option \<Rightarrow> memory \<Rightarrow> memory_result" where
  "result_with E now sem prov m =
     \<lparr>mr_id = id_text E (m_id m), mr_content = content m, mr_category = category_value (category m), mr_importance = importance_score m,
      mr_confidence = confidence_score m, mr_semantic = sem, mr_recency = recency_score now (last_accessed_at m),
      mr_final = final_score E now sem m, mr_agent_id = map_option (id_text E) (m_agent_id m),
      mr_previous_version_id = map_option (id_text E) (previous_version_id m), mr_last_accessed_at = map_option (rv_iso E) (last_accessed_at m),
      mr_created_at = Some (rv_iso E (created_at m)), mr_source_event_id = map_option (id_text E) (source_event_id m),
      mr_provenance = prov, mr_effective_from = map_option (rv_iso E) (effective_from m),
      mr_effective_until = map_option (rv_iso E) (effective_until m)\<rparr>"

definition memory_to_result :: "retrieval_env \<Rightarrow> utc \<Rightarrow> pyfloat \<Rightarrow> memory \<Rightarrow> ledger_error + memory_result" where
  "memory_to_result E now sem m = map_sum id (\<lambda>p. result_with E now sem p m) (preference_provenance E m)"

text \<open>The result of a candidate of the index or of a cold start: the provenance as it is stored.\<close>

definition candidate_to_result :: "retrieval_env \<Rightarrow> utc \<Rightarrow> pyfloat \<Rightarrow> memory \<Rightarrow> ledger_error + memory_result" where
  "candidate_to_result E now sem m = map_sum id (\<lambda>p. result_with E now sem p m) (provenance_of m)"

definition text_field :: "retrieval_env \<Rightarrow> (string \<times> pyval) list \<Rightarrow> string \<Rightarrow> string option" where
  "text_field E d k = map_option (py_str (ledger_part (rv_pref E))) (map_of d k)"

definition nullable_text :: "retrieval_env \<Rightarrow> (string \<times> pyval) list \<Rightarrow> string \<Rightarrow> string option" where
  "nullable_text E d k = (let v = dget d k PNone in if truthy v then Some (py_str (ledger_part (rv_pref E)) v) else None)"

definition float_field :: "(string \<times> pyval) list \<Rightarrow> string \<Rightarrow> pyfloat option" where
  "float_field d k = Option.bind (map_of d k) py_float"

definition provenance_field :: "(string \<times> pyval) list \<Rightarrow> scope option option" where
  "provenance_field d = (let p = dget d ''provenance'' PNone in if truthy p then map_option Some (py_dict p) else Some None)"

record score_fields =
  sf_importance :: pyfloat
  sf_confidence :: pyfloat
  sf_semantic :: pyfloat
  sf_recency :: pyfloat
  sf_final :: pyfloat

definition cached_scores :: "(string \<times> pyval) list \<Rightarrow> score_fields option" where
  "cached_scores d =
     (case map (float_field d) [''importance_score'', ''confidence_score'', ''semantic_score'', ''recency_score'', ''final_score''] of
        [Some a, Some b, Some c, Some r, Some f] \<Rightarrow>
          Some \<lparr>sf_importance = a, sf_confidence = b, sf_semantic = c, sf_recency = r, sf_final = f\<rparr>
      | _ \<Rightarrow> None)"

definition cached_result :: "retrieval_env \<Rightarrow> (string \<times> pyval) list \<Rightarrow> memory_result option" where
  "cached_result E d =
     (case (text_field E d ''id'', text_field E d ''content'', text_field E d ''category'') of
        (Some i, Some c, Some cat) \<Rightarrow>
          (case (cached_scores d, provenance_field d) of
             (Some f, Some prov) \<Rightarrow>
               Some \<lparr>mr_id = i, mr_content = c, mr_category = cat, mr_importance = sf_importance f, mr_confidence = sf_confidence f,
                     mr_semantic = sf_semantic f, mr_recency = sf_recency f, mr_final = sf_final f, mr_agent_id = nullable_text E d ''agent_id'',
                     mr_previous_version_id = nullable_text E d ''previous_version_id'',
                     mr_last_accessed_at = nullable_text E d ''last_accessed_at'', mr_created_at = nullable_text E d ''created_at'',
                     mr_source_event_id = nullable_text E d ''source_event_id'', mr_provenance = prov,
                     mr_effective_from = nullable_text E d ''effective_from'', mr_effective_until = nullable_text E d ''effective_until''\<rparr>
           | _ \<Rightarrow> None)
      | _ \<Rightarrow> None)"

definition memory_result_from_cache :: "retrieval_env \<Rightarrow> pyval \<Rightarrow> memory_result option" where
  "memory_result_from_cache E v = (case v of PDict d \<Rightarrow> cached_result E d | _ \<Rightarrow> None)"

section \<open>Near duplicates\<close>

text \<open>\<open>s.split()\<close> and \<open>" ".join(words)\<close>.\<close>

function py_words :: "string \<Rightarrow> string list" where
  "py_words s =
     (let t = dropWhile is_space s
      in if t = [] then [] else takeWhile (\<lambda>c. \<not> is_space c) t # py_words (dropWhile (\<lambda>c. \<not> is_space c) t))"
  by pat_completeness auto

termination
proof (relation "measure length")
  fix s t :: string
  assume t: "t = dropWhile is_space s" "t \<noteq> []"
  from t(2) obtain c cs where c: "t = c # cs" by (cases t) auto
  moreover have "\<not> is_space (hd t)" using t hd_dropWhile [of is_space s] by blast
  ultimately have "length (dropWhile (\<lambda>c. \<not> is_space c) t) < length t" by (simp add: length_dropWhile_le le_imp_less_Suc)
  moreover have "length t \<le> length s" unfolding t(1) by (rule length_dropWhile_le)
  ultimately show "(dropWhile (\<lambda>c. \<not> is_space c) t, s) \<in> measure length" by simp
qed simp

declare py_words.simps [simp del]

fun join_words :: "string list \<Rightarrow> string" where
  "join_words [] = []"
| "join_words [w] = w"
| "join_words (w # ws) = w @ '' '' @ join_words ws"

definition rstrip_punctuation :: "string \<Rightarrow> string" where
  "rstrip_punctuation s = rev (dropWhile (\<lambda>c. c \<in> set ''.,;:!?'') (rev s))"

definition content_similarity :: "string \<Rightarrow> string \<Rightarrow> pyfloat" where
  "content_similarity l r =
     (let l1 = join_words (py_words (py_lower l)); r1 = join_words (py_words (py_lower r))
      in if l1 = r1 then 1
         else
           (let ls = set (py_words (rstrip_punctuation l1)); rs = set (py_words (rstrip_punctuation r1))
            in if ls = {} \<or> rs = {} then 0 else of_nat (card (ls \<inter> rs)) / of_nat (card (ls \<union> rs))))"

definition source_scope :: "memory_result \<Rightarrow> pyval" where
  "source_scope r = py_or (case mr_provenance r of None \<Rightarrow> PNone | Some p \<Rightarrow> dget p ''scope'' PNone) (PDict [])"

definition same_source_scope :: "memory_result \<Rightarrow> memory_result \<Rightarrow> bool" where
  "same_source_scope a b \<longleftrightarrow> json_canonical (source_scope a) = json_canonical (source_scope b)"

definition near_duplicate :: "memory_result \<Rightarrow> memory_result \<Rightarrow> bool" where
  "near_duplicate a b \<longleftrightarrow> same_source_scope a b \<and> content_similarity (mr_content a) (mr_content b) > 95/100"

definition by_score :: "memory_result list \<Rightarrow> memory_result list" where
  "by_score rs = sort_key (\<lambda>r. - mr_final r) rs"

fun keep_distinct :: "memory_result list \<Rightarrow> memory_result list \<Rightarrow> memory_result list" where
  "keep_distinct kept [] = rev kept"
| "keep_distinct kept (r # rs) = keep_distinct (if \<exists>k \<in> set kept. near_duplicate r k then kept else r # kept) rs"

definition deduplicate_results :: "memory_result list \<Rightarrow> memory_result list" where
  "deduplicate_results rs = keep_distinct [] (by_score rs)"

section \<open>Merging and bounds\<close>

text \<open>The loop stops after the append that reaches the limit.\<close>

fun merge_results :: "nat \<Rightarrow> memory_result list \<Rightarrow> memory_result list \<Rightarrow> memory_result list" where
  "merge_results limit merged [] = merged"
| "merge_results limit merged (r # rs) =
     (if mr_id r \<in> mr_id ` set merged then merge_results limit merged rs
      else if length merged + 1 \<ge> limit then merged @ [r]
      else merge_results limit (merged @ [r]) rs)"

definition merge_hot_tier_results :: "memory_result list \<Rightarrow> memory_result list \<Rightarrow> nat \<Rightarrow> memory_result list" where
  "merge_hot_tier_results hot other limit = merge_results limit [] (hot @ other)"

fun add_new :: "uuid list \<Rightarrow> uuid option list \<Rightarrow> uuid list" where
  "add_new acc [] = acc"
| "add_new acc (None # us) = add_new acc us"
| "add_new acc (Some u # us) = add_new (if u \<in> set acc then acc else acc @ [u]) us"

definition bounded_memory_ids :: "retrieval_env \<Rightarrow> string option list \<Rightarrow> uuid list" where
  "bounded_memory_ids E ids = add_new [] (map (\<lambda>s. Option.bind s (rv_uuid_of E)) (take 50 ids))"

section \<open>Process-local caches\<close>

type_synonym 'v ttl_cache = "(string \<times> utc \<times> 'v) list"

text \<open>Reading drops an expired entry; writing clears a cache that has outgrown its bound.\<close>

definition ttl_get :: "utc \<Rightarrow> string \<Rightarrow> 'v ttl_cache \<Rightarrow> 'v option \<times> 'v ttl_cache" where
  "ttl_get now k c =
     (case map_of c k of
        None \<Rightarrow> (None, c)
      | Some (t, v) \<Rightarrow> if t > now then (Some v, c) else (None, AList.delete k c))"

definition ttl_set :: "nat \<Rightarrow> int \<Rightarrow> utc \<Rightarrow> string \<Rightarrow> 'v \<Rightarrow> 'v ttl_cache \<Rightarrow> 'v ttl_cache" where
  "ttl_set bound ttl now k v c =
     (if ttl \<le> 0 then c else AList.update k (now + ttl, v) (if length c > bound then [] else c))"

definition l1_bound :: nat where
  "l1_bound = 1024"

definition cache_bound :: nat where
  "cache_bound = 4096"

definition starts_with :: "string \<Rightarrow> string \<Rightarrow> bool" where
  "starts_with p s \<longleftrightarrow> take (length p) s = p"

record local_caches =
  l1_cache :: "memory_result list ttl_cache"
  hot_tier_cache :: "memory_result list ttl_cache"
  memory_count_cache :: "nat ttl_cache"
  model_id_cache :: "string list ttl_cache"

definition invalidate_local_user_cache :: "string \<Rightarrow> local_caches \<Rightarrow> local_caches" where
  "invalidate_local_user_cache u c =
     c\<lparr>l1_cache := filter (\<lambda>(k, _). \<not> starts_with (u @ ''|'') k) (l1_cache c),
       hot_tier_cache := filter (\<lambda>(k, _). \<not> starts_with (u @ ''|'') k) (hot_tier_cache c),
       memory_count_cache := AList.delete (''user:'' @ u) (AList.delete (''proxy:'' @ u) (memory_count_cache c))\<rparr>"

definition l1_cache_key :: "string \<Rightarrow> string \<Rightarrow> string" where
  "l1_cache_key u context = u @ ''|'' @ context"

section \<open>Properties of ranking\<close>

lemma by_score_set [simp]: "set (by_score rs) = set rs"
  by (simp add: by_score_def)

lemma by_score_sorted: "sorted_wrt (\<lambda>a b. mr_final a \<ge> mr_final b) (by_score rs)"
proof -
  have "sorted (map (\<lambda>r. - mr_final r) (by_score rs))" by (simp add: by_score_def)
  then show ?thesis by (simp add: sorted_wrt_map)
qed

lemma by_score_id: "sorted_wrt (\<lambda>a b. mr_final a \<ge> mr_final b) rs \<Longrightarrow> by_score rs = rs"
  by (simp add: by_score_def sort_key_id_if_sorted sorted_wrt_map)

definition score_ordered :: "memory_result list \<Rightarrow> bool" where
  "score_ordered rs \<longleftrightarrow> sorted_wrt (\<lambda>a b. mr_final a \<ge> mr_final b) rs"

definition no_duplicates :: "memory_result list \<Rightarrow> bool" where
  "no_duplicates rs \<longleftrightarrow> sorted_wrt (\<lambda>a b. \<not> near_duplicate b a) rs"

lemma keep_distinct_set: "set (keep_distinct kept rs) \<subseteq> set kept \<union> set rs"
  by (induction kept rs rule: keep_distinct.induct) (auto split: if_splits)

lemma keep_distinct_kept: "set kept \<subseteq> set (keep_distinct kept rs)"
  by (induction kept rs rule: keep_distinct.induct) (auto split: if_splits)

lemma keep_distinct_none: "no_duplicates (rev kept) \<Longrightarrow> no_duplicates (keep_distinct kept rs)"
  by (induction kept rs rule: keep_distinct.induct) (auto simp: no_duplicates_def sorted_wrt_append split: if_splits)

lemma keep_distinct_ordered: "score_ordered (rev kept @ rs) \<Longrightarrow> score_ordered (keep_distinct kept rs)"
proof (induction kept rs rule: keep_distinct.induct)
  case (2 kept r rs)
  have "score_ordered (rev kept @ rs)" using 2(2) by (auto simp: score_ordered_def sorted_wrt_append)
  then show ?case using 2 by (cases "\<exists>k \<in> set kept. near_duplicate r k") simp_all
qed simp

lemma keep_distinct_covers:
  assumes "score_ordered (rev kept @ rs)" and "r \<in> set rs"
  shows "\<exists>k \<in> set (keep_distinct kept rs). (k = r \<or> near_duplicate r k) \<and> mr_final r \<le> mr_final k"
  using assms
proof (induction kept rs rule: keep_distinct.induct)
  case (2 kept a rs)
  let ?kept = "if \<exists>k \<in> set kept. near_duplicate a k then kept else a # kept"
  have score_ordered: "score_ordered (rev ?kept @ rs)" using 2(2) by (auto simp: score_ordered_def sorted_wrt_append)
  have kept: "set ?kept \<subseteq> set (keep_distinct ?kept rs)" by (rule keep_distinct_kept)
  show ?case
  proof (cases "r \<in> set rs")
    case True
    then show ?thesis using 2(1) [OF score_ordered] by simp
  next
    case False
    then have "r = a" using 2(3) by simp
    moreover have "\<exists>k \<in> set ?kept. (k = a \<or> near_duplicate a k) \<and> mr_final a \<le> mr_final k"
      using 2(2) by (auto simp: score_ordered_def sorted_wrt_append)
    ultimately show ?thesis using kept unfolding keep_distinct.simps by blast
  qed
qed simp

lemma deduplicate_set: "set (deduplicate_results rs) \<subseteq> set rs"
  using keep_distinct_set [of "[]" "by_score rs"] by (simp add: deduplicate_results_def)

lemma deduplicate_ordered: "score_ordered (deduplicate_results rs)"
  using keep_distinct_ordered [of "[]" "by_score rs"] by_score_sorted by (simp add: deduplicate_results_def score_ordered_def)

lemma deduplicate_by_score [simp]: "by_score (deduplicate_results rs) = deduplicate_results rs"
  using deduplicate_ordered by (auto simp: score_ordered_def intro: by_score_id)

text \<open>
  Removing near duplicates keeps the best of each group: the result is ranked, no kept text is
  a near duplicate of an earlier one in the same source scope, nothing is invented, and every
  candidate is kept or has a kept near duplicate that scores at least as high.
\<close>

theorem deduplication_keeps_best:
  "score_ordered (deduplicate_results rs) \<and> no_duplicates (deduplicate_results rs) \<and> set (deduplicate_results rs) \<subseteq> set rs \<and>
   {r \<in> set rs. \<not> (\<exists>k \<in> set (deduplicate_results rs). (k = r \<or> near_duplicate r k) \<and> mr_final r \<le> mr_final k)} = {}"
proof -
  have "no_duplicates (deduplicate_results rs)"
    unfolding deduplicate_results_def by (rule keep_distinct_none) (simp add: no_duplicates_def)
  moreover have "\<exists>k \<in> set (deduplicate_results rs). (k = r \<or> near_duplicate r k) \<and> mr_final r \<le> mr_final k" if "r \<in> set rs" for r
    unfolding deduplicate_results_def using by_score_sorted that by (intro keep_distinct_covers) (simp_all add: score_ordered_def)
  ultimately show ?thesis using deduplicate_ordered deduplicate_set by auto
qed

subsection \<open>Similarity\<close>

lemma content_similarity_same [simp]: "content_similarity s s = 1"
  by (simp add: content_similarity_def)

lemma content_similarity_sym: "content_similarity l r = content_similarity r l"
  by (auto simp: content_similarity_def Let_def Int_commute Un_commute)

lemma content_similarity_range: "0 \<le> content_similarity l r \<and> content_similarity l r \<le> 1"
proof -
  have "of_nat (card (A \<inter> B)) / of_nat (card (A \<union> B)) \<le> (1::rat)" if "finite A" "finite B" for A B :: "string set"
  proof -
    have "card (A \<inter> B) \<le> card (A \<union> B)" using that by (intro card_mono) auto
    then show ?thesis by (cases "card (A \<union> B) = 0") (simp_all add: divide_le_eq_1)
  qed
  then show ?thesis by (auto simp: content_similarity_def Let_def)
qed

lemma near_duplicate_same: "mr_content a = mr_content b \<Longrightarrow> mr_provenance a = mr_provenance b \<Longrightarrow> near_duplicate a b"
  by (simp add: near_duplicate_def same_source_scope_def source_scope_def)

lemma near_duplicate_sym: "near_duplicate a b \<longleftrightarrow> near_duplicate b a"
  by (auto simp: near_duplicate_def same_source_scope_def content_similarity_sym)

lemma sorted_wrt_distinct: "sorted_wrt (\<lambda>a b. f a \<noteq> f b) xs \<Longrightarrow> distinct (map f xs)"
  by (induction xs) (auto simp: image_iff)

text \<open>Results of the same rows have different identifiers after deduplication.\<close>

lemma deduplicate_ids:
  assumes "\<And>a b. a \<in> set rs \<Longrightarrow> b \<in> set rs \<Longrightarrow> mr_id a = mr_id b \<Longrightarrow> mr_content a = mr_content b \<and> mr_provenance a = mr_provenance b"
  shows "distinct (map mr_id (deduplicate_results rs))"
proof -
  have "sorted_wrt (\<lambda>a b. mr_id a \<noteq> mr_id b) (deduplicate_results rs)"
  proof (rule sorted_wrt_mono_rel)
    show "sorted_wrt (\<lambda>a b. \<not> near_duplicate b a) (deduplicate_results rs)"
      unfolding deduplicate_results_def using keep_distinct_none [of "[]"] by (simp add: no_duplicates_def)
    show "mr_id a \<noteq> mr_id b"
      if p: "a \<in> set (deduplicate_results rs)" "b \<in> set (deduplicate_results rs)" "\<not> near_duplicate b a" for a b
    proof
      assume "mr_id a = mr_id b"
      moreover have "a \<in> set rs" "b \<in> set rs" using p(1,2) deduplicate_set [of rs] by (simp_all add: subset_iff)
      ultimately have "mr_content b = mr_content a" "mr_provenance b = mr_provenance a" using assms [of b a] by simp_all
      then show False using p(3) near_duplicate_same by simp
    qed
  qed
  then show ?thesis by (rule sorted_wrt_distinct)
qed

subsection \<open>Merging\<close>

text \<open>The reference: the first results with identifiers not seen before.\<close>

fun first_by_id :: "string set \<Rightarrow> memory_result list \<Rightarrow> memory_result list" where
  "first_by_id seen [] = []"
| "first_by_id seen (r # rs) = (if mr_id r \<in> seen then first_by_id seen rs else r # first_by_id (insert (mr_id r) seen) rs)"

lemma first_by_id_distinct: "distinct (map mr_id (first_by_id seen rs)) \<and> mr_id ` set (first_by_id seen rs) \<inter> seen = {} \<and> set (first_by_id seen rs) \<subseteq> set rs"
  by (induction seen rs rule: first_by_id.induct) auto

lemma first_by_id_covers: "mr_id ` set rs \<subseteq> seen \<union> mr_id ` set (first_by_id seen rs)"
  by (induction seen rs rule: first_by_id.induct) auto

lemma merge_results_first:
  "length merged < max 1 limit \<Longrightarrow> merge_results limit merged rs = take (max 1 limit) (merged @ first_by_id (mr_id ` set merged) rs)"
proof (induction limit merged rs rule: merge_results.induct)
  case (2 limit merged r rs)
  then show ?case by (auto simp: max_def take_Cons' split: if_splits)
qed simp

text \<open>
  Merging the hot tier with the other results is the same as listing both, keeping the first
  result of each identifier and cutting at the limit, except that a limit of zero counts as one.
  In particular identifiers are not repeated and a positive limit is never exceeded.
\<close>

theorem merge_is_first_distinct:
  "merge_hot_tier_results hot other limit = take (max 1 limit) (first_by_id {} (hot @ other))"
  by (simp add: merge_hot_tier_results_def merge_results_first)

lemma merge_facts:
  "set (merge_hot_tier_results hot other limit) \<subseteq> set hot \<union> set other"
  "distinct (map mr_id (merge_hot_tier_results hot other limit))"
  "length (merge_hot_tier_results hot other limit) \<le> max 1 limit"
proof -
  have m: "merge_hot_tier_results hot other limit = take (max 1 limit) (first_by_id {} (hot @ other))"
    by (simp add: merge_hot_tier_results_def merge_results_first)
  note f = first_by_id_distinct [of "{}" "hot @ other"]
  show "set (merge_hot_tier_results hot other limit) \<subseteq> set hot \<union> set other" using f set_take_subset unfolding m by fastforce
  show "distinct (map mr_id (merge_hot_tier_results hot other limit))" using f by (simp add: m take_map [symmetric])
  show "length (merge_hot_tier_results hot other limit) \<le> max 1 limit" by (simp add: m)
qed

subsection \<open>Nominated identifiers\<close>

lemma add_new_facts: "distinct acc \<Longrightarrow> distinct (add_new acc us) \<and> set (add_new acc us) = set acc \<union> {u. Some u \<in> set us} \<and>
    length (add_new acc us) \<le> length acc + length us"
  by (induction acc us rule: add_new.induct) auto

lemma bounded_memory_ids_facts:
  "distinct (bounded_memory_ids E ids)" "length (bounded_memory_ids E ids) \<le> 50"
  "set (bounded_memory_ids E ids) = {u. \<exists>s. Some s \<in> set (take 50 ids) \<and> rv_uuid_of E s = Some u}"
proof -
  let ?us = "map (\<lambda>s. Option.bind s (rv_uuid_of E)) (take 50 ids)"
  note f = add_new_facts [of "[]" ?us]
  show "distinct (bounded_memory_ids E ids)" "length (bounded_memory_ids E ids) \<le> 50" using f by (auto simp: bounded_memory_ids_def)
  have "Some u \<in> set ?us \<longleftrightarrow> (\<exists>s. Some s \<in> set (take 50 ids) \<and> rv_uuid_of E s = Some u)" for u
  proof
    assume "Some u \<in> set ?us"
    then obtain x where "x \<in> set (take 50 ids)" "Option.bind x (rv_uuid_of E) = Some u" by (auto simp del: Option.bind_eq_Some_conv dest: sym)
    then show "\<exists>s. Some s \<in> set (take 50 ids) \<and> rv_uuid_of E s = Some u" by (auto simp: bind_eq_Some_conv)
  next
    assume "\<exists>s. Some s \<in> set (take 50 ids) \<and> rv_uuid_of E s = Some u"
    then obtain s where s: "Some s \<in> set (take 50 ids)" "rv_uuid_of E s = Some u" by blast
    have "Option.bind (Some s) (rv_uuid_of E) \<in> set ?us" unfolding set_map by (rule imageI) (rule s(1))
    then show "Some u \<in> set ?us" using s(2) by simp
  qed
  then show "set (bounded_memory_ids E ids) = {u. \<exists>s. Some s \<in> set (take 50 ids) \<and> rv_uuid_of E s = Some u}"
    using f by (simp add: bounded_memory_ids_def)
qed

subsection \<open>Caches\<close>

lemma map_of_filter_none: "\<not> p k \<Longrightarrow> map_of (filter (\<lambda>(k, _). p k) xs) k = None"
  by (induction xs) auto

lemma map_of_filter_some: "p k \<Longrightarrow> map_of (filter (\<lambda>(k, _). p k) xs) k = map_of xs k"
  by (induction xs) auto

lemma starts_with_append [simp]: "starts_with p (p @ s)"
  by (simp add: starts_with_def)

lemma ttl_get_set: "0 < ttl \<Longrightarrow> fst (ttl_get t k (ttl_set bound ttl now k v c)) = (if t < now + ttl then Some v else None)"
  by (simp add: ttl_get_def ttl_set_def update_conv')

lemma ttl_set_bounded: "length c \<le> Suc bound \<Longrightarrow> length (ttl_set bound ttl now k v c) \<le> Suc bound"
proof -
  have "length (AList.update k w xs) \<le> Suc (length xs)" for k :: string and w :: "int \<times> 'a" and xs
    by (induction xs) auto
  then show "length c \<le> Suc bound \<Longrightarrow> ?thesis" by (fastforce simp: ttl_set_def intro: order_trans)
qed

text \<open>
  Invalidation is exact: after it no local cache answers for the user, whatever the context of
  the read, and every entry of another key is as before.
\<close>

theorem invalidation_is_exact:
  assumes "c' = invalidate_local_user_cache u c"
  shows "fst (ttl_get now (l1_cache_key u ctx) (l1_cache c')) = None \<and> fst (ttl_get now (l1_cache_key u ctx) (hot_tier_cache c')) = None \<and>
    fst (ttl_get now (''proxy:'' @ u) (memory_count_cache c')) = None \<and> fst (ttl_get now (''user:'' @ u) (memory_count_cache c')) = None \<and>
    (\<not> starts_with (u @ ''|'') k \<longrightarrow>
      map_of (l1_cache c') k = map_of (l1_cache c) k \<and> map_of (hot_tier_cache c') k = map_of (hot_tier_cache c) k) \<and>
    (k \<noteq> ''proxy:'' @ u \<longrightarrow> k \<noteq> ''user:'' @ u \<longrightarrow> map_of (memory_count_cache c') k = map_of (memory_count_cache c) k)"
proof -
  have "starts_with (u @ ''|'') (l1_cache_key u ctx)" using starts_with_append [of "u @ ''|''" ctx] by (simp add: l1_cache_key_def)
  then show ?thesis
    by (simp add: assms invalidate_local_user_cache_def ttl_get_def map_of_filter_none map_of_filter_some delete_conv')
qed

theorem invalidation_is_exact_witness:
  "fst (ttl_get 0 (l1_cache_key ''u'' ''q'') (l1_cache (invalidate_local_user_cache ''u''
     \<lparr>l1_cache = [(''u|q'', 9, []), (''v|q'', 9, [])], hot_tier_cache = [], memory_count_cache = [(''proxy:u'', 9, 1)], model_id_cache = []\<rparr>))) = None"
  using invalidation_is_exact [OF refl, of 0 "''u''" "''q''"] by blast

end
