(* ===== verification/Retrieval.thy ===== *)
theory Retrieval
  imports Ranking
begin

text \<open>
  The retriever (\<open>src/api/services/retriever.py\<close>): reads of the caches, hydration from the tables,
  cold start, the fallback without the index, vector search, historical reads, and the order in
  which a read of the current state tries them.

  The world of a read is the record \<open>read_world\<close>: the tables, the answers of Redis, of the vector
  index, of the embedding service and of the circuit breaker, the jobs whose results are still
  withheld, the clock and the settings. The reader keeps the process-local caches, the access
  updates it queued, the pages it wrote and the flags of the last read. The state is read at one
  time \<open>rw_now\<close>. Preference discovery, a setting that is off by default, is not part of the model.
\<close>

section \<open>Requests and the world\<close>

datatype owner = ProxyOwner uuid | UserOwner uuid

record read_request =
  rq_query :: string
  rq_limit :: nat
  rq_categories :: "string list"
  rq_agent :: "uuid option"
  rq_days :: "int option"
  rq_tenant :: "uuid option"
  rq_owner :: owner
  rq_cache_id :: string

record runtime_job =
  j_tenant :: uuid
  j_proxy :: uuid
  j_routed :: bool
  j_status :: string
  j_redacted :: bool
  j_applied :: bool
  j_finalized :: bool
  j_residual :: bool
  j_released :: bool

record runtime_hold =
  hold_broad :: bool
  hold_unavailable :: bool
  held_fingerprints :: "string set"
  held_facts :: "string set"

record read_world =
  rw_db :: db
  rw_redis :: "string \<Rightarrow> string \<Rightarrow> pyval list option"
  rw_hot :: "string \<Rightarrow> pyval list option"
  rw_search :: "search_request \<Rightarrow> qerror + scored_point list"
  rw_embed :: "string \<Rightarrow> string \<Rightarrow> string + embedding_result"
  rw_active_model :: string
  rw_open_before :: bool
  rw_open_after :: bool
  rw_jobs :: "runtime_job list"
  rw_release_enabled :: bool
  rw_hold :: "bool \<Rightarrow> runtime_hold"
  rw_now :: utc
  l1_ttl :: int
  hot_ttl :: int
  count_ttl :: int
  model_ttl :: int

record reader =
  rd_caches :: local_caches
  rd_pages :: "(string \<times> string \<times> memory_result list) list"
  rd_accesses :: "string list list"
  rd_cache_hit :: bool
  rd_degraded :: bool
  rd_visibility :: "(string \<times> string) option"

datatype read_error = ReadLedger ledger_error | EmbeddingFailed string | SearchFailed qerror | NoTimezone | ContextUnavailable

text \<open>The mode a caller passes as text: the value or the name in any case, and full service otherwise.\<close>

definition coerce_quota_mode :: "string option \<Rightarrow> quota_mode" where
  "coerce_quota_mode v =
     (case v of
        None \<Rightarrow> Full
      | Some s \<Rightarrow>
          (case find_row (\<lambda>m. py_lower (py_strip s) = py_lower (quota_mode_value m)) [Full, Passthrough, DegradedRetrieve, Blocked] of
             None \<Rightarrow> Full
           | Some m \<Rightarrow> m))"

section \<open>Rows\<close>

definition owned_by :: "owner \<Rightarrow> memory \<Rightarrow> bool" where
  "owned_by w m = (case w of ProxyOwner p \<Rightarrow> m_proxy_user_id m = p | UserOwner u \<Rightarrow> m_user_id m = u)"

definition matches_request :: "utc \<Rightarrow> read_request \<Rightarrow> memory \<Rightarrow> bool" where
  "matches_request now rq m \<longleftrightarrow>
     listed (rq_categories rq) (rq_agent rq) m \<and> (case window_start now (rq_days rq) of None \<Rightarrow> True | Some t \<Rightarrow> t \<le> created_at m)"

definition eligible :: "utc \<Rightarrow> read_request \<Rightarrow> memory \<Rightarrow> bool" where
  "eligible now rq m \<longleftrightarrow> owned_by (rq_owner rq) m \<and> \<not> is_archived m \<and> legacy_memory m \<and> matches_request now rq m"

definition tenant_join :: "read_request \<Rightarrow> db \<Rightarrow> memory \<Rightarrow> bool" where
  "tenant_join rq d m =
     (case (rq_owner rq, rq_tenant rq) of (ProxyOwner _, Some t) \<Rightarrow> tenant_owns t None d m | _ \<Rightarrow> True)"

text \<open>\<open>_fetch_memories_by_ids\<close> and its variant for a user.\<close>

definition fetch_memories_by_ids :: "retrieval_env \<Rightarrow> read_world \<Rightarrow> read_request \<Rightarrow> string option list \<Rightarrow> memory list" where
  "fetch_memories_by_ids E W rq ids =
     (let us = bounded_memory_ids E ids
      in if us = [] then []
         else filter (\<lambda>m. m_id m \<in> set us \<and> eligible (rw_now W) rq m \<and> tenant_join rq (rw_db W) m) (memories (rw_db W)))"

definition row_of :: "retrieval_env \<Rightarrow> memory list \<Rightarrow> string \<Rightarrow> memory option" where
  "row_of E rows k = find_row (\<lambda>m. id_text E (m_id m) = k) rows"

text \<open>A comprehension whose body may raise.\<close>

fun collect :: "('a \<Rightarrow> 'e + 'b) \<Rightarrow> 'a list \<Rightarrow> 'e + 'b list" where
  "collect f [] = Inr []"
| "collect f (x # xs) =
     (case f x of Inl e \<Rightarrow> Inl e | Inr y \<Rightarrow> (case collect f xs of Inl e \<Rightarrow> Inl e | Inr ys \<Rightarrow> Inr (y # ys)))"

text \<open>The rows of a list of nominations with their scores, in the order of the nominations.\<close>

definition nominated_rows :: "retrieval_env \<Rightarrow> utc \<Rightarrow> memory list \<Rightarrow> (string \<times> pyfloat) list \<Rightarrow> (pyfloat \<times> memory) list" where
  "nominated_rows E now rows ns =
     List.map_filter (\<lambda>(k, sem). case row_of E rows k of None \<Rightarrow> None | Some m \<Rightarrow> if memory_is_current now m then Some (sem, m) else None) ns"

definition hydrate_current_results :: "retrieval_env \<Rightarrow> read_world \<Rightarrow> read_request \<Rightarrow> memory_result list \<Rightarrow> ledger_error + memory_result list" where
  "hydrate_current_results E W rq cs =
     (let page = take 50 cs;
          rows = fetch_memories_by_ids E W rq (map (\<lambda>r. Some (mr_id r)) page);
          ns = nominated_rows E (rw_now W) rows (map (\<lambda>r. (mr_id r, mr_semantic r)) page)
      in map_sum id (\<lambda>rs. by_score (deduplicate_results rs)) (collect (\<lambda>(sem, m). memory_to_result E (rw_now W) sem m) ns))"

definition eligible_rows :: "read_world \<Rightarrow> read_request \<Rightarrow> memory list" where
  "eligible_rows W rq = filter (eligible (rw_now W) rq) (memories (rw_db W))"

definition retrieve_cold_start_memories :: "retrieval_env \<Rightarrow> read_world \<Rightarrow> read_request \<Rightarrow> nat \<Rightarrow> ledger_error + memory_result list" where
  "retrieve_cold_start_memories E W rq limit =
     map_sum id (\<lambda>rs. take limit (by_score (deduplicate_results rs)))
       (collect (candidate_to_result E (rw_now W) 1) (filter (memory_is_current (rw_now W)) (eligible_rows W rq)))"

text \<open>\<open>ORDER BY importance_score DESC, last_accessed_at DESC\<close>: nulls come first in a descending order.\<close>

definition fallback_key :: "memory \<Rightarrow> pyfloat \<times> int \<times> int" where
  "fallback_key m = (- importance_score m, case last_accessed_at m of None \<Rightarrow> (0, 0) | Some t \<Rightarrow> (1, - t))"

definition retrieve_postgres_fallback :: "retrieval_env \<Rightarrow> read_world \<Rightarrow> read_request \<Rightarrow> nat \<Rightarrow> ledger_error + memory_result list" where
  "retrieve_postgres_fallback E W rq limit =
     (if limit = 0 then Inr []
      else collect (memory_to_result E (rw_now W) 0)
             (filter (memory_is_current (rw_now W)) (take limit (sort_key fallback_key (eligible_rows W rq)))))"

section \<open>Caches\<close>

definition number_text :: "retrieval_env \<Rightarrow> int \<Rightarrow> string" where
  "number_text E n = py_str (ledger_part (rv_pref E)) (PInt n)"

definition opt_string :: "('a \<Rightarrow> string) \<Rightarrow> 'a option \<Rightarrow> string" where
  "opt_string f x = (case x of None \<Rightarrow> [] | Some a \<Rightarrow> f a)"

definition cache_context :: "retrieval_env \<Rightarrow> read_request \<Rightarrow> string" where
  "cache_context E rq =
     (let base = join_with ''|'' [py_lower (py_strip (rq_query rq)), join_with '','' (sort (rq_categories rq)),
                                  opt_string (id_text E) (rq_agent rq), number_text E (int (rq_limit rq))]
      in case rq_days rq of None \<Rightarrow> base | Some n \<Rightarrow> base @ ''|'' @ number_text E n)"

definition hot_tier_cache_key :: "retrieval_env \<Rightarrow> utc \<Rightarrow> uuid \<Rightarrow> read_request \<Rightarrow> string" where
  "hot_tier_cache_key E now p rq =
     join_with ''|'' [id_text E p, join_with '','' (sort (rq_categories rq)), opt_string (id_text E) (rq_agent rq),
                      opt_string (rv_iso E) (window_start now (rq_days rq))]"

definition get_cached_results :: "retrieval_env \<Rightarrow> read_world \<Rightarrow> read_request \<Rightarrow> local_caches \<Rightarrow> memory_result list option \<times> local_caches" where
  "get_cached_results E W rq c =
     (let k = l1_cache_key (rq_cache_id rq) (cache_context E rq)
      in case ttl_get (rw_now W) k (l1_cache c) of
           (Some rs, l1) \<Rightarrow> (Some rs, c\<lparr>l1_cache := l1\<rparr>)
         | (None, l1) \<Rightarrow>
             (let c1 = c\<lparr>l1_cache := l1\<rparr>
              in case rw_redis W (rq_cache_id rq) (cache_context E rq) of
                   None \<Rightarrow> (None, c1)
                 | Some items \<Rightarrow>
                     if items = [] then (None, c1)
                     else
                       (case collect (\<lambda>v. case memory_result_from_cache E v of None \<Rightarrow> Inl () | Some r \<Rightarrow> Inr r) (take 50 items) of
                          Inl _ \<Rightarrow> (None, c1)
                        | Inr rs \<Rightarrow> (Some rs, c1\<lparr>l1_cache := ttl_set l1_bound (l1_ttl W) (rw_now W) k rs l1\<rparr>))))"

definition get_hot_tier_results :: "retrieval_env \<Rightarrow> read_world \<Rightarrow> read_request \<Rightarrow> local_caches \<Rightarrow> memory_result list \<times> local_caches" where
  "get_hot_tier_results E W rq c =
     (case rq_owner rq of
        UserOwner _ \<Rightarrow> ([], c)
      | ProxyOwner p \<Rightarrow>
          (let k = hot_tier_cache_key E (rw_now W) p rq
           in case ttl_get (rw_now W) k (hot_tier_cache c) of
                (Some rs, hot) \<Rightarrow> (rs, c\<lparr>hot_tier_cache := hot\<rparr>)
              | (None, hot) \<Rightarrow>
                  (case rw_hot W (id_text E p) of
                     None \<Rightarrow> ([], c\<lparr>hot_tier_cache := hot\<rparr>)
                   | Some items \<Rightarrow>
                       (let rs = by_score (List.map_filter (memory_result_from_cache E) (take 50 items))
                        in (rs, c\<lparr>hot_tier_cache := ttl_set cache_bound (hot_ttl W) (rw_now W) k rs hot\<rparr>)))))"

definition owner_key :: "retrieval_env \<Rightarrow> owner \<Rightarrow> string" where
  "owner_key E w = (case w of ProxyOwner p \<Rightarrow> ''proxy:'' @ id_text E p | UserOwner u \<Rightarrow> ''user:'' @ id_text E u)"

definition count_memories :: "retrieval_env \<Rightarrow> read_world \<Rightarrow> read_request \<Rightarrow> local_caches \<Rightarrow> nat \<times> local_caches" where
  "count_memories E W rq c =
     (let k = owner_key E (rq_owner rq)
      in case ttl_get (rw_now W) k (memory_count_cache c) of
           (Some n, cc) \<Rightarrow> (n, c\<lparr>memory_count_cache := cc\<rparr>)
         | (None, cc) \<Rightarrow>
             (let n = count_where (\<lambda>m. owned_by (rq_owner rq) m \<and> \<not> is_archived m) (memories (rw_db W))
              in (n, c\<lparr>memory_count_cache := ttl_set cache_bound (count_ttl W) (rw_now W) k n cc\<rparr>)))"

definition candidate_embedding_model_ids :: "retrieval_env \<Rightarrow> read_world \<Rightarrow> read_request \<Rightarrow> local_caches \<Rightarrow> string list \<times> local_caches" where
  "candidate_embedding_model_ids E W rq c =
     (let k = owner_key E (rq_owner rq)
      in case ttl_get (rw_now W) k (model_id_cache c) of
           (Some ids, cc) \<Rightarrow> (ids, c\<lparr>model_id_cache := cc\<rparr>)
         | (None, cc) \<Rightarrow>
             (let stored = filter (\<lambda>i. i \<noteq> []) (remdups (map embedding_model_id
                             (filter (\<lambda>m. owned_by (rq_owner rq) m \<and> \<not> is_archived m) (memories (rw_db W)))));
                  ids = (if stored \<noteq> [] then stored else [rw_active_model W])
              in (ids, c\<lparr>model_id_cache := ttl_set cache_bound (model_ttl W) (rw_now W) k ids cc\<rparr>)))"

definition queue_access_update :: "memory_result list \<Rightarrow> reader \<Rightarrow> reader" where
  "queue_access_update rs st = (if rs = [] then st else st\<lparr>rd_accesses := rd_accesses st @ [map mr_id rs]\<rparr>)"

definition cache_results :: "retrieval_env \<Rightarrow> read_world \<Rightarrow> read_request \<Rightarrow> memory_result list \<Rightarrow> reader \<Rightarrow> reader" where
  "cache_results E W rq rs st =
     (let k = l1_cache_key (rq_cache_id rq) (cache_context E rq); c = rd_caches st
      in st\<lparr>rd_caches := c\<lparr>l1_cache := ttl_set l1_bound (l1_ttl W) (rw_now W) k rs (l1_cache c)\<rparr>,
            rd_pages := rd_pages st @ [(rq_cache_id rq, cache_context E rq, rs)]\<rparr>)"

section \<open>Vector search\<close>

definition point_memory_id :: "retrieval_env \<Rightarrow> scored_point \<Rightarrow> string" where
  "point_memory_id E p =
     (let v = dget (sp_payload p) ''memory_id'' PNone
      in if truthy v then py_str (ledger_part (rv_pref E)) v else id_text E (sp_id p))"

definition passes_semantic_floor :: "retrieval_env \<Rightarrow> scored_point \<Rightarrow> bool" where
  "passes_semantic_floor E p \<longleftrightarrow> sp_score p \<ge> min_semantic_score E"

definition search_for :: "retrieval_env \<Rightarrow> read_world \<Rightarrow> read_request \<Rightarrow> embedding_result \<Rightarrow> nat \<Rightarrow> bool \<Rightarrow> string option \<Rightarrow> search_request" where
  "search_for E W rq er n archived cat =
     \<lparr>query_embedding = er_vector er, sr_tenant = (case rq_owner rq of ProxyOwner _ \<Rightarrow> rq_tenant rq | UserOwner _ \<Rightarrow> None),
      sr_proxy_user = (case rq_owner rq of ProxyOwner p \<Rightarrow> Some p | UserOwner _ \<Rightarrow> None),
      sr_user = (case rq_owner rq of ProxyOwner _ \<Rightarrow> None | UserOwner u \<Rightarrow> Some u), sr_limit = int n, category_filter = cat,
      sr_agent = rq_agent rq, include_archived = archived, sr_collection = Some (er_collection er), sr_collections = [],
      created_after = map_option (\<lambda>t. PStr (rv_iso E t)) (window_start (rw_now W) (rq_days rq)), require_available = False\<rparr>"

text \<open>The best point of each memory over several categories.\<close>

definition merge_best :: "retrieval_env \<Rightarrow> scored_point \<Rightarrow> (string \<times> scored_point) list \<Rightarrow> (string \<times> scored_point) list" where
  "merge_best E p m =
     (let k = point_memory_id E p
      in case map_of m k of
           None \<Rightarrow> AList.update k p m
         | Some q \<Rightarrow> if sp_score p > sp_score q then AList.update k p m else m)"

definition search_qdrant :: "retrieval_env \<Rightarrow> read_world \<Rightarrow> read_request \<Rightarrow> nat \<Rightarrow> bool \<Rightarrow> embedding_result \<Rightarrow> qerror + scored_point list" where
  "search_qdrant E W rq n archived er =
     (if length (rq_categories rq) \<le> 1
      then rw_search W (search_for E W rq er n archived (case rq_categories rq of [] \<Rightarrow> None | c # _ \<Rightarrow> Some c))
      else
        (case collect (\<lambda>c. rw_search W (search_for E W rq er n archived (Some c))) (rq_categories rq) of
           Inl x \<Rightarrow> Inl x
         | Inr pss \<Rightarrow> Inr (take n (sort_key (\<lambda>p. - sp_score p) (map snd (fold (merge_best E) (concat pss) []))))))"

definition search_limit :: "retrieval_env \<Rightarrow> nat \<Rightarrow> nat" where
  "search_limit E n = min (max (n * overfetch_multiplier E) n) 50"

section \<open>Reading the current state\<close>

definition unresolved_job :: "read_world \<Rightarrow> runtime_job \<Rightarrow> bool" where
  "unresolved_job W j \<longleftrightarrow> (\<not> j_applied j \<or> \<not> j_finalized j \<or> j_residual j) \<and> (rw_release_enabled W \<longrightarrow> \<not> j_released j)"

text \<open>Whether a job is unresolved, whether one of these is beyond reach, and whether any job is routed; \<open>None\<close> without an unblocked owner.\<close>

definition runtime_visibility_row :: "read_world \<Rightarrow> uuid \<Rightarrow> uuid \<Rightarrow> (bool \<times> bool \<times> bool) option" where
  "runtime_visibility_row W p t =
     (let routed = filter (\<lambda>j. j_tenant j = t \<and> j_proxy j = p \<and> j_routed j) (rw_jobs W);
          pending = filter (unresolved_job W) routed
      in if find_row (\<lambda>u. p_id u = p \<and> p_tenant_id u = t \<and> \<not> is_blocked u) (proxy_users (rw_db W)) = None then None
         else Some (pending \<noteq> [], filter (\<lambda>j. j_status j \<in> {''failed'', ''dead''} \<or> j_redacted j \<or> j_applied j) pending \<noteq> [], routed \<noteq> []))"

definition source_index_pending :: "read_world \<Rightarrow> uuid \<Rightarrow> uuid \<Rightarrow> bool" where
  "source_index_pending W p t \<longleftrightarrow>
     list_ex (\<lambda>x. o_status x \<in> {Pending, Processing} \<and>
       list_ex (\<lambda>m. m_id m = o_memory_id x \<and> m_proxy_user_id m = p \<and> legacy_memory m) (memories (rw_db W))) (outbox (rw_db W)) \<and>
     list_ex (\<lambda>u. p_id u = p \<and> p_tenant_id u = t) (proxy_users (rw_db W))"

definition page_contents :: "memory_result list \<Rightarrow> (string \<times> string) list" where
  "page_contents rs = fold (\<lambda>r. AList.update (mr_id r) (mr_content r)) rs []"

type_synonym read_outcome = "(read_error + memory_result list) \<times> reader"

definition deliver :: "retrieval_env \<Rightarrow> read_world \<Rightarrow> read_request \<Rightarrow> memory_result list \<Rightarrow> reader \<Rightarrow> read_outcome" where
  "deliver E W rq rs st = (Inr rs, cache_results E W rq rs (queue_access_update rs st))"

definition read_fallback :: "retrieval_env \<Rightarrow> read_world \<Rightarrow> read_request \<Rightarrow> memory_result list \<Rightarrow> reader \<Rightarrow> read_outcome" where
  "read_fallback E W rq hot st =
     (let st1 = st\<lparr>rd_degraded := True\<rparr>
      in case retrieve_postgres_fallback E W rq (rq_limit rq - length hot) of
           Inl x \<Rightarrow> (Inl (ReadLedger x), st1)
         | Inr rs \<Rightarrow> deliver E W rq (merge_hot_tier_results hot rs (rq_limit rq)) st1)"

definition rank_points :: "retrieval_env \<Rightarrow> read_world \<Rightarrow> read_request \<Rightarrow> scored_point list \<Rightarrow> ledger_error + memory_result list" where
  "rank_points E W rq ps =
     (let rows = fetch_memories_by_ids E W rq (map (\<lambda>p. Some (point_memory_id E p)) ps);
          ns = nominated_rows E (rw_now W) rows (map (\<lambda>p. (point_memory_id E p, sp_score p)) ps)
      in map_sum id (\<lambda>rs. by_score (deduplicate_results rs)) (collect (\<lambda>(sem, m). candidate_to_result E (rw_now W) sem m) ns))"

definition read_index :: "retrieval_env \<Rightarrow> read_world \<Rightarrow> read_request \<Rightarrow> memory_result list \<Rightarrow> reader \<Rightarrow> read_outcome" where
  "read_index E W rq hot st =
     (case candidate_embedding_model_ids E W rq (rd_caches st) of
        (ids, c) \<Rightarrow>
          (let st1 = st\<lparr>rd_caches := c\<rparr>
           in case collect (rw_embed W (rq_query rq)) ids of
                Inl x \<Rightarrow> (Inl (EmbeddingFailed x), st1)
              | Inr ers \<Rightarrow>
                  (case collect (search_qdrant E W rq (search_limit E (rq_limit rq - length hot)) False) ers of
                     Inl x \<Rightarrow> (Inl (SearchFailed x), st1)
                   | Inr pss \<Rightarrow>
                       if concat pss = [] \<and> rw_open_after W then read_fallback E W rq hot st1
                       else
                         (let ps = filter (passes_semantic_floor E) (concat pss)
                          in if ps = [] then (Inr (take (rq_limit rq) hot), queue_access_update hot st1)
                             else case rank_points E W rq ps of
                                    Inl x \<Rightarrow> (Inl (ReadLedger x), st1)
                                  | Inr rs \<Rightarrow> deliver E W rq (merge_hot_tier_results hot rs (rq_limit rq)) st1))))"

definition cold_start_threshold :: nat where
  "cold_start_threshold = 5"

definition read_counted :: "retrieval_env \<Rightarrow> read_world \<Rightarrow> read_request \<Rightarrow> memory_result list \<Rightarrow> reader \<Rightarrow> read_outcome" where
  "read_counted E W rq hot st =
     (case count_memories E W rq (rd_caches st) of
        (n, c) \<Rightarrow>
          (let st1 = st\<lparr>rd_caches := c\<rparr>
           in if n < cold_start_threshold then
                (case retrieve_cold_start_memories E W rq (rq_limit rq - length hot) of
                   Inl x \<Rightarrow> (Inl (ReadLedger x), st1)
                 | Inr rs \<Rightarrow> deliver E W rq (merge_hot_tier_results hot rs (rq_limit rq)) st1)
              else if length hot \<ge> rq_limit rq then deliver E W rq (take (rq_limit rq) hot) st1
              else if rw_open_before W then read_fallback E W rq hot st1
              else read_index E W rq hot st1))"

definition read_uncached :: "retrieval_env \<Rightarrow> read_world \<Rightarrow> read_request \<Rightarrow> quota_mode \<Rightarrow> reader \<Rightarrow> read_outcome" where
  "read_uncached E W rq mode st =
     (case get_hot_tier_results E W rq (rd_caches st) of
        (nominated, c) \<Rightarrow>
          (let st1 = st\<lparr>rd_caches := c, rd_cache_hit := False\<rparr>
           in case hydrate_current_results E W rq nominated of
                Inl x \<Rightarrow> (Inl (ReadLedger x), st1)
              | Inr hot \<Rightarrow>
                  if mode = DegradedRetrieve then (Inr (take (rq_limit rq) hot), queue_access_update hot (st1\<lparr>rd_degraded := True\<rparr>))
                  else
                    (case (rq_owner rq, rq_tenant rq) of
                       (ProxyOwner p, Some t) \<Rightarrow>
                         if source_index_pending W p t then
                           (let st2 = st1\<lparr>rd_degraded := True, rd_visibility := Some (''processing'', ''affected_context'')\<rparr>
                            in case retrieve_cold_start_memories E W rq (rq_limit rq) of
                                 Inl x \<Rightarrow> (Inl (ReadLedger x), st2)
                               | Inr rs \<Rightarrow> (Inr (merge_hot_tier_results hot rs (rq_limit rq)), st2))
                         else read_counted E W rq hot st1
                     | _ \<Rightarrow> read_counted E W rq hot st1)))"

text \<open>A cached page is served only when the tables still hold every row of it with the same content.\<close>

definition verify_page :: "retrieval_env \<Rightarrow> read_world \<Rightarrow> read_request \<Rightarrow> memory_result list option \<Rightarrow> ledger_error + memory_result list option" where
  "verify_page E W rq cached =
     (case cached of
        None \<Rightarrow> Inr None
      | Some cs \<Rightarrow>
          if cs = [] then Inr None
          else
            (case hydrate_current_results E W rq cs of
               Inl x \<Rightarrow> Inl x
             | Inr vs \<Rightarrow> Inr (if length vs = length cs \<and> set (page_contents vs) = set (page_contents cs) then Some vs else None)))"

definition read_cached :: "retrieval_env \<Rightarrow> read_world \<Rightarrow> read_request \<Rightarrow> quota_mode \<Rightarrow> reader \<Rightarrow> read_outcome" where
  "read_cached E W rq mode st =
     (case get_cached_results E W rq (rd_caches st) of
        (cached, c) \<Rightarrow>
          (let st1 = st\<lparr>rd_caches := c\<rparr>
           in case verify_page E W rq cached of
                Inl x \<Rightarrow> (Inl (ReadLedger x), st1)
              | Inr (Some vs) \<Rightarrow> (Inr (take (rq_limit rq) vs), queue_access_update vs (st1\<lparr>rd_cache_hit := True\<rparr>))
              | Inr None \<Rightarrow> read_uncached E W rq mode st1))"

text \<open>What stops a read before any source is asked: an unknown or blocked owner, a broad hold, the quota.\<close>

definition preflight :: "read_world \<Rightarrow> read_request \<Rightarrow> quota_mode \<Rightarrow> reader \<Rightarrow> reader option" where
  "preflight W rq mode st =
     (case (rq_owner rq, rq_tenant rq) of
        (ProxyOwner p, Some t) \<Rightarrow>
          (case runtime_visibility_row W p t of
             None \<Rightarrow> Some (st\<lparr>rd_cache_hit := False\<rparr>)
           | Some (pending, unavailable, _) \<Rightarrow>
               if pending \<and> hold_broad (rw_hold W unavailable)
               then Some (st\<lparr>rd_cache_hit := False, rd_degraded := True,
                      rd_visibility := Some (if hold_unavailable (rw_hold W unavailable) then ''unavailable'' else ''processing'', ''user_learned_context'')\<rparr>)
               else if mode \<in> {Blocked, Passthrough} then Some st else None)
      | _ \<Rightarrow> if mode \<in> {Blocked, Passthrough} then Some st else None)"

definition read_current :: "retrieval_env \<Rightarrow> read_world \<Rightarrow> read_request \<Rightarrow> quota_mode \<Rightarrow> reader \<Rightarrow> read_outcome" where
  "read_current E W rq mode st =
     (let st0 = st\<lparr>rd_degraded := False, rd_visibility := None\<rparr>
      in case preflight W rq mode st0 of Some st1 \<Rightarrow> (Inr [], st1) | None \<Rightarrow> read_cached E W rq mode st0)"

lemma coerce_quota_mode_value: "coerce_quota_mode (Some (quota_mode_value m)) = m"
  by (cases m) (simp_all add: coerce_quota_mode_def find_row_def py_strip_def is_space_def py_lower_def lower_char_def)

section \<open>What a current read returns\<close>

text \<open>
  A result is genuine when it shows a stored memory of the owner, with its stored content, that is
  not archived, not a declared preference, valid now and within the filters of the request.
\<close>

definition genuine :: "retrieval_env \<Rightarrow> read_world \<Rightarrow> read_request \<Rightarrow> memory_result \<Rightarrow> bool" where
  "genuine E W rq r \<longleftrightarrow>
     (\<exists>m \<in> set (memories (rw_db W)). mr_id r = id_text E (m_id m) \<and> mr_content r = content m \<and> mr_category r = category_value (category m) \<and>
        eligible (rw_now W) rq m \<and> memory_is_current (rw_now W) m)"

definition sound_results :: "retrieval_env \<Rightarrow> read_world \<Rightarrow> read_request \<Rightarrow> memory_result list \<Rightarrow> bool" where
  "sound_results E W rq rs \<longleftrightarrow> Ball (set rs) (genuine E W rq) \<and> distinct (map mr_id rs)"

lemma collect_in: "collect f xs = Inr ys \<Longrightarrow> y \<in> set ys \<Longrightarrow> \<exists>x \<in> set xs. f x = Inr y"
  by (induction xs arbitrary: ys) (auto split: sum.splits)

lemma result_with_fields [simp]:
  "mr_id (result_with E now sem p m) = id_text E (m_id m)" "mr_content (result_with E now sem p m) = content m"
  "mr_category (result_with E now sem p m) = category_value (category m)" "mr_provenance (result_with E now sem p m) = p"
  "mr_semantic (result_with E now sem p m) = sem"
  by (simp_all add: result_with_def)

lemma to_result_Inr:
  "memory_to_result E now sem m = Inr r \<longleftrightarrow> (\<exists>p. preference_provenance E m = Inr p \<and> r = result_with E now sem p m)"
  "candidate_to_result E now sem m = Inr r \<longleftrightarrow> (\<exists>p. provenance_of m = Inr p \<and> r = result_with E now sem p m)"
  by (auto simp: memory_to_result_def candidate_to_result_def map_sum_def split: sum.splits)

lemma fetch_sound: "m \<in> set (fetch_memories_by_ids E W rq ids) \<Longrightarrow> m \<in> set (memories (rw_db W)) \<and> eligible (rw_now W) rq m \<and> tenant_join rq (rw_db W) m"
  by (auto simp: fetch_memories_by_ids_def Let_def split: if_splits)

lemma nominated_sound:
  assumes "(sem, m) \<in> set (nominated_rows E now rows ns)"
  shows "m \<in> set rows" and "memory_is_current now m" and "row_of E rows (id_text E (m_id m)) = Some m"
proof -
  obtain k where k: "row_of E rows k = Some m" "memory_is_current now m"
    using assms by (auto simp: nominated_rows_def map_filter_def split: option.splits if_splits)
  then have "m \<in> set rows" "id_text E (m_id m) = k" by (auto simp: row_of_def dest: find_row_Some)
  with k show "m \<in> set rows" "memory_is_current now m" "row_of E rows (id_text E (m_id m)) = Some m" by simp_all
qed

text \<open>Results of nominated rows are genuine and, without near duplicates, have different identifiers.\<close>

lemma nominated_results_sound:
  assumes rs: "collect (\<lambda>(sem, m). conv sem m) (nominated_rows E (rw_now W) (fetch_memories_by_ids E W rq ids) ns) = Inr rs"
    and conv: "\<And>sem m r. conv sem m = Inr r \<longleftrightarrow> (\<exists>p. prov m = Inr p \<and> r = result_with E (rw_now W) sem p m)"
  shows "sound_results E W rq (by_score (deduplicate_results rs))"
proof -
  let ?rows = "fetch_memories_by_ids E W rq ids"
  have row: "\<exists>m sem p. row_of E ?rows (mr_id r) = Some m \<and> m \<in> set ?rows \<and> memory_is_current (rw_now W) m \<and>
      prov m = Inr p \<and> r = result_with E (rw_now W) sem p m" if r: "r \<in> set rs" for r
  proof -
    obtain sem m where sm: "(sem, m) \<in> set (nominated_rows E (rw_now W) ?rows ns)" "conv sem m = Inr r"
      using collect_in [OF rs r] by auto
    obtain p where p: "prov m = Inr p" "r = result_with E (rw_now W) sem p m" using sm(2) unfolding conv by blast
    note n = nominated_sound [OF sm(1)]
    show ?thesis by (intro exI conjI, rule n(3) [folded result_with_fields(1) [of E "rw_now W" sem p m], folded p(2)]) (fact n p)+
  qed
  have "genuine E W rq r" if r: "r \<in> set rs" for r
  proof -
    obtain m sem p where "m \<in> set ?rows" "memory_is_current (rw_now W) m" "r = result_with E (rw_now W) sem p m"
      using row [OF r] by (elim exE conjE)
    then show ?thesis using fetch_sound [of m] by (auto simp: genuine_def)
  qed
  moreover have "distinct (map mr_id (deduplicate_results rs))"
  proof (rule deduplicate_ids)
    fix a b
    assume a: "a \<in> set rs" and b: "b \<in> set rs" and e: "mr_id a = mr_id b"
    obtain m sem p where m: "row_of E ?rows (mr_id a) = Some m" "prov m = Inr p" "a = result_with E (rw_now W) sem p m"
      using row [OF a] by (elim exE conjE)
    obtain m' sem' p' where m': "row_of E ?rows (mr_id b) = Some m'" "prov m' = Inr p'" "b = result_with E (rw_now W) sem' p' m'"
      using row [OF b] by (elim exE conjE)
    have "m' = m" using m(1) m'(1) e by simp
    then have "p' = p" using m(2) m'(2) by simp
    then show "mr_content a = mr_content b \<and> mr_provenance a = mr_provenance b" using m(3) m'(3) \<open>m' = m\<close> by simp
  qed
  ultimately show ?thesis using deduplicate_set [of rs] by (auto simp: sound_results_def)
qed

lemma hydrate_sound:
  assumes "hydrate_current_results E W rq cs = Inr rs"
  shows "sound_results E W rq rs"
proof -
  obtain xs where "collect (\<lambda>(sem, m). memory_to_result E (rw_now W) sem m) (nominated_rows E (rw_now W)
      (fetch_memories_by_ids E W rq (map (\<lambda>r. Some (mr_id r)) (take 50 cs))) (map (\<lambda>r. (mr_id r, mr_semantic r)) (take 50 cs))) = Inr xs"
    and "rs = by_score (deduplicate_results xs)"
    using assms by (auto simp: hydrate_current_results_def Let_def map_sum_def split: sum.splits)
  then show ?thesis using nominated_results_sound [OF _ to_result_Inr(1)] by blast
qed

lemma rank_points_sound:
  assumes "rank_points E W rq ps = Inr rs"
  shows "sound_results E W rq rs"
proof -
  obtain xs where "collect (\<lambda>(sem, m). candidate_to_result E (rw_now W) sem m) (nominated_rows E (rw_now W)
      (fetch_memories_by_ids E W rq (map (\<lambda>p. Some (point_memory_id E p)) ps)) (map (\<lambda>p. (point_memory_id E p, sp_score p)) ps)) = Inr xs"
    and "rs = by_score (deduplicate_results xs)"
    using assms by (auto simp: rank_points_def Let_def map_sum_def split: sum.splits)
  then show ?thesis using nominated_results_sound [OF _ to_result_Inr(2)] by blast
qed

lemma eligible_result:
  "m \<in> set (eligible_rows W rq) \<Longrightarrow> memory_is_current (rw_now W) m \<Longrightarrow> genuine E W rq (result_with E now sem p m)"
  by (auto simp: eligible_rows_def genuine_def)

lemma cold_start_genuine: "retrieve_cold_start_memories E W rq n = Inr rs \<Longrightarrow> r \<in> set rs \<Longrightarrow> genuine E W rq r"
  using deduplicate_set
  by (fastforce simp: retrieve_cold_start_memories_def map_sum_def to_result_Inr dest!: collect_in in_set_takeD intro: eligible_result split: sum.splits)

lemma fallback_genuine: "retrieve_postgres_fallback E W rq n = Inr rs \<Longrightarrow> r \<in> set rs \<Longrightarrow> genuine E W rq r"
  by (fastforce simp: retrieve_postgres_fallback_def to_result_Inr dest!: collect_in in_set_takeD intro: eligible_result split: if_splits)

text \<open>Every path of a read keeps its results sound and within the limit.\<close>

definition good_outcome :: "retrieval_env \<Rightarrow> read_world \<Rightarrow> read_request \<Rightarrow> read_outcome \<Rightarrow> bool" where
  "good_outcome E W rq x \<longleftrightarrow> (\<forall>rs st. x = (Inr rs, st) \<longrightarrow> sound_results E W rq rs \<and> length rs \<le> max 1 (rq_limit rq))"

lemma sound_take: "sound_results E W rq rs \<Longrightarrow> sound_results E W rq (take n rs)"
  by (auto simp: sound_results_def take_map [symmetric] dest: in_set_takeD)

lemma sound_merge:
  assumes "sound_results E W rq hot" and "\<And>r. r \<in> set rs \<Longrightarrow> genuine E W rq r"
  shows "sound_results E W rq (merge_hot_tier_results hot rs n)"
  using merge_facts(1) [of hot rs n] merge_facts(2) assms by (auto simp: sound_results_def)

lemma good_error: "good_outcome E W rq (Inl x, st)"
  by (simp add: good_outcome_def)

lemma good_take: "sound_results E W rq rs \<Longrightarrow> good_outcome E W rq (Inr (take (rq_limit rq) rs), st)"
  by (auto simp: good_outcome_def intro: sound_take)

lemma good_merge:
  "sound_results E W rq hot \<Longrightarrow> (\<And>r. r \<in> set rs \<Longrightarrow> genuine E W rq r) \<Longrightarrow> good_outcome E W rq (Inr (merge_hot_tier_results hot rs (rq_limit rq)), st)"
  using merge_facts(3) [of hot rs "rq_limit rq"] by (auto simp: good_outcome_def intro: sound_merge)

lemmas good_rules = good_error good_take good_merge

lemma good_fallback: "sound_results E W rq hot \<Longrightarrow> good_outcome E W rq (read_fallback E W rq hot st)"
  by (auto simp: read_fallback_def Let_def deliver_def intro: good_rules fallback_genuine split: sum.splits)

lemma good_index: "sound_results E W rq hot \<Longrightarrow> good_outcome E W rq (read_index E W rq hot st)"
proof -
  assume hot: "sound_results E W rq hot"
  have "genuine E W rq r" if "rank_points E W rq ps = Inr rs" "r \<in> set rs" for ps rs r
    using rank_points_sound [OF that(1)] that(2) by (simp add: sound_results_def)
  then show ?thesis using hot
    by (auto simp: read_index_def Let_def deliver_def intro: good_rules good_fallback split: prod.splits sum.splits)
qed

lemma good_counted: "sound_results E W rq hot \<Longrightarrow> good_outcome E W rq (read_counted E W rq hot st)"
  by (auto simp: read_counted_def Let_def deliver_def intro: good_rules good_fallback good_index cold_start_genuine split: prod.splits sum.splits)

lemma good_uncached: "good_outcome E W rq (read_uncached E W rq mode st)"
  by (auto simp: read_uncached_def Let_def intro: good_rules good_counted cold_start_genuine dest: hydrate_sound
      split: prod.splits sum.splits option.splits owner.splits)

lemma good_cached: "good_outcome E W rq (read_cached E W rq mode st)"
  by (auto simp: read_cached_def verify_page_def Let_def intro: good_rules good_uncached dest: hydrate_sound
      split: prod.splits sum.splits option.splits if_splits)

lemma good_current: "good_outcome E W rq (read_current E W rq mode st)"
proof -
  have "good_outcome E W rq (Inr [], st')" for st' by (simp add: good_outcome_def sound_results_def)
  then show ?thesis by (simp add: read_current_def Let_def good_cached split: option.split)
qed

lemma preflight_frame:
  "preflight W rq mode st = Some st' \<Longrightarrow> rd_caches st' = rd_caches st \<and> rd_pages st' = rd_pages st \<and> rd_accesses st' = rd_accesses st"
  by (auto simp: preflight_def split: owner.splits option.splits if_splits prod.splits)

lemma preflight_passed:
  assumes "preflight W rq mode st = None" and "rq_owner rq = ProxyOwner p" and "rq_tenant rq = Some t"
  shows "\<exists>u \<in> set (proxy_users (rw_db W)). p_id u = p \<and> p_tenant_id u = t \<and> \<not> is_blocked u"
  using assms by (auto simp: preflight_def runtime_visibility_row_def Let_def find_row_None split: if_splits)

text \<open>
  (C2) Whatever the caches, Redis and the vector index answer, a read of the current state shows only
  stored memories: every result is a memory of the owner that is in the tables, with its stored
  content and category, not archived, not a declared preference, valid at the time of the read and
  within the filters of the request; no memory is shown twice; no more results than the limit are
  shown; and a tenant's read shows something only when the owner is an unblocked user of that tenant.
\<close>

theorem current_reads_are_genuine:
  assumes "read_current E W rq mode st = (Inr rs, st')"
  shows "Ball (set rs) (genuine E W rq) \<and> distinct (map mr_id rs) \<and> length rs \<le> max 1 (rq_limit rq) \<and>
    (rq_owner rq = ProxyOwner p \<longrightarrow> rq_tenant rq = Some t \<longrightarrow> rs \<noteq> [] \<longrightarrow>
      (\<exists>u \<in> set (proxy_users (rw_db W)). p_id u = p \<and> p_tenant_id u = t \<and> \<not> is_blocked u))"
proof -
  have "sound_results E W rq rs \<and> length rs \<le> max 1 (rq_limit rq)"
    using good_current [of E W rq mode st] assms by (simp add: good_outcome_def)
  moreover have "rs = [] \<or> preflight W rq mode (st\<lparr>rd_degraded := False, rd_visibility := None\<rparr>) = None"
    using assms by (auto simp: read_current_def Let_def split: option.splits)
  ultimately show ?thesis using preflight_passed by (auto simp: sound_results_def)
qed

text \<open>
  A tenant whose quota is blocked, or whose calls pass through, is shown nothing from memory, and
  neither is a user whose jobs hold back all learned context; nothing is read, cached or queued.
\<close>

theorem held_reads_are_empty:
  assumes "mode = Blocked \<or> mode = Passthrough \<or>
    (rq_owner rq = ProxyOwner p \<and> rq_tenant rq = Some t \<and>
      (\<exists>unavailable routed. runtime_visibility_row W p t = Some (True, unavailable, routed) \<and> hold_broad (rw_hold W unavailable)))"
  shows "\<exists>st'. read_current E W rq mode st = (Inr [], st') \<and> rd_caches st' = rd_caches st \<and> rd_pages st' = rd_pages st \<and> rd_accesses st' = rd_accesses st"
proof -
  let ?st = "st\<lparr>rd_degraded := False, rd_visibility := None\<rparr>"
  have "preflight W rq mode ?st \<noteq> None" using assms by (auto simp: preflight_def split: owner.split option.split)
  then obtain st' where p: "preflight W rq mode ?st = Some st'" by blast
  then show ?thesis using preflight_frame [OF p] by (simp add: read_current_def Let_def)
qed

section \<open>Witnesses\<close>

definition example_retrieval_env :: retrieval_env where
  "example_retrieval_env =
     \<lparr>rv_pref = example_pref_env, rv_uuid_of = (\<lambda>s. if s = ''u'' then Some 1 else None), rv_iso = (\<lambda>_. ''t''), rv_from_iso = (\<lambda>_. None),
      semantic_weight = 6/10, importance_weight = 25/100, recency_weight = 15/100, min_semantic_score = 315/1000, overfetch_multiplier = 3\<rparr>"

definition example_world :: "db \<Rightarrow> read_world" where
  "example_world d =
     \<lparr>rw_db = d, rw_redis = (\<lambda>_ _. None), rw_hot = (\<lambda>_. None), rw_search = (\<lambda>_. Inr []), rw_embed = (\<lambda>_ _. Inl ''down''),
      rw_active_model = ''e'', rw_open_before = False, rw_open_after = False, rw_jobs = [], rw_release_enabled = False,
      rw_hold = (\<lambda>b. \<lparr>hold_broad = True, hold_unavailable = b, held_fingerprints = {}, held_facts = {}\<rparr>), rw_now = 1, l1_ttl = 1000000,
      hot_ttl = 2000000, count_ttl = 30000000, model_ttl = 60000000\<rparr>"

definition example_read_request :: read_request where
  "example_read_request =
     \<lparr>rq_query = ''tea'', rq_limit = 3, rq_categories = [], rq_agent = None, rq_days = None, rq_tenant = Some 90, rq_owner = ProxyOwner 80,
      rq_cache_id = ''u''\<rparr>"

definition example_reader :: reader where
  "example_reader =
     \<lparr>rd_caches = \<lparr>l1_cache = [], hot_tier_cache = [], memory_count_cache = [], model_id_cache = []\<rparr>, rd_pages = [], rd_accesses = [],
      rd_cache_hit = False, rd_degraded = False, rd_visibility = None\<rparr>"

lemmas example_read_defs = example_retrieval_env_def example_world_def example_read_request_def example_reader_def example_db_def example_memory_def

lemma example_cold_start:
  "retrieve_cold_start_memories example_retrieval_env (example_world example_db) example_read_request n =
     Inr (take n [result_with example_retrieval_env 1 1 None example_memory])"
  by (simp add: retrieve_cold_start_memories_def eligible_rows_def eligible_def owned_by_def legacy_memory_def matches_request_def listed_def
      window_start_def memory_is_current_def is_valid_at_def candidate_to_result_def provenance_of_def deduplicate_results_def by_score_def
      example_read_defs)

lemma example_hydrate: "hydrate_current_results E W rq [] = Inr []"
  by (simp add: hydrate_current_results_def Let_def nominated_rows_def map_filter_simps deduplicate_results_def by_score_def)

lemma example_visible: "runtime_visibility_row (example_world example_db) 80 90 = Some (False, False, False)"
  by (simp add: runtime_visibility_row_def find_row_def example_read_defs)

lemma example_read:
  "\<exists>st'. read_current example_retrieval_env (example_world example_db) example_read_request Full example_reader =
     (Inr [result_with example_retrieval_env 1 1 None example_memory], st') \<and> rd_visibility st' = None"
proof -
  let ?W = "example_world example_db"
  have [simp]: "rq_owner example_read_request = ProxyOwner 80" "rq_tenant example_read_request = Some 90" "rq_limit example_read_request = 3"
    by (simp_all add: example_read_request_def)
  have "preflight ?W example_read_request Full (example_reader\<lparr>rd_degraded := False, rd_visibility := None\<rparr>) = None"
    by (simp add: preflight_def example_visible)
  moreover have "\<not> source_index_pending ?W 80 90" by (simp add: source_index_pending_def example_read_defs)
  moreover obtain c1 where "count_memories example_retrieval_env ?W example_read_request (rd_caches example_reader) = (1, c1)"
    by (simp add: count_memories_def Let_def ttl_get_def count_where_def owned_by_def example_read_defs)
  moreover have "get_cached_results example_retrieval_env ?W example_read_request c = (None, c)" if "l1_cache c = []" for c
    using that by (simp add: get_cached_results_def Let_def ttl_get_def example_world_def)
  moreover have "get_hot_tier_results example_retrieval_env ?W example_read_request c = ([], c)" if "hot_tier_cache c = []" for c
    using that by (simp add: get_hot_tier_results_def Let_def ttl_get_def example_world_def)
  ultimately show ?thesis
    by (simp add: read_current_def read_cached_def verify_page_def read_uncached_def read_counted_def example_hydrate example_cold_start
        Let_def deliver_def merge_hot_tier_results_def cold_start_threshold_def queue_access_update_def cache_results_def example_reader_def)
qed

theorem current_reads_are_genuine_witness:
  "\<exists>st'. read_current example_retrieval_env (example_world example_db) example_read_request Full example_reader =
     (Inr [result_with example_retrieval_env 1 1 None example_memory], st') \<and>
     genuine example_retrieval_env (example_world example_db) example_read_request (result_with example_retrieval_env 1 1 None example_memory)"
proof -
  obtain st' where r: "read_current example_retrieval_env (example_world example_db) example_read_request Full example_reader =
      (Inr [result_with example_retrieval_env 1 1 None example_memory], st')" using example_read by blast
  from current_reads_are_genuine [OF r] r show ?thesis by simp
qed

theorem held_reads_are_empty_witness:
  "\<exists>st'. read_current example_retrieval_env (example_world example_db) example_read_request Blocked example_reader = (Inr [], st') \<and> rd_pages st' = []"
  using held_reads_are_empty [of Blocked example_read_request 80 90 "example_world example_db" example_retrieval_env example_reader]
  by (auto simp: example_reader_def)

end
