(* ===== verification/GovernedReads.thy ===== *)
theory GovernedReads
  imports Retrieval
begin

text \<open>
  The reads around the candidates of \<open>src/api/services/retriever.py\<close>: reads of the past, declared
  preferences, the projection of source claims, the withholding of pending corrections and the final
  read that puts them together in one snapshot of the tables.
\<close>

section \<open>Reads of the past\<close>

definition effective_at_time :: "utc \<Rightarrow> memory \<Rightarrow> bool" where
  "effective_at_time t m \<longleftrightarrow>
     is_valid_at (effective_from m) (effective_until m) t \<and> (\<not> is_archived m \<or> effective_from m \<noteq> None \<or> effective_until m \<noteq> None)"

definition historical :: "read_world \<Rightarrow> read_request \<Rightarrow> utc \<Rightarrow> memory \<Rightarrow> bool" where
  "historical W rq t m \<longleftrightarrow> owned_by (rq_owner rq) m \<and> legacy_memory m \<and> effective_at_time t m \<and> matches_request (rw_now W) rq m"

text \<open>\<open>ORDER BY importance_score DESC, effective_from DESC NULLS LAST, last_accessed_at DESC\<close>.\<close>

definition history_key :: "memory \<Rightarrow> pyfloat \<times> (int \<times> int) \<times> (int \<times> int)" where
  "history_key m =
     (- importance_score m, (case effective_from m of None \<Rightarrow> (1, 0) | Some t \<Rightarrow> (0, - t)),
      (case last_accessed_at m of None \<Rightarrow> (0, 0) | Some t \<Rightarrow> (1, - t)))"

definition retrieve_as_of_memories :: "retrieval_env \<Rightarrow> read_world \<Rightarrow> read_request \<Rightarrow> utc \<Rightarrow> ledger_error + memory_result list" where
  "retrieve_as_of_memories E W rq t =
     collect (memory_to_result E (rw_now W) 0) (take (rq_limit rq) (sort_key history_key (filter (historical W rq t) (memories (rw_db W)))))"

definition historical_rows :: "retrieval_env \<Rightarrow> read_world \<Rightarrow> read_request \<Rightarrow> utc \<Rightarrow> scored_point list \<Rightarrow> (pyfloat \<times> memory) list" where
  "historical_rows E W rq t ps =
     (let us = List.map_filter (\<lambda>p. rv_uuid_of E (point_memory_id E p)) ps;
          rows = filter (\<lambda>m. m_id m \<in> set us \<and> historical W rq t m) (memories (rw_db W))
      in List.map_filter (\<lambda>p. map_option (\<lambda>m. (sp_score p, m)) (row_of E rows (point_memory_id E p))) ps)"

text \<open>\<open>None\<close>: a step raised, or nothing was found. An identifier that is no UUID raises.\<close>

definition rank_history :: "retrieval_env \<Rightarrow> read_world \<Rightarrow> read_request \<Rightarrow> utc \<Rightarrow> scored_point list \<Rightarrow> memory_result list option" where
  "rank_history E W rq t ps =
     (if ps = [] \<or> list_ex (\<lambda>p. rv_uuid_of E (point_memory_id E p) = None) ps then None
      else
        (case collect (\<lambda>(sem, m). memory_to_result E (rw_now W) sem m) (historical_rows E W rq t ps) of
           Inl _ \<Rightarrow> None
         | Inr rs \<Rightarrow> if rs = [] then None else Some (take (rq_limit rq) (by_score (deduplicate_results rs)))))"

definition semantic_history :: "retrieval_env \<Rightarrow> read_world \<Rightarrow> read_request \<Rightarrow> utc \<Rightarrow> string list \<Rightarrow> memory_result list option" where
  "semantic_history E W rq t ids =
     (case collect (\<lambda>i. case rw_embed W (rq_query rq) i of
                          Inl _ \<Rightarrow> Inl ()
                        | Inr er \<Rightarrow> map_sum (\<lambda>_. ()) id (search_qdrant E W rq (search_limit E (rq_limit rq)) True er)) ids of
        Inl _ \<Rightarrow> None
      | Inr pss \<Rightarrow> rank_history E W rq t (filter (\<lambda>p. passes_semantic_floor E p \<and> payload_is_valid_at E (sp_payload p) t) (concat pss)))"

definition read_as_of :: "retrieval_env \<Rightarrow> read_world \<Rightarrow> read_request \<Rightarrow> quota_mode \<Rightarrow> utc \<Rightarrow> reader \<Rightarrow> read_outcome" where
  "read_as_of E W rq mode t st =
     (let st0 = st\<lparr>rd_degraded := False, rd_visibility := None\<rparr>
      in if mode \<in> {Blocked, Passthrough} then (Inr [], st0)
         else
           (case candidate_embedding_model_ids E W rq (rd_caches st0) of
              (ids, c) \<Rightarrow>
                (let st1 = st0\<lparr>rd_caches := c, rd_cache_hit := False\<rparr>
                 in case semantic_history E W rq t ids of
                      Some rs \<Rightarrow> (Inr rs, queue_access_update rs st1)
                    | None \<Rightarrow>
                        (case retrieve_as_of_memories E W rq t of
                           Inl x \<Rightarrow> (Inl (ReadLedger x), st1)
                         | Inr rs \<Rightarrow> (Inr rs, queue_access_update rs st1)))))"

section \<open>Declared preferences\<close>

record read_context =
  cx_applicability :: pref_applicability
  cx_keys :: "string list"

definition context_ok :: "read_context \<Rightarrow> bool" where
  "context_ok x \<longleftrightarrow>
     applicability_ok (cx_applicability x) \<and> pa_kind (cx_applicability x) \<noteq> ''unresolved'' \<and>
     1 \<le> length (cx_keys x) \<and> length (cx_keys x) \<le> 16 \<and> list_all valid_property_key (cx_keys x) \<and> distinct (cx_keys x)"

definition global_scope :: pref_applicability where
  "global_scope = \<lparr>pa_kind = ''global'', pa_namespace = None, pa_key = None\<rparr>"

definition fingerprint_of :: "retrieval_env \<Rightarrow> string \<Rightarrow> pref_applicability \<Rightarrow> string" where
  "fingerprint_of E k a = preference_fingerprint (rv_pref E) k a"

text \<open>The claims of the owner with the fingerprints, each with the memory it holds, if that row exists.\<close>

definition preference_rows :: "read_world \<Rightarrow> uuid \<Rightarrow> uuid \<Rightarrow> string set \<Rightarrow> (memory_claim \<times> memory option) list" where
  "preference_rows W t p fps =
     (if find_row (\<lambda>u. p_id u = p \<and> p_tenant_id u = t \<and> \<not> is_blocked u) (proxy_users (rw_db W)) = None then []
      else map (\<lambda>c. (c, Option.bind (active_memory_id c) (\<lambda>i. get_memory i (rw_db W))))
             (filter (\<lambda>c. c_tenant_id c = t \<and> c_proxy_user_id c = p \<and> claim_fingerprint c \<in> fps) (claims (rw_db W))))"

text \<open>
  One scope of a property. \<open>NextScope\<close>: nothing here, a broader scope may answer. \<open>Stop\<close>: no scope
  answers. \<open>Undecided\<close>: the choice is held open. \<open>Chosen\<close>: the memory of this scope.
\<close>

datatype scope_answer = NextScope | Stop | Undecided | Chosen memory

definition consistent_preference :: "string \<Rightarrow> pref_applicability \<Rightarrow> memory_claim \<Rightarrow> pref_claim \<Rightarrow> bool" where
  "consistent_preference k a c q \<longleftrightarrow> pc_property_key q = k \<and> pc_applicability q = a \<and> active_value c = Some (pc_value q)"

definition in_window :: "read_world \<Rightarrow> read_request \<Rightarrow> memory \<Rightarrow> bool" where
  "in_window W rq m \<longleftrightarrow>
     (case rq_agent rq of None \<Rightarrow> True | Some a \<Rightarrow> m_agent_id m = Some a) \<and>
     (case window_start (rw_now W) (rq_days rq) of None \<Rightarrow> True | Some t \<Rightarrow> t \<le> created_at m)"

definition answer_scope ::
  "retrieval_env \<Rightarrow> read_world \<Rightarrow> read_request \<Rightarrow> uuid \<Rightarrow> string \<Rightarrow> pref_applicability \<Rightarrow> (memory_claim \<times> memory option) option \<Rightarrow> ledger_error + scope_answer" where
  "answer_scope E W rq p k a pair =
     (case pair of
        None \<Rightarrow> Inr NextScope
      | Some (c, mo) \<Rightarrow>
          if active_memory_id c = None then Inr NextScope
          else
            (case mo of
               None \<Rightarrow> Inr Stop
             | Some m \<Rightarrow>
                 (case held_choice (rv_pref E) m c of
                    Inl x \<Rightarrow> Inl x
                  | Inr True \<Rightarrow> Inr Undecided
                  | Inr False \<Rightarrow>
                      if m_proxy_user_id m \<noteq> p \<or> c_status c \<notin> {''active'', ''archived''} then Inr Stop
                      else
                        (case memory_declaration m of
                           Inl x \<Rightarrow> Inl x
                         | Inr None \<Rightarrow> Inr Stop
                         | Inr (Some q) \<Rightarrow>
                             if \<not> consistent_preference k a c q then Inr Stop
                             else if c_status c = ''archived'' \<and> \<not> is_archived m then Inr Stop
                             else if is_archived m \<or> \<not> memory_is_current (rw_now W) m then Inr NextScope
                             else if \<not> in_window W rq m then Inr NextScope
                             else Inr (Chosen m)))))"

text \<open>The loop over the scopes: the open choice, if any, and the chosen memory, if any.\<close>

fun scan_scopes ::
  "retrieval_env \<Rightarrow> read_world \<Rightarrow> read_request \<Rightarrow> uuid \<Rightarrow> (string \<Rightarrow> (memory_claim \<times> memory option) option) \<Rightarrow> string \<Rightarrow> pref_applicability list \<Rightarrow>
     ledger_error + (pref_applicability option \<times> memory option)" where
  "scan_scopes E W rq p pairs k [] = Inr (None, None)"
| "scan_scopes E W rq p pairs k (a # as) =
     (case answer_scope E W rq p k a (pairs (fingerprint_of E k a)) of
        Inl x \<Rightarrow> Inl x
      | Inr NextScope \<Rightarrow> scan_scopes E W rq p pairs k as
      | Inr Stop \<Rightarrow> Inr (None, None)
      | Inr Undecided \<Rightarrow> Inr (Some a, None)
      | Inr (Chosen m) \<Rightarrow> Inr (None, Some m))"

definition read_property ::
  "retrieval_env \<Rightarrow> read_world \<Rightarrow> read_request \<Rightarrow> uuid \<Rightarrow> pref_applicability \<Rightarrow> string set \<Rightarrow> (string \<Rightarrow> (memory_claim \<times> memory option) option) \<Rightarrow> string \<Rightarrow>
     ledger_error + ((string \<times> pref_applicability) list \<times> memory_result list)" where
  "read_property E W rq p a withheld pairs k =
     (if fingerprint_of E k a \<in> withheld \<or> fingerprint_of E k global_scope \<in> withheld then Inr ([], [])
      else
        (case scan_scopes E W rq p pairs k [a, global_scope] of
           Inl x \<Rightarrow> Inl x
         | Inr (open_choice, None) \<Rightarrow> Inr (case open_choice of None \<Rightarrow> [] | Some s \<Rightarrow> [(k, s)], [])
         | Inr (_, Some m) \<Rightarrow> map_sum id (\<lambda>r. ([], [r])) (memory_to_result E (rw_now W) 1 m)))"

definition asked_fingerprints :: "retrieval_env \<Rightarrow> read_context \<Rightarrow> string set" where
  "asked_fingerprints E x = (\<Union>k \<in> set (cx_keys x). {fingerprint_of E k global_scope, fingerprint_of E k (cx_applicability x)})"

definition by_fingerprint :: "retrieval_env \<Rightarrow> read_world \<Rightarrow> uuid \<Rightarrow> uuid \<Rightarrow> read_context \<Rightarrow> string \<Rightarrow> (memory_claim \<times> memory option) option" where
  "by_fingerprint E W t p x = map_of (rev (map (\<lambda>(c, mo). (claim_fingerprint c, (c, mo))) (preference_rows W t p (asked_fingerprints E x))))"

definition declared_preferences ::
  "retrieval_env \<Rightarrow> read_world \<Rightarrow> read_request \<Rightarrow> uuid \<Rightarrow> uuid \<Rightarrow> read_context \<Rightarrow> string set \<Rightarrow>
     ledger_error + ((string \<times> pref_applicability) list \<times> memory_result list)" where
  "declared_preferences E W rq t p x withheld =
     (if rq_categories rq \<noteq> [] \<and> ''preference'' \<notin> set (rq_categories rq) then Inr ([], [])
      else
        map_sum id (\<lambda>ys. (concat (map fst ys), concat (map snd ys)))
          (collect (read_property E W rq p (cx_applicability x) withheld (by_fingerprint E W t p x)) (cx_keys x)))"

definition other_categories :: "string list \<Rightarrow> string list" where
  "other_categories cs =
     filter (\<lambda>c. c \<noteq> ''preference'') (if cs \<noteq> [] then cs else [''fact'', ''goal'', ''procedure'', ''relationship'', ''expertise''])"

text \<open>A read with a context: the preferences it asks for, then the other categories as usual.\<close>

definition read_declared ::
  "retrieval_env \<Rightarrow> read_world \<Rightarrow> read_request \<Rightarrow> quota_mode \<Rightarrow> uuid \<Rightarrow> uuid \<Rightarrow> read_context \<Rightarrow> string set \<Rightarrow> bool \<Rightarrow> reader \<Rightarrow>
     (read_error + (string \<times> pref_applicability) list \<times> memory_result list) \<times> reader" where
  "read_declared E W rq mode t p x withheld include_other st =
     (case declared_preferences E W rq t p x withheld of
        Inl e \<Rightarrow> (Inl (ReadLedger e), st)
      | Inr (open_choices, prefs) \<Rightarrow>
          (case (if include_other \<and> other_categories (rq_categories rq) \<noteq> []
                 then read_current E W (rq\<lparr>rq_categories := other_categories (rq_categories rq)\<rparr>) mode st
                 else (Inr [], st)) of
             (Inl e, st1) \<Rightarrow> (Inl e, st1)
           | (Inr other, st1) \<Rightarrow>
               (Inr (open_choices, take (rq_limit rq) (prefs @ other)), queue_access_update prefs (st1\<lparr>rd_cache_hit := False\<rparr>))))"

definition read_with_context ::
  "retrieval_env \<Rightarrow> read_world \<Rightarrow> read_request \<Rightarrow> quota_mode \<Rightarrow> bool \<Rightarrow> read_context \<Rightarrow> reader \<Rightarrow>
     (read_error + (string \<times> pref_applicability) list \<times> memory_result list) \<times> reader" where
  "read_with_context E W rq mode enabled x st =
     (let st0 = st\<lparr>rd_degraded := False, rd_visibility := None\<rparr>
      in case preflight W rq mode st0 of
           Some st1 \<Rightarrow> (Inr ([], []), st1)
         | None \<Rightarrow>
             (case (rq_owner rq, rq_tenant rq) of
                (ProxyOwner p, Some t) \<Rightarrow>
                  if enabled \<and> context_ok x then read_declared E W rq mode t p x {} True st0 else (Inl ContextUnavailable, st0)
              | _ \<Rightarrow> (Inl ContextUnavailable, st0)))"

section \<open>Source claims\<close>

record source_event =
  ev_id :: uuid
  ev_tenant :: uuid
  ev_proxy :: uuid
  ev_writer :: "uuid option"
  ev_scope :: scope

record pending_candidate =
  pn_tenant :: uuid
  pn_proxy :: uuid
  pn_event :: "uuid option"
  pn_category :: string
  pn_status :: string
  pn_reason :: string
  pn_codes :: "string list"

record source_tables =
  source_events :: "source_event list"
  pending_candidates :: "pending_candidate list"

definition from_writer :: "memory_result \<Rightarrow> bool" where
  "from_writer r \<longleftrightarrow> (case mr_provenance r of None \<Rightarrow> False | Some p \<Rightarrow> truthy (dget p ''writer_id'' PNone))"

definition none_text :: "string option \<Rightarrow> string" where
  "none_text v = (case v of None \<Rightarrow> ''None'' | Some s \<Rightarrow> s)"

definition source_winner_matches :: "retrieval_env \<Rightarrow> memory_claim \<Rightarrow> memory \<Rightarrow> claim_revision \<Rightarrow> ledger_error + bool" where
  "source_winner_matches E c m r =
     (case memory_declaration m of
        Inl x \<Rightarrow> Inl x
      | Inr q \<Rightarrow>
          Inr ((case q of
                  Some q \<Rightarrow> claim_fingerprint c = fingerprint_of E (pc_property_key q) (pc_applicability q)
                | None \<Rightarrow> subject_key c = generic_claim_subject) \<and>
               c_status c = ''active'' \<and> \<not> is_archived m \<and> active_memory_id c = Some (m_id m) \<and> winning_revision_id c = Some (r_id r) \<and>
               r_claim_id r = c_id c \<and> r_memory_id r = Some (m_id m) \<and> asserted_value r = none_text (active_value c) \<and>
               r_source_event_id r = source_event_id m \<and> c_proxy_user_id c = m_proxy_user_id m))"

text \<open>The claims of the tenant and owner that have a revision of the memory with this identifier.\<close>

definition claims_of_memory :: "retrieval_env \<Rightarrow> read_world \<Rightarrow> uuid \<Rightarrow> uuid \<Rightarrow> string \<Rightarrow> memory_claim list" where
  "claims_of_memory E W t p k =
     List.map_filter (\<lambda>r. find_row (\<lambda>c. c_id c = r_claim_id r \<and> c_tenant_id c = t \<and> c_proxy_user_id c = p) (claims (rw_db W)))
       (filter (\<lambda>r. map_option (id_text E) (r_memory_id r) = Some k) (revisions (rw_db W)))"

definition only_claim :: "retrieval_env \<Rightarrow> read_world \<Rightarrow> uuid \<Rightarrow> uuid \<Rightarrow> string \<Rightarrow> memory_claim option" where
  "only_claim E W t p k = (case claims_of_memory E W t p k of [c] \<Rightarrow> Some c | _ \<Rightarrow> None)"

definition winner_ids :: "retrieval_env \<Rightarrow> read_world \<Rightarrow> uuid \<Rightarrow> uuid \<Rightarrow> memory_result list \<Rightarrow> string list" where
  "winner_ids E W t p sourced =
     remdups (List.map_filter (\<lambda>r. Option.bind (only_claim E W t p (mr_id r))
        (\<lambda>c. if c_status c = ''active'' \<and> winning_revision_id c \<noteq> None then map_option (id_text E) (active_memory_id c) else None)) sourced)"

text \<open>The current winner of the claim of a sourced candidate; \<open>None\<close> withholds the candidate.\<close>

definition current_winner :: "retrieval_env \<Rightarrow> read_world \<Rightarrow> uuid \<Rightarrow> uuid \<Rightarrow> memory list \<Rightarrow> memory_result \<Rightarrow> ledger_error + memory option" where
  "current_winner E W t p winners r =
     (case only_claim E W t p (mr_id r) of
        None \<Rightarrow> Inr None
      | Some c \<Rightarrow>
          (case (Option.bind (active_memory_id c) (\<lambda>i. row_of E winners (id_text E i)),
                 Option.bind (winning_revision_id c) (\<lambda>i. get_revision i (rw_db W))) of
             (Some m, Some v) \<Rightarrow>
               (case source_winner_matches E c m v of
                  Inl x \<Rightarrow> Inl x
                | Inr ok \<Rightarrow> Inr (if ok \<and> memory_is_current (rw_now W) m then Some m else None))
           | _ \<Rightarrow> Inr None))"

text \<open>The projection of the candidates, with the identifiers already shown and whether one was withheld.\<close>

fun project ::
  "retrieval_env \<Rightarrow> read_world \<Rightarrow> uuid \<Rightarrow> uuid \<Rightarrow> memory list \<Rightarrow> uuid list \<Rightarrow> memory_result list \<Rightarrow> ledger_error + (memory_result list \<times> bool)" where
  "project E W t p winners seen [] = Inr ([], False)"
| "project E W t p winners seen (r # rs) =
     (if \<not> from_writer r then map_sum id (\<lambda>(ys, w). (r # ys, w)) (project E W t p winners seen rs)
      else
        (case current_winner E W t p winners r of
           Inl x \<Rightarrow> Inl x
         | Inr None \<Rightarrow> map_sum id (\<lambda>(ys, w). (ys, True)) (project E W t p winners seen rs)
         | Inr (Some m) \<Rightarrow>
             if m_id m \<in> set seen then project E W t p winners seen rs
             else
               (case memory_to_result E (rw_now W) (mr_semantic r) m of
                  Inl x \<Rightarrow> Inl x
                | Inr y \<Rightarrow> map_sum id (\<lambda>(ys, w). (y # ys, w)) (project E W t p winners (m_id m # seen) rs))))"

definition project_source_claims ::
  "retrieval_env \<Rightarrow> read_world \<Rightarrow> read_request \<Rightarrow> uuid \<Rightarrow> uuid \<Rightarrow> memory_result list \<Rightarrow> reader \<Rightarrow> read_outcome" where
  "project_source_claims E W rq t p rs st =
     (let sourced = filter from_writer rs
      in if sourced = [] then (Inr rs, st)
         else
           (case project E W t p (fetch_memories_by_ids E W rq (map Some (winner_ids E W t p sourced))) [] rs of
              Inl x \<Rightarrow> (Inl (ReadLedger x), st)
            | Inr (ys, withheld) \<Rightarrow>
                (Inr (take (rq_limit rq) ys),
                 (if withheld then st\<lparr>rd_visibility := Some (''unavailable'', ''affected_context''), rd_degraded := True\<rparr> else st)
                   \<lparr>rd_cache_hit := False\<rparr>)))"

section \<open>Pending corrections\<close>

definition correction_of :: "source_tables \<Rightarrow> read_request \<Rightarrow> uuid \<Rightarrow> uuid \<Rightarrow> pending_candidate \<Rightarrow> source_event option" where
  "correction_of S rq t p x =
     (if pn_tenant x = t \<and> pn_proxy x = p \<and> pn_status x = ''pending'' \<and> pn_reason x = ''source_decision_pending'' \<and>
         ''source_correction_unresolved'' \<in> set (pn_codes x) \<and>
         (rq_categories rq = [] \<or> pn_category x \<in> set (rq_categories rq))
      then find_row (\<lambda>e. pn_event x = Some (ev_id e) \<and> ev_tenant e = t \<and> ev_proxy e = p \<and> ev_writer e \<noteq> None) (source_events S)
      else None)"

definition same_scope :: "source_event \<Rightarrow> source_event \<Rightarrow> bool" where
  "same_scope a b \<longleftrightarrow> json_canonical (PDict (ev_scope a)) = json_canonical (PDict (ev_scope b))"

definition blocked_by_correction :: "source_tables \<Rightarrow> read_request \<Rightarrow> uuid \<Rightarrow> uuid \<Rightarrow> memory \<Rightarrow> bool" where
  "blocked_by_correction S rq t p m \<longleftrightarrow>
     m_proxy_user_id m = p \<and>
     (case find_row (\<lambda>e. source_event_id m = Some (ev_id e) \<and> ev_tenant e = t \<and> ev_proxy e = p \<and> ev_writer e \<noteq> None) (source_events S) of
        None \<Rightarrow> False
      | Some e \<Rightarrow>
          list_ex (\<lambda>x. case correction_of S rq t p x of None \<Rightarrow> False | Some e' \<Rightarrow> pn_category x = category_value (category m) \<and> same_scope e' e)
            (pending_candidates S))"

definition withhold_pending_source_corrections ::
  "retrieval_env \<Rightarrow> read_world \<Rightarrow> source_tables \<Rightarrow> read_request \<Rightarrow> uuid \<Rightarrow> uuid \<Rightarrow> memory_result list \<Rightarrow> reader \<Rightarrow> memory_result list \<times> reader" where
  "withhold_pending_source_corrections E W S rq t p rs st =
     (if \<not> list_ex (\<lambda>x. correction_of S rq t p x \<noteq> None) (pending_candidates S) then (rs, st)
      else
        (let vis = (case rd_visibility st of
                      Some (state, scope) \<Rightarrow> if scope = ''affected_context'' then Some (''unavailable'', ''affected_context'') else Some (state, scope)
                    | None \<Rightarrow> Some (''unavailable'', ''affected_context''));
             blocked = map (\<lambda>m. id_text E (m_id m)) (filter (blocked_by_correction S rq t p) (memories (rw_db W)))
         in (filter (\<lambda>r. mr_id r \<notin> set blocked) rs, st\<lparr>rd_visibility := vis, rd_degraded := True, rd_cache_hit := False\<rparr>)))"

definition project_current_sources ::
  "retrieval_env \<Rightarrow> read_world \<Rightarrow> source_tables \<Rightarrow> read_request \<Rightarrow> uuid \<Rightarrow> uuid \<Rightarrow> memory_result list \<Rightarrow> reader \<Rightarrow> read_outcome" where
  "project_current_sources E W S rq t p rs st =
     (case project_source_claims E W rq t p rs st of
        (Inl x, st1) \<Rightarrow> (Inl x, st1)
      | (Inr ys, st1) \<Rightarrow> (case withhold_pending_source_corrections E W S rq t p ys st1 of (zs, st2) \<Rightarrow> (Inr zs, st2)))"

section \<open>The final read\<close>

definition no_hold :: runtime_hold where
  "no_hold = \<lparr>hold_broad = False, hold_unavailable = False, held_fingerprints = {}, held_facts = {}\<rparr>"

definition not_held :: "runtime_hold \<Rightarrow> memory_result \<Rightarrow> bool" where
  "not_held h r \<longleftrightarrow>
     mr_id r \<notin> held_facts h \<and> (case mr_previous_version_id r of None \<Rightarrow> True | Some i \<Rightarrow> i \<notin> held_facts h) \<and>
     \<not> (held_fingerprints h \<noteq> {} \<and> mr_category r = ''preference'')"

text \<open>
  The part of the read under a hold \<open>h\<close>: every candidate is read again, held facts and preferences
  are left out, and the preferences of a context are read fresh.
\<close>

definition read_governed ::
  "retrieval_env \<Rightarrow> read_world \<Rightarrow> source_tables \<Rightarrow> read_request \<Rightarrow> quota_mode \<Rightarrow> uuid \<Rightarrow> uuid \<Rightarrow> read_context option \<Rightarrow> runtime_hold \<Rightarrow>
     memory_result list \<Rightarrow> reader \<Rightarrow> read_outcome" where
  "read_governed E W S rq mode t p ctx h cs st =
     (case hydrate_current_results E W rq (filter (\<lambda>r. ctx = None \<or> mr_category r \<noteq> ''preference'') cs) of
        Inl x \<Rightarrow> (Inl (ReadLedger x), st)
      | Inr vs \<Rightarrow>
          (let fresh = filter (not_held h) vs
           in case (case ctx of
                      Some x \<Rightarrow>
                        if rq_categories rq = [] \<or> ''preference'' \<in> set (rq_categories rq)
                        then read_declared E W (rq\<lparr>rq_categories := [''preference'']\<rparr>) mode t p x (held_fingerprints h) False st
                        else (Inr ([], []), st)
                    | None \<Rightarrow> (Inr ([], []), st)) of
                (Inl x, st1) \<Rightarrow> (Inl x, st1)
              | (Inr (_, prefs), st1) \<Rightarrow>
                  project_current_sources E W S rq t p (take (rq_limit rq) (prefs @ fresh)) (st1\<lparr>rd_cache_hit := False\<rparr>)))"

text \<open>\<open>confirmations\<close> are the fingerprints that wait for a confirmation; \<open>None\<close>: they cannot be read.\<close>

definition final_current_read ::
  "retrieval_env \<Rightarrow> read_world \<Rightarrow> source_tables \<Rightarrow> read_request \<Rightarrow> quota_mode \<Rightarrow> uuid \<Rightarrow> uuid \<Rightarrow> read_context option \<Rightarrow> string set option \<Rightarrow>
     memory_result list \<Rightarrow> reader \<Rightarrow> read_outcome" where
  "final_current_read E W S rq mode t p ctx confirmations cs st =
     (case runtime_visibility_row W p t of
        None \<Rightarrow> (Inr [], st\<lparr>rd_cache_hit := False\<rparr>)
      | Some (pending, unavailable, routed) \<Rightarrow>
          (let h = (if pending then rw_hold W unavailable else no_hold);
               st1 = (if pending
                      then st\<lparr>rd_visibility := Some (if hold_unavailable h then ''unavailable'' else ''processing'',
                                if hold_broad h then ''user_learned_context'' else ''affected_context''),
                              rd_degraded := True, rd_cache_hit := False\<rparr>
                      else st\<lparr>rd_visibility := None\<rparr>)
           in if pending \<and> hold_broad h then (Inr [], st1)
              else
                (case (if source_index_pending W p t
                       then (map_sum ReadLedger id (retrieve_cold_start_memories E W rq (rq_limit rq)),
                             st1\<lparr>rd_visibility := Some (''processing'', ''affected_context''), rd_degraded := True, rd_cache_hit := False\<rparr>)
                       else (Inr cs, st1)) of
                   (Inl x, st2) \<Rightarrow> (Inl x, st2)
                 | (Inr cs2, st2) \<Rightarrow>
                     (case confirmations of
                        None \<Rightarrow> (Inr [], st2\<lparr>rd_visibility := Some (''unavailable'', ''user_learned_context''), rd_degraded := True, rd_cache_hit := False\<rparr>)
                      | Some fps \<Rightarrow>
                          (let h2 = h\<lparr>held_fingerprints := held_fingerprints h \<union> fps\<rparr>;
                               st3 = (if fps = {} then st2 else st2\<lparr>rd_visibility := Some (''unavailable'', ''affected_context''), rd_degraded := True\<rparr>)
                           in if routed then read_governed E W S rq mode t p ctx h2 cs2 st3
                              else project_current_sources E W S rq t p cs2 st3)))))"

text \<open>The whole read of the current state.\<close>

definition retrieve_now ::
  "retrieval_env \<Rightarrow> read_world \<Rightarrow> source_tables \<Rightarrow> read_request \<Rightarrow> quota_mode \<Rightarrow> bool \<Rightarrow> read_context option \<Rightarrow> string set option \<Rightarrow> reader \<Rightarrow> read_outcome" where
  "retrieve_now E W S rq mode enabled ctx confirmations st =
     (case (case ctx of
              None \<Rightarrow> read_current E W rq mode st
            | Some x \<Rightarrow> (case read_with_context E W rq mode enabled x st of (Inl e, s) \<Rightarrow> (Inl e, s) | (Inr (_, rs), s) \<Rightarrow> (Inr rs, s))) of
        (Inl x, st1) \<Rightarrow> (Inl x, st1)
      | (Inr cs, st1) \<Rightarrow>
          if (case rd_visibility st1 of Some (_, scope) \<Rightarrow> scope = ''user_learned_context'' | None \<Rightarrow> False) then (Inr [], st1)
          else
            (case (rq_owner rq, rq_tenant rq) of
               (ProxyOwner p, Some t) \<Rightarrow>
                 if mode \<in> {Blocked, Passthrough} then (Inr cs, st1)
                 else final_current_read E W S rq mode t p ctx confirmations cs st1
             | _ \<Rightarrow> (Inr cs, st1)))"

section \<open>What a read of the past returns\<close>

definition recorded :: "retrieval_env \<Rightarrow> read_world \<Rightarrow> read_request \<Rightarrow> utc \<Rightarrow> memory_result \<Rightarrow> bool" where
  "recorded E W rq t r \<longleftrightarrow>
     (\<exists>m \<in> set (memories (rw_db W)). mr_id r = id_text E (m_id m) \<and> mr_content r = content m \<and> historical W rq t m)"

lemma as_of_memories_recorded:
  "retrieve_as_of_memories E W rq t = Inr rs \<Longrightarrow> r \<in> set rs \<Longrightarrow> recorded E W rq t r"
  by (fastforce simp: retrieve_as_of_memories_def to_result_Inr recorded_def dest!: collect_in in_set_takeD)

lemma collect_length: "collect f xs = Inr ys \<Longrightarrow> length ys = length xs"
  by (induction xs arbitrary: ys) (auto split: sum.splits)

lemma map_filter_in: "y \<in> set (List.map_filter f xs) \<longleftrightarrow> (\<exists>x \<in> set xs. f x = Some y)"
  by (induction xs) (auto simp: map_filter_simps split: option.splits)

lemma historical_rows_sound:
  assumes "(sem, m) \<in> set (historical_rows E W rq t ps)"
  shows "m \<in> set (memories (rw_db W))" and "historical W rq t m"
proof -
  have "m \<in> set (filter (historical W rq t) (memories (rw_db W)))"
    using assms by (auto simp: historical_rows_def Let_def map_filter_in row_of_def dest!: find_row_Some)
  then show "m \<in> set (memories (rw_db W))" "historical W rq t m" by simp_all
qed

lemma rank_history_recorded:
  assumes "rank_history E W rq t ps = Some rs" and "r \<in> set rs"
  shows "recorded E W rq t r"
proof -
  obtain xs where xs: "collect (\<lambda>(sem, m). memory_to_result E (rw_now W) sem m) (historical_rows E W rq t ps) = Inr xs" "r \<in> set xs"
    using assms deduplicate_set by (fastforce simp: rank_history_def dest: in_set_takeD split: if_splits sum.splits)
  obtain sem m where "(sem, m) \<in> set (historical_rows E W rq t ps)" "memory_to_result E (rw_now W) sem m = Inr r"
    using collect_in [OF xs] by auto
  then show ?thesis using historical_rows_sound [of sem m] by (auto simp: recorded_def to_result_Inr)
qed

text \<open>
  (C29) A read of the past shows only what was in force at that time, and an outage does not fail it:
  every result is a stored memory of the owner with its stored content whose validity contains the
  time asked for, never more than the limit; and the read fails only on a malformed provenance of
  a stored row, not because the embedding service or the vector index is down.
\<close>

theorem past_reads_are_in_force:
  assumes "read_as_of E W rq mode t st = (x, st')"
  shows "(x = Inr rs \<longrightarrow> Ball (set rs) (recorded E W rq t) \<and> length rs \<le> rq_limit rq) \<and> (x = Inl e \<longrightarrow> (\<exists>l. e = ReadLedger l))"
proof -
  have h: "length rs \<le> rq_limit rq" if "semantic_history E W rq t ids = Some rs" for ids rs
    using that by (auto simp: semantic_history_def rank_history_def split: sum.splits if_splits)
  have m: "length rs \<le> rq_limit rq" if "retrieve_as_of_memories E W rq t = Inr rs" for rs
    using collect_length [OF that [unfolded retrieve_as_of_memories_def]] by simp
  have r: "recorded E W rq t r" if "semantic_history E W rq t ids = Some rs" "r \<in> set rs" for ids rs r
    using that rank_history_recorded by (auto simp: semantic_history_def split: sum.splits)
  show ?thesis using assms
    by (auto simp: read_as_of_def Let_def dest: h m r as_of_memories_recorded split: prod.splits option.splits sum.splits if_splits)
qed

section \<open>Which preference answers\<close>

lemma answer_Chosen:
  assumes "answer_scope E W rq p k a pair = Inr (Chosen m)"
  obtains c q where "pair = Some (c, Some m)" "active_memory_id c \<noteq> None" "held_choice (rv_pref E) m c = Inr False" "m_proxy_user_id m = p"
    "memory_declaration m = Inr (Some q)" "consistent_preference k a c q" "\<not> is_archived m" "memory_is_current (rw_now W) m" "in_window W rq m"
    "c_status c = ''active''"
  using assms by (auto simp: answer_scope_def split: option.splits if_splits sum.splits bool.splits)

text \<open>Why a scope gives way to a broader one.\<close>

definition gives_way :: "retrieval_env \<Rightarrow> read_world \<Rightarrow> read_request \<Rightarrow> string \<Rightarrow> pref_applicability \<Rightarrow> (memory_claim \<times> memory option) option \<Rightarrow> bool" where
  "gives_way E W rq k a pair \<longleftrightarrow>
     (case pair of
        None \<Rightarrow> True
      | Some (c, mo) \<Rightarrow>
          active_memory_id c = None \<or>
          (\<exists>m q. mo = Some m \<and> held_choice (rv_pref E) m c = Inr False \<and> memory_declaration m = Inr (Some q) \<and> consistent_preference k a c q \<and>
            (is_archived m \<or> \<not> memory_is_current (rw_now W) m \<or> \<not> in_window W rq m)))"

lemma answer_NextScope: "answer_scope E W rq p k a pair = Inr NextScope \<Longrightarrow> gives_way E W rq k a pair"
  by (auto simp: answer_scope_def gives_way_def split: option.splits if_splits sum.splits bool.splits)

lemma scan_chosen:
  assumes "scan_scopes E W rq p pairs k as = Inr (u, Some m)"
  shows "\<exists>bs a cs. as = bs @ a # cs \<and> answer_scope E W rq p k a (pairs (fingerprint_of E k a)) = Inr (Chosen m) \<and>
    (\<forall>b \<in> set bs. gives_way E W rq k b (pairs (fingerprint_of E k b)))"
  using assms
proof (induction as)
  case (Cons a as)
  show ?case
  proof (cases "answer_scope E W rq p k a (pairs (fingerprint_of E k a)) = Inr NextScope")
    case True
    then obtain bs b cs where "as = bs @ b # cs" "answer_scope E W rq p k b (pairs (fingerprint_of E k b)) = Inr (Chosen m)"
      "\<forall>x \<in> set bs. gives_way E W rq k x (pairs (fingerprint_of E k x))"
      using Cons by auto
    then show ?thesis using answer_NextScope [OF True] by (intro exI [of _ "a # bs"]) auto
  next
    case False
    then show ?thesis using Cons.prems
      by (intro exI [of _ "[]"] exI [of _ a] exI [of _ as]) (auto split: sum.splits scope_answer.splits)
  qed
qed simp

lemma preference_rows_in:
  assumes "(c, mo) \<in> set (preference_rows W t p fps)"
  shows "c \<in> set (claims (rw_db W))" and "c_tenant_id c = t" and "c_proxy_user_id c = p" and "mo = Option.bind (active_memory_id c) (\<lambda>i. get_memory i (rw_db W))"
  using assms by (auto simp: preference_rows_def split: if_splits)

text \<open>A preference that may be shown: the current winner of a claim of the owner for the key and scope.\<close>

definition current_preference :: "retrieval_env \<Rightarrow> read_world \<Rightarrow> uuid \<Rightarrow> uuid \<Rightarrow> string \<Rightarrow> pref_applicability \<Rightarrow> memory \<Rightarrow> bool" where
  "current_preference E W t p k a m \<longleftrightarrow>
     (\<exists>c q. c \<in> set (claims (rw_db W)) \<and> c_tenant_id c = t \<and> c_proxy_user_id c = p \<and> claim_fingerprint c = fingerprint_of E k a \<and>
        c_status c = ''active'' \<and> active_memory_id c = Some (m_id m) \<and> get_memory (m_id m) (rw_db W) = Some m \<and> m_proxy_user_id m = p \<and>
        memory_declaration m = Inr (Some q) \<and> consistent_preference k a c q \<and> \<not> is_archived m \<and> memory_is_current (rw_now W) m)"

lemma chosen_current:
  assumes "answer_scope E W rq p k a (by_fingerprint E W t p x (fingerprint_of E k a)) = Inr (Chosen m)"
  shows "current_preference E W t p k a m"
proof -
  obtain c q where c: "by_fingerprint E W t p x (fingerprint_of E k a) = Some (c, Some m)"
    and a: "active_memory_id c \<noteq> None" and m: "m_proxy_user_id m = p" "memory_declaration m = Inr (Some q)" "consistent_preference k a c q"
      "\<not> is_archived m" "memory_is_current (rw_now W) m" "c_status c = ''active''"
    by (rule answer_Chosen [OF assms])
  have row: "(c, Some m) \<in> set (preference_rows W t p (asked_fingerprints E x))" "claim_fingerprint c = fingerprint_of E k a"
    using map_of_SomeD [OF c [unfolded by_fingerprint_def]] by auto
  note R = preference_rows_in [OF row(1)]
  obtain i where i: "active_memory_id c = Some i" "get_memory i (rw_db W) = Some m" using R(4) a by (cases "active_memory_id c") auto
  have "m_id m = i" using i(2) by (auto simp: get_memory_def dest: find_row_Some)
  then show ?thesis unfolding current_preference_def using R row(2) m i by blast
qed

lemma declared_origin:
  assumes "declared_preferences E W rq t p x withheld = Inr (open_choices, rs)" and "r \<in> set rs"
  obtains k m a prov where "k \<in> set (cx_keys x)" "current_preference E W t p k a m" "r = result_with E (rw_now W) 1 prov m"
    "fingerprint_of E k (cx_applicability x) \<notin> withheld"
    "a = cx_applicability x \<or>
     a = global_scope \<and> gives_way E W rq k (cx_applicability x) (by_fingerprint E W t p x (fingerprint_of E k (cx_applicability x)))"
proof -
  let ?pairs = "by_fingerprint E W t p x"
  obtain ys where ys: "collect (read_property E W rq p (cx_applicability x) withheld ?pairs) (cx_keys x) = Inr ys" "rs = concat (map snd ys)"
    using assms by (auto simp: declared_preferences_def map_sum_def split: if_splits sum.splits)
  then obtain y where y: "y \<in> set ys" "r \<in> set (snd y)" using assms(2) by auto
  obtain k where k: "k \<in> set (cx_keys x)" "read_property E W rq p (cx_applicability x) withheld ?pairs k = Inr y"
    using collect_in [OF ys(1) y(1)] by blast
  obtain u m where m: "scan_scopes E W rq p ?pairs k [cx_applicability x, global_scope] = Inr (u, Some m)" "memory_to_result E (rw_now W) 1 m = Inr r"
    and w: "fingerprint_of E k (cx_applicability x) \<notin> withheld"
    using k(2) y(2) by (auto simp: read_property_def map_sum_def simp del: scan_scopes.simps split: if_splits sum.splits option.splits)
  obtain bs a cs where a: "[cx_applicability x, global_scope] = bs @ a # cs" "answer_scope E W rq p k a (?pairs (fingerprint_of E k a)) = Inr (Chosen m)"
    "\<forall>b \<in> set bs. gives_way E W rq k b (?pairs (fingerprint_of E k b))"
    using scan_chosen [OF m(1)] by blast
  have "a = cx_applicability x \<or> a = global_scope \<and> gives_way E W rq k (cx_applicability x) (?pairs (fingerprint_of E k (cx_applicability x)))"
    using a(1,3) by (auto simp: Cons_eq_append_conv)
  moreover obtain prov where "r = result_with E (rw_now W) 1 prov m" using m(2) by (auto simp: to_result_Inr)
  ultimately show thesis using that k(1) chosen_current [OF a(2)] w by blast
qed

text \<open>
  (C23) A declared preference is shown only when it is the current choice: the memory is the stored,
  unarchived and valid winner of an active claim of this tenant and user for a requested key, its
  declaration agrees with the claim, and it is not withheld. The global value of a key is used only
  when the requested scope has no winner of its own, or one that is consistent but archived, out of
  its validity or outside the filters; a choice held open or an inconsistent winner of the scope
  shows nothing.
\<close>

theorem preferences_are_current_choices:
  assumes "declared_preferences E W rq t p x withheld = Inr (open_choices, rs)" and "r \<in> set rs"
  shows "\<exists>k m a. k \<in> set (cx_keys x) \<and> current_preference E W t p k a m \<and> mr_id r = id_text E (m_id m) \<and> mr_content r = content m \<and>
    fingerprint_of E k (cx_applicability x) \<notin> withheld \<and>
    (a = cx_applicability x \<or>
     a = global_scope \<and> gives_way E W rq k (cx_applicability x) (by_fingerprint E W t p x (fingerprint_of E k (cx_applicability x))))"
proof -
  obtain k m a prov where "k \<in> set (cx_keys x)" "current_preference E W t p k a m" "r = result_with E (rw_now W) 1 prov m"
    "fingerprint_of E k (cx_applicability x) \<notin> withheld" "a = cx_applicability x \<or>
     a = global_scope \<and> gives_way E W rq k (cx_applicability x) (by_fingerprint E W t p x (fingerprint_of E k (cx_applicability x)))"
    by (rule declared_origin [OF assms])
  then show ?thesis by (intro exI [of _ k] exI [of _ m] exI [of _ a]) simp
qed

section \<open>What the final read returns\<close>

text \<open>The winner of an active claim of the tenant and owner, with its activated revision in the ledger.\<close>

definition live_winner :: "retrieval_env \<Rightarrow> read_world \<Rightarrow> uuid \<Rightarrow> uuid \<Rightarrow> memory \<Rightarrow> bool" where
  "live_winner E W t p m \<longleftrightarrow>
     (\<exists>c v. c \<in> set (claims (rw_db W)) \<and> c_tenant_id c = t \<and> c_proxy_user_id c = p \<and> c_status c = ''active'' \<and>
        active_memory_id c = Some (m_id m) \<and> winning_revision_id c = Some (r_id v) \<and> v \<in> set (revisions (rw_db W)) \<and>
        r_claim_id v = c_id c \<and> r_memory_id v = Some (m_id m) \<and> m_proxy_user_id m = p \<and> \<not> is_archived m \<and> memory_is_current (rw_now W) m)"

lemma only_claim_in: "only_claim E W t p k = Some c \<Longrightarrow> c \<in> set (claims (rw_db W)) \<and> c_tenant_id c = t \<and> c_proxy_user_id c = p"
proof -
  assume "only_claim E W t p k = Some c"
  then have "c \<in> set (claims_of_memory E W t p k)" by (auto simp: only_claim_def split: list.splits)
  then show ?thesis by (auto simp: claims_of_memory_def map_filter_in dest: find_row_Some)
qed

lemma current_winner_live:
  assumes "current_winner E W t p winners r = Inr (Some m)"
  shows "live_winner E W t p m" and "m \<in> set winners" and "memory_is_current (rw_now W) m"
proof -
  obtain c where c: "only_claim E W t p (mr_id r) = Some c" using assms by (auto simp: current_winner_def split: option.splits)
  obtain v where v: "Option.bind (active_memory_id c) (\<lambda>i. row_of E winners (id_text E i)) = Some m"
      "Option.bind (winning_revision_id c) (\<lambda>i. get_revision i (rw_db W)) = Some v"
      "source_winner_matches E c m v = Inr True" "memory_is_current (rw_now W) m"
    using assms c by (auto simp: current_winner_def split: option.splits sum.splits if_splits)
  show "m \<in> set winners" using v(1) by (auto simp: bind_eq_Some_conv row_of_def dest: find_row_Some)
  show "memory_is_current (rw_now W) m" by (rule v(4))
  have "v \<in> set (revisions (rw_db W))" using v(2) by (auto simp: bind_eq_Some_conv get_revision_def dest: find_row_Some)
  then show "live_winner E W t p m"
    using only_claim_in [OF c] v(3,4) by (auto simp: live_winner_def source_winner_matches_def split: sum.splits)
qed

lemma project_shows:
  assumes "project E W t p winners seen rs = Inr (ys, w)" and "y \<in> set ys"
  shows "(y \<in> set rs \<and> \<not> from_writer y) \<or>
    (\<exists>m. live_winner E W t p m \<and> m \<in> set winners \<and> mr_id y = id_text E (m_id m) \<and> mr_content y = content m \<and> mr_category y = category_value (category m))"
  using assms
proof (induction E W t p winners seen rs arbitrary: ys w rule: project.induct)
  case (2 E W t p winners seen r rs)
  show ?case
  proof (cases "from_writer r")
    case False
    then show ?thesis using 2(1) [OF False] 2(5,6) by (fastforce simp: map_sum_def split: sum.splits)
  next
    case True
    obtain x where x: "current_winner E W t p winners r = Inr x" using 2(5) True by (auto split: sum.splits)
    show ?thesis
    proof (cases x)
      case None
      then show ?thesis using 2(2) [of x] 2(5,6) True x by (fastforce simp: map_sum_def split: sum.splits)
    next
      case (Some m)
      note live = current_winner_live [OF x [unfolded Some]]
      show ?thesis
      proof (cases "m_id m \<in> set seen")
        case s: True
        then have "project E W t p winners seen rs = Inr (ys, w)" using 2(5) True x Some by simp
        from 2(3) [OF _ x Some s this 2(6)] True show ?thesis by auto
      next
        case s: False
        then obtain z where z: "memory_to_result E (rw_now W) (mr_semantic r) m = Inr z" using 2(5) True x Some by (auto split: sum.splits)
        obtain zs w' where zs: "project E W t p winners (m_id m # seen) rs = Inr (zs, w')" "ys = z # zs"
          using 2(5) True x Some s z by (auto simp: map_sum_def split: sum.splits)
        show ?thesis
        proof (cases "y = z")
          case True
          then show ?thesis using live z by (auto simp: to_result_Inr)
        next
          case False
          then have "y \<in> set zs" using zs(2) 2(6) by simp
          from 2(4) [OF _ x Some s z zs(1) this] True show ?thesis by auto
        qed
      qed
    qed
  qed
qed simp

definition shown :: "retrieval_env \<Rightarrow> read_world \<Rightarrow> read_request \<Rightarrow> uuid \<Rightarrow> uuid \<Rightarrow> memory_result \<Rightarrow> bool" where
  "shown E W rq t p r \<longleftrightarrow>
     genuine E W rq r \<or> (\<exists>k a m. current_preference E W t p k a m \<and> mr_id r = id_text E (m_id m) \<and> mr_content r = content m)"

lemma shown_genuine: "genuine E W rq r \<Longrightarrow> shown E W rq t p r"
  by (simp add: shown_def)

lemma genuine_narrow: "genuine E W (rq\<lparr>rq_categories := other_categories (rq_categories rq)\<rparr>) r \<Longrightarrow> other_categories (rq_categories rq) \<noteq> [] \<Longrightarrow> genuine E W rq r"
  by (auto simp: genuine_def eligible_def matches_request_def listed_def other_categories_def split: if_splits)

lemma declared_shown:
  assumes "declared_preferences E W rq' t p x withheld = Inr (os, rs)" and "r \<in> set rs"
  shows "shown E W rq t p r"
proof -
  obtain k m a prov where "current_preference E W t p k a m" "r = result_with E (rw_now W) 1 prov m" by (rule declared_origin [OF assms])
  then have "current_preference E W t p k a m \<and> mr_id r = id_text E (m_id m) \<and> mr_content r = content m" by simp
  then show ?thesis unfolding shown_def by blast
qed

lemma read_declared_shown:
  assumes "read_declared E W rq' mode t p x withheld include_other st = (Inr (os, rs), st')" and "r \<in> set rs"
    and "include_other \<Longrightarrow> rq' = rq"
  shows "shown E W rq t p r"
proof -
  obtain prefs other st1 where d: "declared_preferences E W rq' t p x withheld = Inr (os, prefs)" "rs = take (rq_limit rq') (prefs @ other)"
    and o: "(if include_other \<and> other_categories (rq_categories rq') \<noteq> [] then
        read_current E W (rq'\<lparr>rq_categories := other_categories (rq_categories rq')\<rparr>) mode st else (Inr [], st)) = (Inr other, st1)"
    using assms(1) by (auto simp: read_declared_def split: sum.splits prod.splits)
  have "r \<in> set (prefs @ other)" using assms(2) d(2) by (auto dest: in_set_takeD)
  moreover have "shown E W rq t p r" if "r \<in> set other"
  proof -
    have i: "include_other" "other_categories (rq_categories rq') \<noteq> []" using o that by (auto split: if_splits)
    then have "rq' = rq" using assms(3) by simp
    then have "genuine E W (rq\<lparr>rq_categories := other_categories (rq_categories rq)\<rparr>) r"
      using o i that good_current [of E W "rq\<lparr>rq_categories := other_categories (rq_categories rq)\<rparr>" mode st]
      by (simp add: good_outcome_def sound_results_def)
    then show ?thesis using genuine_narrow i(2) \<open>rq' = rq\<close> by (simp add: shown_genuine)
  qed
  ultimately show ?thesis using declared_shown [OF d(1)] by auto
qed

text \<open>A projected result comes from no writer, or it is the winner of a claim.\<close>

definition authoritative :: "retrieval_env \<Rightarrow> read_world \<Rightarrow> uuid \<Rightarrow> uuid \<Rightarrow> memory_result \<Rightarrow> bool" where
  "authoritative E W t p r \<longleftrightarrow> from_writer r \<longrightarrow> (\<exists>m. live_winner E W t p m \<and> mr_id r = id_text E (m_id m) \<and> mr_content r = content m)"

lemma project_source_shown:
  assumes "project_source_claims E W rq t p rs st = (Inr ys, st')" and "\<And>r. r \<in> set rs \<Longrightarrow> shown E W rq t p r" and "y \<in> set ys"
  shows "shown E W rq t p y \<and> authoritative E W t p y"
proof (cases "filter from_writer rs = []")
  case True
  then have "y \<in> set rs" "\<not> from_writer y" using assms(1,3) by (auto simp: project_source_claims_def filter_empty_conv)
  then show ?thesis using assms(2) by (simp add: authoritative_def)
next
  case False
  let ?ws = "fetch_memories_by_ids E W rq (map Some (winner_ids E W t p (filter from_writer rs)))"
  obtain zs w where zs: "project E W t p ?ws [] rs = Inr (zs, w)" "y \<in> set zs"
    using assms(1,3) False by (auto simp: project_source_claims_def Let_def dest: in_set_takeD split: sum.splits)
  from project_shows [OF zs] show ?thesis
  proof
    assume "y \<in> set rs \<and> \<not> from_writer y"
    then show ?thesis using assms(2) by (simp add: authoritative_def)
  next
    assume "\<exists>m. live_winner E W t p m \<and> m \<in> set ?ws \<and> mr_id y = id_text E (m_id m) \<and> mr_content y = content m \<and> mr_category y = category_value (category m)"
    then obtain m where m: "live_winner E W t p m" "m \<in> set ?ws" "mr_id y = id_text E (m_id m)" "mr_content y = content m" "mr_category y = category_value (category m)" by blast
    have "genuine E W rq y" using fetch_sound [OF m(2)] m by (auto simp: genuine_def live_winner_def)
    then show ?thesis using m by (auto simp: authoritative_def shown_def)
  qed
qed

definition under_correction :: "retrieval_env \<Rightarrow> read_world \<Rightarrow> source_tables \<Rightarrow> read_request \<Rightarrow> uuid \<Rightarrow> uuid \<Rightarrow> memory_result \<Rightarrow> bool" where
  "under_correction E W S rq t p r \<longleftrightarrow> (\<exists>m \<in> set (memories (rw_db W)). mr_id r = id_text E (m_id m) \<and> blocked_by_correction S rq t p m)"

lemma withhold_filters:
  assumes "withhold_pending_source_corrections E W S rq t p rs st = (ys, st')" and "y \<in> set ys"
  shows "y \<in> set rs \<and> \<not> under_correction E W S rq t p y"
proof -
  have none: "\<not> blocked_by_correction S rq t p m" if "\<not> list_ex (\<lambda>x. correction_of S rq t p x \<noteq> None) (pending_candidates S)" for m
    using that by (auto simp: blocked_by_correction_def list_ex_iff split: option.splits)
  show ?thesis
  proof (cases "list_ex (\<lambda>x. correction_of S rq t p x \<noteq> None) (pending_candidates S)")
    case True
    then show ?thesis using assms by (auto simp: withhold_pending_source_corrections_def under_correction_def Let_def)
  next
    case False
    then show ?thesis using assms none by (auto simp: withhold_pending_source_corrections_def under_correction_def)
  qed
qed

definition allowed :: "retrieval_env \<Rightarrow> read_world \<Rightarrow> source_tables \<Rightarrow> read_request \<Rightarrow> uuid \<Rightarrow> uuid \<Rightarrow> memory_result \<Rightarrow> bool" where
  "allowed E W S rq t p r \<longleftrightarrow> shown E W rq t p r \<and> authoritative E W t p r \<and> \<not> under_correction E W S rq t p r"

lemma project_current_allowed:
  assumes "project_current_sources E W S rq t p rs st = (Inr ys, st')" and "\<And>r. r \<in> set rs \<Longrightarrow> shown E W rq t p r" and "y \<in> set ys"
  shows "allowed E W S rq t p y"
proof -
  obtain zs st1 where zs: "project_source_claims E W rq t p rs st = (Inr zs, st1)" "withhold_pending_source_corrections E W S rq t p zs st1 = (ys, st')"
    using assms(1) by (auto simp: project_current_sources_def split: sum.splits prod.splits)
  note w = withhold_filters [OF zs(2) assms(3)]
  show ?thesis using project_source_shown [OF zs(1) assms(2)] w by (simp add: allowed_def)
qed

lemma read_governed_allowed:
  assumes "read_governed E W S rq mode t p ctx h cs st = (Inr rs, st')" and "r \<in> set rs"
  shows "allowed E W S rq t p r"
proof -
  obtain vs where vs: "hydrate_current_results E W rq (filter (\<lambda>r. ctx = None \<or> mr_category r \<noteq> ''preference'') cs) = Inr vs"
    using assms(1) by (auto simp: read_governed_def split: sum.splits)
  obtain os prefs st1 where prefs: "(case ctx of
        Some x \<Rightarrow> if rq_categories rq = [] \<or> ''preference'' \<in> set (rq_categories rq)
          then read_declared E W (rq\<lparr>rq_categories := [''preference'']\<rparr>) mode t p x (held_fingerprints h) False st else (Inr ([], []), st)
      | None \<Rightarrow> (Inr ([], []), st)) = (Inr (os, prefs), st1)"
    and pr: "project_current_sources E W S rq t p (take (rq_limit rq) (prefs @ filter (not_held h) vs)) (st1\<lparr>rd_cache_hit := False\<rparr>) = (Inr rs, st')"
    using assms(1) vs by (auto simp: read_governed_def Let_def split: sum.splits prod.splits)
  have "shown E W rq t p y" if "y \<in> set prefs" for y
    using prefs that by (auto intro: read_declared_shown split: option.splits if_splits)
  moreover have "shown E W rq t p y" if "y \<in> set vs" for y
    using hydrate_sound [OF vs] that by (simp add: sound_results_def shown_genuine)
  ultimately have "shown E W rq t p y" if "y \<in> set (take (rq_limit rq) (prefs @ filter (not_held h) vs))" for y
    using in_set_takeD [OF that] by auto
  then show ?thesis by (rule project_current_allowed [OF pr _ assms(2)])
qed

lemma final_read_allowed:
  assumes "final_current_read E W S rq mode t p ctx confirmations cs st = (Inr rs, st')" and "\<And>r. r \<in> set cs \<Longrightarrow> shown E W rq t p r" and "r \<in> set rs"
  shows "allowed E W S rq t p r"
proof -
  have cold: "shown E W rq t p y" if "map_sum ReadLedger id (retrieve_cold_start_memories E W rq n) = Inr ys" "y \<in> set ys" for n ys y
    using that by (auto simp: map_sum_def intro: shown_genuine cold_start_genuine split: sum.splits)
  show ?thesis using assms(1,3)
    by (auto simp: final_current_read_def Let_def intro: read_governed_allowed project_current_allowed dest: assms(2) cold
        split: option.splits prod.splits sum.splits if_splits)
qed

lemma candidates_shown:
  assumes "(case ctx of
       None \<Rightarrow> read_current E W rq mode st
     | Some x \<Rightarrow> (case read_with_context E W rq mode enabled x st of (Inl e, s) \<Rightarrow> (Inl e, s) | (Inr (_, rs), s) \<Rightarrow> (Inr rs, s))) = (Inr cs, st1)"
    and "rq_owner rq = ProxyOwner p" and "rq_tenant rq = Some t" and "r \<in> set cs"
  shows "shown E W rq t p r"
proof (cases ctx)
  case None
  then show ?thesis using assms(1,4) good_current [of E W rq mode st] by (auto simp: good_outcome_def sound_results_def shown_genuine)
next
  case (Some x)
  then obtain os where "read_with_context E W rq mode enabled x st = (Inr (os, cs), st1)" using assms(1) by (auto split: prod.splits sum.splits)
  then have "read_declared E W rq mode t p x {} True (st\<lparr>rd_degraded := False, rd_visibility := None\<rparr>) = (Inr (os, cs), st1)"
    using assms(2-4) by (auto simp: read_with_context_def Let_def split: option.splits if_splits)
  then show ?thesis using assms(4) by (rule read_declared_shown) simp
qed

text \<open>
  (C1) The read that the service answers with: for a user of a tenant, every result is either a
  genuine memory of the user or the current choice of a declared preference; a result that a
  service wrote is the winner of an active claim, with the revision the claim names; and no result
  is a record whose correction is still undecided in the same category and source scope. This
  holds for every answer of the caches, the index, the runtime holds and the confirmations.
\<close>

theorem answers_are_current_and_authoritative:
  assumes "retrieve_now E W S rq mode enabled ctx confirmations st = (Inr rs, st')"
    and "rq_owner rq = ProxyOwner p" and "rq_tenant rq = Some t" and "mode \<notin> {Blocked, Passthrough}" and "r \<in> set rs"
  shows "shown E W rq t p r \<and> authoritative E W t p r \<and> \<not> under_correction E W S rq t p r"
proof -
  let ?c = "case ctx of
       None \<Rightarrow> read_current E W rq mode st
     | Some x \<Rightarrow> (case read_with_context E W rq mode enabled x st of (Inl e, s) \<Rightarrow> (Inl e, s) | (Inr (_, rs), s) \<Rightarrow> (Inr rs, s))"
  obtain x st1 where c: "?c = (x, st1)" by fastforce
  obtain cs where x: "x = Inr cs" using assms(1) by (cases x) (simp_all add: retrieve_now_def c)
  have cs: "?c = (Inr cs, st1)" by (simp only: c x)
  have fin: "final_current_read E W S rq mode t p ctx confirmations cs st1 = (Inr rs, st')"
    using assms by (auto simp: retrieve_now_def cs split: if_splits)
  have "allowed E W S rq t p r" by (rule final_read_allowed [OF fin candidates_shown [OF cs assms(2,3)] assms(5)])
  then show ?thesis by (simp add: allowed_def)
qed

section \<open>A hold and the projection\<close>

text \<open>
  Holds filter the candidates before the projection, and the projection replaces a sourced candidate
  by the winner of its claim: when a candidate that is not held belongs to a claim whose winner is
  a held fact, the held fact is shown.
\<close>

theorem held_winner_is_projected:
  assumes "hydrate_current_results E W rq cs = Inr [r]" and "not_held h r" and "from_writer r" and "1 \<le> rq_limit rq"
    and "current_winner E W t p (fetch_memories_by_ids E W rq (map Some (winner_ids E W t p [r]))) r = Inr (Some m)"
    and "memory_to_result E (rw_now W) (mr_semantic r) m = Inr y" and "pending_candidates S = []"
  shows "fst (read_governed E W S rq mode t p None h cs st) = Inr [y] \<and> mr_id y = id_text E (m_id m)"
proof -
  have "mr_id y = id_text E (m_id m)" using assms(6) by (auto simp: to_result_Inr)
  moreover have "fst (read_governed E W S rq mode t p None h cs st) = Inr [y]"
    using assms by (simp add: read_governed_def project_current_sources_def project_source_claims_def withhold_pending_source_corrections_def Let_def)
  ultimately show ?thesis by simp
qed

section \<open>Witnesses\<close>

theorem past_reads_are_in_force_witness:
  "\<exists>st'. read_as_of example_retrieval_env (example_world example_db) example_read_request Full 1 example_reader =
     (Inr [result_with example_retrieval_env 1 0 None example_memory], st') \<and>
     recorded example_retrieval_env (example_world example_db) example_read_request 1 (result_with example_retrieval_env 1 0 None example_memory)"
proof -
  let ?r = "result_with example_retrieval_env 1 0 None example_memory"
  have "retrieve_as_of_memories example_retrieval_env (example_world example_db) example_read_request 1 = Inr [?r]"
    by (simp add: retrieve_as_of_memories_def historical_def effective_at_time_def owned_by_def legacy_memory_def matches_request_def listed_def
        window_start_def is_valid_at_def memory_to_result_def preference_provenance_def provenance_of_def example_read_defs)
  moreover have "semantic_history example_retrieval_env (example_world example_db) example_read_request 1 ids = None" if "ids \<noteq> []" for ids
    using that by (cases ids) (simp_all add: semantic_history_def example_world_def)
  moreover obtain c where "candidate_embedding_model_ids example_retrieval_env (example_world example_db) example_read_request (rd_caches example_reader) = ([''e''], c)"
    by (simp add: candidate_embedding_model_ids_def Let_def ttl_get_def owned_by_def example_read_defs)
  ultimately obtain st' where r: "read_as_of example_retrieval_env (example_world example_db) example_read_request Full 1 example_reader = (Inr [?r], st')"
    by (simp add: read_as_of_def Let_def example_reader_def)
  from past_reads_are_in_force [OF r] r show ?thesis by simp
qed

definition example_context :: read_context where
  "example_context = \<lparr>cx_applicability = global_scope, cx_keys = [''drink'']\<rparr>"

lemma example_fingerprint: "fingerprint_of example_retrieval_env k a = ''f''"
  by (simp add: fingerprint_of_def preference_fingerprint_def build_domain_claim_identity_def example_retrieval_env_def example_pref_env_def
      Ledger.example_env_def Let_def)

abbreviation declared_memory :: memory where
  "declared_memory \<equiv> example_memory\<lparr>metadata_json := [(''provenance'', PDict [(''extraction_evidence'', PDict [(preference_marker, example_raw)])])]\<rparr>"

lemma declared_memory_declaration: "memory_declaration declared_memory = Inr (Some example_declaration)"
  using example_validates by (simp add: memory_declaration_def preference_declaration_def py_dict_def example_raw_def Let_def)

lemma example_pairs: "by_fingerprint example_retrieval_env (example_world example_declared) 90 80 example_context ''f'' = Some (example_claim, Some declared_memory)"
  by (simp add: by_fingerprint_def preference_rows_def asked_fingerprints_def example_fingerprint example_context_def example_world_def
      get_memory_def find_row_def example_declared_defs)

lemma example_answer:
  "answer_scope example_retrieval_env (example_world example_declared) example_read_request 80 ''drink'' global_scope (Some (example_claim, Some declared_memory)) =
     Inr (Chosen declared_memory)"
proof -
  have "held_choice (rv_pref example_retrieval_env) declared_memory example_claim = Inr False"
    unfolding held_choice_def declared_memory_declaration by (simp add: choice_state_marker_def)
  moreover have "active_memory_id example_claim = Some 1" "m_proxy_user_id declared_memory = 80" "c_status example_claim = ''active''"
    "\<not> is_archived declared_memory" by (simp_all add: example_claim_def example_memory_def)
  moreover have "consistent_preference ''drink'' global_scope example_claim example_declaration"
    by (simp add: consistent_preference_def example_declaration_def global_scope_def example_claim_def)
  moreover have "memory_is_current (rw_now (example_world example_declared)) declared_memory"
    by (simp add: memory_is_current_def is_valid_at_def example_memory_def)
  moreover have "in_window (example_world example_declared) example_read_request declared_memory"
    by (simp add: in_window_def window_start_def example_read_request_def)
  ultimately show ?thesis unfolding answer_scope_def by (simp only: declared_memory_declaration option.case sum.case prod.case) simp
qed

theorem preferences_are_current_choices_witness:
  "\<exists>r m. declared_preferences example_retrieval_env (example_world example_declared) example_read_request 90 80 example_context {} = Inr ([], [r]) \<and>
     current_preference example_retrieval_env (example_world example_declared) 90 80 ''drink'' global_scope m \<and> mr_content r = content m"
proof -
  have "\<exists>q. preference_provenance example_retrieval_env declared_memory = Inr q"
    using example_validates
    by (simp add: preference_provenance_def provenance_of_def preference_declaration_def py_dict_def example_raw_def Let_def)
  then obtain r where "memory_to_result example_retrieval_env (rw_now (example_world example_declared)) 1 declared_memory = Inr r"
    by (auto simp: memory_to_result_def)
  then have k: "read_property example_retrieval_env (example_world example_declared) example_read_request 80 global_scope {}
      (by_fingerprint example_retrieval_env (example_world example_declared) 90 80 example_context) ''drink'' = Inr ([], [r])"
    by (simp add: read_property_def example_fingerprint example_pairs example_answer)
  have x: "cx_keys example_context = [''drink'']" "cx_applicability example_context = global_scope" "rq_categories example_read_request = []"
    by (simp_all add: example_context_def example_read_request_def)
  have d: "declared_preferences example_retrieval_env (example_world example_declared) example_read_request 90 80 example_context {} = Inr ([], [r])"
    using k by (simp add: declared_preferences_def x)
  from preferences_are_current_choices [OF d, of r] d show ?thesis by (auto simp: example_context_def)
qed

theorem answers_are_current_and_authoritative_witness:
  "\<exists>st'. retrieve_now example_retrieval_env (example_world example_db) \<lparr>source_events = [], pending_candidates = []\<rparr> example_read_request Full False None (Some {})
       example_reader = (Inr [result_with example_retrieval_env 1 1 None example_memory], st') \<and>
     shown example_retrieval_env (example_world example_db) example_read_request 90 80 (result_with example_retrieval_env 1 1 None example_memory)"
proof -
  let ?r = "result_with example_retrieval_env 1 1 None example_memory"
  let ?S = "\<lparr>source_events = [], pending_candidates = []\<rparr> :: source_tables"
  obtain st1 where r: "read_current example_retrieval_env (example_world example_db) example_read_request Full example_reader = (Inr [?r], st1)"
    "rd_visibility st1 = None" using example_read by blast
  have "rq_owner example_read_request = ProxyOwner 80" "rq_tenant example_read_request = Some 90" by (simp_all add: example_read_request_def)
  moreover have "\<not> source_index_pending (example_world example_db) 80 90" by (simp add: source_index_pending_def example_read_defs)
  moreover have "\<not> from_writer ?r" by (simp add: from_writer_def)
  ultimately obtain st' where a: "retrieve_now example_retrieval_env (example_world example_db) ?S example_read_request Full False None (Some {}) example_reader = (Inr [?r], st')"
    using r by (simp add: retrieve_now_def final_current_read_def example_visible Let_def project_current_sources_def project_source_claims_def
        withhold_pending_source_corrections_def)
  from answers_are_current_and_authoritative [OF a, of 80 90 ?r] a show ?thesis by (simp add: example_read_request_def)
qed

end
