(* ===== verification/Json.thy ===== *)
theory Json
  imports Prelude
begin

text \<open>
  The JSON texts the service writes and reads back: \<open>json.dumps\<close> with its default separators or with
  an indentation, and \<open>json.loads\<close> on the documents it writes of strings, lists and dictionaries. A
  character beyond the printable ASCII range is escaped, as with \<open>ensure_ascii\<close>. What is dumped from
  such a value is read back as that value.
\<close>

section \<open>Writing\<close>

definition dquote :: char where
  "dquote = CHR 0x22"

definition backslash :: char where
  "backslash = CHR 0x5C"

definition hex_digit :: "nat \<Rightarrow> char" where
  "hex_digit n = ''0123456789abcdef'' ! n"

definition short_escapes :: "(char \<times> char) list" where
  "short_escapes = [(dquote, dquote), (backslash, backslash), (CHR 0x08, CHR ''b''), (CHR 0x0C, CHR ''f''),
     (CHR 0x0A, CHR ''n''), (CHR 0x0D, CHR ''r''), (CHR 0x09, CHR ''t'')]"

definition json_char :: "char \<Rightarrow> string" where
  "json_char c =
     (case map_of short_escapes c of
        Some e \<Rightarrow> [backslash, e]
      | None \<Rightarrow>
          (let n = of_char c :: nat
           in if 32 \<le> n \<and> n \<le> 126 then [c] else [backslash] @ ''u00'' @ [hex_digit (n div 16), hex_digit (n mod 16)]))"

definition json_string :: "string \<Rightarrow> string" where
  "json_string s = dquote # concat (map json_char s) @ [dquote]"

text \<open>The decimal text of an integer.\<close>

fun nat_text :: "nat \<Rightarrow> string" where
  "nat_text n = (if n < 10 then [hex_digit n] else nat_text (n div 10) @ [hex_digit (n mod 10)])"

declare nat_text.simps [simp del]

definition int_text :: "int \<Rightarrow> string" where
  "int_text i = (if i < 0 then CHR ''-'' # nat_text (nat (- i)) else nat_text (nat i))"

text \<open>
  The line break before an entry at a level of nesting, when an indentation is asked for. The text of
  a float is a parameter.
\<close>

definition line_break :: "nat option \<Rightarrow> nat \<Rightarrow> string" where
  "line_break ind l = (case ind of None \<Rightarrow> [] | Some n \<Rightarrow> CHR 0x0A # replicate (n * l) CHR '' '')"

definition entry_sep :: "nat option \<Rightarrow> nat \<Rightarrow> string" where
  "entry_sep ind l = (case ind of None \<Rightarrow> '', '' | Some n \<Rightarrow> CHR '','' # line_break ind l)"

definition enclose :: "char \<Rightarrow> char \<Rightarrow> nat option \<Rightarrow> nat \<Rightarrow> string list \<Rightarrow> string" where
  "enclose a z ind l ts =
     (if ts = [] then [a, z]
      else a # line_break ind (Suc l) @ join_with (entry_sep ind (Suc l)) ts @ line_break ind l @ [z])"

fun json_dumps :: "(pyfloat \<Rightarrow> string) \<Rightarrow> nat option \<Rightarrow> nat \<Rightarrow> pyval \<Rightarrow> string" where
  "json_dumps ft ind l PNone = ''null''"
| "json_dumps ft ind l (PBool b) = (if b then ''true'' else ''false'')"
| "json_dumps ft ind l (PInt i) = int_text i"
| "json_dumps ft ind l (PFloat x) = ft x"
| "json_dumps ft ind l (PStr s) = json_string s"
| "json_dumps ft ind l (PList vs) = enclose CHR ''['' CHR '']'' ind l (map (json_dumps ft ind (Suc l)) vs)"
| "json_dumps ft ind l (PDict d) =
     enclose CHR ''{'' CHR ''}'' ind l (map (\<lambda>kv. json_string (fst kv) @ '': '' @ json_dumps ft ind (Suc l) (snd kv)) d)"

section \<open>Reading\<close>

definition json_space :: "char \<Rightarrow> bool" where
  "json_space c \<longleftrightarrow> c \<in> {CHR '' '', CHR 0x09, CHR 0x0A, CHR 0x0D}"

definition skip_space :: "string \<Rightarrow> string" where
  "skip_space s = dropWhile json_space s"

definition hex_value :: "char \<Rightarrow> nat option" where
  "hex_value c =
     (let n = of_char (lower_char c) :: nat
      in if 48 \<le> n \<and> n \<le> 57 then Some (n - 48) else if 97 \<le> n \<and> n \<le> 102 then Some (n - 87) else None)"

text \<open>
  The rest of a string after the opening quote. A control character inside is an error, as is an
  escape of a character beyond those of \<^typ>\<open>char\<close>.
\<close>

fun json_rest :: "string \<Rightarrow> (string \<times> string) option" where
  "json_rest [] = None"
| "json_rest (c # cs) =
     (if c = dquote then Some ([], cs)
      else if c = backslash then
        (case cs of
           [] \<Rightarrow> None
         | e # r \<Rightarrow>
             if e = CHR ''u'' then
               (case r of
                  h1 # h2 # h3 # h4 # r' \<Rightarrow>
                    (case (hex_value h1, hex_value h2, hex_value h3, hex_value h4) of
                       (Some 0, Some 0, Some a, Some b) \<Rightarrow> map_option (map_prod (Cons (char_of (16 * a + b))) id) (json_rest r')
                     | _ \<Rightarrow> None)
                | _ \<Rightarrow> None)
             else
               (case map_of (map (\<lambda>(x, y). (y, x)) (short_escapes @ [(CHR ''/'', CHR ''/'')])) e of
                  None \<Rightarrow> None
                | Some x \<Rightarrow> map_option (map_prod (Cons x) id) (json_rest r)))
      else if (of_char c :: nat) < 32 then None
      else map_option (map_prod (Cons c) id) (json_rest cs))"

text \<open>\<open>dict(pairs)\<close>: a repeated key keeps its place and takes the last value.\<close>

definition dict_of :: "(string \<times> 'v) list \<Rightarrow> (string \<times> 'v) list" where
  "dict_of ps = fold (\<lambda>kv m. AList.update (fst kv) (snd kv) m) ps []"

text \<open>
  A value, the elements of a list after its bracket, the members of a dictionary after its brace. The
  first argument bounds the recursion; the length of the text is enough, because every call reads at
  least one character.
\<close>

fun json_value :: "nat \<Rightarrow> string \<Rightarrow> (pyval \<times> string) option"
and json_elements :: "nat \<Rightarrow> string \<Rightarrow> (pyval list \<times> string) option"
and json_members :: "nat \<Rightarrow> string \<Rightarrow> ((string \<times> pyval) list \<times> string) option" where
  "json_value 0 s = None"
| "json_value (Suc n) s =
     (case skip_space s of
        [] \<Rightarrow> None
      | c # cs \<Rightarrow>
          if c = dquote then map_option (map_prod PStr id) (json_rest cs)
          else if c = CHR ''['' then
            (case skip_space cs of
               [] \<Rightarrow> None
             | d # ds \<Rightarrow> if d = CHR '']'' then Some (PList [], ds) else map_option (map_prod PList id) (json_elements n (d # ds)))
          else if c = CHR ''{'' then
            (case skip_space cs of
               [] \<Rightarrow> None
             | d # ds \<Rightarrow> if d = CHR ''}'' then Some (PDict [], ds) else map_option (map_prod (PDict \<circ> dict_of) id) (json_members n (d # ds)))
          else None)"
| "json_elements 0 s = None"
| "json_elements (Suc n) s =
     (case json_value n s of
        None \<Rightarrow> None
      | Some (v, r) \<Rightarrow>
          (case skip_space r of
             [] \<Rightarrow> None
           | c # cs \<Rightarrow>
               if c = CHR '','' then map_option (map_prod (Cons v) id) (json_elements n cs)
               else if c = CHR '']'' then Some ([v], cs) else None))"
| "json_members 0 s = None"
| "json_members (Suc n) s =
     (case skip_space s of
        [] \<Rightarrow> None
      | q # qs \<Rightarrow>
          if q \<noteq> dquote then None
          else
            (case json_rest qs of
               None \<Rightarrow> None
             | Some (k, r) \<Rightarrow>
                 (case skip_space r of
                    [] \<Rightarrow> None
                  | c # cs \<Rightarrow>
                      if c \<noteq> CHR '':'' then None
                      else
                        (case json_value n cs of
                           None \<Rightarrow> None
                         | Some (v, r') \<Rightarrow>
                             (case skip_space r' of
                                [] \<Rightarrow> None
                              | d # ds \<Rightarrow>
                                  if d = CHR '','' then map_option (map_prod (Cons (k, v)) id) (json_members n ds)
                                  else if d = CHR ''}'' then Some ([(k, v)], ds) else None)))))"

definition json_loads :: "string \<Rightarrow> pyval option" where
  "json_loads s =
     (case json_value (length s) s of
        None \<Rightarrow> None
      | Some (v, r) \<Rightarrow> if skip_space r = [] then Some v else None)"

section \<open>Reading back what was written\<close>

text \<open>The values a document of strings can hold, and the first character of their text.\<close>

fun textual :: "pyval \<Rightarrow> bool" where
  "textual (PStr s) = True"
| "textual (PList vs) = (\<forall>v \<in> set vs. textual v)"
| "textual (PDict d) = (distinct (map fst d) \<and> (\<forall>kv \<in> set d. textual (snd kv)))"
| "textual v = False"

lemma update_append_new: "k \<notin> fst ` set m \<Longrightarrow> AList.update k v m = m @ [(k, v)]"
  by (induction m) auto

lemma dict_of_append: "distinct (map fst (m @ ps)) \<Longrightarrow> fold (\<lambda>kv m. AList.update (fst kv) (snd kv) m) ps m = m @ ps"
  by (induction ps arbitrary: m) (simp_all add: update_append_new)

lemma dict_of_distinct: "distinct (map fst d) \<Longrightarrow> dict_of d = d"
  unfolding dict_of_def using dict_of_append [of "[]" d] by simp

lemma hex_value_digit: "n < 16 \<Longrightarrow> hex_value (hex_digit n) = Some n"
proof -
  assume "n < 16"
  then have "n \<in> {0, 1, 2, 3, 4, 5, 6, 7, 8, 9, 10, 11, 12, 13, 14, 15}" by (simp, arith)
  then show ?thesis by (auto simp: hex_digit_def hex_value_def lower_char_def)
qed

lemma json_rest_char: "json_rest (json_char c @ r) = map_option (map_prod (Cons c) id) (json_rest r)"
proof (cases "map_of short_escapes c")
  case (Some e)
  then show ?thesis
    by (auto simp: json_char_def short_escapes_def dquote_def backslash_def split: if_splits)
next
  case None
  let ?n = "of_char c :: nat"
  have bound: "?n < 256" by (rule nat_of_char_less_256)
  have parts: "16 * (?n div 16) + ?n mod 16 = ?n" by simp
  show ?thesis
  proof (cases "32 \<le> ?n \<and> ?n \<le> 126")
    case True
    then show ?thesis using None by (auto simp: json_char_def short_escapes_def dquote_def backslash_def split: if_splits)
  next
    case False
    have zero: "hex_value CHR ''0'' = Some 0" by (simp add: hex_value_def lower_char_def)
    have "hex_value (hex_digit (?n div 16)) = Some (?n div 16)" "hex_value (hex_digit (?n mod 16)) = Some (?n mod 16)"
      using bound by (intro hex_value_digit; simp add: less_mult_imp_div_less)+
    then have "json_rest (backslash # ''u00'' @ hex_digit (?n div 16) # hex_digit (?n mod 16) # r) =
      map_option (map_prod (Cons (char_of (16 * (?n div 16) + ?n mod 16))) id) (json_rest r)"
      using zero by (simp add: dquote_def backslash_def)
    then show ?thesis using None False by (auto simp: json_char_def Let_def parts simp del: json_rest.simps)
  qed
qed

lemma json_rest_string: "json_rest (concat (map json_char s) @ dquote # r) = Some (s, r)"
  by (induction s) (simp_all add: json_rest_char)

lemma skip_space_break [simp]: "skip_space (line_break ind l @ r) = skip_space r"
  by (auto simp: skip_space_def line_break_def json_space_def dropWhile_append split: option.splits)

lemma skip_space_cons [simp]: "\<not> json_space c \<Longrightarrow> skip_space (c # r) = c # r"
  by (simp add: skip_space_def)

lemma json_space_marks [simp]:
  "\<not> json_space dquote" "\<not> json_space CHR ''[''" "\<not> json_space CHR ''{''" "\<not> json_space CHR '',''"
  "\<not> json_space CHR '']''" "\<not> json_space CHR ''}''" "\<not> json_space CHR '':''"
  by (simp_all add: json_space_def dquote_def)

lemma quote_marks [simp]:
  "dquote \<noteq> CHR ''[''" "dquote \<noteq> CHR ''{''" "dquote \<noteq> CHR '']''" "dquote \<noteq> CHR ''}''"
  "CHR ''['' \<noteq> dquote" "CHR ''{'' \<noteq> dquote"
  by (simp_all add: dquote_def)

definition opens :: "char \<Rightarrow> bool" where
  "opens c \<longleftrightarrow> c = dquote \<or> c = CHR ''['' \<or> c = CHR ''{''"

lemma textual_opens:
  "textual v \<Longrightarrow> \<exists>c r. json_dumps ft ind l v = c # r \<and> opens c"
  by (cases v) (simp_all add: json_string_def enclose_def opens_def)

lemma opens_marks: "opens c \<Longrightarrow> \<not> json_space c \<and> c \<noteq> CHR '']'' \<and> c \<noteq> CHR ''}''"
  by (auto simp: opens_def)

lemma join_with_cons: "join_with sep (t # ts) = t @ (if ts = [] then [] else sep @ join_with sep ts)"
  by (cases ts) simp_all

lemma json_value_space: "json_value n (skip_space s) = json_value n s"
  proof -
  have "skip_space (skip_space s) = skip_space s" by (simp add: skip_space_def)
  then show ?thesis by (cases n) simp_all
qed

lemma entry_sep_head: "\<exists>r. entry_sep ind l = CHR '','' # r \<and> (\<forall>s. skip_space (r @ s) = skip_space s)"
proof (cases ind)
  case None
  then have "entry_sep ind l = CHR '','' # '' ''" by (simp add: entry_sep_def)
  then show ?thesis by (simp add: skip_space_def json_space_def)
next
  case (Some n)
  then have "entry_sep ind l = CHR '','' # line_break ind l" by (simp add: entry_sep_def)
  then show ?thesis by simp
qed

text \<open>The texts are read back with any fuel that is at least their length.\<close>

definition reads_back :: "(pyfloat \<Rightarrow> string) \<Rightarrow> nat option \<Rightarrow> pyval \<Rightarrow> bool" where
  "reads_back ft ind v \<longleftrightarrow>
     (\<forall>l n r. length (json_dumps ft ind l v) \<le> n \<longrightarrow> json_value n (json_dumps ft ind l v @ r) = Some (v, r))"

lemma json_elements_back:
  assumes "vs \<noteq> []" and "\<forall>v \<in> set vs. reads_back ft ind v"
    and "length (join_with (entry_sep ind l) (map (json_dumps ft ind l) vs)) < n"
  shows "json_elements n (join_with (entry_sep ind l) (map (json_dumps ft ind l) vs) @ line_break ind m @ CHR '']'' # r) = Some (vs, r)"
  using assms
proof (induction vs arbitrary: n)
  case (Cons v vs)
  obtain k where k: "n = Suc k" using Cons(4) by (cases n) simp_all
  obtain sep where sep: "entry_sep ind l = CHR '','' # sep" and skip: "\<forall>s. skip_space (sep @ s) = skip_space s"
    using entry_sep_head [of ind l] by blast
  have v: "json_value k (json_dumps ft ind l v @ s) = Some (v, s)" for s
    using Cons(3,4) k by (simp add: reads_back_def join_with_cons)
  have "json_elements k (sep @ s) = json_elements k s" for s
  proof (cases k)
    case (Suc j)
    have "json_value j (sep @ s) = json_value j s" using json_value_space [of j "sep @ s"] json_value_space [of j s] skip by simp
    then show ?thesis using Suc by simp
  qed simp
  moreover have "json_elements k (join_with (entry_sep ind l) (map (json_dumps ft ind l) vs) @ line_break ind m @ CHR '']'' # r) = Some (vs, r)"
    if "vs \<noteq> []" using that Cons(1) [of k] Cons(3,4) k sep by (simp add: join_with_cons)
  ultimately show ?case using v k by (cases "vs = []") (simp_all add: join_with_cons sep)
qed simp

lemma json_members_back:
  assumes "d \<noteq> []" and "\<forall>kv \<in> set d. reads_back ft ind (snd kv)"
    and "length (join_with (entry_sep ind l) (map (\<lambda>kv. json_string (fst kv) @ '': '' @ json_dumps ft ind l (snd kv)) d)) < n"
  shows "json_members n (join_with (entry_sep ind l) (map (\<lambda>kv. json_string (fst kv) @ '': '' @ json_dumps ft ind l (snd kv)) d)
    @ line_break ind m @ CHR ''}'' # r) = Some (d, r)"
  using assms
proof (induction d arbitrary: n)
  case (Cons kv d)
  let ?f = "\<lambda>kv. json_string (fst kv) @ '': '' @ json_dumps ft ind l (snd kv)"
  obtain k where k: "n = Suc k" using Cons(4) by (cases n) simp_all
  obtain sep where sep: "entry_sep ind l = CHR '','' # sep" and skip: "\<forall>s. skip_space (sep @ s) = skip_space s"
    using entry_sep_head [of ind l] by blast
  have "json_value k (json_dumps ft ind l (snd kv) @ s) = Some (snd kv, s)" for s
    using Cons(3,4) k by (simp add: reads_back_def join_with_cons)
  then have v: "json_value k (CHR '' '' # json_dumps ft ind l (snd kv) @ s) = Some (snd kv, s)" for s
    using json_value_space [of k] by (metis (no_types, lifting) dropWhile.simps(2) insertCI json_space_def skip_space_def)
  have "json_members k (sep @ s) = json_members k s" for s
    by (cases k) (simp_all add: skip)
  moreover have "json_members k (join_with (entry_sep ind l) (map ?f d) @ line_break ind m @ CHR ''}'' # r) = Some (d, r)"
    if "d \<noteq> []" using that Cons(1) [of k] Cons(3,4) k sep by (simp add: join_with_cons)
  ultimately show ?case using v k by (cases "d = []") (simp_all add: join_with_cons sep json_string_def json_rest_string)
qed simp

lemma textual_reads_back: "textual v \<Longrightarrow> reads_back ft ind v"
proof (induction v rule: textual.induct)
  case (1 s)
  have "json_value n (json_string s @ r) = Some (PStr s, r)" if "length (json_string s) \<le> n" for n r
    using that by (cases n) (simp_all add: json_string_def json_rest_string)
  then show ?case by (simp add: reads_back_def)
next
  case (2 vs)
  have "json_value n (json_dumps ft ind l (PList vs) @ r) = Some (PList vs, r)" if n: "length (json_dumps ft ind l (PList vs)) \<le> n" for l n r
  proof (cases "vs = []")
    case False
    let ?t = "join_with (entry_sep ind (Suc l)) (map (json_dumps ft ind (Suc l)) vs)"
    obtain k where k: "n = Suc k" "length ?t < k" using n False by (cases n) (auto simp: enclose_def)
    have read: "json_elements k (?t @ line_break ind l @ CHR '']'' # r) = Some (vs, r)"
      using 2 False k(2) by (intro json_elements_back) simp_all
    obtain v vs' where vs: "vs = v # vs'" using False by (cases vs) simp_all
    obtain c u where c: "json_dumps ft ind (Suc l) v = c # u" "opens c" using textual_opens 2(2) vs by fastforce
    obtain u' where t: "?t = c # u'" using vs c by (simp add: join_with_cons)
    show ?thesis using read k(1) False opens_marks [OF c(2)] unfolding t by (simp add: enclose_def t)
  qed (use n in \<open>cases n; simp add: enclose_def\<close>)
  then show ?case by (simp add: reads_back_def)
next
  case (3 d)
  have d: "dict_of d = d" using 3(2) by (simp add: dict_of_distinct)
  let ?f = "\<lambda>l kv. json_string (fst kv) @ '': '' @ json_dumps ft ind l (snd kv)"
  have "json_value n (json_dumps ft ind l (PDict d) @ r) = Some (PDict d, r)" if n: "length (json_dumps ft ind l (PDict d)) \<le> n" for l n r
  proof (cases "d = []")
    case False
    let ?t = "join_with (entry_sep ind (Suc l)) (map (?f (Suc l)) d)"
    obtain k where k: "n = Suc k" "length ?t < k" using n False by (cases n) (auto simp: enclose_def)
    have read: "json_members k (?t @ line_break ind l @ CHR ''}'' # r) = Some (d, r)"
      using 3 False k(2) by (intro json_members_back) simp_all
    obtain u where t: "?t = dquote # u" using False by (cases d) (simp_all add: join_with_cons json_string_def)
    have "json_dumps ft ind l (PDict d) = CHR ''{'' # line_break ind (Suc l) @ ?t @ line_break ind l @ ''}''"
      using False by (simp add: enclose_def)
    then show ?thesis using read k(1) d unfolding t by simp
  qed (use n in \<open>cases n; simp add: enclose_def\<close>)
  then show ?case by (simp add: reads_back_def)
qed simp_all

lemma json_loads_dumps: "textual v \<Longrightarrow> json_loads (json_dumps ft ind l v) = Some v"
  using textual_reads_back [of v ft ind, unfolded reads_back_def, rule_format, of l "length (json_dumps ft ind l v)" "[]"]
  by (simp add: json_loads_def skip_space_def)

end
