(* ===== verification/ContextWindow.thy ===== *)
theory ContextWindow
  imports Ranking Json
begin

text \<open>
  The context builder (\<open>src/api/services/context_builder.py\<close>): retrieved memories become the text that
  is put before a prompt, as bullets, JSON or XML, within a budget of tokens, and with a notice when
  part of the memory is withheld.

  The tokenizer is a parameter that may fail, in which case the words are counted. The loops that
  drop memories until the text fits are partial functions into \<open>option\<close>, where \<open>None\<close> is a loop that
  does not end; that they end is a theorem.
\<close>

section \<open>Constants and results\<close>

definition min_context_importance :: pyfloat where
  "min_context_importance = 3"

definition min_memories_to_keep :: nat where
  "min_memories_to_keep = 3"

definition near_duplicate_threshold :: pyfloat where
  "near_duplicate_threshold = 90/100"

definition supported_formats :: "string set" where
  "supported_formats = {''bullets'', ''json'', ''xml''}"

definition truncate_content_chars :: nat where
  "truncate_content_chars = 150"

definition default_max_tokens :: int where
  "default_max_tokens = 500"

definition category_labels :: "(string \<times> string) list" where
  "category_labels = [(''expertise'', ''Skills & expertise''), (''preference'', ''Preferences''), (''goal'', ''Goals''),
     (''fact'', ''Facts''), (''procedure'', ''Workflows & habits''), (''relationship'', ''Relationships & context'')]"

definition category_order :: "string list" where
  "category_order = [''expertise'', ''preference'', ''goal'', ''fact'', ''procedure'', ''relationship'']"

record context_result =
  cr_text :: string
  cr_tokens :: nat
  cr_count :: nat
  cr_dropped :: nat
  cr_format :: string

datatype context_error = UnsupportedFormat string | MalformedDocument | MissingStatus

record context_env =
  cx_tokens :: "string \<Rightarrow> nat option"
  cx_float :: "pyfloat \<Rightarrow> string"

definition empty_result :: "string \<Rightarrow> nat \<Rightarrow> context_result" where
  "empty_result fmt dropped = \<lparr>cr_text = [], cr_tokens = 0, cr_count = 0, cr_dropped = dropped, cr_format = fmt\<rparr>"

definition count_tokens :: "context_env \<Rightarrow> string \<Rightarrow> nat" where
  "count_tokens E t =
     (if t = [] then 0
      else (case cx_tokens E t of Some n \<Rightarrow> n | None \<Rightarrow> nat \<lceil>of_nat (length (py_words t)) * (13/10 :: rat)\<rceil>))"

section \<open>Texts\<close>

definition py_rstrip :: "string \<Rightarrow> string" where
  "py_rstrip s = rev (dropWhile is_space (rev s))"

text \<open>\<open>s.rfind(" ", 0, n)\<close>: the last blank before a position.\<close>

definition rfind_blank :: "string \<Rightarrow> nat \<Rightarrow> nat option" where
  "rfind_blank s n = find (\<lambda>i. s ! i = CHR '' '') (rev [0..<min n (length s)])"

definition content_for_prompt :: "memory_result \<Rightarrow> string" where
  "content_for_prompt m =
     (let c = join_words (py_words (mr_content m))
      in if length c \<le> truncate_content_chars then c
         else
           (let cutoff = (case rfind_blank c (truncate_content_chars - 1) of
                Some i \<Rightarrow> if i < 80 then truncate_content_chars - 1 else i
              | None \<Rightarrow> truncate_content_chars - 1)
            in py_rstrip (take cutoff c) @ ''...''))"

text \<open>\<open>html.escape\<close>, one character at a time.\<close>

definition escape_char :: "char \<Rightarrow> string" where
  "escape_char c =
     (if c = CHR ''&'' then ''&amp;'' else if c = CHR ''<'' then ''&lt;'' else if c = CHR ''>'' then ''&gt;''
      else if c = dquote then ''&quot;'' else if c = CHR 0x27 then ''&#x27;'' else [c])"

definition escape :: "string \<Rightarrow> string" where
  "escape s = concat (map escape_char s)"

definition group_by_category :: "memory_result list \<Rightarrow> (string \<times> memory_result list) list" where
  "group_by_category ms = map (\<lambda>c. (c, filter (\<lambda>m. mr_category m = c) ms)) category_order"

definition newline :: string where
  "newline = [CHR 0x0A]"

definition group_lines :: "bool \<Rightarrow> string \<times> memory_result list \<Rightarrow> string list" where
  "group_lines multi g =
     (if snd g = [] then []
      else (if multi then [the (map_of category_labels (fst g)) @ '':''] else []) @ map (\<lambda>m. ''- '' @ content_for_prompt m) (snd g))"

definition bullet_lines :: "memory_result list \<Rightarrow> string list" where
  "bullet_lines ms =
     (let multi = 1 < length (filter (\<lambda>g. snd g \<noteq> []) (group_by_category ms))
      in ''What you know about this user:'' # concat (map (group_lines multi) (group_by_category ms)))"

definition render_bullets :: "memory_result list \<Rightarrow> string" where
  "render_bullets ms = join_with newline (bullet_lines ms)"

definition grouped_contents :: "memory_result list \<Rightarrow> (string \<times> pyval) list" where
  "grouped_contents ms =
     map (\<lambda>g. (fst g, PList (map (\<lambda>m. PStr (content_for_prompt m)) (snd g)))) (filter (\<lambda>g. snd g \<noteq> []) (group_by_category ms))"

definition render_json :: "context_env \<Rightarrow> memory_result list \<Rightarrow> string" where
  "render_json E ms = json_dumps (cx_float E) (Some 2) 0 (PDict [(''memories'', PDict (grouped_contents ms))])"

definition quoted :: "string \<Rightarrow> string" where
  "quoted s = dquote # s @ [dquote]"

definition xml_line :: "string \<Rightarrow> memory_result \<Rightarrow> string" where
  "xml_line c m = ''  <memory category='' @ quoted (escape c) @ ''>'' @ escape (content_for_prompt m) @ ''</memory>''"

definition render_xml :: "memory_result list \<Rightarrow> string" where
  "render_xml ms =
     join_with newline (''<memory_context>'' # concat (map (\<lambda>g. map (xml_line (fst g)) (snd g)) (group_by_category ms)) @ [''</memory_context>''])"

definition render :: "context_env \<Rightarrow> memory_result list \<Rightarrow> string \<Rightarrow> string" where
  "render E ms fmt =
     (if fmt = ''bullets'' then render_bullets ms else if fmt = ''json'' then render_json E ms else render_xml ms)"

section \<open>Selection\<close>

definition too_similar :: "memory_result \<Rightarrow> memory_result \<Rightarrow> bool" where
  "too_similar m k \<longleftrightarrow> content_similarity (mr_content m) (mr_content k) > near_duplicate_threshold"

fun prepare_loop :: "memory_result list \<Rightarrow> nat \<Rightarrow> memory_result list \<Rightarrow> memory_result list \<times> nat" where
  "prepare_loop prepared dropped [] = (prepared, dropped)"
| "prepare_loop prepared dropped (m # ms) =
     (if mr_importance m < min_context_importance then prepare_loop prepared (Suc dropped) ms
      else if \<exists>k \<in> set prepared. too_similar m k then prepare_loop prepared (Suc dropped) ms
      else prepare_loop (prepared @ [m]) dropped ms)"

definition prepare_memories :: "memory_result list \<Rightarrow> memory_result list \<times> nat" where
  "prepare_memories ms = prepare_loop [] 0 (by_score ms)"

text \<open>\<open>min(items, key=(importance, score))\<close>: the first of the least items.\<close>

definition less_useful :: "memory_result \<Rightarrow> memory_result \<Rightarrow> bool" where
  "less_useful a b \<longleftrightarrow> mr_importance a < mr_importance b \<or> mr_importance a = mr_importance b \<and> mr_final a < mr_final b"

definition least_useful :: "memory_result list \<Rightarrow> memory_result" where
  "least_useful ms = foldl (\<lambda>b m. if less_useful m b then m else b) (hd ms) (tl ms)"

partial_function (option) budget_loop ::
  "context_env \<Rightarrow> string \<Rightarrow> int \<Rightarrow> memory_result list \<Rightarrow> nat \<Rightarrow> (memory_result list \<times> nat) option" where
  "budget_loop E fmt max_tokens selected dropped =
     (if min_memories_to_keep < length selected \<and> max_tokens < int (count_tokens E (render E selected fmt))
      then budget_loop E fmt max_tokens (remove1 (least_useful (drop min_memories_to_keep selected)) selected) (Suc dropped)
      else Some (selected, dropped))"

definition select_memories_within_budget ::
  "context_env \<Rightarrow> string \<Rightarrow> int \<Rightarrow> memory_result list \<Rightarrow> (memory_result list \<times> nat) option" where
  "select_memories_within_budget E fmt max_tokens ms = budget_loop E fmt max_tokens ms 0"

section \<open>Building\<close>

definition build :: "context_env \<Rightarrow> memory_result list \<Rightarrow> string \<Rightarrow> int \<Rightarrow> (context_error + context_result) option" where
  "build E ms format max_tokens =
     (let fmt = py_strip (py_lower format)
      in if fmt \<notin> supported_formats then Some (Inl (UnsupportedFormat format))
         else if max_tokens \<le> 0 \<or> ms = [] then Some (Inr (empty_result fmt 0))
         else
           (let (elig, dropped) = prepare_memories ms
            in if elig = [] then Some (Inr (empty_result fmt dropped))
               else
                 (case select_memories_within_budget E fmt max_tokens elig of
                    None \<Rightarrow> None
                  | Some (selected, extra) \<Rightarrow>
                      (let text = render E selected fmt
                       in Some (Inr \<lparr>cr_text = text, cr_tokens = count_tokens E text, cr_count = length selected,
                            cr_dropped = dropped + extra, cr_format = fmt\<rparr>)))))"

definition build_context :: "context_env \<Rightarrow> memory_result list \<Rightarrow> string \<Rightarrow> int \<Rightarrow> (context_error + string) option" where
  "build_context E ms format max_tokens = map_option (map_sum id cr_text) (build E ms format max_tokens)"

definition build_system_prompt :: "context_env \<Rightarrow> string \<Rightarrow> memory_result list \<Rightarrow> (context_error + string) option" where
  "build_system_prompt E base_prompt ms =
     (let b = py_strip base_prompt
      in map_option (map_sum id (\<lambda>t. if t = [] then b
           else b @ newline @ newline @ ''Relevant memory context:'' @ newline
             @ ''Use these memories only when they improve the response.'' @ newline
             @ ''Do not mention that memory context was injected.'' @ newline @ t))
         (build_context E ms ''bullets'' default_max_tokens))"

section \<open>Notices\<close>

text \<open>
  The text with a notice. The JSON form reads the memories back from their own rendering; a status
  without its state would raise.
\<close>

definition status_text :: "(string \<times> pyval) list \<Rightarrow> string \<Rightarrow> string option" where
  "status_text status k = (case map_of status k of Some (PStr s) \<Rightarrow> Some s | _ \<Rightarrow> None)"

definition loaded_memories :: "string \<Rightarrow> context_error + pyval" where
  "loaded_memories base =
     (if base = [] then Inr (PDict [])
      else (case json_loads base of
              Some (PDict d) \<Rightarrow> (case map_of d ''memories'' of Some v \<Rightarrow> Inr v | None \<Rightarrow> Inl MalformedDocument)
            | _ \<Rightarrow> Inl MalformedDocument))"

definition notice_element :: "string \<Rightarrow> (string \<times> pyval) list \<Rightarrow> string \<Rightarrow> string option" where
  "notice_element key status notice =
     map_option (\<lambda>state.
         ''<'' @ key @ '' state='' @ quoted state
           @ (case status_text status ''scope'' of None \<Rightarrow> [] | Some sc \<Rightarrow> '' scope='' @ quoted sc)
           @ ''>'' @ escape notice @ ''</'' @ key @ ''>'')
       (status_text status ''state'')"

definition render_noticed ::
  "context_env \<Rightarrow> string \<Rightarrow> (string \<times> pyval) list \<Rightarrow> string \<Rightarrow> string \<Rightarrow> memory_result list \<Rightarrow> context_error + string" where
  "render_noticed E key status notice fmt selected =
     (let base = (if selected = [] then [] else render E selected fmt)
      in if fmt = ''json'' then
           map_sum id (\<lambda>v. json_dumps (cx_float E) None 0
               (PDict [(''memories'', v), (key, PDict status), (''notice'', PStr notice)])) (loaded_memories base)
         else
           (case notice_element key status notice of
              None \<Rightarrow> Inl MissingStatus
            | Some element \<Rightarrow>
                Inr (if fmt = ''xml'' then
                       (if base = [] then element else ''<governed_memory_context>'' @ element @ base @ ''</governed_memory_context>'')
                     else notice @ (if base = [] then [] else newline @ newline @ base))))"

partial_function (option) notice_loop ::
  "context_env \<Rightarrow> (memory_result list \<Rightarrow> context_error + string) \<Rightarrow> int \<Rightarrow> memory_result list \<Rightarrow> nat
    \<Rightarrow> (context_error + memory_result list \<times> nat \<times> string) option" where
  "notice_loop E text_of max_tokens selected dropped =
     (case text_of selected of
        Inl e \<Rightarrow> Some (Inl e)
      | Inr text \<Rightarrow>
          if selected \<noteq> [] \<and> max_tokens < int (count_tokens E text)
          then notice_loop E text_of max_tokens (remove1 (least_useful selected) selected) (Suc dropped)
          else Some (Inr (selected, dropped, text)))"

definition build_noticed ::
  "context_env \<Rightarrow> memory_result list \<Rightarrow> string \<Rightarrow> (string \<times> pyval) list \<Rightarrow> string \<Rightarrow> string \<Rightarrow> int
    \<Rightarrow> (context_error + context_result) option" where
  "build_noticed E ms key status notice fmt max_tokens =
     (if fmt \<notin> supported_formats then Some (Inl (UnsupportedFormat fmt))
      else
        (let (selected, dropped) = prepare_memories ms
         in map_option (map_sum id (\<lambda>(selected, dropped, text).
                 if max_tokens \<le> 0 \<or> max_tokens < int (count_tokens E text) then empty_result fmt dropped
                 else \<lparr>cr_text = text, cr_tokens = count_tokens E text, cr_count = length selected,
                        cr_dropped = dropped, cr_format = fmt\<rparr>))
              (notice_loop E (render_noticed E key status notice fmt) max_tokens selected dropped)))"

record memory_visibility =
  mv_state :: string
  mv_scope :: string

definition guarded_notice :: "memory_visibility \<Rightarrow> string" where
  "guarded_notice v =
     ''MemoryOS has withheld '' @ (if mv_scope v = ''affected_context'' then ''affected context'' else ''learned context'')
     @ '' while an update is '' @ (if mv_state v = ''processing'' then ''processing.'' else ''not yet resolved safely.'')
     @ '' Do not present a withheld stored value as current. '' @ ''This status is not a request for user clarification.''"

definition build_guarded ::
  "context_env \<Rightarrow> memory_result list \<Rightarrow> memory_visibility \<Rightarrow> string \<Rightarrow> int \<Rightarrow> (context_error + context_result) option" where
  "build_guarded E ms v fmt max_tokens =
     (if fmt \<notin> supported_formats then Some (Inl (UnsupportedFormat fmt))
      else build_noticed E (if mv_scope v = ''affected_context'' then ms else []) ''memory_visibility''
             [(''state'', PStr (mv_state v)), (''scope'', PStr (mv_scope v))] (guarded_notice v) fmt max_tokens)"

definition opt_text :: "string option \<Rightarrow> pyval" where
  "opt_text s = (case s of None \<Rightarrow> PNone | Some t \<Rightarrow> PStr t)"

definition applicability_json :: "pref_applicability \<Rightarrow> pyval" where
  "applicability_json a = PDict [(''kind'', PStr (pa_kind a)), (''namespace'', opt_text (pa_namespace a)), (''key'', opt_text (pa_key a))]"

record scope_request =
  sq_keys :: "string list"
  sq_scopes :: "pref_applicability list"

definition scope_request_json :: "scope_request \<Rightarrow> (string \<times> pyval) list" where
  "scope_request_json q =
     [(''state'', PStr ''application_scope_required''), (''property_keys'', PList (map PStr (sq_keys q))),
      (''available_scopes'', PList (map applicability_json (sq_scopes q)))]"

definition build_scope_required ::
  "context_env \<Rightarrow> memory_result list \<Rightarrow> scope_request \<Rightarrow> string \<Rightarrow> int \<Rightarrow> (context_error + context_result) option" where
  "build_scope_required E ms q fmt max_tokens =
     build_noticed E ms ''preference_scope_request'' (scope_request_json q)
       (''MemoryOS has withheld preferences whose application scope is unknown. ''
        @ ''Ask which application/project scope applies; do not choose a global or scoped default. ''
        @ ''This is a scope question, not a new preference value or permission change. ''
        @ json_dumps (cx_float E) None 0 (PDict (scope_request_json q))) fmt max_tokens"

record read_decision =
  rd_property_key :: string
  rd_applicability :: pref_applicability

definition decisions_json :: "read_decision list \<Rightarrow> (string \<times> pyval) list" where
  "decisions_json ds =
     [(''state'', PStr ''current_choice_unresolved''),
      (''decisions'', PList (map (\<lambda>d. PDict [(''property_key'', PStr (rd_property_key d)),
         (''applicability'', applicability_json (rd_applicability d)), (''state'', PStr ''current_choice_unresolved'')]) ds))]"

definition build_choice_unresolved ::
  "context_env \<Rightarrow> memory_result list \<Rightarrow> read_decision list \<Rightarrow> string \<Rightarrow> int \<Rightarrow> (context_error + context_result) option" where
  "build_choice_unresolved E ms ds fmt max_tokens =
     build_noticed E ms ''preference_decisions'' (decisions_json ds)
       (''MemoryOS has withheld unresolved current preference choices. ''
        @ ''Do not choose a prior or candidate value as current. Ask which value should remain current ''
        @ ''and where it applies. '' @ json_dumps (cx_float E) None 0 (PDict (decisions_json ds))) fmt max_tokens"

section \<open>Lemmas\<close>

subsection \<open>Selection\<close>

definition dissimilar :: "memory_result list \<Rightarrow> bool" where
  "dissimilar ms \<longleftrightarrow> sorted_wrt (\<lambda>a b. \<not> too_similar b a) ms"

lemma too_similar_same: "mr_content a = mr_content b \<Longrightarrow> too_similar a b"
  by (simp add: too_similar_def near_duplicate_threshold_def)

lemma dissimilar_distinct: "dissimilar ms \<Longrightarrow> distinct (map mr_content ms)"
  unfolding dissimilar_def
  by (rule sorted_wrt_distinct [where f = mr_content], erule sorted_wrt_mono_rel [rotated]) (metis too_similar_same)

lemma dissimilar_subseq: "subseq ms ns \<Longrightarrow> dissimilar ns \<Longrightarrow> dissimilar ms"
  unfolding dissimilar_def by (induction rule: list_emb.induct) (auto dest: list_emb_set)

lemma subseq_set: "subseq xs ys \<Longrightarrow> set xs \<subseteq> set ys"
  by (induction rule: list_emb.induct) auto

lemma subseq_remove1: "subseq (remove1 x xs) xs"
  by (induction xs) auto

lemma prepare_loop_spec:
  assumes "prepare_loop prepared dropped ms = (elig, n)" and "dissimilar prepared" and "score_ordered (prepared @ ms)"
    and "\<forall>m \<in> set prepared. min_context_importance \<le> mr_importance m"
  shows "length elig + n = length prepared + dropped + length ms \<and> dissimilar elig \<and> score_ordered elig
    \<and> (\<forall>m \<in> set elig. min_context_importance \<le> mr_importance m) \<and> set elig \<subseteq> set prepared \<union> set ms"
  using assms
proof (induction prepared dropped ms arbitrary: elig n rule: prepare_loop.induct)
  case (2 prepared dropped m ms)
  have skip: "score_ordered (prepared @ ms)" using 2(6) by (auto simp: score_ordered_def sorted_wrt_append)
  consider (low) "mr_importance m < min_context_importance"
    | (same) "\<not> mr_importance m < min_context_importance" "\<exists>k \<in> set prepared. too_similar m k"
    | (keep) "\<not> mr_importance m < min_context_importance" "\<not> (\<exists>k \<in> set prepared. too_similar m k)" by blast
  then show ?case
  proof cases
    case low
    then show ?thesis using 2(1) [of elig n] 2(4,5,7) skip by auto
  next
    case same
    then show ?thesis using 2(2) [of elig n] 2(4,5,7) skip by auto
  next
    case keep
    then have "dissimilar (prepared @ [m])" using 2(5) by (auto simp: dissimilar_def sorted_wrt_append)
    then show ?thesis using 2(3) [of elig n] 2(4,6,7) keep by auto
  qed
qed simp

lemma prepare_memories_spec:
  assumes "prepare_memories ms = (elig, n)"
  shows "length elig + n = length ms" and "dissimilar elig" and "score_ordered elig"
    and "\<forall>m \<in> set elig. min_context_importance \<le> mr_importance m" and "set elig \<subseteq> set ms"
  using prepare_loop_spec [OF assms [unfolded prepare_memories_def]] by_score_sorted [of ms]
  by (simp_all add: dissimilar_def score_ordered_def by_score_def)

lemma least_useful_member: "ms \<noteq> [] \<Longrightarrow> least_useful ms \<in> set ms"
proof -
  have "foldl (\<lambda>b m. if less_useful m b then m else b) x xs \<in> insert x (set xs)" for x xs
    by (induction xs arbitrary: x) (auto split: if_splits)
  then show "ms \<noteq> [] \<Longrightarrow> least_useful ms \<in> set ms" by (cases ms) (simp_all add: least_useful_def)
qed

subsection \<open>The budget\<close>

text \<open>
  The loop returns on every input. What it returns fits, or has at most the three memories that are
  always kept; on different memories it keeps the first three.
\<close>

lemma remove_beyond:
  assumes "x \<in> set (drop k xs)"
  shows "length (remove1 x xs) < length xs" and "distinct xs \<Longrightarrow> take k (remove1 x xs) = take k xs"
proof -
  have x: "x \<in> set xs" using assms in_set_dropD by fast
  then show "length (remove1 x xs) < length xs" using length_pos_if_in_set [OF x] by (simp add: length_remove1)
  assume "distinct xs"
  then have "distinct (take k xs @ drop k xs)" by simp
  then have "x \<notin> set (take k xs)" using assms unfolding distinct_append by blast
  then have "remove1 x (take k xs @ drop k xs) = take k xs @ remove1 x (drop k xs)" by (simp only: remove1_append if_False)
  moreover have "k < length xs" using assms by (cases "k < length xs") simp_all
  ultimately show "take k (remove1 x xs) = take k xs" by simp
qed

lemma budget_loop_returns:
  "\<exists>sel n. budget_loop E fmt limit ms dropped = Some (sel, n) \<and> n + length sel = dropped + length ms \<and> subseq sel ms \<and>
     (int (count_tokens E (render E sel fmt)) \<le> limit \<or> length sel \<le> min_memories_to_keep) \<and>
     (distinct ms \<longrightarrow> take min_memories_to_keep sel = take min_memories_to_keep ms)"
proof (induction "length ms" arbitrary: ms dropped rule: less_induct)
  case less
  show ?case
  proof (cases "min_memories_to_keep < length ms \<and> limit < int (count_tokens E (render E ms fmt))")
    case True
    let ?x = "least_useful (drop min_memories_to_keep ms)"
    have x: "?x \<in> set (drop min_memories_to_keep ms)" using True by (intro least_useful_member) simp
    have shorter: "length (remove1 ?x ms) < length ms" by (rule remove_beyond(1) [OF x])
    obtain sel n where sel: "budget_loop E fmt limit (remove1 ?x ms) (Suc dropped) = Some (sel, n)"
      "n + length sel = Suc dropped + length (remove1 ?x ms)" "subseq sel (remove1 ?x ms)"
      "int (count_tokens E (render E sel fmt)) \<le> limit \<or> length sel \<le> min_memories_to_keep"
      "distinct (remove1 ?x ms) \<longrightarrow> take min_memories_to_keep sel = take min_memories_to_keep (remove1 ?x ms)"
      using less [OF shorter, of "Suc dropped"] by (elim exE conjE) (rule that)
    have "n + length sel = dropped + length ms" using sel(2) shorter in_set_dropD [OF x] by (simp add: length_remove1)
    moreover have "subseq sel ms" using sel(3) subseq_remove1 by (rule subseq_order.order_trans)
    moreover have "distinct ms \<longrightarrow> take min_memories_to_keep sel = take min_memories_to_keep ms"
      using sel(5) remove_beyond(2) [OF x] by simp
    moreover have "budget_loop E fmt limit ms dropped = Some (sel, n)"
      using True sel(1) by (simp add: budget_loop.simps [of E fmt limit ms])
    ultimately show ?thesis using sel(4) by blast
  next
    case False
    then show ?thesis by (auto simp: budget_loop.simps [of E fmt limit ms])
  qed
qed

lemma notice_loop_returns:
  "\<exists>r. notice_loop E text_of limit ms dropped = Some r \<and>
     (case r of
        Inl e \<Rightarrow> \<exists>sel. text_of sel = Inl e
      | Inr (sel, n, text) \<Rightarrow> text_of sel = Inr text \<and> n + length sel = dropped + length ms \<and> subseq sel ms \<and>
          (int (count_tokens E text) \<le> limit \<or> sel = []))"
proof (induction "length ms" arbitrary: ms dropped rule: less_induct)
  case less
  show ?case
  proof (cases "text_of ms")
    case (Inl e)
    then show ?thesis by (auto simp: notice_loop.simps [of E text_of limit ms])
  next
    case (Inr t)
    show ?thesis
    proof (cases "ms \<noteq> [] \<and> limit < int (count_tokens E t)")
      case True
      let ?x = "least_useful ms"
      have x: "?x \<in> set ms" using True by (intro least_useful_member) simp
      then have len: "Suc (length (remove1 ?x ms)) = length ms" using length_pos_if_in_set [OF x] by (simp add: length_remove1)
      have step: "notice_loop E text_of limit ms dropped = notice_loop E text_of limit (remove1 ?x ms) (Suc dropped)"
        using True Inr by (simp add: notice_loop.simps [of E text_of limit ms])
      show ?thesis unfolding step using less [of "remove1 ?x ms" "Suc dropped"] len subseq_remove1 [of ?x ms]
        by (fastforce split: sum.splits intro: subseq_order.order_trans)
    next
      case False
      then show ?thesis using Inr by (auto simp: notice_loop.simps [of E text_of limit ms])
    qed
  qed
qed

subsection \<open>Rendering\<close>

definition known_category :: "memory_result \<Rightarrow> bool" where
  "known_category m \<longleftrightarrow> mr_category m \<in> set category_order"

lemma group_sum:
  fixes f :: "memory_result \<Rightarrow> nat"
  shows "sum_list (map (\<lambda>g. sum_list (map f (snd g))) (group_by_category ms)) = sum_list (map f (filter known_category ms))"
  by (induction ms) (auto simp: group_by_category_def known_category_def category_order_def)

lemma py_words_step:
  assumes "dropWhile is_space s \<noteq> []"
  shows "set (py_words s) = insert (takeWhile (\<lambda>c. \<not> is_space c) (dropWhile is_space s))
    (set (py_words (dropWhile (\<lambda>c. \<not> is_space c) (dropWhile is_space s))))"
  unfolding py_words.simps [of s] Let_def if_not_P [OF assms] by (rule list.set(2))

lemma py_words_visible: "\<forall>w \<in> set (py_words s). \<forall>c \<in> set w. \<not> is_space c"
proof (induction s rule: py_words.induct)
  case (1 s)
  show ?case
  proof (cases "dropWhile is_space s = []")
    case True
    then show ?thesis unfolding py_words.simps [of s] Let_def if_P [OF True] by simp
  next
    case False
    have "\<forall>c \<in> set (takeWhile (\<lambda>c. \<not> is_space c) xs). \<not> is_space c" for xs by (induction xs) auto
    then show ?thesis unfolding py_words_step [OF False] ball_simps using 1 [OF refl False] by (rule conjI)
  qed
qed

lemma join_words_chars: "set (join_words ws) \<subseteq> insert CHR '' '' (\<Union> (set ` set ws))"
  by (induction ws rule: join_words.induct) auto

lemma prompt_chars: "c \<in> set (content_for_prompt m) \<Longrightarrow> c = CHR '' '' \<or> \<not> is_space c"
proof -
  let ?t = "join_words (py_words (mr_content m))"
  have words: "c = CHR '' '' \<or> \<not> is_space c" if "c \<in> set ?t"
    using that join_words_chars [of "py_words (mr_content m)"] py_words_visible [of "mr_content m"] by fastforce
  have strip: "set (py_rstrip (take k ?t)) \<subseteq> set ?t" for k
    unfolding py_rstrip_def using set_dropWhileD set_take_subset by fastforce
  have dots: "\<not> is_space CHR ''.''" by (simp add: is_space_def)
  assume "c \<in> set (content_for_prompt m)"
  then have "c \<in> set ?t \<or> c = CHR ''.''" using strip by (auto simp: content_for_prompt_def Let_def split: if_splits)
  then show ?thesis using words dots by blast
qed

lemma find_member: "find P xs = Some x \<Longrightarrow> x \<in> set xs"
  by (induction xs) (auto split: if_splits)

lemma content_for_prompt_length: "length (content_for_prompt m) \<le> truncate_content_chars + 2"
proof -
  let ?t = "join_words (py_words (mr_content m))"
  have "i < truncate_content_chars - 1" if "rfind_blank ?t (truncate_content_chars - 1) = Some i" for i
    using find_member [OF that [unfolded rfind_blank_def]] by simp
  moreover have "length (py_rstrip (take k ?t)) \<le> k" for k
    using length_dropWhile_le [of is_space "rev (take k ?t)"] by (simp add: py_rstrip_def)
  then have "length (py_rstrip (take k ?t)) \<le> 149" if "k \<le> 149" for k using that le_trans by blast
  ultimately show ?thesis
    by (auto simp: content_for_prompt_def Let_def truncate_content_chars_def split: option.splits)
qed

text \<open>The number of occurrences of a character in joined lines.\<close>

lemma count_join: "count_list (join_with sep ts) c = sum_list (map (\<lambda>t. count_list t c) ts) + (length ts - 1) * count_list sep c"
proof (induction sep ts rule: join_with.induct)
  case (3 sep v w ws)
  then show ?case by (simp add: algebra_simps)
qed simp_all

lemma count_concat: "count_list (concat xss) c = sum_list (map (\<lambda>xs. count_list xs c) xss)"
  by (induction xss) simp_all

lemma sum_concat: "sum_list (map f (concat xss)) = sum_list (map (\<lambda>xs. sum_list (map f xs)) xss)" for f :: "'a \<Rightarrow> nat"
  by (induction xss) simp_all

lemma count_none: "c \<notin> set xs \<Longrightarrow> count_list xs c = 0"
  by (simp add: count_list_0_iff)

lemma escape_inert: "CHR ''<'' \<notin> set (escape s)" "dquote \<notin> set (escape s)"
  by (auto simp: escape_def escape_char_def dquote_def split: if_splits)

lemma category_headings:
  assumes "c \<in> set category_order"
  shows "CHR 0x0A \<notin> set (the (map_of category_labels c))" and "\<exists>a t. the (map_of category_labels c) = a # t \<and> a \<noteq> CHR ''-''"
  using assms by (auto simp: category_order_def category_labels_def)

lemma group_lines_flat:
  assumes "c \<in> set category_order" and "t \<in> set (group_lines multi (c, ms))"
  shows "count_list t CHR 0x0A = 0"
proof -
  have "CHR 0x0A \<notin> set (content_for_prompt m)" for m using prompt_chars [of "CHR 0x0A" m] by (auto simp: is_space_def)
  then show ?thesis
    using assms category_headings(1) by (intro count_none) (auto simp: group_lines_def split: if_splits)
qed

lemma group_lines_bullets:
  "c \<in> set category_order \<Longrightarrow> length (filter (\<lambda>t. take 2 t = ''- '') (group_lines multi (c, ms))) = sum_list (map (\<lambda>m. 1) ms)"
  using category_headings(2) [of c] by (auto simp: group_lines_def filter_map comp_def sum_list_triv)

lemma bullets_of_memories: "length (filter (\<lambda>t. take 2 t = ''- '') (bullet_lines ms)) = length (filter known_category ms)"
proof -
  have "length (filter (\<lambda>t. take 2 t = ''- '') (concat (map (group_lines multi) (group_by_category ms)))) =
    sum_list (map (\<lambda>g. sum_list (map (\<lambda>m. 1) (snd g))) (group_by_category ms))" for multi
    using group_lines_bullets by (simp add: group_by_category_def filter_concat length_concat comp_def cong: map_cong)
  then show ?thesis unfolding group_sum [of "\<lambda>m. 1"] by (simp add: bullet_lines_def Let_def sum_list_triv)
qed

lemma count_tokens_empty [simp]: "count_tokens E [] = 0"
  by (simp add: count_tokens_def)

lemma grouped_textual: "textual (PDict [(''memories'', PDict (grouped_contents ms))])"
proof -
  have "map fst (grouped_contents ms) = filter (\<lambda>c. filter (\<lambda>m. mr_category m = c) ms \<noteq> []) category_order"
    by (simp add: grouped_contents_def group_by_category_def category_order_def)
  moreover have "distinct category_order" by (simp add: category_order_def)
  ultimately have "distinct (map fst (grouped_contents ms))" by (metis distinct_filter)
  then show ?thesis by (auto simp: grouped_contents_def)
qed

lemma loaded_render: "loaded_memories (render E ms ''json'') = Inr (PDict (grouped_contents ms))"
proof -
  have "render E ms ''json'' \<noteq> []" by (simp add: render_def render_json_def enclose_def)
  moreover have "json_loads (render E ms ''json'') = Some (PDict [(''memories'', PDict (grouped_contents ms))])"
    unfolding render_def render_json_def using grouped_textual [of ms] by (simp add: json_loads_dumps del: json_dumps.simps textual.simps)
  ultimately show ?thesis by (simp add: loaded_memories_def)
qed

lemma render_noticed_returns:
  assumes "status_text status ''state'' = Some st"
  shows "\<not> isl (render_noticed E key status notice fmt sel)"
  using assms loaded_render [of E sel]
  by (cases "fmt = ''json''"; cases "sel = []") (simp_all add: render_noticed_def notice_element_def loaded_memories_def Let_def)

lemma build_noticed_spec:
  assumes fmt: "fmt \<in> supported_formats" and status: "status_text status ''state'' = Some st"
  shows "\<exists>r. build_noticed E ms key status notice fmt limit = Some (Inr r) \<and> int (cr_tokens r) \<le> max 0 limit \<and>
    cr_tokens r = count_tokens E (cr_text r) \<and> cr_count r + cr_dropped r \<le> length ms"
proof -
  obtain elig d where prep: "prepare_memories ms = (elig, d)" by fastforce
  have len: "length elig + d = length ms" by (rule prepare_memories_spec(1) [OF prep])
  let ?text = "render_noticed E key status notice fmt"
  obtain r where r: "notice_loop E ?text limit elig d = Some r" and
    spec: "case r of Inl e \<Rightarrow> \<exists>sel. ?text sel = Inl e
      | Inr (sel, n, text) \<Rightarrow> ?text sel = Inr text \<and> n + length sel = d + length elig \<and> subseq sel elig \<and>
          (int (count_tokens E text) \<le> limit \<or> sel = [])"
    using notice_loop_returns [of E ?text limit elig d] by blast
  obtain sel n t where t: "r = Inr (sel, n, t)"
    using spec render_noticed_returns [OF status] by (cases r) (auto simp: isl_def)
  have "n + length sel = d + length elig" using spec t by simp
  then show ?thesis using r t fmt len
    by (auto simp: build_noticed_def prep empty_result_def)
qed

lemma build_guarded_noticed:
  "fmt \<in> supported_formats \<Longrightarrow> build_guarded E ms v fmt limit =
     build_noticed E (if mv_scope v = ''affected_context'' then ms else []) ''memory_visibility''
       [(''state'', PStr (mv_state v)), (''scope'', PStr (mv_scope v))] (guarded_notice v) fmt limit"
  by (simp add: build_guarded_def)

lemma status_present:
  "status_text [(''state'', PStr a), (''scope'', PStr b)] ''state'' = Some a"
  "status_text (scope_request_json q) ''state'' = Some ''application_scope_required''"
  "status_text (decisions_json ds) ''state'' = Some ''current_choice_unresolved''"
  by (simp_all add: status_text_def scope_request_json_def decisions_json_def)

lemma build_selected:
  assumes "py_strip (py_lower fmt) \<in> supported_formats" and "0 < limit" and "prepare_memories ms = (elig, d)" and "elig \<noteq> []"
  shows "\<exists>sel n. build E ms fmt limit =
      Some (Inr \<lparr>cr_text = render E sel (py_strip (py_lower fmt)), cr_tokens = count_tokens E (render E sel (py_strip (py_lower fmt))),
        cr_count = length sel, cr_dropped = d + n, cr_format = py_strip (py_lower fmt)\<rparr>) \<and>
    n + length sel = length elig \<and> subseq sel elig \<and>
    (int (count_tokens E (render E sel (py_strip (py_lower fmt)))) \<le> limit \<or> length sel \<le> min_memories_to_keep) \<and>
    take min_memories_to_keep sel = take min_memories_to_keep elig"
proof -
  have "distinct elig" using prepare_memories_spec(2) [OF assms(3)] dissimilar_distinct by (simp add: distinct_map)
  moreover have "ms \<noteq> []" using prepare_memories_spec(5) [OF assms(3)] assms(4) by (cases ms) simp_all
  moreover obtain sel n where sel: "budget_loop E (py_strip (py_lower fmt)) limit elig 0 = Some (sel, n)"
    "n + length sel = 0 + length elig" "subseq sel elig"
    "int (count_tokens E (render E sel (py_strip (py_lower fmt)))) \<le> limit \<or> length sel \<le> min_memories_to_keep"
    "distinct elig \<longrightarrow> take min_memories_to_keep sel = take min_memories_to_keep elig"
    using budget_loop_returns [of E "py_strip (py_lower fmt)" limit elig 0] by (elim exE conjE) (rule that)
  ultimately show ?thesis using assms sel(2-)
    by (intro exI [of _ sel] exI [of _ n]) (simp add: build_def Let_def select_memories_within_budget_def sel(1))
qed

section \<open>Theorems\<close>

text \<open>
  (C31) Building a context always returns: the loops that drop memories until the text fits end on
  every input, and the only error is a format that is not supported.
\<close>

theorem context_building_terminates:
  "(\<exists>r. build E ms fmt limit = Some r \<and> (isl r \<longleftrightarrow> py_strip (py_lower fmt) \<notin> supported_formats)) \<and>
   (\<exists>r. build_guarded E ms v fmt limit = Some r \<and> (isl r \<longleftrightarrow> fmt \<notin> supported_formats)) \<and>
   (\<exists>r. build_scope_required E ms q fmt limit = Some r \<and> (isl r \<longleftrightarrow> fmt \<notin> supported_formats)) \<and>
   (\<exists>r. build_choice_unresolved E ms ds fmt limit = Some r \<and> (isl r \<longleftrightarrow> fmt \<notin> supported_formats))"
proof -
  obtain elig d where prep: "prepare_memories ms = (elig, d)" by fastforce
  have plain: "\<exists>r. build E ms fmt limit = Some r \<and> (isl r \<longleftrightarrow> py_strip (py_lower fmt) \<notin> supported_formats)"
  proof (cases "py_strip (py_lower fmt) \<in> supported_formats \<and> 0 < limit \<and> ms \<noteq> [] \<and> elig \<noteq> []")
    case True
    then show ?thesis using build_selected [of fmt limit ms elig d E] prep by auto
  next
    case False
    then show ?thesis using prep by (auto simp: build_def Let_def)
  qed
  have noticed: "\<exists>r. build_noticed E xs key status notice fmt limit = Some r \<and> (isl r \<longleftrightarrow> fmt \<notin> supported_formats)"
    if "status_text status ''state'' = Some st" for xs key status notice st
    using build_noticed_spec [OF _ that, of fmt] by (cases "fmt \<in> supported_formats") (fastforce simp: build_noticed_def)+
  show ?thesis
    using plain noticed status_present by (auto simp: build_guarded_def build_scope_required_def build_choice_unresolved_def)
qed

text \<open>
  (C27) A context respects its budget: a built context fits the tokens asked for or holds at most three
  memories, the counts of kept and dropped memories add up, and a context with a notice always fits.
\<close>

theorem context_fits_budget:
  assumes "build E ms fmt limit = Some (Inr r)" and "build_guarded E ms v fmt limit = Some (Inr g)" and "0 < limit"
  shows "(int (cr_tokens r) \<le> limit \<or> cr_count r \<le> min_memories_to_keep) \<and> cr_tokens r = count_tokens E (cr_text r) \<and>
    cr_count r + cr_dropped r = length ms \<and> int (cr_tokens g) \<le> limit"
proof -
  obtain elig d where prep: "prepare_memories ms = (elig, d)" by fastforce
  have len: "length elig + d = length ms" by (rule prepare_memories_spec(1) [OF prep])
  have fmt: "py_strip (py_lower fmt) \<in> supported_formats" using assms(1) by (auto simp: build_def Let_def split: if_splits)
  have "(int (cr_tokens r) \<le> limit \<or> cr_count r \<le> min_memories_to_keep) \<and> cr_tokens r = count_tokens E (cr_text r) \<and>
    cr_count r + cr_dropped r = length ms"
  proof (cases "elig = []")
    case True
    then show ?thesis using assms(1,3) prep len fmt by (auto simp: build_def Let_def empty_result_def split: if_splits)
  next
    case False
    then show ?thesis using build_selected [OF fmt assms(3) prep False, of E] assms(1) len by auto
  qed
  moreover have "fmt \<in> supported_formats" using assms(2) by (auto simp: build_guarded_def split: if_splits)
  then have "int (cr_tokens g) \<le> limit"
    using build_noticed_spec [where E = E and fmt = fmt and status = "[(''state'', PStr (mv_state v)), (''scope'', PStr (mv_scope v))]"
        and ms = "if mv_scope v = ''affected_context'' then ms else []" and key = "''memory_visibility''"
        and notice = "guarded_notice v" and limit = limit, OF _ status_present(1)] assms(2,3) by (auto simp: build_guarded_noticed)
  ultimately show ?thesis by blast
qed

definition example_result :: "string \<Rightarrow> pyfloat \<Rightarrow> memory_result" where
  "example_result i imp =
     \<lparr>mr_id = i, mr_content = ''likes tea'', mr_category = ''preference'', mr_importance = imp, mr_confidence = 1, mr_semantic = 1,
      mr_recency = 1, mr_final = imp, mr_agent_id = None, mr_previous_version_id = None, mr_last_accessed_at = None,
      mr_created_at = None, mr_source_event_id = None, mr_provenance = None, mr_effective_from = None, mr_effective_until = None\<rparr>"

definition example_results :: "memory_result list" where
  "example_results = [example_result ''a'' 2, example_result ''b'' 7]"

definition example_context_env :: context_env where
  "example_context_env = \<lparr>cx_tokens = (\<lambda>t. Some (length t)), cx_float = (\<lambda>x. [])\<rparr>"

lemma example_prepared: "prepare_memories example_results = ([example_result ''b'' 7], 1)"
  by (simp add: prepare_memories_def by_score_def example_results_def example_result_def min_context_importance_def)

lemma example_built: "\<exists>r. build example_context_env example_results ''xml'' 500 = Some (Inr r)"
proof -
  have fmt: "py_strip (py_lower ''xml'') \<in> supported_formats"
    by (simp add: py_strip_def py_lower_def lower_char_def is_space_def supported_formats_def)
  show ?thesis using build_selected [OF fmt _ example_prepared, of 500 example_context_env] by auto
qed

theorem context_fits_budget_witness:
  "\<exists>r g. build example_context_env example_results ''xml'' 500 = Some (Inr r) \<and>
     build_guarded example_context_env example_results \<lparr>mv_state = ''processing'', mv_scope = ''affected_context''\<rparr> ''xml'' 500 = Some (Inr g) \<and>
     cr_count r + cr_dropped r = 2 \<and> int (cr_tokens g) \<le> 500"
proof -
  let ?v = "\<lparr>mv_state = ''processing'', mv_scope = ''affected_context''\<rparr>"
  obtain r where r: "build example_context_env example_results ''xml'' 500 = Some (Inr r)" using example_built by blast
  have fmt: "''xml'' \<in> supported_formats" by (simp add: supported_formats_def)
  then obtain g where g: "build_guarded example_context_env example_results ?v ''xml'' 500 = Some (Inr g)"
    unfolding build_guarded_noticed [OF fmt] using build_noticed_spec [OF fmt status_present(1)] by blast
  have "length example_results = 2" by (simp add: example_results_def)
  then show ?thesis using context_fits_budget [OF r g] r g by auto
qed

text \<open>
  The best memories survive the budget: the text is the rendering of memories taken, in order, from the
  important and different ones, and it starts with the three that score best.
\<close>

theorem best_memories_survive:
  assumes "build E ms fmt limit = Some (Inr r)" and "0 < limit" and "prepare_memories ms = (elig, d)" and "elig \<noteq> []"
  shows "\<exists>sel. cr_text r = render E sel (cr_format r) \<and> cr_count r = length sel \<and> subseq sel elig \<and> set sel \<subseteq> set ms \<and>
    take min_memories_to_keep sel = take min_memories_to_keep elig \<and> score_ordered elig \<and> dissimilar elig"
proof -
  have fmt: "py_strip (py_lower fmt) \<in> supported_formats" using assms(1) by (auto simp: build_def Let_def split: if_splits)
  obtain sel n where sel: "build E ms fmt limit =
      Some (Inr \<lparr>cr_text = render E sel (py_strip (py_lower fmt)), cr_tokens = count_tokens E (render E sel (py_strip (py_lower fmt))),
        cr_count = length sel, cr_dropped = d + n, cr_format = py_strip (py_lower fmt)\<rparr>)"
    "subseq sel elig" "take min_memories_to_keep sel = take min_memories_to_keep elig"
    using build_selected [OF fmt assms(2-4), of E] by blast
  have "set sel \<subseteq> set ms" using sel(2) prepare_memories_spec(5) [OF assms(3)] subseq_set [of sel elig] by blast
  then show ?thesis using sel assms(1) prepare_memories_spec(2,3) [OF assms(3)] by auto
qed

theorem best_memories_survive_witness:
  "\<exists>r sel. build example_context_env example_results ''xml'' 500 = Some (Inr r) \<and> cr_text r = render example_context_env sel (cr_format r) \<and>
     take min_memories_to_keep sel = [example_result ''b'' 7]"
proof -
  obtain r where r: "build example_context_env example_results ''xml'' 500 = Some (Inr r)" using example_built by blast
  show ?thesis using best_memories_survive [OF r _ example_prepared] r by (auto simp: min_memories_to_keep_def)
qed

text \<open>
  (C38) A memory cannot break out of its element or its line: in the XML form the only opening angle brackets
  are the two of each memory of a known category and the two of the frame, and in the bullet form
  each such memory is one line.
\<close>

theorem rendering_confines_content:
  "count_list (render_xml ms) CHR ''<'' = 2 + 2 * length (filter known_category ms) \<and>
   length (filter (\<lambda>t. take 2 t = ''- '') (bullet_lines ms)) = length (filter known_category ms) \<and>
   count_list (render_bullets ms) CHR 0x0A = length (bullet_lines ms) - 1"
proof -
  have esc: "count_list (escape t) CHR ''<'' = 0" for t by (rule count_none) (rule escape_inert)
  have line: "count_list (xml_line c m) CHR ''<'' = 2" for c m by (simp add: xml_line_def quoted_def dquote_def esc)
  have "sum_list (map (\<lambda>t. count_list t CHR ''<'') (concat (map (\<lambda>g. map (xml_line (fst g)) (snd g)) (group_by_category ms)))) =
    sum_list (map (\<lambda>g. sum_list (map (\<lambda>m. 2) (snd g))) (group_by_category ms))"
    by (simp add: sum_concat comp_def line)
  then have "count_list (render_xml ms) CHR ''<'' = 2 + 2 * length (filter known_category ms)"
    unfolding group_sum [of "\<lambda>m. 2"] by (simp add: render_xml_def count_join newline_def sum_list_triv)
  moreover have "sum_list (map (\<lambda>t. count_list t CHR 0x0A) (bullet_lines ms)) = 0"
    using group_lines_flat by (auto simp: bullet_lines_def Let_def group_by_category_def)
  ultimately show ?thesis
    by (simp add: bullets_of_memories render_bullets_def count_join newline_def)
qed

text \<open>
  What a client reads from the JSON form is what was selected: the text parses back to the contents
  grouped by category.
\<close>

theorem json_context_roundtrip:
  "json_loads (render_json E ms) = Some (PDict [(''memories'', PDict (grouped_contents ms))]) \<and>
   loaded_memories (render E ms ''json'') = Inr (PDict (grouped_contents ms))"
  unfolding render_json_def using grouped_textual [of ms] loaded_render
  by (simp add: json_loads_dumps del: json_dumps.simps textual.simps)

end
