(* ===== verification/Proposals.thy ===== *)
theory Proposals
  imports Ledger
begin

text \<open>
  Proposals of the assistant and the evidence for them: the immutable turns of a conversation and the
  proposals marked in it (\<open>MemoryService._persist_evidence_ledger\<close>), the window of active proposals
  (\<open>src/api/services/proposal_window_service.py\<close>) and the claim of confirmed proposals by the
  extraction task (\<open>_claim_confirmed_proposals\<close>, \<open>_active_proposal_context\<close>).

  An operation is one transaction with one clock reading; an error leaves the tables as they were.
  The text of an identifier is a parameter. The specification is a ballot: each proposal waits until
  a deadline or is settled, and accepting one of a group settles the group.
\<close>

section \<open>Rows\<close>

datatype proposal_status = PropActive | PropAccepted | PropCancelled | PropExpired | PropSuperseded

record proposal =
  pp_id :: uuid
  pp_tenant :: uuid
  pp_proxy :: uuid
  pp_job :: uuid
  pp_scope :: string
  pp_group :: string
  pp_ordinal :: int
  pp_turn :: string
  pp_sha :: string
  pp_memory_content :: "string option"
  pp_memory_category :: "string option"
  pp_status :: proposal_status
  pp_expires :: utc
  pp_created :: utc
  pp_resolved :: "utc option"

record evidence_turn =
  et_id :: uuid
  et_tenant :: uuid
  et_proxy :: uuid
  et_job :: uuid
  et_scope :: string
  et_turn :: string
  et_role :: string
  et_source_kind :: "string option"
  et_sha :: string
  et_occurred :: "utc option"
  et_created :: utc

record evidence_db =
  ed_users :: "(uuid \<times> uuid) list"
  ed_turns :: "evidence_turn list"
  ed_proposals :: "proposal list"
  ed_next :: uuid

record evidence_env =
  ee_ledger :: ledger_env
  ee_text :: "uuid \<Rightarrow> string"

datatype evidence_error =
    UserNotFound
  | InvalidTurn
  | TurnMismatch string
  | InvalidProposal
  | MalformedEvidence
  | ProposalMismatch string
  | OrderMismatch string
  | UniqueViolation
  | ReferenceRequired
  | ReferenceNotActive
  | AlreadyResolved
  | BadStatus

type_synonym window_key = "uuid \<times> uuid \<times> string"

definition window_of :: "proposal \<Rightarrow> window_key" where
  "window_of p = (pp_tenant p, pp_proxy p, pp_scope p)"

definition is_active :: "utc \<Rightarrow> proposal \<Rightarrow> bool" where
  "is_active now p \<longleftrightarrow> pp_status p = PropActive \<and> now < pp_expires p"

definition settle :: "proposal_status \<Rightarrow> utc \<Rightarrow> proposal \<Rightarrow> proposal" where
  "settle st now p = p\<lparr>pp_status := st, pp_resolved := Some now\<rparr>"

section \<open>The proposal window\<close>

record proposal_target =
  pt_id :: uuid
  pt_tenant :: uuid
  pt_proxy :: uuid
  pt_scope :: string
  pt_group :: string
  pt_ordinal :: int
  pt_turn :: string

definition target_of :: "proposal \<Rightarrow> proposal_target" where
  "target_of p = \<lparr>pt_id = pp_id p, pt_tenant = pp_tenant p, pt_proxy = pp_proxy p, pt_scope = pp_scope p, pt_group = pp_group p,
     pt_ordinal = pp_ordinal p, pt_turn = pp_turn p\<rparr>"

definition expire_window :: "window_key \<Rightarrow> utc \<Rightarrow> proposal list \<Rightarrow> proposal list" where
  "expire_window w now rows =
     update_where (\<lambda>p. window_of p = w \<and> pp_status p = PropActive \<and> pp_expires p \<le> now) (settle PropExpired now) rows"

text \<open>Newest first, then by ordinal; the rows of the group of the first.\<close>

definition active_rows :: "window_key \<Rightarrow> utc \<Rightarrow> proposal list \<Rightarrow> proposal list" where
  "active_rows w now rows =
     sort_key (\<lambda>p. - pp_created p) (sort_key pp_ordinal (filter (\<lambda>p. window_of p = w \<and> is_active now p) rows))"

definition latest_group :: "proposal list \<Rightarrow> proposal list" where
  "latest_group rows = (case rows of [] \<Rightarrow> [] | p # _ \<Rightarrow> filter (\<lambda>q. pp_group q = pp_group p) rows)"

definition active_group :: "window_key \<Rightarrow> utc \<Rightarrow> proposal list \<Rightarrow> proposal_target list \<times> proposal list" where
  "active_group w now rows =
     (let rows' = expire_window w now rows in (map target_of (latest_group (active_rows w now rows')), rows'))"

definition resolve_explicit_target ::
  "window_key \<Rightarrow> uuid option \<Rightarrow> int option \<Rightarrow> utc \<Rightarrow> proposal list \<Rightarrow> evidence_error + proposal_target \<times> proposal list" where
  "resolve_explicit_target w proposal ordinal now rows =
     (if (proposal = None) = (ordinal = None) then Inl ReferenceRequired
      else
        (let (candidates, rows') = active_group w now rows;
             matches = filter (\<lambda>t. Some (pt_id t) = proposal \<or> Some (pt_ordinal t) = ordinal) candidates
         in case matches of [t] \<Rightarrow> Inr (t, rows') | _ \<Rightarrow> Inl ReferenceNotActive))"

definition cancel_others :: "window_key \<Rightarrow> string \<Rightarrow> uuid \<Rightarrow> utc \<Rightarrow> proposal list \<Rightarrow> proposal list" where
  "cancel_others w g i now rows =
     update_where (\<lambda>p. window_of p = w \<and> pp_group p = g \<and> pp_id p \<noteq> i \<and> pp_status p = PropActive) (settle PropCancelled now) rows"

definition mark_resolved :: "proposal_target \<Rightarrow> proposal_status \<Rightarrow> utc \<Rightarrow> proposal list \<Rightarrow> evidence_error + proposal list" where
  "mark_resolved t st now rows =
     (if st \<notin> {PropAccepted, PropCancelled} then Inl BadStatus
      else
        (let w = (pt_tenant t, pt_proxy t, pt_scope t);
             hit = (\<lambda>p. pp_id p = pt_id t \<and> window_of p = w \<and> is_active now p);
             rows' = update_where hit (settle st now) rows
         in if count_where hit rows \<noteq> 1 then Inl AlreadyResolved
            else Inr (if st = PropAccepted then cancel_others w (pt_group t) (pt_id t) now rows' else rows')))"

section \<open>The evidence ledger\<close>

type_synonym message = "(string \<times> pyval) list"

definition field_text :: "evidence_env \<Rightarrow> message \<Rightarrow> string \<Rightarrow> string" where
  "field_text E m k = py_str (ee_ledger E) (py_or (dget m k PNone) (PStr []))"

definition turn_id_of :: "evidence_env \<Rightarrow> message \<Rightarrow> string" where
  "turn_id_of E m = py_strip (field_text E m ''turn_id'')"

definition or_none :: "string \<Rightarrow> string option" where
  "or_none s = (if s = [] then None else Some s)"

definition conversation_scope_id :: "evidence_env \<Rightarrow> message \<Rightarrow> uuid \<Rightarrow> string" where
  "conversation_scope_id E job_dict job =
     (let x = py_strip (field_text E job_dict ''external_conversation_id'')
      in if x = [] then ''job:'' @ ee_text E job else ''external:'' @ x)"

definition occurred_at :: "evidence_env \<Rightarrow> pyval \<Rightarrow> utc option" where
  "occurred_at E v =
     (if truthy v
      then from_isoformat (ee_ledger E) (concat (map (\<lambda>c. if c = CHR ''Z'' then ''+00:00'' else [c]) (py_str (ee_ledger E) v)))
      else None)"

definition is_proposal :: "message \<Rightarrow> bool" where
  "is_proposal m \<longleftrightarrow> truthy (dget m ''is_memory_proposal'' PNone)"

record submission =
  sb_tenant :: uuid
  sb_proxy :: uuid
  sb_job :: uuid
  sb_scope :: string
  sb_now :: utc

definition sb_window :: "submission \<Rightarrow> window_key" where
  "sb_window s = (sb_tenant s, sb_proxy s, sb_scope s)"

definition find_turn :: "submission \<Rightarrow> string \<Rightarrow> evidence_db \<Rightarrow> evidence_turn option" where
  "find_turn s turn d = find_row (\<lambda>t. (et_tenant t, et_proxy t, et_scope t) = sb_window s \<and> et_turn t = turn) (ed_turns d)"

definition find_proposal :: "submission \<Rightarrow> string \<Rightarrow> evidence_db \<Rightarrow> proposal option" where
  "find_proposal s turn d = find_row (\<lambda>p. window_of p = sb_window s \<and> pp_turn p = turn) (ed_proposals d)"

text \<open>A turn is inserted once; a second submission must repeat its role, its source and its content.\<close>

definition persist_turn :: "evidence_env \<Rightarrow> submission \<Rightarrow> message \<Rightarrow> evidence_db \<Rightarrow> evidence_error + evidence_db" where
  "persist_turn E s m d =
     (let turn = turn_id_of E m; sha = py_strip (field_text E m ''turn_content_sha256'');
          role = py_lower (field_text E m ''role''); kind = or_none (py_lower (field_text E m ''source_kind''))
      in if turn = [] \<or> length sha \<noteq> 64 then Inl InvalidTurn
         else
           (case find_turn s turn d of
              None \<Rightarrow>
                Inr (d\<lparr>ed_turns := ed_turns d @ [\<lparr>et_id = ed_next d, et_tenant = sb_tenant s, et_proxy = sb_proxy s, et_job = sb_job s,
                       et_scope = sb_scope s, et_turn = turn, et_role = role, et_source_kind = kind, et_sha = sha,
                       et_occurred = occurred_at E (dget m ''occurred_at'' PNone), et_created = sb_now s\<rparr>],
                     ed_next := Suc (ed_next d)\<rparr>)
            | Some t \<Rightarrow>
                if et_role t \<noteq> role \<or> et_source_kind t \<noteq> kind \<or> et_sha t \<noteq> sha then Inl (TurnMismatch turn) else Inr d))"

record proposed_memory =
  pm_content :: "string option"
  pm_category :: "string option"

definition proposed_of :: "evidence_env \<Rightarrow> message \<Rightarrow> evidence_error + proposed_memory" where
  "proposed_of E m =
     (case py_dict (py_or (dget m ''proposed_memory'' PNone) (PDict [])) of
        None \<Rightarrow> Inl MalformedEvidence
      | Some q \<Rightarrow> Inr \<lparr>pm_content = or_none (py_strip (field_text E q ''content'')), pm_category = or_none (py_strip (field_text E q ''category''))\<rparr>)"

definition same_payload :: "proposal \<Rightarrow> string \<Rightarrow> proposed_memory \<Rightarrow> bool" where
  "same_payload p sha q \<longleftrightarrow> pp_sha p = sha \<and> pp_memory_content p = pm_content q \<and> pp_memory_category p = pm_category q"

definition hour :: int where
  "hour = 3600000000"

definition new_proposal :: "evidence_env \<Rightarrow> submission \<Rightarrow> uuid \<Rightarrow> int \<Rightarrow> string \<Rightarrow> string \<Rightarrow> proposed_memory \<Rightarrow> proposal" where
  "new_proposal E s i ordinal turn sha q =
     \<lparr>pp_id = i, pp_tenant = sb_tenant s, pp_proxy = sb_proxy s, pp_job = sb_job s, pp_scope = sb_scope s,
      pp_group = ee_text E (sb_job s), pp_ordinal = ordinal, pp_turn = turn, pp_sha = sha, pp_memory_content = pm_content q,
      pp_memory_category = pm_category q, pp_status = PropActive, pp_expires = sb_now s + hour, pp_created = sb_now s, pp_resolved = None\<rparr>"

text \<open>
  The insert does nothing when the turn already has a proposal, which must then be the same one; a
  clash of group and ordinal is an integrity error of the database.
\<close>

definition insert_proposal ::
  "evidence_env \<Rightarrow> submission \<Rightarrow> int \<Rightarrow> string \<Rightarrow> string \<Rightarrow> proposed_memory \<Rightarrow> evidence_db \<Rightarrow> evidence_error + uuid \<times> evidence_db" where
  "insert_proposal E s ordinal turn sha q d =
     (case find_proposal s turn d of
        Some p \<Rightarrow>
          if \<not> same_payload p sha q then Inl (ProposalMismatch turn)
          else if pp_group p \<noteq> ee_text E (sb_job s) \<or> pp_ordinal p \<noteq> ordinal then Inl (OrderMismatch turn)
          else Inr (pp_id p, d)
      | None \<Rightarrow>
          if \<exists>p \<in> set (ed_proposals d). window_of p = sb_window s \<and> pp_group p = ee_text E (sb_job s) \<and> pp_ordinal p = ordinal
          then Inl UniqueViolation
          else Inr (ed_next d, d\<lparr>ed_proposals := ed_proposals d @ [new_proposal E s (ed_next d) ordinal turn sha q], ed_next := Suc (ed_next d)\<rparr>))"

definition persist_proposal ::
  "evidence_env \<Rightarrow> submission \<Rightarrow> (string \<Rightarrow> proposal option) \<Rightarrow> int \<Rightarrow> message \<Rightarrow> evidence_db \<Rightarrow> evidence_error + uuid \<times> int \<times> evidence_db" where
  "persist_proposal E s existing ordinal m d =
     (let turn = turn_id_of E m; sha = py_strip (field_text E m ''turn_content_sha256'')
      in if py_lower (field_text E m ''role'') \<noteq> ''assistant'' \<or> py_lower (field_text E m ''source_kind'') \<noteq> ''assistant_output''
         then Inl InvalidProposal
         else
           (case proposed_of E m of
              Inl x \<Rightarrow> Inl x
            | Inr q \<Rightarrow>
                (case existing turn of
                   Some p \<Rightarrow> if same_payload p sha q then Inr (pp_id p, ordinal, d) else Inl (ProposalMismatch turn)
                 | None \<Rightarrow> map_sum id (\<lambda>(i, d'). (i, ordinal + 1, d')) (insert_proposal E s (ordinal + 1) turn sha q d))))"

fun persist_messages ::
  "evidence_env \<Rightarrow> submission \<Rightarrow> (string \<Rightarrow> proposal option) \<Rightarrow> int \<Rightarrow> message list \<Rightarrow> evidence_db \<Rightarrow> evidence_error + uuid list \<times> evidence_db" where
  "persist_messages E s existing ordinal [] d = Inr ([], d)"
| "persist_messages E s existing ordinal (m # ms) d =
     (case persist_turn E s m d of
        Inl x \<Rightarrow> Inl x
      | Inr d' \<Rightarrow>
          if \<not> is_proposal m then persist_messages E s existing ordinal ms d'
          else
            (case persist_proposal E s existing ordinal m d' of
               Inl x \<Rightarrow> Inl x
             | Inr (i, ordinal', d'') \<Rightarrow> map_sum id (map_prod (Cons i) id) (persist_messages E s existing ordinal' ms d'')))"

definition supersede_others :: "submission \<Rightarrow> evidence_db \<Rightarrow> evidence_db" where
  "supersede_others s d =
     d\<lparr>ed_proposals := update_where (\<lambda>p. window_of p = sb_window s \<and> pp_status p = PropActive \<and> pp_job p \<noteq> sb_job s)
         (settle PropSuperseded (sb_now s)) (ed_proposals d)\<rparr>"

definition persist_evidence_ledger ::
  "evidence_env \<Rightarrow> submission \<Rightarrow> message list \<Rightarrow> evidence_db \<Rightarrow> evidence_error + uuid list \<times> evidence_db" where
  "persist_evidence_ledger E s ms d =
     (let turns = filter (\<lambda>t. t \<noteq> []) (map (turn_id_of E) (filter is_proposal ms));
          existing = (\<lambda>turn. if turn \<in> set turns then find_proposal s turn d else None)
      in if \<exists>t \<in> set turns. existing t = None then
           (if (sb_proxy s, sb_tenant s) \<notin> set (ed_users d) then Inl UserNotFound
            else persist_messages E s existing 0 ms (supersede_others s d))
         else persist_messages E s existing 0 ms d)"

section \<open>The claim of confirmed proposals\<close>

text \<open>A candidate memory is its validated evidence and what is stored of it.\<close>

type_synonym 'm candidate = "(string \<times> pyval) list \<times> 'm"

definition confirms :: "evidence_env \<Rightarrow> 'm candidate \<Rightarrow> bool" where
  "confirms E c \<longleftrightarrow> dget (fst c) ''relation'' PNone = PStr ''user_confirmed_assistant_proposal''"

definition confirmed_proposal :: "evidence_env \<Rightarrow> 'm candidate \<Rightarrow> evidence_error + uuid option" where
  "confirmed_proposal E c =
     (case py_dict (py_or (dget (fst c) ''proposal'' PNone) (PDict [])) of
        None \<Rightarrow> Inl MalformedEvidence
      | Some q \<Rightarrow> Inr (uuid_of (ee_ledger E) (field_text E q ''id'')))"

definition add_to_group :: "uuid \<Rightarrow> 'm \<Rightarrow> (uuid \<times> 'm list) list \<Rightarrow> (uuid \<times> 'm list) list" where
  "add_to_group i m groups = AList.update i (case map_of groups i of None \<Rightarrow> [m] | Some ms \<Rightarrow> ms @ [m]) groups"

fun group_candidates ::
  "evidence_env \<Rightarrow> 'm candidate list \<Rightarrow> 'm list \<Rightarrow> (uuid \<times> 'm list) list \<Rightarrow> evidence_error + 'm list \<times> (uuid \<times> 'm list) list" where
  "group_candidates E [] passthrough groups = Inr (passthrough, groups)"
| "group_candidates E (c # cs) passthrough groups =
     (if \<not> confirms E c then group_candidates E cs (passthrough @ [snd c]) groups
      else
        (case confirmed_proposal E c of
           Inl x \<Rightarrow> Inl x
         | Inr None \<Rightarrow> group_candidates E cs passthrough groups
         | Inr (Some i) \<Rightarrow> group_candidates E cs passthrough (add_to_group i (snd c) groups)))"

definition claim_proposal :: "window_key \<Rightarrow> uuid \<Rightarrow> utc \<Rightarrow> proposal list \<Rightarrow> proposal list option" where
  "claim_proposal w i now rows =
     (case find_row (\<lambda>p. pp_id p = i \<and> window_of p = w \<and> is_active now p) rows of
        None \<Rightarrow> None
      | Some p \<Rightarrow>
          (let hit = (\<lambda>q. pp_id q = i \<and> is_active now q)
           in if count_where hit rows \<noteq> 1 then None
              else Some (cancel_others w (pp_group p) i now (update_where hit (settle PropAccepted now) rows))))"

fun claim_groups :: "window_key \<Rightarrow> utc \<Rightarrow> (uuid \<times> 'm list) list \<Rightarrow> 'm list \<Rightarrow> proposal list \<Rightarrow> 'm list \<times> proposal list" where
  "claim_groups w now [] accepted rows = (accepted, rows)"
| "claim_groups w now ((i, ms) # gs) accepted rows =
     (case claim_proposal w i now rows of
        None \<Rightarrow> claim_groups w now gs accepted rows
      | Some rows' \<Rightarrow> claim_groups w now gs (accepted @ ms) rows')"

definition claim_confirmed_proposals ::
  "evidence_env \<Rightarrow> window_key \<Rightarrow> utc \<Rightarrow> 'm candidate list \<Rightarrow> proposal list \<Rightarrow> evidence_error + ('m list \<times> nat) \<times> proposal list" where
  "claim_confirmed_proposals E w now cs rows =
     (case group_candidates E cs [] [] of
        Inl x \<Rightarrow> Inl x
      | Inr (passthrough, groups) \<Rightarrow>
          (let (accepted, rows') = claim_groups w now groups passthrough rows
           in Inr ((accepted, length cs - length accepted), rows')))"

section \<open>The specification\<close>

text \<open>
  A ballot: each proposal belongs to a window and a group of it, and waits until a deadline or is
  settled. Settling needs a proposal that waits, before its deadline; accepting it cancels what still
  waits in its group. A proposal may join a group only while nothing of the window waits outside the
  group and nothing in the group is accepted.
\<close>

datatype slot = Slot (slot_window: window_key) (slot_group: string)

datatype vote = Waiting utc | Settled proposal_status

type_synonym ballot = "uuid \<Rightarrow> (slot \<times> vote) option"

definition revote :: "(uuid \<Rightarrow> slot \<Rightarrow> vote \<Rightarrow> vote) \<Rightarrow> ballot \<Rightarrow> ballot" where
  "revote f b = (\<lambda>i. map_option (\<lambda>kv. (fst kv, f i (fst kv) (snd kv))) (b i))"

fun close_vote :: "bool \<Rightarrow> proposal_status \<Rightarrow> vote \<Rightarrow> vote" where
  "close_vote c st (Waiting e) = (if c then Settled st else Waiting e)"
| "close_vote c st (Settled st') = Settled st'"

definition due :: "utc \<Rightarrow> vote \<Rightarrow> bool" where
  "due now v \<longleftrightarrow> (case v of Waiting e \<Rightarrow> e \<le> now | Settled st \<Rightarrow> False)"

definition spec_expire :: "window_key \<Rightarrow> utc \<Rightarrow> ballot \<Rightarrow> ballot" where
  "spec_expire w now = revote (\<lambda>i k v. close_vote (slot_window k = w \<and> due now v) PropExpired v)"

definition spec_supersede :: "(uuid \<Rightarrow> bool) \<Rightarrow> ballot \<Rightarrow> ballot" where
  "spec_supersede a = revote (\<lambda>i k v. close_vote (a i) PropSuperseded v)"

definition spec_settle :: "uuid \<Rightarrow> proposal_status \<Rightarrow> utc \<Rightarrow> ballot \<Rightarrow> ballot option" where
  "spec_settle i st now b =
     (case b i of
        Some (k, Waiting e) \<Rightarrow>
          if now < e
          then Some (revote (\<lambda>j l v. if j = i then Settled st else close_vote (st = PropAccepted \<and> l = k) PropCancelled v) b)
          else None
      | _ \<Rightarrow> None)"

definition may_join :: "slot \<Rightarrow> ballot \<Rightarrow> bool" where
  "may_join k b \<longleftrightarrow>
     (\<forall>j l v. b j = Some (l, v) \<longrightarrow> (slot_window l = slot_window k \<and> l \<noteq> k \<longrightarrow> (\<exists>st. v = Settled st)) \<and> (l = k \<longrightarrow> v \<noteq> Settled PropAccepted))"

inductive ballot_step :: "ballot \<Rightarrow> ballot \<Rightarrow> bool" where
  expire: "ballot_step b (spec_expire w now b)"
| supersede: "ballot_step b (spec_supersede a b)"
| settle: "st \<in> {PropAccepted, PropCancelled} \<Longrightarrow> spec_settle i st now b = Some c \<Longrightarrow> ballot_step b c"
| propose: "b i = None \<Longrightarrow> may_join k b \<Longrightarrow> ballot_step b (b(i \<mapsto> (k, Waiting e)))"

text \<open>One accepted proposal settles its group, and a window has one group that waits.\<close>

definition ballot_ok :: "ballot \<Rightarrow> bool" where
  "ballot_ok b \<longleftrightarrow>
     (\<forall>i j k v. b i = Some (k, Settled PropAccepted) \<and> b j = Some (k, v) \<and> i \<noteq> j \<longrightarrow> (\<exists>st. v = Settled st \<and> st \<noteq> PropAccepted)) \<and>
     (\<forall>i j k l e f. b i = Some (k, Waiting e) \<and> b j = Some (l, Waiting f) \<and> slot_window k = slot_window l \<longrightarrow> k = l)"

lemma ballot_ok_accepted:
  "ballot_ok b \<Longrightarrow> b i = Some (k, Settled PropAccepted) \<Longrightarrow> b j = Some (k, v) \<Longrightarrow> i \<noteq> j \<Longrightarrow> \<exists>st. v = Settled st \<and> st \<noteq> PropAccepted"
  unfolding ballot_ok_def by blast

lemma ballot_ok_waiting:
  "ballot_ok b \<Longrightarrow> b i = Some (k, Waiting e) \<Longrightarrow> b j = Some (l, Waiting f) \<Longrightarrow> slot_window k = slot_window l \<Longrightarrow> k = l"
  unfolding ballot_ok_def by blast

lemma close_vote_cases:
  "close_vote c st v = Waiting e \<longleftrightarrow> v = Waiting e \<and> \<not> c"
  "close_vote c st v = Settled st' \<longleftrightarrow> v = Settled st' \<or> (\<exists>e. v = Waiting e) \<and> c \<and> st' = st"
  by (cases v; auto)+

lemma revote_Some: "revote f b i = Some (k, v) \<longleftrightarrow> (\<exists>u. b i = Some (k, u) \<and> v = f i k u)"
  by (cases "b i") (auto simp: revote_def)

text \<open>Closing votes with anything but an acceptance keeps the ballot in order.\<close>

lemma revote_close_ok:
  assumes "ballot_ok b" and "st \<noteq> PropAccepted"
  shows "ballot_ok (revote (\<lambda>i k v. close_vote (c i k v) st v) b)"
  unfolding ballot_ok_def revote_Some
proof (intro conjI allI impI; elim conjE exE)
  fix i j k v u u'
  assume *: "Settled PropAccepted = close_vote (c i k u) st u" "b i = Some (k, u)" "b j = Some (k, u')" "v = close_vote (c j k u') st u'" "i \<noteq> j"
  then have "u = Settled PropAccepted" using assms(2) by (cases u) (auto split: if_splits)
  then obtain st' where "u' = Settled st'" "st' \<noteq> PropAccepted" using assms(1) * unfolding ballot_ok_def by blast
  then show "\<exists>st. v = Settled st \<and> st \<noteq> PropAccepted" using * by simp
next
  fix i j k l e f u u'
  assume *: "Waiting e = close_vote (c i k u) st u" "b i = Some (k, u)" "Waiting f = close_vote (c j l u') st u'" "b j = Some (l, u')" "slot_window k = slot_window l"
  then have "u = Waiting e" "u' = Waiting f" by (cases u; cases u'; auto split: if_splits)+
  then show "k = l" using assms(1) * unfolding ballot_ok_def by blast
qed

lemma spec_settle_Some:
  assumes "spec_settle i st now b = Some c"
  obtains k e where "b i = Some (k, Waiting e)" and "now < e"
    and "c = revote (\<lambda>j l v. if j = i then Settled st else close_vote (st = PropAccepted \<and> l = k) PropCancelled v) b"
  using assms by (auto simp: spec_settle_def split: option.splits vote.splits if_splits)

lemma settle_ok:
  assumes ok: "ballot_ok b" and i: "b i = Some (k, Waiting e)"
  shows "ballot_ok (revote (\<lambda>j l v. if j = i then Settled st else close_vote (st = PropAccepted \<and> l = k) PropCancelled v) b)"
    (is "ballot_ok ?c")
proof -
  have other: "?c j = Some (l, v) \<longleftrightarrow> (\<exists>u. b j = Some (l, u) \<and> v = close_vote (st = PropAccepted \<and> l = k) PropCancelled u)" if "j \<noteq> i" for j l v
    using that by (simp add: revote_Some)
  have self: "?c i = Some (l, v) \<longleftrightarrow> l = k \<and> v = Settled st" for l v using i by (auto simp: revote_Some)
  have "\<exists>st. v = Settled st \<and> st \<noteq> PropAccepted"
    if xy: "?c x = Some (l, Settled PropAccepted)" "?c y = Some (l, v)" "x \<noteq> y" for x y l v
  proof -
    consider "x = i" "y \<noteq> i" | "y = i" "x \<noteq> i" | "x \<noteq> i" "y \<noteq> i" using xy(3) by blast
    then show ?thesis
    proof cases
      case 1
      then have st: "st = PropAccepted" "l = k" using xy(1) self by simp_all
      obtain u where u: "b y = Some (k, u)" "v = close_vote True PropCancelled u" using xy(2) other [OF 1(2)] st by auto
      then have "u \<noteq> Settled PropAccepted" using ok i 1 unfolding ballot_ok_def by blast
      then show ?thesis using u by (cases u) auto
    next
      case 2
      then have "b x = Some (l, Settled PropAccepted)" using xy(1) other [OF 2(2)] by (auto simp: close_vote_cases eq_commute [of "Settled _"])
      moreover have "l = k" using xy(2) 2 self by simp
      ultimately show ?thesis using ok i 2 unfolding ballot_ok_def by blast
    next
      case 3
      then have "b x = Some (l, Settled PropAccepted)" using xy(1) other [OF 3(1)] by (auto simp: close_vote_cases eq_commute [of "Settled _"])
      moreover obtain u where "b y = Some (l, u)" "v = close_vote (st = PropAccepted \<and> l = k) PropCancelled u" using xy(2) other [OF 3(2)] by auto
      moreover from calculation obtain st' where "u = Settled st'" "st' \<noteq> PropAccepted" using ok xy(3) unfolding ballot_ok_def by blast
      ultimately show ?thesis by simp
    qed
  qed
  moreover have "l = m" if "?c x = Some (l, Waiting e)" "?c y = Some (m, Waiting f)" "slot_window l = slot_window m" for x y l m e f
  proof -
    have "x \<noteq> i" "y \<noteq> i" using that self by auto
    then have "b x = Some (l, Waiting e)" "b y = Some (m, Waiting f)"
      using that other by (auto simp: close_vote_cases eq_commute [of "Waiting _"])
    then show ?thesis using ok that(3) unfolding ballot_ok_def by blast
  qed
  ultimately show ?thesis unfolding ballot_ok_def by blast
qed

lemma ballot_step_ok:
  assumes ok: "ballot_ok b" and step: "ballot_step b c"
  shows "ballot_ok c"
  using step
proof cases
  case (expire w now)
  then show ?thesis using revote_close_ok [OF ok, of PropExpired "\<lambda>i k v. slot_window k = w \<and> due now v"] by (simp add: spec_expire_def)
next
  case (supersede a)
  then show ?thesis using revote_close_ok [OF ok, of PropSuperseded "\<lambda>i k v. a i"] by (simp add: spec_supersede_def)
next
  case (settle st i now)
  from settle(2) show ?thesis by (rule spec_settle_Some) (simp add: settle_ok [OF ok])
next
  case (propose i k e)
  have accepted: "\<exists>st. v = Settled st \<and> st \<noteq> PropAccepted"
    if "c x = Some (l, Settled PropAccepted)" "c y = Some (l, v)" "x \<noteq> y" for x y l v
  proof -
    have x: "x \<noteq> i" "b x = Some (l, Settled PropAccepted)" using that(1) propose(1) by (auto split: if_splits)
    then have "l \<noteq> k" using propose(3) unfolding may_join_def by blast
    then have "b y = Some (l, v)" using that(2) propose(1) by (auto split: if_splits)
    then show ?thesis using ok x that(3) unfolding ballot_ok_def by blast
  qed
  have waiting: "l = m" if "c x = Some (l, Waiting f)" "c y = Some (m, Waiting g)" "slot_window l = slot_window m" for x y l m f g
  proof -
    have outside: "l' = k" if "b z = Some (l', Waiting h)" "slot_window l' = slot_window k" for z l' h
      using propose(3) that unfolding may_join_def by blast
    show ?thesis
    proof (cases "x = i"; cases "y = i")
      assume "x \<noteq> i" "y \<noteq> i"
      then have "b x = Some (l, Waiting f)" "b y = Some (m, Waiting g)" using that propose(1) by simp_all
      then show ?thesis using that(3) ok unfolding ballot_ok_def by blast
    qed (use that propose(1) outside in \<open>auto split: if_splits\<close>)
  qed
  show ?thesis unfolding ballot_ok_def using accepted waiting by blast
qed

interpretation ballots: invariant_system "\<lambda>b. b = Map.empty" ballot_step ballot_ok
proof unfold_locales
  show "ballot_ok s" if "s = Map.empty" for s using that by (simp add: ballot_ok_def)
  show "ballot_ok t" if "ballot_ok s" "ballot_step s t" for s t using that by (rule ballot_step_ok)
qed

section \<open>Refinement of the operations\<close>

interpretation proposal_table: keyed_table pp_id .

definition entry_of :: "proposal \<Rightarrow> slot \<times> vote" where
  "entry_of p = (Slot (window_of p) (pp_group p), if pp_status p = PropActive then Waiting (pp_expires p) else Settled (pp_status p))"

definition ballot_of :: "proposal list \<Rightarrow> ballot" where
  "ballot_of rows = (\<lambda>i. map_option entry_of (proposal_table.lookup i rows))"

lemma settle_simps [simp]:
  "pp_id (settle st now p) = pp_id p" "window_of (settle st now p) = window_of p" "pp_group (settle st now p) = pp_group p"
  "pp_ordinal (settle st now p) = pp_ordinal p" "pp_job (settle st now p) = pp_job p" "pp_status (settle st now p) = st"
  "pp_turn (settle st now p) = pp_turn p" "pp_expires (settle st now p) = pp_expires p"
  by (simp_all add: settle_def window_of_def)

lemma entry_simps [simp]: "fst (entry_of p) = Slot (window_of p) (pp_group p)"
  by (simp add: entry_of_def)

lemma entry_settle: "st \<noteq> PropActive \<Longrightarrow> entry_of (settle st now p) = (Slot (window_of p) (pp_group p), Settled st)"
  by (simp add: entry_of_def)

lemma ballot_update:
  "ballot_of (update_where P (settle st now) rows) =
     (\<lambda>i. map_option (\<lambda>p. entry_of (if P p then settle st now p else p)) (proposal_table.lookup i rows))"
  by (simp add: ballot_of_def proposal_table.lookup_update_where option.map_comp comp_def)

text \<open>An update of active rows is a closing of votes.\<close>

lemma ballot_close:
  assumes st: "st \<noteq> PropActive"
    and p: "\<And>p. p \<in> set rows \<Longrightarrow> P p \<longleftrightarrow> pp_status p = PropActive \<and> c (pp_id p) (fst (entry_of p)) (snd (entry_of p))"
  shows "ballot_of (update_where P (settle st now) rows) = revote (\<lambda>i k v. close_vote (c i k v) st v) (ballot_of rows)"
proof (rule ext)
  fix i
  show "ballot_of (update_where P (settle st now) rows) i = revote (\<lambda>i k v. close_vote (c i k v) st v) (ballot_of rows) i"
  proof (cases "proposal_table.lookup i rows")
    case None
    then show ?thesis unfolding ballot_update by (simp add: revote_def ballot_of_def)
  next
    case (Some q)
    then have q: "q \<in> set rows" "pp_id q = i" using proposal_table.lookup_Some [of i rows q] by simp_all
    have "entry_of (if P q then settle st now q else q) =
      (fst (entry_of q), close_vote (c i (fst (entry_of q)) (snd (entry_of q))) st (snd (entry_of q)))"
      using p [OF q(1)] q(2) st by (cases "pp_status q = PropActive") (auto simp: entry_settle entry_of_def)
    then show ?thesis unfolding ballot_update using Some by (simp add: revote_def ballot_of_def)
  qed
qed

lemma ballot_expire: "ballot_of (expire_window w now rows) = spec_expire w now (ballot_of rows)"
  unfolding expire_window_def spec_expire_def by (rule ballot_close) (auto simp: entry_of_def due_def)

lemma ballot_supersede:
  assumes "distinct (map pp_id (ed_proposals d))"
  shows "ballot_of (ed_proposals (supersede_others s d)) =
    spec_supersede (\<lambda>i. \<exists>p \<in> set (ed_proposals d). pp_id p = i \<and> window_of p = sb_window s \<and> pp_job p \<noteq> sb_job s) (ballot_of (ed_proposals d))"
proof -
  have "(\<exists>q \<in> set (ed_proposals d). pp_id q = pp_id p \<and> A q) \<longleftrightarrow> A p" if "p \<in> set (ed_proposals d)" for p A
    using that assms by (auto simp: distinct_map inj_on_def)
  then show ?thesis
    unfolding supersede_others_def spec_supersede_def by (simp, intro ballot_close) auto
qed

text \<open>Settling one proposal: the row with the identifier, if it is still active.\<close>

definition settle_rows :: "proposal \<Rightarrow> proposal_status \<Rightarrow> utc \<Rightarrow> proposal list \<Rightarrow> proposal list" where
  "settle_rows p st now rows =
     (let rows' = update_where (\<lambda>q. pp_id q = pp_id p) (settle st now) rows
      in if st = PropAccepted then cancel_others (window_of p) (pp_group p) (pp_id p) now rows' else rows')"

lemma ballot_settle:
  assumes rows: "distinct (map pp_id rows)" "p \<in> set rows" and p: "is_active now p" and st: "st \<noteq> PropActive"
  shows "spec_settle (pp_id p) st now (ballot_of rows) = Some (ballot_of (settle_rows p st now rows))"
proof -
  let ?k = "Slot (window_of p) (pp_group p)"
  have look: "proposal_table.lookup (pp_id p) rows = Some p" by (rule proposal_table.lookup_in [OF rows])
  have b: "ballot_of rows (pp_id p) = Some (?k, Waiting (pp_expires p))"
    using look p by (simp add: ballot_of_def entry_of_def is_active_def)
  have "ballot_of (settle_rows p st now rows) i =
    revote (\<lambda>j l v. if j = pp_id p then Settled st else close_vote (st = PropAccepted \<and> l = ?k) PropCancelled v) (ballot_of rows) i" for i
  proof (cases "proposal_table.lookup i rows")
    case None
    then show ?thesis
      by (simp add: settle_rows_def cancel_others_def Let_def ballot_of_def revote_def proposal_table.lookup_update_where)
  next
    case (Some q)
    then have q: "pp_id q = i" using proposal_table.lookup_Some [of i rows q] by simp
    then show ?thesis using Some st
      by (auto simp: settle_rows_def cancel_others_def Let_def ballot_of_def revote_def proposal_table.lookup_update_where entry_of_def)
  qed
  then show ?thesis using b p by (auto simp: spec_settle_def is_active_def)
qed

lemma update_where_keep: "r \<in> set rs \<Longrightarrow> \<not> P r \<Longrightarrow> r \<in> set (update_where P f rs)"
  by (force simp: set_update_where)

lemma settle_rows_self: "p \<in> set rows \<Longrightarrow> settle PropAccepted now p \<in> set (settle_rows p PropAccepted now rows)"
proof -
  assume "p \<in> set rows"
  then have "settle PropAccepted now p \<in> set (update_where (\<lambda>q. pp_id q = pp_id p) (settle PropAccepted now) rows)"
    unfolding set_update_where by (rule image_eqI [rotated]) simp
  then show ?thesis unfolding settle_rows_def cancel_others_def Let_def by (simp add: update_where_keep)
qed

lemma settle_rows_rest:
  assumes "q \<in> set (settle_rows p PropAccepted now rows)" and "window_of q = window_of p" and "pp_group q = pp_group p"
  shows "pp_status q \<noteq> PropActive"
proof
  assume active: "pp_status q = PropActive"
  let ?rows = "update_where (\<lambda>q. pp_id q = pp_id p) (settle PropAccepted now) rows"
  have "q \<in> set ?rows \<and> pp_id q = pp_id p"
    using assms active unfolding settle_rows_def cancel_others_def Let_def by (auto dest: update_where_in)
  then show False using active by (auto dest!: update_where_in)
qed

lemma hit_one:
  assumes "distinct (map pp_id rows)" "p \<in> set rows"
  shows "count_where (\<lambda>q. pp_id q = pp_id p \<and> R q) rows = (if R p then 1 else 0)"
    and "R p \<Longrightarrow> update_where (\<lambda>q. pp_id q = pp_id p \<and> R q) f rows = update_where (\<lambda>q. pp_id q = pp_id p) f rows"
proof -
  have same: "q = p" if "q \<in> set rows" "pp_id q = pp_id p" for q using that assms by (simp add: distinct_map inj_on_def)
  have "filter (\<lambda>q. pp_id q = pp_id p \<and> R q) rows = (if R p then [p] else [])"
  proof (cases "R p")
    case True
    then show ?thesis using assms same by (simp add: distinct_map filter_unique)
  qed (use same in \<open>auto simp: filter_empty_conv\<close>)
  then show "count_where (\<lambda>q. pp_id q = pp_id p \<and> R q) rows = (if R p then 1 else 0)" by (simp add: count_where_def)
  show "update_where (\<lambda>q. pp_id q = pp_id p \<and> R q) f rows = update_where (\<lambda>q. pp_id q = pp_id p) f rows" if "R p"
    unfolding update_where_def using same that by (intro map_cong) auto
qed

lemma mark_resolved_rows:
  assumes "distinct (map pp_id rows)" "p \<in> set rows" "st \<in> {PropAccepted, PropCancelled}"
  shows "mark_resolved (target_of p) st now rows = (if is_active now p then Inr (settle_rows p st now rows) else Inl AlreadyResolved)"
proof -
  have "(pt_tenant (target_of p), pt_proxy (target_of p), pt_scope (target_of p)) = window_of p" "pt_id (target_of p) = pp_id p"
    "pt_group (target_of p) = pp_group p" by (simp_all add: target_of_def window_of_def)
  then show ?thesis
    using assms(3) hit_one [OF assms(1,2), of "\<lambda>q. window_of q = window_of p \<and> is_active now q"]
    by (auto simp: mark_resolved_def settle_rows_def Let_def)
qed

lemma claim_proposal_rows:
  assumes rows: "distinct (map pp_id rows)"
  shows "claim_proposal w i now rows =
    (case proposal_table.lookup i rows of
       None \<Rightarrow> None
     | Some p \<Rightarrow> if window_of p = w \<and> is_active now p then Some (settle_rows p PropAccepted now rows) else None)"
proof (cases "proposal_table.lookup i rows")
  case None
  then show ?thesis using proposal_table.find_key [OF rows] by (simp add: claim_proposal_def)
next
  case (Some p)
  then have p: "p \<in> set rows" "pp_id p = i" using proposal_table.lookup_Some by blast+
  show ?thesis
    using Some proposal_table.find_key [OF rows, of i] hit_one [OF rows p(1), of "is_active now"] p(2)
    by (auto simp: claim_proposal_def settle_rows_def Let_def)
qed

section \<open>The invariant of the tables\<close>

text \<open>
  Identifiers are different and below the next one, the group of a proposal is the text of its job,
  every group has a first proposal, and the ballot is in order.
\<close>

definition same_slot :: "proposal \<Rightarrow> proposal \<Rightarrow> bool" where
  "same_slot p q \<longleftrightarrow> window_of p = window_of q \<and> pp_group p = pp_group q"

definition proposals_ok :: "evidence_env \<Rightarrow> uuid \<Rightarrow> proposal list \<Rightarrow> bool" where
  "proposals_ok E n rows \<longleftrightarrow>
     distinct (map pp_id rows) \<and> (\<forall>p \<in> set rows. pp_id p < n \<and> pp_group p = ee_text E (pp_job p) \<and> (\<exists>q \<in> set rows. same_slot p q \<and> pp_ordinal q = 1)) \<and>
     ballot_ok (ballot_of rows)"

definition evidence_ok :: "evidence_env \<Rightarrow> evidence_db \<Rightarrow> bool" where
  "evidence_ok E d \<longleftrightarrow> proposals_ok E (ed_next d) (ed_proposals d)"

abbreviation ballot_db :: "evidence_db \<Rightarrow> ballot" where
  "ballot_db d \<equiv> ballot_of (ed_proposals d)"

text \<open>A change of the status alone keeps everything but the ballot.\<close>

definition keeps_slot :: "(proposal \<Rightarrow> proposal) \<Rightarrow> bool" where
  "keeps_slot f \<longleftrightarrow> (\<forall>p. pp_id (f p) = pp_id p \<and> pp_job (f p) = pp_job p \<and> pp_group (f p) = pp_group p \<and>
     pp_ordinal (f p) = pp_ordinal p \<and> window_of (f p) = window_of p)"

lemma keeps_slot_settle: "keeps_slot (\<lambda>p. if P p then settle st now p else p)"
  by (simp add: keeps_slot_def)

lemma keeps_slot_comp: "keeps_slot f \<Longrightarrow> keeps_slot g \<Longrightarrow> keeps_slot (f \<circ> g)"
  by (simp add: keeps_slot_def)

lemma proposals_ok_map:
  assumes rows: "proposals_ok E n rows" and f: "keeps_slot f" and ok: "ballot_ok (ballot_of (map f rows))"
  shows "proposals_ok E n (map f rows)"
proof -
  have ids: "map pp_id (map f rows) = map pp_id rows" using f by (simp add: keeps_slot_def)
  have "pp_id (f p) < n \<and> pp_group (f p) = ee_text E (pp_job (f p)) \<and> (\<exists>q \<in> set (map f rows). same_slot (f p) q \<and> pp_ordinal q = 1)"
    if p: "p \<in> set rows" for p
  proof -
    obtain q where "q \<in> set rows" "same_slot p q" "pp_ordinal q = 1" "pp_id p < n" "pp_group p = ee_text E (pp_job p)"
      using rows p unfolding proposals_ok_def by blast
    then show ?thesis using f by (intro conjI bexI [of _ "f q"]) (simp_all add: same_slot_def keeps_slot_def)
  qed
  then have "\<forall>p \<in> f ` set rows. pp_id p < n \<and> pp_group p = ee_text E (pp_job p) \<and> (\<exists>q \<in> set (map f rows). same_slot p q \<and> pp_ordinal q = 1)"
    by (intro ballI, elim imageE) simp
  moreover have "distinct (map pp_id rows)" using rows by (simp add: proposals_ok_def)
  ultimately show ?thesis unfolding proposals_ok_def ids set_map [of f rows, symmetric] using ok by blast
qed

lemma settle_rows_step:
  assumes rows: "proposals_ok E n rows" "p \<in> set rows" "is_active now p" and st: "st \<in> {PropAccepted, PropCancelled}"
  shows "proposals_ok E n (settle_rows p st now rows)" and "ballot_step (ballot_of rows) (ballot_of (settle_rows p st now rows))"
proof -
  have ids: "distinct (map pp_id rows)" using rows(1) by (simp add: proposals_ok_def)
  have "st \<noteq> PropActive" using st by auto
  from ballot_settle [OF ids rows(2,3) this] show step: "ballot_step (ballot_of rows) (ballot_of (settle_rows p st now rows))"
    using st by (rule ballot_step.settle [rotated])
  then have ok: "ballot_ok (ballot_of (settle_rows p st now rows))" using rows(1) ballot_step_ok [OF _ step] by (simp add: proposals_ok_def)
  let ?g = "\<lambda>q. if pp_id q = pp_id p then settle st now q else q"
  let ?h = "\<lambda>q. if window_of q = window_of p \<and> pp_group q = pp_group p \<and> pp_id q \<noteq> pp_id p \<and> pp_status q = PropActive
    then settle PropCancelled now q else q"
  have eq: "settle_rows p st now rows = map (if st = PropAccepted then ?h \<circ> ?g else ?g) rows"
    by (simp add: settle_rows_def cancel_others_def update_where_def)
  have "keeps_slot ?g" "keeps_slot (?h \<circ> ?g)" by (intro keeps_slot_comp keeps_slot_settle)+
  then have "keeps_slot (if st = PropAccepted then ?h \<circ> ?g else ?g)" by simp
  from proposals_ok_map [OF rows(1) this ok [unfolded eq]] show "proposals_ok E n (settle_rows p st now rows)" unfolding eq .
qed

section \<open>Submissions\<close>

text \<open>
  While the messages of a submission are read, what waits in the window belongs to its group, and
  once it has inserted a proposal nothing of its group is accepted.
\<close>

definition in_slot :: "evidence_env \<Rightarrow> submission \<Rightarrow> proposal \<Rightarrow> bool" where
  "in_slot E s p \<longleftrightarrow> window_of p = sb_window s \<and> pp_group p = ee_text E (sb_job s)"

definition reading_ok :: "evidence_env \<Rightarrow> submission \<Rightarrow> int \<Rightarrow> evidence_db \<Rightarrow> bool" where
  "reading_ok E s n d \<longleftrightarrow> evidence_ok E d \<and> 0 \<le> n \<and>
     (\<forall>p \<in> set (ed_proposals d). window_of p = sb_window s \<and> pp_status p = PropActive \<longrightarrow> in_slot E s p) \<and>
     (0 < n \<longrightarrow> (\<forall>p \<in> set (ed_proposals d). in_slot E s p \<longrightarrow> pp_status p \<noteq> PropAccepted) \<and>
        (\<exists>p \<in> set (ed_proposals d). in_slot E s p \<and> pp_ordinal p = 1))"

lemma new_proposal_simps [simp]:
  "pp_id (new_proposal E s i n turn sha q) = i" "window_of (new_proposal E s i n turn sha q) = sb_window s"
  "pp_group (new_proposal E s i n turn sha q) = ee_text E (sb_job s)" "pp_ordinal (new_proposal E s i n turn sha q) = n"
  "pp_job (new_proposal E s i n turn sha q) = sb_job s" "pp_status (new_proposal E s i n turn sha q) = PropActive"
  "pp_turn (new_proposal E s i n turn sha q) = turn"
  by (simp_all add: new_proposal_def window_of_def sb_window_def)

lemma ballot_append:
  assumes "pp_id p \<notin> pp_id ` set rows"
  shows "ballot_of (rows @ [p]) = (ballot_of rows)(pp_id p \<mapsto> entry_of p)" and "ballot_of rows (pp_id p) = None"
proof -
  have "proposal_table.lookup (pp_id p) rows = None" using assms by (simp add: proposal_table.lookup_None)
  then show "ballot_of (rows @ [p]) = (ballot_of rows)(pp_id p \<mapsto> entry_of p)" "ballot_of rows (pp_id p) = None"
    by (auto simp: ballot_of_def proposal_table.lookup_append fun_eq_iff)
qed

lemma ballot_entry:
  assumes "ballot_of rows i = Some (k, v)"
  obtains p where "p \<in> set rows" and "pp_id p = i" and "entry_of p = (k, v)"
  using assms proposal_table.lookup_Some [of i rows] by (auto simp: ballot_of_def)

lemma insert_proposal_step:
  assumes ins: "insert_proposal E s (n + 1) turn sha q d = Inr (i, d')" and ok: "reading_ok E s n d"
  shows "reading_ok E s (n + 1) d' \<and> ballot_step\<^sup>*\<^sup>* (ballot_db d) (ballot_db d') \<or> d' = d \<and> (\<exists>p \<in> set (ed_proposals d). in_slot E s p \<and> pp_ordinal p = n + 1)"
proof (cases "find_proposal s turn d")
  case (Some p)
  then have "p \<in> set (ed_proposals d) \<and> window_of p = sb_window s" unfolding find_proposal_def by (auto dest: find_row_Some)
  then show ?thesis using ins Some by (auto simp: insert_proposal_def in_slot_def split: if_splits)
next
  case None
  let ?p = "new_proposal E s (ed_next d) (n + 1) turn sha q" and ?rows = "ed_proposals d"
  have free: "\<not> (\<exists>p \<in> set ?rows. in_slot E s p \<and> pp_ordinal p = n + 1)" and d': "d' = d\<lparr>ed_proposals := ?rows @ [?p], ed_next := Suc (ed_next d)\<rparr>"
    using ins None by (auto simp: insert_proposal_def in_slot_def split: if_splits)
  have props: "proposals_ok E (ed_next d) ?rows" and n: "0 \<le> n" using ok by (simp_all add: reading_ok_def evidence_ok_def)
  have waiting: "\<forall>p \<in> set ?rows. window_of p = sb_window s \<and> pp_status p = PropActive \<longrightarrow> in_slot E s p" using ok unfolding reading_ok_def by blast
  have started: "(\<forall>p \<in> set ?rows. in_slot E s p \<longrightarrow> pp_status p \<noteq> PropAccepted) \<and> (\<exists>p \<in> set ?rows. in_slot E s p \<and> pp_ordinal p = 1)" if "n \<noteq> 0"
    using ok n that unfolding reading_ok_def by simp
  have fresh: "pp_id ?p \<notin> pp_id ` set ?rows" using props unfolding proposals_ok_def by auto
  have quiet: "\<forall>p \<in> set ?rows. in_slot E s p \<longrightarrow> pp_status p \<noteq> PropAccepted"
  proof (cases "n = 0")
    case True
    have "\<not> in_slot E s p" if p: "p \<in> set ?rows" for p
    proof
      assume "in_slot E s p"
      moreover obtain q where "q \<in> set ?rows" "same_slot p q" "pp_ordinal q = 1" using props p unfolding proposals_ok_def by blast
      ultimately show False using free True by (auto simp: in_slot_def same_slot_def)
    qed
    then show ?thesis by blast
  qed (use started in blast)
  have first: "\<exists>p \<in> set (?rows @ [?p]). in_slot E s p \<and> pp_ordinal p = 1"
    using started by (cases "n = 0") (auto simp: in_slot_def)
  have join: "may_join (Slot (sb_window s) (ee_text E (sb_job s))) (ballot_of ?rows)"
    unfolding may_join_def
  proof (intro allI impI)
    fix j l v
    assume "ballot_of ?rows j = Some (l, v)"
    then obtain p where p: "p \<in> set ?rows" "entry_of p = (l, v)" by (rule ballot_entry)
    have lv: "l = Slot (window_of p) (pp_group p)" "v = (if pp_status p = PropActive then Waiting (pp_expires p) else Settled (pp_status p))"
      using p(2) by (simp_all add: entry_of_def)
    have "window_of p = sb_window s \<and> pp_status p = PropActive \<longrightarrow> in_slot E s p" "in_slot E s p \<longrightarrow> pp_status p \<noteq> PropAccepted"
      using waiting quiet p(1) by blast+
    then show "(slot_window l = slot_window (Slot (sb_window s) (ee_text E (sb_job s))) \<and> l \<noteq> Slot (sb_window s) (ee_text E (sb_job s)) \<longrightarrow>
        (\<exists>st. v = Settled st)) \<and> (l = Slot (sb_window s) (ee_text E (sb_job s)) \<longrightarrow> v \<noteq> Settled PropAccepted)"
      unfolding in_slot_def lv by (cases "pp_status p = PropActive") simp_all
  qed
  have step: "ballot_step (ballot_of ?rows) (ballot_of (?rows @ [?p]))"
    unfolding ballot_append(1) [OF fresh] using ballot_step.propose [of "ballot_of ?rows" "ed_next d", OF _ join] ballot_append(2) [OF fresh]
    by (simp add: entry_of_def)
  have rows: "pp_id p < Suc (ed_next d) \<and> pp_group p = ee_text E (pp_job p) \<and> (\<exists>q \<in> set (?rows @ [?p]). same_slot p q \<and> pp_ordinal q = 1)"
    if p: "p \<in> set (?rows @ [?p])" for p
  proof (cases "p = ?p")
    case True
    then show ?thesis using first by (auto simp: same_slot_def in_slot_def)
  next
    case False
    then have "p \<in> set ?rows" using p by simp
    then obtain q where "q \<in> set ?rows" "same_slot p q" "pp_ordinal q = 1" "pp_id p < ed_next d" "pp_group p = ee_text E (pp_job p)"
      using props unfolding proposals_ok_def by blast
    then show ?thesis by (intro conjI bexI [of _ q]) simp_all
  qed
  have "ballot_ok (ballot_of (?rows @ [?p]))" using props ballot_step_ok [OF _ step] by (simp add: proposals_ok_def)
  moreover have "distinct (map pp_id (?rows @ [?p]))" using props fresh by (simp add: proposals_ok_def)
  ultimately have "proposals_ok E (Suc (ed_next d)) (?rows @ [?p])" using rows unfolding proposals_ok_def by blast
  moreover have "\<forall>p \<in> set (?rows @ [?p]). window_of p = sb_window s \<and> pp_status p = PropActive \<longrightarrow> in_slot E s p"
    using waiting by (auto simp: in_slot_def)
  moreover have "\<forall>p \<in> set (?rows @ [?p]). in_slot E s p \<longrightarrow> pp_status p \<noteq> PropAccepted" using quiet by simp
  ultimately have "reading_ok E s (n + 1) d'" using n first by (simp add: d' reading_ok_def evidence_ok_def)
  then show ?thesis using r_into_rtranclp [of ballot_step, OF step] by (simp add: d')
qed

lemma persist_turn_keeps:
  assumes "persist_turn E s m d = Inr d'"
  shows "ed_proposals d' = ed_proposals d" and "ed_next d \<le> ed_next d'" and "ed_users d' = ed_users d" and "turn_id_of E m \<noteq> []"
  using assms by (auto simp: persist_turn_def Let_def split: if_splits option.splits)

lemma find_proposal_cong: "ed_proposals d' = ed_proposals d \<Longrightarrow> find_proposal s turn d' = find_proposal s turn d"
  by (simp add: find_proposal_def)

lemma reading_ok_later:
  assumes "reading_ok E s n d" "ed_proposals d' = ed_proposals d" "ed_next d \<le> ed_next d'"
  shows "reading_ok E s n d'"
proof -
  have "proposals_ok E (ed_next d') (ed_proposals d')" using assms unfolding reading_ok_def evidence_ok_def proposals_ok_def
    by (metis (no_types, lifting) order_less_le_trans)
  then show ?thesis using assms(1,2) by (simp add: reading_ok_def evidence_ok_def)
qed

text \<open>What a submission already has: the proposals found at its start.\<close>

definition known_at_start :: "evidence_env \<Rightarrow> submission \<Rightarrow> (string \<Rightarrow> proposal option) \<Rightarrow> message list \<Rightarrow> evidence_db \<Rightarrow> bool" where
  "known_at_start E s existing ms d \<longleftrightarrow>
     (\<forall>m \<in> set ms. is_proposal m \<and> turn_id_of E m \<noteq> [] \<and> existing (turn_id_of E m) = None \<longrightarrow> find_proposal s (turn_id_of E m) d = None)"

lemma persist_proposal_step:
  assumes per: "persist_proposal E s existing n m d = Inr (i, n', d')" and ok: "reading_ok E s n d"
    and start: "n = 0 \<longrightarrow> existing (turn_id_of E m) = None \<longrightarrow> find_proposal s (turn_id_of E m) d = None"
  shows "reading_ok E s n' d' \<and> ballot_step\<^sup>*\<^sup>* (ballot_db d) (ballot_db d') \<and> (n' = 0 \<longrightarrow> d' = d \<and> n = 0)"
proof -
  let ?sha = "py_strip (field_text E m ''turn_content_sha256'')"
  obtain q where q: "proposed_of E m = Inr q" using per by (auto simp: persist_proposal_def Let_def split: if_splits sum.splits)
  show ?thesis
  proof (cases "existing (turn_id_of E m)")
    case (Some p)
    then show ?thesis using per ok q by (auto simp: persist_proposal_def Let_def split: if_splits)
  next
    case None
    then have ins: "insert_proposal E s (n + 1) (turn_id_of E m) ?sha q d = Inr (i, d')" and n': "n' = n + 1"
      using per q by (auto simp: persist_proposal_def Let_def map_sum_def split: if_splits sum.splits)
    have n: "0 \<le> n" using ok by (simp add: reading_ok_def)
    have "reading_ok E s (n + 1) d' \<and> ballot_step\<^sup>*\<^sup>* (ballot_db d) (ballot_db d')"
    proof (cases "n = 0")
      case True
      then have "find_proposal s (turn_id_of E m) d = None" using start None by simp
      then have "ed_next d' = Suc (ed_next d)" using ins by (auto simp: insert_proposal_def split: if_splits)
      then have "d' \<noteq> d" by auto
      then show ?thesis using insert_proposal_step [OF ins ok] by blast
    next
      case False
      then have "reading_ok E s (n + 1) d" using ok n by (simp add: reading_ok_def)
      then show ?thesis using insert_proposal_step [OF ins ok] by auto
    qed
    then show ?thesis using n n' by auto
  qed
qed

lemma persist_messages_step:
  assumes "persist_messages E s existing n ms d = Inr (ids, d')" and "reading_ok E s n d" and "n = 0 \<longrightarrow> known_at_start E s existing ms d"
  shows "evidence_ok E d' \<and> ballot_step\<^sup>*\<^sup>* (ballot_db d) (ballot_db d')"
  using assms
proof (induction ms arbitrary: n d ids)
  case Nil
  then show ?case by (auto simp: reading_ok_def)
next
  case (Cons m ms)
  obtain d1 where d1: "persist_turn E s m d = Inr d1" using Cons(2) by (auto split: sum.splits)
  note keeps = persist_turn_keeps [OF d1]
  have ok1: "reading_ok E s n d1" by (rule reading_ok_later [OF Cons(3) keeps(1,2)])
  have start1: "n = 0 \<longrightarrow> known_at_start E s existing ms d1" and here: "n = 0 \<longrightarrow> is_proposal m \<longrightarrow> existing (turn_id_of E m) = None \<longrightarrow> find_proposal s (turn_id_of E m) d1 = None"
    using Cons(4) keeps(4) find_proposal_cong [OF keeps(1)] unfolding known_at_start_def by simp_all
  show ?case
  proof (cases "is_proposal m")
    case False
    then show ?thesis using Cons(1) [of n d1 ids] Cons(2) d1 ok1 start1 keeps(1) by simp
  next
    case True
    then obtain i n' d2 ids' where step: "persist_proposal E s existing n m d1 = Inr (i, n', d2)"
      and rest: "persist_messages E s existing n' ms d2 = Inr (ids', d')"
      using Cons(2) d1 by (auto simp: map_sum_def split: sum.splits prod.splits)
    have one: "reading_ok E s n' d2 \<and> ballot_step\<^sup>*\<^sup>* (ballot_db d1) (ballot_db d2) \<and> (n' = 0 \<longrightarrow> d2 = d1 \<and> n = 0)"
      using here True by (intro persist_proposal_step [OF step ok1]) simp
    then have "evidence_ok E d' \<and> ballot_step\<^sup>*\<^sup>* (ballot_db d2) (ballot_db d')"
      using Cons(1) [OF rest] start1 by auto
    then show ?thesis using one keeps(1) rtranclp_trans [of ballot_step "ballot_db d1" "ballot_db d2" "ballot_db d'"] by simp
  qed
qed

lemma persist_messages_known:
  assumes "persist_messages E s existing n ms d = Inr (ids, d')"
    and "\<forall>m \<in> set ms. is_proposal m \<and> turn_id_of E m \<noteq> [] \<longrightarrow> existing (turn_id_of E m) \<noteq> None"
  shows "ed_proposals d' = ed_proposals d \<and> ed_next d \<le> ed_next d'"
  using assms
proof (induction ms arbitrary: n d ids)
  case (Cons m ms)
  obtain d1 where d1: "persist_turn E s m d = Inr d1" using Cons(2) by (auto split: sum.splits)
  note keeps = persist_turn_keeps [OF d1]
  show ?case
  proof (cases "is_proposal m")
    case False
    then show ?thesis using Cons(1) [of n d1 ids] Cons(2,3) d1 keeps by auto
  next
    case True
    then obtain i n' d2 ids' where step: "persist_proposal E s existing n m d1 = Inr (i, n', d2)"
      and rest: "persist_messages E s existing n' ms d2 = Inr (ids', d')"
      using Cons(2) d1 by (auto simp: map_sum_def split: sum.splits prod.splits)
    obtain p where "existing (turn_id_of E m) = Some p" using Cons(3) True keeps(4) by auto
    then have "d2 = d1" using step by (auto simp: persist_proposal_def Let_def split: if_splits sum.splits)
    then show ?thesis using Cons(1) [OF rest] Cons(3) keeps by auto
  qed
qed simp

lemma supersede_reading_ok:
  assumes ok: "evidence_ok E d"
  shows "reading_ok E s 0 (supersede_others s d)" and "ballot_step (ballot_db d) (ballot_db (supersede_others s d))"
proof -
  let ?P = "\<lambda>p. window_of p = sb_window s \<and> pp_status p = PropActive \<and> pp_job p \<noteq> sb_job s"
  have rows: "ed_proposals (supersede_others s d) = map (\<lambda>p. if ?P p then settle PropSuperseded (sb_now s) p else p) (ed_proposals d)"
    by (simp add: supersede_others_def update_where_def)
  have props: "proposals_ok E (ed_next d) (ed_proposals d)" using ok by (simp add: evidence_ok_def)
  then have "distinct (map pp_id (ed_proposals d))" by (simp add: proposals_ok_def)
  from ballot_supersede [OF this] show step: "ballot_step (ballot_db d) (ballot_db (supersede_others s d))" by (simp add: ballot_step.supersede)
  have "ballot_ok (ballot_db (supersede_others s d))" using ballot_step_ok [OF _ step] props by (simp add: proposals_ok_def)
  then have "proposals_ok E (ed_next d) (ed_proposals (supersede_others s d))"
    unfolding rows by (intro proposals_ok_map [OF props] keeps_slot_settle)
  moreover have "in_slot E s p" if p: "p \<in> set (ed_proposals (supersede_others s d))" "window_of p = sb_window s" "pp_status p = PropActive" for p
  proof -
    have "p \<in> set (ed_proposals d) \<and> pp_job p = sb_job s" using p unfolding rows by (auto split: if_splits)
    then show ?thesis using p(2) props unfolding proposals_ok_def in_slot_def by auto
  qed
  moreover have "ed_next (supersede_others s d) = ed_next d" by (simp add: supersede_others_def)
  ultimately show "reading_ok E s 0 (supersede_others s d)" unfolding reading_ok_def evidence_ok_def by simp
qed

lemma persist_evidence_step:
  assumes per: "persist_evidence_ledger E s ms d = Inr (ids, d')" and ok: "evidence_ok E d"
  shows "evidence_ok E d' \<and> ballot_step\<^sup>*\<^sup>* (ballot_db d) (ballot_db d')"
proof -
  define turns where "turns = filter (\<lambda>t. t \<noteq> []) (map (turn_id_of E) (filter is_proposal ms))"
  define existing where "existing = (\<lambda>turn. if turn \<in> set turns then find_proposal s turn d else None)"
  have asked: "turn_id_of E m \<in> set turns" if "m \<in> set ms" "is_proposal m" "turn_id_of E m \<noteq> []" for m
    using that by (auto simp: turns_def)
  show ?thesis
  proof (cases "\<exists>t \<in> set turns. existing t = None")
    case True
    then have run: "persist_messages E s existing 0 ms (supersede_others s d) = Inr (ids, d')"
      using per by (auto simp: persist_evidence_ledger_def Let_def turns_def existing_def split: if_splits)
    have "find_proposal s t (supersede_others s d) = None" if "find_proposal s t d = None" for t
      using that by (auto simp: find_proposal_def supersede_others_def find_row_None set_update_where)
    then have "known_at_start E s existing ms (supersede_others s d)"
      using asked unfolding known_at_start_def existing_def by auto
    then show ?thesis
      using persist_messages_step [OF run supersede_reading_ok(1) [OF ok]] supersede_reading_ok(2) [OF ok, of s] by auto
  next
    case False
    then have run: "persist_messages E s existing 0 ms d = Inr (ids, d')"
      using per by (auto simp: persist_evidence_ledger_def Let_def turns_def existing_def split: if_splits)
    have "\<forall>m \<in> set ms. is_proposal m \<and> turn_id_of E m \<noteq> [] \<longrightarrow> existing (turn_id_of E m) \<noteq> None"
      using asked False by auto
    then have "ed_proposals d' = ed_proposals d \<and> ed_next d \<le> ed_next d'" by (rule persist_messages_known [OF run])
    moreover from this have "proposals_ok E (ed_next d') (ed_proposals d)" using ok unfolding evidence_ok_def proposals_ok_def
      by (metis (no_types, lifting) order_less_le_trans)
    ultimately show ?thesis by (simp add: evidence_ok_def)
  qed
qed

section \<open>The system of operations\<close>

lemma claim_groups_step:
  assumes "claim_groups w now gs accepted rows = (accepted', rows')" and "proposals_ok E n rows"
  shows "proposals_ok E n rows' \<and> ballot_step\<^sup>*\<^sup>* (ballot_of rows) (ballot_of rows')"
  using assms
proof (induction w now gs accepted rows rule: claim_groups.induct)
  case (2 w now i ms gs accepted rows)
  have ids: "distinct (map pp_id rows)" using 2(4) by (simp add: proposals_ok_def)
  show ?case
  proof (cases "claim_proposal w i now rows")
    case None
    then show ?thesis using 2 by simp
  next
    case (Some rows1)
    then obtain p where p: "proposal_table.lookup i rows = Some p" "is_active now p" "rows1 = settle_rows p PropAccepted now rows"
      unfolding claim_proposal_rows [OF ids] by (auto split: option.splits if_splits)
    then have "p \<in> set rows" using proposal_table.lookup_Some by blast
    note step = settle_rows_step [OF 2(4) this p(2), of PropAccepted]
    have "proposals_ok E n rows1" "ballot_step (ballot_of rows) (ballot_of rows1)" using step p(3) by simp_all
    then show ?thesis using 2(2) [OF Some] 2(3) Some by (auto intro: converse_rtranclp_into_rtranclp)
  qed
qed simp

inductive evidence_step :: "evidence_env \<Rightarrow> evidence_db \<Rightarrow> evidence_db \<Rightarrow> bool" for E where
  submit: "persist_evidence_ledger E s ms d = Inr (ids, d') \<Longrightarrow> evidence_step E d d'"
| list_active: "active_group w now (ed_proposals d) = (ts, rows) \<Longrightarrow> evidence_step E d (d\<lparr>ed_proposals := rows\<rparr>)"
| resolve: "p \<in> set (ed_proposals d) \<Longrightarrow> mark_resolved (target_of p) st now (ed_proposals d) = Inr rows \<Longrightarrow>
    evidence_step E d (d\<lparr>ed_proposals := rows\<rparr>)"
| claim: "claim_confirmed_proposals E w now (cs :: string candidate list) (ed_proposals d) = Inr (r, rows) \<Longrightarrow>
    evidence_step E d (d\<lparr>ed_proposals := rows\<rparr>)"

lemma evidence_step_simulated:
  assumes step: "evidence_step E d d'" and ok: "evidence_ok E d"
  shows "evidence_ok E d' \<and> ballot_step\<^sup>*\<^sup>* (ballot_db d) (ballot_db d')"
  using step
proof cases
  case (submit s ms ids)
  then show ?thesis using persist_evidence_step ok by blast
next
  case (list_active w now ts rows)
  have rows: "rows = expire_window w now (ed_proposals d)" using list_active(2) by (simp add: active_group_def Let_def)
  have step: "ballot_step (ballot_db d) (ballot_of rows)" unfolding rows ballot_expire by (rule ballot_step.expire)
  moreover have "proposals_ok E (ed_next d) rows"
    using ok ballot_step_ok [OF _ step] unfolding rows expire_window_def update_where_def evidence_ok_def
    by (intro proposals_ok_map keeps_slot_settle) (simp_all add: proposals_ok_def)
  ultimately show ?thesis using list_active(1) by (auto simp: evidence_ok_def)
next
  case (resolve p st now rows)
  have props: "proposals_ok E (ed_next d) (ed_proposals d)" using ok by (simp add: evidence_ok_def)
  then have ids: "distinct (map pp_id (ed_proposals d))" by (simp add: proposals_ok_def)
  have st: "st \<in> {PropAccepted, PropCancelled}" using resolve(3) by (auto simp: mark_resolved_def split: if_splits)
  have "is_active now p" "rows = settle_rows p st now (ed_proposals d)"
    using resolve(3) unfolding mark_resolved_rows [OF ids resolve(2) st] by (simp_all split: if_splits)
  then show ?thesis using settle_rows_step [OF props resolve(2) _ st] resolve(1) by (auto simp: evidence_ok_def)
next
  case (claim w now cs r rows)
  then obtain passthrough :: "string list" and groups accepted where "claim_groups w now groups passthrough (ed_proposals d) = (accepted, rows)"
    by (auto simp: claim_confirmed_proposals_def split: sum.splits prod.splits)
  from claim_groups_step [OF this] show ?thesis using ok claim(1) by (simp add: evidence_ok_def)
qed

interpretation evidence_simulation: simulation "evidence_ok E" ballot_db "evidence_step E" ballot_step
  by unfold_locales (rule evidence_step_simulated)

definition empty_evidence :: "(uuid \<times> uuid) list \<Rightarrow> evidence_db" where
  "empty_evidence users = \<lparr>ed_users = users, ed_turns = [], ed_proposals = [], ed_next = 0\<rparr>"

lemma empty_evidence_ok: "evidence_ok E (empty_evidence users)"
  by (simp add: evidence_ok_def proposals_ok_def empty_evidence_def ballot_ok_def ballot_of_def proposal_table.lookup_def find_row_def)

section \<open>Submitting again\<close>

text \<open>
  What the tables hold after a message was read: its turn, and for a proposal a row with its payload.
  Later messages keep it, so a second submission finds everything in place.
\<close>

definition payload_sha :: "evidence_env \<Rightarrow> message \<Rightarrow> string" where
  "payload_sha E m = py_strip (field_text E m ''turn_content_sha256'')"

definition acknowledged :: "evidence_env \<Rightarrow> submission \<Rightarrow> evidence_db \<Rightarrow> message \<Rightarrow> uuid \<Rightarrow> bool" where
  "acknowledged E s d m i \<longleftrightarrow>
     py_lower (field_text E m ''role'') = ''assistant'' \<and> py_lower (field_text E m ''source_kind'') = ''assistant_output'' \<and>
     (\<exists>q p. proposed_of E m = Inr q \<and> find_proposal s (turn_id_of E m) d = Some p \<and> same_payload p (payload_sha E m) q \<and> pp_id p = i)"

definition grows :: "submission \<Rightarrow> evidence_db \<Rightarrow> evidence_db \<Rightarrow> bool" where
  "grows s d d' \<longleftrightarrow> (\<exists>ts. ed_turns d' = ed_turns d @ ts) \<and> (\<exists>ps. ed_proposals d' = ed_proposals d @ ps)"

lemma grows_refl: "grows s d d"
  by (simp add: grows_def)

lemma grows_trans: "grows s d e \<Longrightarrow> grows s e f \<Longrightarrow> grows s d f"
  by (auto simp: grows_def)

lemma find_row_append: "find_row P (xs @ ys) = (case find_row P xs of None \<Rightarrow> find_row P ys | Some x \<Rightarrow> Some x)"
  by (induction xs) (auto simp: find_row_def)

lemma find_row_snoc: "find_row P (xs @ [y]) = (case find_row P xs of None \<Rightarrow> if P y then Some y else None | Some x \<Rightarrow> Some x)"
  by (induction xs) (auto simp: find_row_def)

lemma find_row_keep: "(\<And>r. P (f r) = P r) \<Longrightarrow> find_row P (map f rs) = map_option f (find_row P rs)"
  by (induction rs) (auto simp: find_row_def)

lemma persist_turn_idle:
  "persist_turn E s m d = Inr d \<longleftrightarrow> turn_id_of E m \<noteq> [] \<and> length (payload_sha E m) = 64 \<and>
     (\<exists>t. find_turn s (turn_id_of E m) d = Some t \<and> et_role t = py_lower (field_text E m ''role'') \<and>
        et_source_kind t = or_none (py_lower (field_text E m ''source_kind'')) \<and> et_sha t = payload_sha E m)"
proof -
  have "d\<lparr>ed_turns := xs, ed_next := Suc (ed_next d)\<rparr> \<noteq> d" for xs
  proof
    assume "d\<lparr>ed_turns := xs, ed_next := Suc (ed_next d)\<rparr> = d"
    then have "ed_next (d\<lparr>ed_turns := xs, ed_next := Suc (ed_next d)\<rparr>) = ed_next d" by simp
    then show False by simp
  qed
  then show ?thesis unfolding persist_turn_def Let_def payload_sha_def by (cases "find_turn s (turn_id_of E m) d") auto
qed

lemma grows_keeps:
  assumes "grows s d d'"
  shows "find_proposal s t d = Some p \<Longrightarrow> find_proposal s t d' = Some p"
    and "persist_turn E s m d = Inr d \<Longrightarrow> persist_turn E s m d' = Inr d'"
    and "acknowledged E s d m i \<Longrightarrow> acknowledged E s d' m i"
proof -
  show kept: "find_proposal s t d' = Some p" if "find_proposal s t d = Some p" for t p
    using assms that by (auto simp: grows_def find_proposal_def find_row_append)
  then show "acknowledged E s d m i \<Longrightarrow> acknowledged E s d' m i" unfolding acknowledged_def by blast
  have "find_turn s t d' = Some x" if "find_turn s t d = Some x" for t x
    using assms that by (auto simp: grows_def find_turn_def find_row_append)
  then show "persist_turn E s m d = Inr d \<Longrightarrow> persist_turn E s m d' = Inr d'" unfolding persist_turn_idle by blast
qed

lemma persist_turn_again:
  assumes "persist_turn E s m d = Inr d'"
  shows "grows s d d'" and "persist_turn E s m d' = Inr d'"
proof -
  show "grows s d d'" using assms by (auto simp: persist_turn_def Let_def grows_def split: if_splits option.splits)
  show "persist_turn E s m d' = Inr d'"
    using assms by (auto simp: persist_turn_def Let_def find_turn_def find_row_snoc sb_window_def split: if_splits option.splits)
qed

lemma persist_proposal_again:
  assumes per: "persist_proposal E s existing n m d = Inr (i, n', d')"
    and old: "\<And>p. existing (turn_id_of E m) = Some p \<Longrightarrow>
      \<exists>p'. find_proposal s (turn_id_of E m) d = Some p' \<and> pp_id p' = pp_id p \<and> (\<forall>sha q. same_payload p' sha q = same_payload p sha q)"
  shows "grows s d d' \<and> acknowledged E s d' m i"
proof -
  obtain q where q: "proposed_of E m = Inr q" and role: "py_lower (field_text E m ''role'') = ''assistant''"
    "py_lower (field_text E m ''source_kind'') = ''assistant_output''"
    using per by (auto simp: persist_proposal_def Let_def split: if_splits sum.splits)
  show ?thesis
  proof (cases "existing (turn_id_of E m)")
    case (Some p)
    then have "d' = d" "i = pp_id p" "same_payload p (payload_sha E m) q"
      using per q by (auto simp: persist_proposal_def Let_def payload_sha_def split: if_splits)
    then show ?thesis using old [OF Some] q role by (auto simp: grows_refl acknowledged_def)
  next
    case None
    then have "insert_proposal E s (n + 1) (turn_id_of E m) (payload_sha E m) q d = Inr (i, d')"
      using per q by (auto simp: persist_proposal_def Let_def map_sum_def payload_sha_def split: if_splits sum.splits)
    then show ?thesis using q role
      by (auto simp: insert_proposal_def acknowledged_def grows_def find_proposal_def find_row_snoc same_payload_def new_proposal_def
          window_of_def sb_window_def split: if_splits option.splits)
  qed
qed

lemma persist_messages_again:
  assumes "persist_messages E s existing n ms d = Inr (ids, d')"
    and "\<And>t p. existing t = Some p \<Longrightarrow>
      \<exists>p'. find_proposal s t d = Some p' \<and> pp_id p' = pp_id p \<and> (\<forall>sha q. same_payload p' sha q = same_payload p sha q)"
  shows "grows s d d' \<and> (\<forall>m \<in> set ms. persist_turn E s m d' = Inr d') \<and> list_all2 (acknowledged E s d') (filter is_proposal ms) ids"
  using assms
proof (induction ms arbitrary: n d ids)
  case (Cons m ms)
  obtain d1 where d1: "persist_turn E s m d = Inr d1" using Cons(2) by (auto split: sum.splits)
  note one = persist_turn_again [OF d1]
  have old: "\<exists>p'. find_proposal s t e = Some p' \<and> pp_id p' = pp_id p \<and> (\<forall>sha q. same_payload p' sha q = same_payload p sha q)"
    if "existing t = Some p" "grows s d e" for t p e
    using Cons(3) [OF that(1)] grows_keeps(1) [OF that(2)] by blast
  show ?case
  proof (cases "is_proposal m")
    case False
    then have "grows s d1 d' \<and> (\<forall>m \<in> set ms. persist_turn E s m d' = Inr d') \<and> list_all2 (acknowledged E s d') (filter is_proposal ms) ids"
      using Cons(2) d1 old one(1) by (intro Cons(1)) auto
    moreover from this have "grows s d d'" "persist_turn E s m d' = Inr d'"
      using grows_trans [OF one(1)] grows_keeps(2) [OF _ one(2)] by simp_all
    ultimately show ?thesis using False by simp
  next
    case True
    then obtain i n' d2 ids' where step: "persist_proposal E s existing n m d1 = Inr (i, n', d2)"
      and rest: "persist_messages E s existing n' ms d2 = Inr (ids', d')" and ids: "ids = i # ids'"
      using Cons(2) d1 by (auto simp: map_sum_def split: sum.splits prod.splits)
    have two: "grows s d1 d2 \<and> acknowledged E s d2 m i" using old one(1) by (intro persist_proposal_again [OF step]) blast
    then have "grows s d d2" using one(1) grows_trans by blast
    then have "grows s d2 d' \<and> (\<forall>m \<in> set ms. persist_turn E s m d' = Inr d') \<and> list_all2 (acknowledged E s d') (filter is_proposal ms) ids'"
      using old by (intro Cons(1) [OF rest]) blast
    moreover from this have last: "grows s d2 d'" by simp
    from two have "grows s d1 d2" "acknowledged E s d2 m i" by simp_all
    from grows_trans [OF this(1) last] grows_keeps(3) [OF last this(2)] have "grows s d1 d'" "acknowledged E s d' m i" .
    moreover from grows_trans [OF one(1) this(1)] grows_keeps(2) [OF this(1) one(2)] have "grows s d d'" "persist_turn E s m d' = Inr d'" .
    ultimately show ?thesis using True ids by simp
  qed
qed (simp add: grows_refl)

text \<open>Reading acknowledged messages changes nothing and returns the same identifiers.\<close>

lemma persist_messages_idle:
  assumes "\<forall>m \<in> set ms. persist_turn E s m d = Inr d" and "list_all2 (acknowledged E s d) (filter is_proposal ms) ids"
    and "\<forall>m \<in> set ms. is_proposal m \<longrightarrow> existing (turn_id_of E m) = find_proposal s (turn_id_of E m) d"
  shows "persist_messages E s existing n ms d = Inr (ids, d)"
  using assms
proof (induction ms arbitrary: ids)
  case (Cons m ms)
  show ?case
  proof (cases "is_proposal m")
    case True
    then obtain i ids' where ids: "ids = i # ids'" and ack: "acknowledged E s d m i" and rest: "list_all2 (acknowledged E s d) (filter is_proposal ms) ids'"
      using Cons(3) by (auto simp: list_all2_Cons1)
    obtain q p where "proposed_of E m = Inr q" "find_proposal s (turn_id_of E m) d = Some p" "same_payload p (payload_sha E m) q" "pp_id p = i"
      and "py_lower (field_text E m ''role'') = ''assistant''" "py_lower (field_text E m ''source_kind'') = ''assistant_output''"
      using ack unfolding acknowledged_def by blast
    then have "persist_proposal E s existing n m d = Inr (i, n, d)" using Cons(4) True by (simp add: persist_proposal_def payload_sha_def)
    then show ?thesis using Cons(1) [OF _ rest] Cons(2,4) True ids by simp
  qed (use Cons in auto)
qed simp

lemma list_all2_member: "list_all2 P xs ys \<Longrightarrow> x \<in> set xs \<Longrightarrow> \<exists>y. P x y"
  by (induction rule: list_all2_induct) auto

lemma persist_again:
  assumes per: "persist_evidence_ledger E s ms d = Inr (ids, d')"
  shows "persist_evidence_ledger E s ms d' = Inr (ids, d')" and "\<exists>ts. ed_turns d' = ed_turns d @ ts"
proof -
  define turns where "turns = filter (\<lambda>t. t \<noteq> []) (map (turn_id_of E) (filter is_proposal ms))"
  define existing where "existing = (\<lambda>turn. if turn \<in> set turns then find_proposal s turn d else None)"
  obtain e where run: "persist_messages E s existing 0 ms e = Inr (ids, d')" and e: "e = d \<or> e = supersede_others s d"
    using per by (auto simp: persist_evidence_ledger_def Let_def turns_def existing_def split: if_splits)
  let ?f = "\<lambda>p. if window_of p = sb_window s \<and> pp_status p = PropActive \<and> pp_job p \<noteq> sb_job s then settle PropSuperseded (sb_now s) p else p"
  have "find_proposal s t (supersede_others s d) = map_option ?f (find_proposal s t d)" for t
    unfolding find_proposal_def supersede_others_def update_where_def by (simp, rule find_row_keep) simp
  then have "\<exists>p'. find_proposal s t e = Some p' \<and> pp_id p' = pp_id p \<and> (\<forall>sha q. same_payload p' sha q = same_payload p sha q)"
    if "existing t = Some p" for t p
    using that e by (auto simp: existing_def same_payload_def settle_def split: if_splits)
  note all = persist_messages_again [OF run this]
  have known: "find_proposal s (turn_id_of E m) d' \<noteq> None" if "m \<in> set ms" "is_proposal m" for m
  proof -
    have "m \<in> set (filter is_proposal ms)" using that by simp
    then obtain i where "acknowledged E s d' m i" using all by (auto dest: list_all2_member)
    then show ?thesis by (auto simp: acknowledged_def)
  qed
  show "\<exists>ts. ed_turns d' = ed_turns d @ ts" using all e by (auto simp: grows_def supersede_others_def)
  define again where "again = (\<lambda>turn. if turn \<in> set turns then find_proposal s turn d' else None)"
  have "turn_id_of E m \<noteq> []" if "m \<in> set ms" for m using all persist_turn_keeps(4) that by blast
  then have "\<forall>m \<in> set ms. is_proposal m \<longrightarrow> again (turn_id_of E m) = find_proposal s (turn_id_of E m) d'" by (auto simp: again_def turns_def)
  then have "persist_messages E s again 0 ms d' = Inr (ids, d')" using all by (intro persist_messages_idle) blast+
  moreover have none: "\<not> (\<exists>t \<in> set turns. again t = None)" using known by (auto simp: again_def turns_def)
  moreover have "persist_evidence_ledger E s ms d' =
    (if \<exists>t \<in> set turns. again t = None then
       (if (sb_proxy s, sb_tenant s) \<notin> set (ed_users d') then Inl UserNotFound else persist_messages E s again 0 ms (supersede_others s d'))
     else persist_messages E s again 0 ms d')"
    unfolding persist_evidence_ledger_def Let_def turns_def again_def ..
  ultimately show "persist_evidence_ledger E s ms d' = Inr (ids, d')" by (simp only: if_not_P [OF none] if_False)
qed

subsection \<open>A small conversation\<close>

definition example_message :: "string \<Rightarrow> message" where
  "example_message turn = [(''turn_id'', PStr turn), (''role'', PStr ''assistant''), (''source_kind'', PStr ''assistant_output''),
     (''turn_content_sha256'', PStr (replicate 64 CHR ''a'')), (''is_memory_proposal'', PBool True)]"

definition example_evidence_env :: evidence_env where
  "example_evidence_env = \<lparr>ee_ledger = Ledger.example_env, ee_text = (\<lambda>i. ''job'')\<rparr>"

definition example_submission :: submission where
  "example_submission = \<lparr>sb_tenant = 1, sb_proxy = 2, sb_job = 5, sb_scope = ''external:c'', sb_now = 0\<rparr>"

definition example_proposal :: "uuid \<Rightarrow> int \<Rightarrow> string \<Rightarrow> proposal" where
  "example_proposal i n turn = new_proposal example_evidence_env example_submission i n turn (replicate 64 CHR ''a'') \<lparr>pm_content = None, pm_category = None\<rparr>"

definition example_turn :: "uuid \<Rightarrow> string \<Rightarrow> evidence_turn" where
  "example_turn i turn = \<lparr>et_id = i, et_tenant = 1, et_proxy = 2, et_job = 5, et_scope = ''external:c'', et_turn = turn, et_role = ''assistant'',
     et_source_kind = Some ''assistant_output'', et_sha = replicate 64 CHR ''a'', et_occurred = None, et_created = 0\<rparr>"

definition example_evidence :: evidence_db where
  "example_evidence = \<lparr>ed_users = [(2, 1)], ed_turns = [example_turn 0 ''t'', example_turn 2 ''u''],
     ed_proposals = [example_proposal 1 1 ''t'', example_proposal 3 2 ''u''], ed_next = 4\<rparr>"

lemma example_fields:
  "turn_id_of example_evidence_env (example_message [c]) = (if is_space c then [] else [c])"
  "py_lower (field_text example_evidence_env (example_message t) ''role'') = ''assistant''"
  "py_lower (field_text example_evidence_env (example_message t) ''source_kind'') = ''assistant_output''"
  "py_strip (field_text example_evidence_env (example_message t) ''turn_content_sha256'') = replicate 64 CHR ''a''"
  "proposed_of example_evidence_env (example_message t) = Inr \<lparr>pm_content = None, pm_category = None\<rparr>"
  "occurred_at example_evidence_env (dget (example_message t) ''occurred_at'' PNone) = None"
  "is_proposal (example_message t)" "ee_text example_evidence_env i = ''job''"
  by (simp_all add: example_evidence_env_def turn_id_of_def field_text_def example_message_def py_or_def py_str_def py_strip_def py_lower_def lower_char_def is_space_def
      proposed_of_def py_dict_def or_none_def occurred_at_def is_proposal_def)

lemma example_submitted:
  "persist_evidence_ledger example_evidence_env example_submission [example_message ''t'', example_message ''u''] (empty_evidence [(2, 1)]) =
     Inr ([1, 3], example_evidence)"
  by (simp add: persist_evidence_ledger_def example_fields persist_turn_def persist_proposal_def insert_proposal_def find_turn_def find_proposal_def
      find_row_def supersede_others_def empty_evidence_def example_evidence_def example_turn_def example_proposal_def is_space_def Let_def
      example_submission_def new_proposal_def window_of_def sb_window_def or_none_def)

section \<open>Theorems\<close>

text \<open>
  (C11) The proposal tables implement the ballot: every run of submissions, listings, resolutions and
  claims on tables in order is a run of the specification and leaves the tables in order, and
  resolving a proposal is the specification's settling of it, errors included.
\<close>

theorem proposals_refine_ballot:
  assumes "evidence_ok E d" and "(evidence_step E)\<^sup>*\<^sup>* d d'" and "p \<in> set (ed_proposals d')" and "st \<in> {PropAccepted, PropCancelled}"
  shows "evidence_ok E d' \<and> ballot_step\<^sup>*\<^sup>* (ballot_of (ed_proposals d)) (ballot_of (ed_proposals d')) \<and>
    map_sum id ballot_of (mark_resolved (target_of p) st now (ed_proposals d')) =
      (case spec_settle (pp_id p) st now (ballot_of (ed_proposals d')) of None \<Rightarrow> Inl AlreadyResolved | Some b \<Rightarrow> Inr b)"
proof -
  have run: "evidence_ok E d' \<and> ballot_step\<^sup>*\<^sup>* (ballot_db d) (ballot_db d')" using evidence_simulation.run_simulated [OF assms(2,1)] .
  then have ids: "distinct (map pp_id (ed_proposals d'))" by (simp add: evidence_ok_def proposals_ok_def)
  have st: "st \<noteq> PropActive" using assms(4) by auto
  have look: "proposal_table.lookup (pp_id p) (ed_proposals d') = Some p" by (rule proposal_table.lookup_in [OF ids assms(3)])
  have "spec_settle (pp_id p) st now (ballot_db d') = None" if "\<not> is_active now p"
    using that look by (auto simp: spec_settle_def ballot_of_def entry_of_def is_active_def)
  then show ?thesis
    using run ballot_settle [OF ids assms(3) _ st, of now] mark_resolved_rows [OF ids assms(3,4), of now] by auto
qed

lemma example_evidence_ok: "evidence_ok example_evidence_env example_evidence"
  using persist_evidence_step [OF example_submitted empty_evidence_ok] by blast

theorem proposals_refine_ballot_witness:
  "map_sum id ballot_of (mark_resolved (target_of (example_proposal 1 1 ''t'')) PropAccepted 1 (ed_proposals example_evidence)) =
     (case spec_settle 1 PropAccepted 1 (ballot_of (ed_proposals example_evidence)) of None \<Rightarrow> Inl AlreadyResolved | Some b \<Rightarrow> Inr b) \<and>
   spec_settle 1 PropAccepted 1 (ballot_of (ed_proposals example_evidence)) \<noteq> None"
proof -
  let ?p = "example_proposal 1 1 ''t''"
  have p: "?p \<in> set (ed_proposals example_evidence)" "pp_id ?p = 1" by (simp_all add: example_evidence_def example_proposal_def)
  have "spec_settle 1 PropAccepted 1 (ballot_of (ed_proposals example_evidence)) \<noteq> None"
    by (simp add: spec_settle_def ballot_of_def entry_of_def proposal_table.lookup_def find_row_def example_evidence_def example_proposal_def
        new_proposal_def example_submission_def hour_def)
  then show ?thesis
    using proposals_refine_ballot [OF example_evidence_ok rtranclp.rtrancl_refl p(1), of PropAccepted 1] p(2) by simp
qed

text \<open>
  (C16) However submissions, listings, resolutions and claims interleave, a group has at most one
  accepted proposal, nothing of a group waits beside an accepted one, and what waits in a
  conversation belongs to one group.
\<close>

theorem one_accepted_proposal:
  assumes "(evidence_step E)\<^sup>*\<^sup>* (empty_evidence users) d" and "p \<in> set (ed_proposals d)" and "q \<in> set (ed_proposals d)"
    and "p \<noteq> q" and "window_of p = window_of q"
  shows "(pp_group p = pp_group q \<and> pp_status p = PropAccepted \<longrightarrow> pp_status q \<notin> {PropAccepted, PropActive}) \<and>
    (pp_status p = PropActive \<and> pp_status q = PropActive \<longrightarrow> pp_group p = pp_group q)"
proof -
  have "evidence_ok E d" using evidence_simulation.run_simulated [OF assms(1)] empty_evidence_ok by blast
  then have ids: "distinct (map pp_id (ed_proposals d))" and ok: "ballot_ok (ballot_db d)" by (simp_all add: evidence_ok_def proposals_ok_def)
  have b: "ballot_db d (pp_id r) = Some (entry_of r)" if "r \<in> set (ed_proposals d)" for r
    using proposal_table.lookup_in [OF ids that] by (simp add: ballot_of_def)
  have "pp_id p \<noteq> pp_id q" using assms(2-4) ids by (auto simp: distinct_map inj_on_def)
  then show ?thesis
    using ballot_ok_accepted [OF ok, of "pp_id p" "Slot (window_of q) (pp_group q)" "pp_id q"]
      ballot_ok_waiting [OF ok, of "pp_id p" "Slot (window_of q) (pp_group p)" _ "pp_id q" "Slot (window_of q) (pp_group q)"]
      b [OF assms(2)] b [OF assms(3)] assms(5)
    by (auto simp: entry_of_def split: if_splits)
qed

definition example_accepted :: evidence_db where
  "example_accepted = example_evidence\<lparr>ed_proposals := settle_rows (example_proposal 1 1 ''t'') PropAccepted 1 (ed_proposals example_evidence)\<rparr>"

lemma example_accepted_reached: "(evidence_step example_evidence_env)\<^sup>*\<^sup>* (empty_evidence [(2, 1)]) example_accepted"
proof -
  let ?p = "example_proposal 1 1 ''t''" and ?rows = "ed_proposals example_evidence"
  have p: "?p \<in> set ?rows" by (simp add: example_evidence_def)
  have "is_active 1 ?p" by (simp add: is_active_def example_proposal_def new_proposal_def example_submission_def hour_def)
  moreover have "distinct (map pp_id ?rows)" using example_evidence_ok by (simp add: evidence_ok_def proposals_ok_def)
  ultimately have "mark_resolved (target_of ?p) PropAccepted 1 ?rows = Inr (settle_rows ?p PropAccepted 1 ?rows)"
    using mark_resolved_rows p by simp
  then have "evidence_step example_evidence_env example_evidence example_accepted"
    unfolding example_accepted_def by (rule evidence_step.resolve [OF p])
  with evidence_step.submit [OF example_submitted] show ?thesis by (meson rtranclp.simps)
qed

theorem one_accepted_proposal_witness:
  "\<exists>p q. p \<in> set (ed_proposals example_accepted) \<and> q \<in> set (ed_proposals example_accepted) \<and> pp_status p = PropAccepted \<and>
     pp_status q \<notin> {PropAccepted, PropActive}"
proof -
  let ?p = "settle PropAccepted 1 (example_proposal 1 1 ''t'')" and ?q = "settle PropCancelled 1 (example_proposal 3 2 ''u'')"
  have rows: "ed_proposals example_accepted = [?p, ?q]"
    by (simp add: example_accepted_def example_evidence_def settle_rows_def cancel_others_def) (simp add: example_proposal_def)
  have "?p \<noteq> ?q" "window_of ?p = window_of ?q" "pp_group ?p = pp_group ?q" by (simp_all add: settle_def example_proposal_def new_proposal_def)
      (simp_all add: window_of_def)
  then have "pp_status ?q \<notin> {PropAccepted, PropActive}"
    using one_accepted_proposal [OF example_accepted_reached, of ?p ?q] unfolding rows by simp
  then show ?thesis unfolding rows by (intro exI [of _ ?p] exI [of _ ?q] conjI) simp_all
qed

text \<open>
  A proposal that an explicit reference resolves to can be accepted at that moment: the resolution
  succeeds, the proposal becomes accepted, and nothing of its group is left waiting.
\<close>

theorem resolved_target_can_be_accepted:
  assumes "resolve_explicit_target w proposal ordinal now rows = Inr (t, rows')" and "distinct (map pp_id rows)"
  shows "\<exists>rows''. mark_resolved t PropAccepted now rows' = Inr rows'' \<and>
    {p \<in> set rows''. pp_id p = pt_id t \<and> window_of p = w \<and> pp_status p = PropAccepted} \<noteq> {} \<and>
    {p \<in> set rows''. window_of p = w \<and> pp_group p = pt_group t \<and> pp_status p = PropActive} = {}"
proof -
  have rows': "rows' = expire_window w now rows"
    and one: "filter (\<lambda>t. Some (pt_id t) = proposal \<or> Some (pt_ordinal t) = ordinal) (map target_of (latest_group (active_rows w now rows'))) = [t]"
    using assms(1) unfolding resolve_explicit_target_def active_group_def Let_def by (simp_all split: if_splits list.splits)
  have "t \<in> set (map target_of (latest_group (active_rows w now rows')))" using arg_cong [OF one, of set] by auto
  moreover have "set (latest_group ps) \<subseteq> set ps" for ps by (cases ps) (auto simp: latest_group_def)
  ultimately obtain p where t: "t = target_of p" and p: "p \<in> set rows'" "window_of p = w" "is_active now p"
    by (fastforce simp: active_rows_def)
  have ids: "distinct (map pp_id rows')" using assms(2) by (simp add: rows' expire_window_def map_update_where)
  let ?rows = "settle_rows p PropAccepted now rows'"
  have "mark_resolved t PropAccepted now rows' = Inr ?rows" using mark_resolved_rows [OF ids p(1)] p(3) t by simp
  moreover have "settle PropAccepted now p \<in> {q \<in> set ?rows. pp_id q = pt_id t \<and> window_of q = w \<and> pp_status q = PropAccepted}"
    using settle_rows_self [OF p(1)] p(2) t by (simp add: target_of_def)
  moreover have "{q \<in> set ?rows. window_of q = w \<and> pp_group q = pt_group t \<and> pp_status q = PropActive} = {}"
    using settle_rows_rest [of _ p now rows'] p(2) t by (auto simp: target_of_def)
  ultimately show ?thesis by blast
qed

theorem resolved_target_can_be_accepted_witness:
  "\<exists>t rows' rows''. resolve_explicit_target (1, 2, ''external:c'') None (Some 2) 1 (ed_proposals example_evidence) = Inr (t, rows') \<and>
     mark_resolved t PropAccepted 1 rows' = Inr rows''"
proof -
  have "resolve_explicit_target (1, 2, ''external:c'') None (Some 2) 1 (ed_proposals example_evidence) =
    Inr (target_of (example_proposal 3 2 ''u''), ed_proposals example_evidence)"
    by (simp add: resolve_explicit_target_def active_group_def expire_window_def active_rows_def latest_group_def is_active_def target_of_def
        example_evidence_def example_proposal_def new_proposal_def example_submission_def window_of_def hour_def)
  moreover have "distinct (map pp_id (ed_proposals example_evidence))" using example_evidence_ok by (simp add: evidence_ok_def proposals_ok_def)
  ultimately show ?thesis using resolved_target_can_be_accepted by blast
qed



end
