(* ===== verification/Evidence.thy ===== *)
theory Evidence
  imports Proposals
begin

text \<open>
  The policy of conversational evidence (\<open>src/api/services/evidence_policy.py\<close>): which turns a memory may
  cite, and when a user turn confirms a proposal of the assistant; and the binding of the active
  proposals to the turns of a transcript (\<open>_active_proposal_context\<close> of
  \<open>src/api/tasks/extraction_tasks.py\<close>).

  The matchers of ordinals and denials in free text are regular expressions over several scripts; they
  are parameters of the policy. A number that does not parse raises.
\<close>

section \<open>Decisions\<close>

datatype evidence_authority = UntrustedContext | ClientAssertion | LegacyConversation | ApplicationAttested | MemoryosAttested

fun authority_value :: "evidence_authority \<Rightarrow> int" where
  "authority_value UntrustedContext = 10"
| "authority_value ClientAssertion = 20"
| "authority_value LegacyConversation = 50"
| "authority_value ApplicationAttested = 60"
| "authority_value MemoryosAttested = 100"

record evidence_decision =
  dn_accepted :: bool
  dn_authority :: evidence_authority
  dn_reason :: string
  dn_turns :: "int list"
  dn_proposal_turn :: "int option"
  dn_proposal_id :: "string option"
  dn_group_id :: "string option"
  dn_ordinal :: "int option"
  dn_review :: bool

definition decided :: "bool \<Rightarrow> string \<Rightarrow> int list \<Rightarrow> int option \<Rightarrow> evidence_decision" where
  "decided ok reason turns pt =
     \<lparr>dn_accepted = ok, dn_authority = ClientAssertion, dn_reason = reason, dn_turns = turns, dn_proposal_turn = pt,
      dn_proposal_id = None, dn_group_id = None, dn_ordinal = None, dn_review = False\<rparr>"

definition rejected :: "string \<Rightarrow> evidence_decision" where
  "rejected reason = decided False reason [] None"

definition authority_for_submission :: "string \<Rightarrow> bool \<Rightarrow> string set option \<Rightarrow> evidence_authority" where
  "authority_for_submission mode envelope capabilities =
     (if envelope then MemoryosAttested
      else if ''user_evidence:attest'' \<in> (case capabilities of None \<Rightarrow> {} | Some c \<Rightarrow> c) then ApplicationAttested
      else if mode = ''client_assertion'' then ClientAssertion
      else LegacyConversation)"

section \<open>Turns\<close>

definition canonical_role :: "evidence_env \<Rightarrow> message \<Rightarrow> string" where
  "canonical_role E m = py_lower (py_strip (field_text E m ''role''))"

definition source_kind :: "evidence_env \<Rightarrow> message \<Rightarrow> string" where
  "source_kind E m =
     (let k = py_lower (py_strip (field_text E m ''source_kind''))
      in if k \<noteq> [] then k else if canonical_role E m = ''user'' then ''direct_user_input'' else ''assistant_output'')"

definition eligible_user_source_kinds :: "string set" where
  "eligible_user_source_kinds = {''direct_user_input'', ''client_assertion''}"

definition is_user_turn :: "evidence_env \<Rightarrow> message \<Rightarrow> bool" where
  "is_user_turn E m \<longleftrightarrow> canonical_role E m = ''user'' \<and> source_kind E m \<in> eligible_user_source_kinds"

definition eligible_user_turn_indexes :: "evidence_env \<Rightarrow> message list \<Rightarrow> nat list" where
  "eligible_user_turn_indexes E ms =
     filter (\<lambda>i. is_user_turn E (ms ! i) \<and> py_strip (field_text E (ms ! i) ''content'') \<noteq> []) [0..<length ms]"

section \<open>The active proposals of a transcript\<close>

definition unique_turn :: "evidence_env \<Rightarrow> message list \<Rightarrow> string \<Rightarrow> nat option" where
  "unique_turn E ms turn =
     (case filter (\<lambda>i. turn_id_of E (ms ! i) \<noteq> [] \<and> turn_id_of E (ms ! i) = turn) [0..<length ms] of [i] \<Rightarrow> Some i | _ \<Rightarrow> None)"

definition proposal_location :: "evidence_env \<Rightarrow> message list \<Rightarrow> proposal \<Rightarrow> int" where
  "proposal_location E ms p =
     (case unique_turn E ms (pp_turn p) of
        None \<Rightarrow> -1
      | Some i \<Rightarrow>
          if py_lower (field_text E (ms ! i) ''role'') = ''assistant'' \<and> py_lower (field_text E (ms ! i) ''source_kind'') = ''assistant_output'' \<and>
             field_text E (ms ! i) ''turn_content_sha256'' = pp_sha p
          then int i else -1)"

definition opt_str :: "string option \<Rightarrow> pyval" where
  "opt_str s = (case s of None \<Rightarrow> PNone | Some t \<Rightarrow> PStr t)"

definition proposal_entry :: "evidence_env \<Rightarrow> (utc \<Rightarrow> string) \<Rightarrow> message list \<Rightarrow> proposal \<Rightarrow> message" where
  "proposal_entry E isof ms p =
     [(''id'', PStr (ee_text E (pp_id p))), (''group_id'', PStr (pp_group p)), (''ordinal'', PInt (pp_ordinal p)),
      (''turn_index'', PInt (proposal_location E ms p)), (''turn_id'', PStr (pp_turn p)), (''content_sha256'', PStr (pp_sha p)),
      (''memory_content'', opt_str (pp_memory_content p)), (''memory_category'', opt_str (pp_memory_category p)),
      (''expires_at'', PStr (isof (pp_expires p)))]"

text \<open>The context, and the messages with the mark of a registered proposal.\<close>

definition mark_registered :: "evidence_env \<Rightarrow> proposal list \<Rightarrow> message list \<Rightarrow> message list" where
  "mark_registered E ps ms =
     map (\<lambda>i. if int i \<in> set (map (proposal_location E ms) ps) then AList.update ''_registered_memory_proposal'' (PBool True) (ms ! i) else ms ! i)
       [0..<length ms]"

definition active_proposal_context ::
  "evidence_env \<Rightarrow> (utc \<Rightarrow> string) \<Rightarrow> message \<Rightarrow> utc \<Rightarrow> proposal list \<Rightarrow> message list \<Rightarrow> evidence_error + message list \<times> message list" where
  "active_proposal_context E isof job_dict now rows ms =
     (let tenant = py_strip (field_text E job_dict ''tenant_id''); proxy = py_strip (field_text E job_dict ''proxy_user_id'');
          job = py_strip (field_text E job_dict ''job_id''); external = py_strip (field_text E job_dict ''external_conversation_id'');
          scope = (if external \<noteq> [] then ''external:'' @ external else ''job:'' @ job)
      in if tenant = [] \<or> proxy = [] \<or> job = [] then Inr ([], ms)
         else
           (case (uuid_of (ee_ledger E) tenant, uuid_of (ee_ledger E) proxy) of
              (Some t, Some p) \<Rightarrow>
                (let ps = latest_group (active_rows (t, p, scope) now rows)
                 in Inr (map (proposal_entry E isof ms) ps, mark_registered E ps ms))
            | _ \<Rightarrow> Inl MalformedEvidence))"

section \<open>Validation\<close>

record text_matchers =
  tm_ordinal :: "string \<Rightarrow> message list \<Rightarrow> int option"
  tm_denied :: "string \<Rightarrow> message list \<Rightarrow> int set"
  tm_denial :: "string \<Rightarrow> bool"
  tm_structured_denied :: "string \<Rightarrow> message list \<Rightarrow> int set"
  tm_memory_denial :: "string \<Rightarrow> bool"

definition structured_proposal_denied :: "text_matchers \<Rightarrow> string \<Rightarrow> int \<Rightarrow> message list \<Rightarrow> bool" where
  "structured_proposal_denied M txt ordinal active \<longleftrightarrow> ordinal \<in> tm_structured_denied M txt active \<or> tm_memory_denial M txt"

fun valid_index :: "nat \<Rightarrow> pyval \<Rightarrow> int option" where
  "valid_index n (PInt i) = (if 0 \<le> i \<and> i < int n then Some i else None)"
| "valid_index n v = None"

definition cited_indexes :: "nat \<Rightarrow> pyval list \<Rightarrow> int list" where
  "cited_indexes n vs = sort (remdups (List.map_filter (valid_index n) vs))"

definition visible_turn :: "int set option \<Rightarrow> int \<Rightarrow> bool" where
  "visible_turn visible i \<longleftrightarrow> (case visible of None \<Rightarrow> True | Some v \<Rightarrow> i \<in> v)"

definition user_index :: "evidence_env \<Rightarrow> message list \<Rightarrow> int \<Rightarrow> bool" where
  "user_index E ms i \<longleftrightarrow> is_user_turn E (ms ! nat i)"

text \<open>The turns after a proposal: the cited ones, or the last that the model could see.\<close>

definition later_user_turns :: "evidence_env \<Rightarrow> message list \<Rightarrow> int set option \<Rightarrow> int \<Rightarrow> int list" where
  "later_user_turns E ms visible pt =
     filter (\<lambda>i. pt < i \<and> user_index E ms i \<and> visible_turn visible i) (map int [0..<length ms])"

definition answering_turns :: "evidence_env \<Rightarrow> message list \<Rightarrow> int set option \<Rightarrow> int \<Rightarrow> int list \<Rightarrow> int list" where
  "answering_turns E ms visible pt cited =
     (let own = filter (\<lambda>i. pt < i) cited; late = later_user_turns E ms visible pt
      in if own \<noteq> [] then own else if late = [] then [] else [last late])"

definition int_field :: "message \<Rightarrow> string \<Rightarrow> int option" where
  "int_field m k = py_int (dget m k (PInt (-1)))"

definition same_turn :: "evidence_env \<Rightarrow> message \<Rightarrow> message \<Rightarrow> bool" where
  "same_turn E p m \<longleftrightarrow> field_text E p ''turn_id'' = field_text E m ''turn_id'' \<and> field_text E p ''content_sha256'' = field_text E m ''turn_content_sha256''"

fun find_target :: "evidence_env \<Rightarrow> message \<Rightarrow> int \<Rightarrow> message list \<Rightarrow> evidence_error + message option" where
  "find_target E m pt [] = Inr None"
| "find_target E m pt (p # ps) =
     (case int_field p ''turn_index'' of
        None \<Rightarrow> Inl MalformedEvidence
      | Some i \<Rightarrow> if i = pt \<and> same_turn E p m then Inr (Some p) else find_target E m pt ps)"

definition accepted_proposal :: "evidence_env \<Rightarrow> string \<Rightarrow> int list \<Rightarrow> int \<Rightarrow> message \<Rightarrow> evidence_error + evidence_decision" where
  "accepted_proposal E reason turns pt target =
     (let d = (decided True reason turns (Some pt))\<lparr>dn_proposal_id := or_none (field_text E target ''id''), dn_group_id := or_none (field_text E target ''group_id'')\<rparr>
      in case dget target ''ordinal'' PNone of
           PNone \<Rightarrow> Inr d
         | v \<Rightarrow> (case py_int v of None \<Rightarrow> Inl MalformedEvidence | Some n \<Rightarrow> Inr (d\<lparr>dn_ordinal := Some n\<rparr>)))"

definition decide_target ::
  "evidence_env \<Rightarrow> text_matchers \<Rightarrow> bool \<Rightarrow> message list \<Rightarrow> string \<Rightarrow> int list \<Rightarrow> int \<Rightarrow> message \<Rightarrow> evidence_error + evidence_decision" where
  "decide_target E M structured active txt turns pt target =
     (case int_field target ''ordinal'' of
        None \<Rightarrow> Inl MalformedEvidence
      | Some ordinal \<Rightarrow>
          if structured then
            (if structured_proposal_denied M txt ordinal active then Inr (decided False ''explicit_confirmation_denied'' turns (Some pt))
             else accepted_proposal E ''verified_structured_proposal_reference'' turns pt target)
          else
            (let referenced = tm_ordinal M txt active; denied = tm_denied M txt active
             in if tm_denial M txt \<and> (denied = {} \<or> referenced = None \<or> ordinal \<in> denied)
                then Inr (decided False ''explicit_confirmation_denied'' turns (Some pt))
                else if referenced \<noteq> None \<and> Some ordinal \<noteq> referenced
                then Inr ((decided False ''proposal_reference_mismatch'' turns (Some pt))\<lparr>dn_review := True\<rparr>)
                else if referenced = None \<and> length active \<noteq> 1
                then Inr ((decided False ''ambiguous_proposal_reference'' turns (Some pt))\<lparr>dn_review := True\<rparr>)
                else accepted_proposal E ''verified_proposal_reference'' turns pt target))"

definition validate_confirmation ::
  "evidence_env \<Rightarrow> text_matchers \<Rightarrow> message list \<Rightarrow> int list \<Rightarrow> pyval \<Rightarrow> int set option \<Rightarrow> message list \<Rightarrow> bool \<Rightarrow> evidence_error + evidence_decision" where
  "validate_confirmation E M ms cited proposal_turn visible active structured =
     (case proposal_turn of
        PInt pt \<Rightarrow>
          if \<not> (0 \<le> pt \<and> pt < int (length ms)) then Inr (rejected ''invalid_proposal_turn'')
          else if \<not> visible_turn visible pt then Inr (rejected ''proposal_not_visible_to_model'')
          else if canonical_role E (ms ! nat pt) \<noteq> ''assistant'' then Inr (rejected ''proposal_not_assistant'')
          else if source_kind E (ms ! nat pt) \<noteq> ''assistant_output'' then Inr (rejected ''proposal_not_assistant_output'')
          else if \<not> is_proposal (ms ! nat pt) then Inr (rejected ''proposal_not_registered'')
          else
            (let turns = answering_turns E ms visible pt cited
             in if turns = [] then Inr (rejected ''no_user_evidence'')
                else if Max (set turns) - pt > 12 then Inr (rejected ''proposal_outside_turn_window'')
                else
                  (case find_target E (ms ! nat pt) pt active of
                     Inl x \<Rightarrow> Inl x
                   | Inr None \<Rightarrow> Inr (rejected ''proposal_not_active'')
                   | Inr (Some target) \<Rightarrow>
                       decide_target E M structured active (field_text E (ms ! nat (Max (set turns))) ''content'') turns pt target))
      | _ \<Rightarrow> Inr (rejected ''missing_proposal_turn''))"

definition validate_conversational_evidence ::
  "evidence_env \<Rightarrow> text_matchers \<Rightarrow> message list \<Rightarrow> pyval \<Rightarrow> pyval \<Rightarrow> pyval \<Rightarrow> int set option \<Rightarrow> bool \<Rightarrow> message list \<Rightarrow> bool
    \<Rightarrow> evidence_error + evidence_decision" where
  "validate_conversational_evidence E M ms evidence_turns relation proposal_turn visible enabled active structured =
     (case evidence_turns of
        PList (v # vs) \<Rightarrow>
          (let indexes = cited_indexes (length ms) (v # vs); cited = filter (user_index E ms) indexes;
               rel = py_str (ee_ledger E) (py_or relation (PStr ''direct_user_statement''))
           in if length indexes \<noteq> length (v # vs) then Inr (rejected ''invalid_evidence_turn'')
              else if \<exists>i \<in> set indexes. \<not> visible_turn visible i then Inr (rejected ''evidence_not_visible_to_model'')
              else if rel = ''direct_user_statement'' then
                Inr (if cited = [] then rejected ''no_user_evidence'' else decided True ''direct_user_statement'' cited None)
              else if rel \<noteq> ''user_confirmed_assistant_proposal'' then Inr (rejected ''unsupported_relation'')
              else if \<not> enabled then Inr (rejected ''semantic_confirmation_not_enabled'')
              else validate_confirmation E M ms cited proposal_turn visible active structured)
      | _ \<Rightarrow> Inr (rejected ''missing_evidence''))"

section \<open>What acceptance means\<close>

text \<open>The turns a decision rests on are turns of the user that the model could see.\<close>

definition grounded :: "evidence_env \<Rightarrow> message list \<Rightarrow> int set option \<Rightarrow> int list \<Rightarrow> bool" where
  "grounded E ms visible turns \<longleftrightarrow>
     turns \<noteq> [] \<and> (\<forall>i \<in> set turns. 0 \<le> i \<and> i < int (length ms) \<and> is_user_turn E (ms ! nat i) \<and> visible_turn visible i)"

definition confirms_proposal ::
  "evidence_env \<Rightarrow> message list \<Rightarrow> message list \<Rightarrow> evidence_decision \<Rightarrow> bool" where
  "confirms_proposal E ms active d \<longleftrightarrow>
     (\<exists>pt target. dn_proposal_turn d = Some pt \<and> 0 \<le> pt \<and> pt < int (length ms) \<and> is_proposal (ms ! nat pt) \<and>
        canonical_role E (ms ! nat pt) = ''assistant'' \<and> (\<forall>i \<in> set (dn_turns d). pt < i \<and> i \<le> pt + 12) \<and>
        target \<in> set active \<and> int_field target ''turn_index'' = Some pt \<and> same_turn E target (ms ! nat pt) \<and>
        dn_proposal_id d = or_none (field_text E target ''id''))"

lemma cited_indexes_range: "i \<in> set (cited_indexes n vs) \<Longrightarrow> 0 \<le> i \<and> i < int n"
  by (auto simp: cited_indexes_def List.map_filter_def elim!: valid_index.elims split: if_splits)

lemma find_target_Some: "find_target E m pt active = Inr (Some t) \<Longrightarrow> t \<in> set active \<and> int_field t ''turn_index'' = Some pt \<and> same_turn E t m"
  by (induction E m pt active rule: find_target.induct) (auto split: option.splits if_splits)

lemma accepted_proposal_fields:
  "accepted_proposal E reason turns pt target = Inr d \<Longrightarrow>
     dn_turns d = turns \<and> dn_proposal_turn d = Some pt \<and> dn_proposal_id d = or_none (field_text E target ''id'') \<and> dn_authority d = ClientAssertion"
  by (auto simp: accepted_proposal_def decided_def Let_def split: pyval.splits option.splits)

lemma decide_target_accepted:
  assumes "decide_target E M structured active txt turns pt target = Inr d" and "dn_accepted d"
  shows "dn_turns d = turns \<and> dn_proposal_turn d = Some pt \<and> dn_proposal_id d = or_none (field_text E target ''id'') \<and> dn_authority d = ClientAssertion"
  using assms by (auto simp: decide_target_def decided_def Let_def dest!: accepted_proposal_fields split: option.splits if_splits)

lemma answering_turns_grounded:
  assumes "\<forall>i \<in> set cited. 0 \<le> i \<and> i < int (length ms) \<and> is_user_turn E (ms ! nat i) \<and> visible_turn visible i"
    and "answering_turns E ms visible pt cited \<noteq> []"
  shows "grounded E ms visible (answering_turns E ms visible pt cited) \<and> (\<forall>i \<in> set (answering_turns E ms visible pt cited). pt < i)"
proof -
  have late: "0 \<le> i \<and> i < int (length ms) \<and> is_user_turn E (ms ! nat i) \<and> visible_turn visible i \<and> pt < i"
    if "i \<in> set (later_user_turns E ms visible pt)" for i
    using that by (auto simp: later_user_turns_def user_index_def)
  show ?thesis
  proof (cases "filter (\<lambda>i. pt < i) cited = []")
    case True
    then have "answering_turns E ms visible pt cited = [last (later_user_turns E ms visible pt)]" "later_user_turns E ms visible pt \<noteq> []"
      using assms(2) by (auto simp: answering_turns_def Let_def split: if_splits)
    then show ?thesis using late [OF last_in_set] by (simp add: grounded_def)
  next
    case False
    then have "answering_turns E ms visible pt cited = filter (\<lambda>i. pt < i) cited" by (simp add: answering_turns_def)
    then show ?thesis using assms(1) False by (simp add: grounded_def)
  qed
qed

lemma validate_confirmation_accepted:
  assumes "validate_confirmation E M ms cited proposal_turn visible active structured = Inr d" and "dn_accepted d"
    and cited: "\<forall>i \<in> set cited. 0 \<le> i \<and> i < int (length ms) \<and> is_user_turn E (ms ! nat i) \<and> visible_turn visible i"
  shows "grounded E ms visible (dn_turns d) \<and> dn_authority d = ClientAssertion \<and> confirms_proposal E ms active d"
proof -
  obtain pt where pt: "proposal_turn = PInt pt" using assms(1,2) by (cases proposal_turn) (auto simp: validate_confirmation_def rejected_def decided_def)
  let ?turns = "answering_turns E ms visible pt cited"
  have range: "0 \<le> pt" "pt < int (length ms)" and role: "canonical_role E (ms ! nat pt) = ''assistant''" and registered: "is_proposal (ms ! nat pt)"
    and turns: "?turns \<noteq> []" and window: "\<not> Max (set ?turns) - pt > 12"
    using assms(1,2) unfolding pt by (auto simp: validate_confirmation_def rejected_def decided_def Let_def split: if_splits)
  then obtain target where target: "find_target E (ms ! nat pt) pt active = Inr (Some target)"
    and decision: "decide_target E M structured active (field_text E (ms ! nat (Max (set ?turns))) ''content'') ?turns pt target = Inr d"
    using assms(1,2) unfolding pt
    by (auto simp: validate_confirmation_def rejected_def decided_def Let_def split: if_splits sum.splits option.splits)
  note fields = decide_target_accepted [OF decision assms(2)]
  have "\<forall>i \<in> set ?turns. i \<le> pt + 12"
  proof
    fix i
    assume "i \<in> set ?turns"
    then have "i \<le> Max (set ?turns)" by simp
    then show "i \<le> pt + 12" using window by simp
  qed
  then show ?thesis
    using fields answering_turns_grounded [OF cited turns] find_target_Some [OF target] range role registered
    unfolding confirms_proposal_def by auto
qed

lemma accepted_evidence_confirms:
  assumes "validate_conversational_evidence E M ms evidence_turns relation proposal_turn visible enabled active structured = Inr d"
    and "dn_accepted d"
  shows "grounded E ms visible (dn_turns d) \<and> dn_authority d = ClientAssertion \<and>
    (dn_proposal_turn d = None \<or> enabled \<and> confirms_proposal E ms active d)"
proof -
  obtain v vs where turns: "evidence_turns = PList (v # vs)"
    using assms by (cases evidence_turns) (auto simp: validate_conversational_evidence_def rejected_def decided_def split: list.splits)
  let ?indexes = "cited_indexes (length ms) (v # vs)"
  have seen: "\<forall>i \<in> set ?indexes. visible_turn visible i"
    using assms unfolding turns by (auto simp: validate_conversational_evidence_def rejected_def decided_def Let_def split: if_splits)
  have cited: "\<forall>i \<in> set (filter (user_index E ms) ?indexes). 0 \<le> i \<and> i < int (length ms) \<and> is_user_turn E (ms ! nat i) \<and> visible_turn visible i"
    using seen cited_indexes_range [of _ "length ms" "v # vs"] by (auto simp: user_index_def)
  consider (direct) "filter (user_index E ms) ?indexes \<noteq> []" "d = decided True ''direct_user_statement'' (filter (user_index E ms) ?indexes) None"
    | (confirmed) "enabled" "validate_confirmation E M ms (filter (user_index E ms) ?indexes) proposal_turn visible active structured = Inr d"
    using assms unfolding turns by (auto simp: validate_conversational_evidence_def rejected_def decided_def Let_def split: if_splits)
  then show ?thesis
  proof cases
    case direct
    then show ?thesis using cited by (simp add: grounded_def decided_def)
  next
    case confirmed
    then show ?thesis using validate_confirmation_accepted [OF confirmed(2) assms(2) cited] by simp
  qed
qed

lemma field_text_entry:
  "field_text E (proposal_entry E isof ms p) ''id'' = ee_text E (pp_id p)"
  "field_text E (proposal_entry E isof ms p) ''turn_id'' = pp_turn p"
  "field_text E (proposal_entry E isof ms p) ''content_sha256'' = pp_sha p"
  by (simp_all add: field_text_def proposal_entry_def py_or_def py_str_def)

lemma active_context_rows:
  assumes "active_proposal_context E isof job_dict now rows ms = Inr (active, ms')" and "target \<in> set active"
  shows "\<exists>p. target = proposal_entry E isof ms p \<and> p \<in> set rows \<and> is_active now p"
proof -
  have "set (latest_group ps) \<subseteq> set ps" for ps by (cases ps) (auto simp: latest_group_def)
  then show ?thesis using assms
    by (fastforce simp: active_proposal_context_def Let_def active_rows_def split: if_splits option.splits)
qed

text \<open>
  (C12) Accepted evidence is grounded: whatever a model cites, an accepted decision rests on at least one
  turn of the user from a direct source that the model could see and never exceeds the authority of a
  client assertion; and an accepted confirmation names an active proposal that the assistant made at
  that turn with that content, at most twelve turns before the answer.
\<close>

theorem accepted_evidence_is_grounded:
  assumes "validate_conversational_evidence E M ms evidence_turns relation proposal_turn visible enabled active structured = Inr d"
    and "dn_accepted d"
  shows "grounded E ms visible (dn_turns d) \<and> dn_authority d = ClientAssertion \<and>
    (dn_proposal_turn d = None \<or> enabled \<and> confirms_proposal E ms active d)"
  using accepted_evidence_confirms [OF assms] .

subsection \<open>A small dialogue\<close>

definition dialogue_env :: evidence_env where
  "dialogue_env = \<lparr>ee_ledger = Ledger.example_env\<lparr>uuid_of := (\<lambda>s. if s = [] then None else Some (length s - 1))\<rparr>, ee_text = (\<lambda>i. replicate (Suc i) CHR ''x'')\<rparr>"

definition silent_matchers :: text_matchers where
  "silent_matchers = \<lparr>tm_ordinal = (\<lambda>t a. None), tm_denied = (\<lambda>t a. {}), tm_denial = (\<lambda>t. False),
     tm_structured_denied = (\<lambda>t a. {}), tm_memory_denial = (\<lambda>t. False)\<rparr>"

definition dialogue :: "message list" where
  "dialogue = [example_message ''t'', [(''turn_id'', PStr ''u''), (''role'', PStr ''user''), (''content'', PStr ''yes'')]]"

definition dialogue_job :: message where
  "dialogue_job = [(''tenant_id'', PStr ''xx''), (''proxy_user_id'', PStr ''xxx''), (''job_id'', PStr ''j''), (''external_conversation_id'', PStr ''c'')]"

definition dialogue_proposal :: proposal where
  "dialogue_proposal = example_proposal 1 1 ''t''"

lemma dialogue_proposal_simps [simp]:
  "pp_id dialogue_proposal = 1" "window_of dialogue_proposal = (1, 2, ''external:c'')" "pp_group dialogue_proposal = ''job''"
  "pp_turn dialogue_proposal = ''t''" "pp_sha dialogue_proposal = replicate 64 CHR ''a''" "pp_ordinal dialogue_proposal = 1"
  "is_active 1 dialogue_proposal"
  by (simp_all add: dialogue_proposal_def example_proposal_def new_proposal_def example_submission_def window_of_def is_active_def hour_def
      example_evidence_env_def)

definition dialogue_rows :: "proposal list" where
  "dialogue_rows = [dialogue_proposal]"

definition dialogue_context :: "message list" where
  "dialogue_context = [proposal_entry dialogue_env (\<lambda>t. []) dialogue dialogue_proposal]"

lemma dialogue_text [simp]: "py_str (ee_ledger dialogue_env) (PStr t) = t" "ee_text dialogue_env i = replicate (Suc i) CHR ''x''"
  by (simp_all add: dialogue_env_def py_str_def)

lemma dialogue_turns:
  "turn_id_of dialogue_env (dialogue ! 0) = ''t''" "turn_id_of dialogue_env (dialogue ! Suc 0) = ''u''"
  "canonical_role dialogue_env (dialogue ! 0) = ''assistant''" "source_kind dialogue_env (dialogue ! 0) = ''assistant_output''"
  "field_text dialogue_env (dialogue ! 0) ''turn_content_sha256'' = replicate 64 CHR ''a''" "field_text dialogue_env (dialogue ! 0) ''turn_id'' = ''t''"
  "is_proposal (dialogue ! 0)" "is_user_turn dialogue_env (dialogue ! Suc 0)" "\<not> is_user_turn dialogue_env (dialogue ! 0)"
  "py_lower (field_text dialogue_env (dialogue ! 0) ''role'') = ''assistant''"
  "py_lower (field_text dialogue_env (dialogue ! 0) ''source_kind'') = ''assistant_output''" "length dialogue = 2"
  by (simp_all add: dialogue_def example_message_def turn_id_of_def field_text_def py_or_def py_strip_def is_space_def canonical_role_def
      source_kind_def py_lower_def lower_char_def is_proposal_def is_user_turn_def eligible_user_source_kinds_def)

lemma dialogue_location: "proposal_location dialogue_env dialogue dialogue_proposal = 0"
proof -
  have upt: "[0..<length dialogue] = [0, Suc 0]" by (simp add: dialogue_turns upt_rec)
  have "unique_turn dialogue_env dialogue ''t'' = Some 0" unfolding unique_turn_def upt by (simp add: dialogue_turns)
  then show ?thesis by (simp add: proposal_location_def dialogue_turns)
qed

lemma dialogue_bound:
  "active_proposal_context dialogue_env (\<lambda>t. []) dialogue_job 1 dialogue_rows dialogue =
     Inr (dialogue_context, mark_registered dialogue_env [dialogue_proposal] dialogue)"
proof -
  have "field_text dialogue_env dialogue_job ''tenant_id'' = ''xx''" "field_text dialogue_env dialogue_job ''proxy_user_id'' = ''xxx''"
    "field_text dialogue_env dialogue_job ''job_id'' = ''j''" "field_text dialogue_env dialogue_job ''external_conversation_id'' = ''c''"
    by (simp_all add: dialogue_job_def field_text_def py_or_def)
  moreover have "latest_group (active_rows (1, 2, ''external:c'') 1 dialogue_rows) = dialogue_rows"
    by (simp add: latest_group_def active_rows_def dialogue_rows_def)
  moreover have "uuid_of (ee_ledger dialogue_env) ''xx'' = Some 1" "uuid_of (ee_ledger dialogue_env) ''xxx'' = Some 2"
    by (simp_all add: dialogue_env_def)
  ultimately show ?thesis
    by (simp add: active_proposal_context_def py_strip_def is_space_def dialogue_context_def) (simp add: dialogue_rows_def)
qed

definition dialogue_decision :: evidence_decision where
  "dialogue_decision = \<lparr>dn_accepted = True, dn_authority = ClientAssertion, dn_reason = ''verified_proposal_reference'', dn_turns = [1],
     dn_proposal_turn = Some 0, dn_proposal_id = Some ''xx'', dn_group_id = Some ''job'', dn_ordinal = Some 1, dn_review = False\<rparr>"

lemma dialogue_accepted:
  "validate_conversational_evidence dialogue_env silent_matchers dialogue (PList [PInt 1]) (PStr ''user_confirmed_assistant_proposal'') (PInt 0)
     None True dialogue_context False = Inr dialogue_decision"
proof -
  have cited: "filter (user_index dialogue_env dialogue) (cited_indexes (length dialogue) [PInt 1]) = [1]" "cited_indexes (length dialogue) [PInt 1] = [1]"
    by (simp_all add: cited_indexes_def List.map_filter_def user_index_def dialogue_turns)
  have answer: "answering_turns dialogue_env dialogue None 0 [1] = [1]" by (simp add: answering_turns_def)
  let ?p = "proposal_entry dialogue_env (\<lambda>t. []) dialogue dialogue_proposal"
  have fields: "field_text dialogue_env ?p ''turn_id'' = ''t''" "field_text dialogue_env ?p ''content_sha256'' = replicate 64 CHR ''a''"
    "field_text dialogue_env ?p ''id'' = ''xx''" "field_text dialogue_env ?p ''group_id'' = ''job''" "int_field ?p ''turn_index'' = Some 0"
    "int_field ?p ''ordinal'' = Some 1" "dget ?p ''ordinal'' PNone = PInt 1"
    by (simp_all add: proposal_entry_def field_text_def py_or_def int_field_def dialogue_location)
  have "find_target dialogue_env (dialogue ! 0) 0 dialogue_context = Inr (Some ?p)"
    by (simp add: dialogue_context_def fields same_turn_def dialogue_turns)
  then have "validate_confirmation dialogue_env silent_matchers dialogue [1] (PInt 0) None dialogue_context False = Inr dialogue_decision"
    by (simp add: validate_confirmation_def dialogue_turns visible_turn_def answer decide_target_def fields silent_matchers_def dialogue_context_def
        accepted_proposal_def decided_def or_none_def dialogue_decision_def)
  then show ?thesis using cited
    by (simp add: validate_conversational_evidence_def py_or_def visible_turn_def Let_def user_index_def dialogue_turns)
qed

theorem accepted_evidence_is_grounded_witness:
  "grounded dialogue_env dialogue None [1] \<and> confirms_proposal dialogue_env dialogue dialogue_context dialogue_decision"
  using accepted_evidence_is_grounded [OF dialogue_accepted] by (simp add: dialogue_decision_def)

section \<open>From confirmation to claim\<close>



end
