(* ===== verification/Review.thy ===== *)
theory Review
  imports Conflicts Ranking
begin

text \<open>
  Conflicts between the memories of different users, and the questions put to a user: the rows, the
  routing of \<open>src/api/services/conflict_routing/\<close>, the automatic resolution and the clarification
  queue of \<open>src/api/services/conflict_resolver.py\<close>.

  The session has \<open>add\<close>, \<open>get\<close>, \<open>execute\<close> and \<open>flush\<close>; a related row of a conflict is the row its
  foreign key names. \<open>ut\<close> is \<open>str\<close> on a UUID; the order of two UUIDs is that of their texts. A memory always has a proxy user, so the branch for a memory without one is not
  reached. A UUID inside a JSON document is its number.
\<close>

section \<open>Rows\<close>

datatype entity_type =
    TechStack | CompanyFact | ProductFeature | TeamProcess | SharedGoal | OrganisationPolicy | TeamLanguage
  | SharedResource | ExamDate | GradeLevel | PersonalSkill | PersonalPreference | IndividualGoal | LearningStyle
  | PersonalFact | MarksTarget | StudySchedule

fun entity_name :: "entity_type \<Rightarrow> string" where
  "entity_name TechStack = ''tech_stack''"
| "entity_name CompanyFact = ''company_fact''"
| "entity_name ProductFeature = ''product_feature''"
| "entity_name TeamProcess = ''team_process''"
| "entity_name SharedGoal = ''shared_goal''"
| "entity_name OrganisationPolicy = ''organisation_policy''"
| "entity_name TeamLanguage = ''team_language''"
| "entity_name SharedResource = ''shared_resource''"
| "entity_name ExamDate = ''exam_date''"
| "entity_name GradeLevel = ''grade_level''"
| "entity_name PersonalSkill = ''personal_skill''"
| "entity_name PersonalPreference = ''personal_preference''"
| "entity_name IndividualGoal = ''individual_goal''"
| "entity_name LearningStyle = ''learning_style''"
| "entity_name PersonalFact = ''personal_fact''"
| "entity_name MarksTarget = ''marks_target''"
| "entity_name StudySchedule = ''study_schedule''"

datatype conflict_status = ConflictPending | ClarificationQueued | ConflictResolved | ConflictIgnored

datatype resolution_path = UserSession | TenantReview

record conflict_row = cross_user_conflict +
  cf_entity_type :: entity_type
  cf_value_a :: string
  cf_value_b :: string
  cf_detected_at :: utc
  cf_status :: conflict_status
  cf_auto_resolution :: "string option"
  cf_auto_resolution_at :: "utc option"
  cf_path :: "resolution_path option"
  cf_resolution_reason :: "string option"
  cf_requires_attention :: bool

record clarification =
  q_tenant_id :: uuid
  q_proxy_user_id :: uuid
  question_context :: string
  q_conflict_id :: uuid
  trigger_on :: string

datatype audit_action = MemoryCreated | Updated | Archived | Deleted

record audit_log =
  au_user_id :: uuid
  au_proxy_user_id :: "uuid option"
  au_action :: audit_action
  au_memory_id :: "uuid option"
  au_old_value :: pyval
  au_new_value :: pyval

record context_signal =
  sg_tenant_id :: uuid
  sg_entity_type :: entity_type
  sg_value :: string
  sg_proxy_user_id :: "uuid option"
  sg_memory_id :: "uuid option"
  sg_confidence :: pyfloat
  sg_superseded :: bool

text \<open>
  The tables beside those of \<^typ>\<open>db\<close>; the ids come from the same supply. The last two fields are
  the counters of the resolver.
\<close>

record review_db =
  base :: db
  conflict_rows :: "conflict_row list"
  clarifications :: "clarification list"
  audit_logs :: "audit_log list"
  signals :: "context_signal list"
  conflicts_flagged :: int
  clarifications_queued :: int

definition put_conflict :: "conflict_row \<Rightarrow> review_db \<Rightarrow> review_db" where
  "put_conflict r s = s\<lparr>conflict_rows := update_where (\<lambda>x. cf_id x = cf_id r) (\<lambda>_. r) (conflict_rows s)\<rparr>"

definition add_conflict :: "conflict_row \<Rightarrow> review_db \<Rightarrow> review_db" where
  "add_conflict r s = s\<lparr>conflict_rows := conflict_rows s @ [r], base := (base s)\<lparr>next_id := Suc (next_id (base s))\<rparr>\<rparr>"

definition build_cross_user_conflict_row ::
  "uuid \<Rightarrow> uuid \<Rightarrow> uuid \<Rightarrow> entity_type \<Rightarrow> string \<Rightarrow> string \<Rightarrow> review_db \<Rightarrow> conflict_row" where
  "build_cross_user_conflict_row tenant a b et va vb s =
     \<lparr>cf_id = next_id (base s), cf_tenant_id = tenant, user_a_memory_id = Some a, user_b_memory_id = Some b,
      cf_decision_evidence = [], cf_entity_type = et, cf_value_a = va, cf_value_b = vb, cf_detected_at = db_now (base s),
      cf_status = ConflictPending, cf_auto_resolution = None, cf_auto_resolution_at = None, cf_path = None,
      cf_resolution_reason = None, cf_requires_attention = False\<rparr>"

section \<open>Routing\<close>

datatype entity_router = EdTechRouter | HealthcareRouter | HRTechRouter | GenericRouter

definition domain_routers :: "(string \<times> entity_router) list" where
  "domain_routers = [(''edtech'', EdTechRouter), (''healthcare'', HealthcareRouter), (''hrtech'', HRTechRouter), (''generic'', GenericRouter)]"

definition get_router :: "string option \<Rightarrow> entity_router" where
  "get_router domain =
     (case map_of domain_routers (py_lower (py_strip (case domain of None \<Rightarrow> [] | Some s \<Rightarrow> s))) of
        Some r \<Rightarrow> r
      | None \<Rightarrow> GenericRouter)"

definition edtech_user_session :: "string list" where
  "edtech_user_session =
     [''exam_date'', ''grade_level'', ''personal_skill'', ''personal_preference'', ''individual_goal'', ''learning_style'',
      ''personal_fact'', ''marks_target'', ''study_schedule'', ''weak_topic'', ''strong_topic'', ''forgetting_stage'',
      ''explanation_style'', ''language_profile'', ''session_profile'', ''mock_score'']"

definition edtech_tenant_review :: "string list" where
  "edtech_tenant_review =
     [''institution_name'', ''curriculum_standard'', ''batch_assignment'', ''cohort_goal'', ''institution_policy'', ''shared_syllabus'']"

definition healthcare_user_session :: "string list" where
  "healthcare_user_session =
     [''condition'', ''medication'', ''allergy'', ''symptom'', ''personal_health_goal'', ''diet_restriction'', ''exercise_preference'',
      ''mental_health_note'', ''personal_medical_history'']"

definition healthcare_tenant_review :: "string list" where
  "healthcare_tenant_review = [''clinic_protocol'', ''standard_dosage'', ''facility_policy'', ''shared_care_plan'', ''department_process'']"

definition hrtech_user_session :: "string list" where
  "hrtech_user_session =
     [''salary_expectation'', ''career_goal'', ''skill_level'', ''job_preference'', ''interview_feedback'', ''personal_strength'',
      ''work_style'', ''relocation_preference'']"

definition hrtech_tenant_review :: "string list" where
  "hrtech_tenant_review =
     [''role_requirement'', ''team_headcount'', ''hiring_policy'', ''compensation_band'', ''org_structure'', ''team_process'']"

definition listed_path :: "string list \<Rightarrow> string list \<Rightarrow> string \<Rightarrow> resolution_path option" where
  "listed_path user tenant et =
     (if et \<in> set user then Some UserSession else if et \<in> set tenant then Some TenantReview else None)"

definition personal_signals :: "string list" where
  "personal_signals = [''i '', ''my '', ''i've'', ''i have'', ''i prefer'', ''i use'', ''i like'', ''i need'', ''for me'']"

definition shared_signals :: "string list" where
  "shared_signals =
     [''we '', ''our '', ''the team'', ''the company'', ''everyone'', ''all of us'', ''the project'', ''our stack'', ''our process'']"

definition combined_text :: "memory \<Rightarrow> memory \<Rightarrow> string" where
  "combined_text a b = py_lower (content a @ '' '' @ content b)"

definition signal_score :: "string list \<Rightarrow> string \<Rightarrow> nat" where
  "signal_score sigs t = length (filter (\<lambda>x. py_contains x t) sigs)"

definition same_owner_path :: "memory \<Rightarrow> memory \<Rightarrow> resolution_path" where
  "same_owner_path a b = (if m_proxy_user_id a = m_proxy_user_id b then UserSession else TenantReview)"

definition generic_classify :: "memory \<Rightarrow> memory \<Rightarrow> resolution_path option" where
  "generic_classify a b =
     (let personal = signal_score personal_signals (combined_text a b);
          shared = signal_score shared_signals (combined_text a b)
      in if personal > shared then Some UserSession
         else if shared > personal then Some TenantReview
         else Some (same_owner_path a b))"

fun router_classify :: "entity_router \<Rightarrow> string \<Rightarrow> memory \<Rightarrow> memory \<Rightarrow> resolution_path option" where
  "router_classify EdTechRouter et a b = listed_path edtech_user_session edtech_tenant_review et"
| "router_classify HealthcareRouter et a b = listed_path healthcare_user_session healthcare_tenant_review et"
| "router_classify HRTechRouter et a b = listed_path hrtech_user_session hrtech_tenant_review et"
| "router_classify GenericRouter et a b = generic_classify a b"

definition classify_resolution_path :: "string \<Rightarrow> memory \<Rightarrow> memory \<Rightarrow> string option \<Rightarrow> resolution_path" where
  "classify_resolution_path et a b domain =
     (case router_classify (get_router domain) et a b of
        Some p \<Rightarrow> p
      | None \<Rightarrow>
          (case (if get_router domain \<noteq> GenericRouter then generic_classify a b else None) of
             Some p \<Rightarrow> p
           | None \<Rightarrow> same_owner_path a b))"

section \<open>Automatic resolution\<close>

record auto_resolution_result =
  ar_strategy :: string
  ar_resolution :: string
  ar_action :: string
  ar_requires_attention :: bool
  ar_reason :: string
  ar_evidence :: "(string \<times> pyval) list"

text \<open>
  \<open>_weight_down_memory\<close> has the parameters \<open>memory\<close>, \<open>superseding_memory\<close> and \<open>reason\<close>; a call with another
  keyword raises \<open>TypeError\<close> before its body runs.
\<close>

datatype call_error = UnexpectedKeyword string

definition weight_down_parameters :: "string list" where
  "weight_down_parameters = [''reason'']"

definition weighted_down :: "uuid \<Rightarrow> string \<Rightarrow> memory \<Rightarrow> memory" where
  "weighted_down by_id reason m =
     m\<lparr>importance_score := importance_score m * (1/2),
       metadata_json := AList.update ''auto_resolution_reason'' (PStr reason)
         (AList.update ''superseded_candidate_id'' (PInt (int by_id))
           (AList.update ''potentially_outdated'' (PBool True) (metadata_json m)))\<rparr>"

definition weight_down_memory :: "string list \<Rightarrow> memory \<Rightarrow> memory \<Rightarrow> string \<Rightarrow> review_db \<Rightarrow> call_error + review_db" where
  "weight_down_memory keywords m superseding reason s =
     (case filter (\<lambda>k. k \<notin> set weight_down_parameters) keywords of
        [] \<Rightarrow> Inr (s\<lparr>base := put_memory (weighted_down (m_id superseding) reason m) (base s)\<rparr>)
      | k # _ \<Rightarrow> Inl (UnexpectedKeyword k))"

definition load_conflict_memory :: "uuid option \<Rightarrow> review_db \<Rightarrow> memory option" where
  "load_conflict_memory i s = (case i of None \<Rightarrow> None | Some k \<Rightarrow> get_memory k (base s))"

definition per_user_scoped_entity_types :: "string list" where
  "per_user_scoped_entity_types =
     [''exam_date'', ''grade_level'', ''individual_goal'', ''learning_style'', ''marks_target'', ''personal_fact'', ''personal_goal'',
      ''personal_preference'', ''personal_skill'', ''study_schedule'']"

definition personal_goal_signals :: "string list" where
  "personal_goal_signals =
     [''become '', ''career'', ''for himself'', ''for herself'', ''for me'', ''internship'', ''is currently looking'', ''job opportunities'',
      ''learn '', ''looking for'', ''my '', ''personal'', ''user is currently looking'', ''user wants'', ''wants to'']"

definition shared_org_signals :: "string list" where
  "shared_org_signals = [''all of us'', ''company'', ''organisation'', ''organization'', ''our '', ''team'', ''we '']"

definition is_per_user_scoped_conflict :: "string \<Rightarrow> memory \<Rightarrow> memory \<Rightarrow> bool" where
  "is_per_user_scoped_conflict et a b \<longleftrightarrow>
     et \<in> set per_user_scoped_entity_types \<or>
     (et = ''shared_goal'' \<and> list_ex (\<lambda>x. py_contains x (combined_text a b)) personal_goal_signals \<and>
      \<not> list_ex (\<lambda>x. py_contains x (combined_text a b)) shared_org_signals)"

text \<open>\<open>abs((created_a - created_b).days)\<close>: the days of a \<open>timedelta\<close> are rounded towards minus infinity.\<close>

definition recency_days :: "utc \<Rightarrow> utc \<Rightarrow> int" where
  "recency_days a b = \<bar>(a - b) div day\<bar>"

definition confidence_diff :: "memory \<Rightarrow> memory \<Rightarrow> pyfloat" where
  "confidence_diff a b = \<bar>confidence_score a - confidence_score b\<bar>"

definition queue_user_session_clarification :: "conflict_row \<Rightarrow> memory \<Rightarrow> string \<Rightarrow> review_db \<Rightarrow> review_db" where
  "queue_user_session_clarification r target question s =
     s\<lparr>clarifications := clarifications s @
        [\<lparr>q_tenant_id = cf_tenant_id r, q_proxy_user_id = m_proxy_user_id target, question_context = question,
          q_conflict_id = cf_id r, trigger_on = ''next_session''\<rparr>]\<rparr>"

definition question_for :: "conflict_row \<Rightarrow> string" where
  "question_for r = entity_name (cf_entity_type r) @ '': '' @ cf_value_a r @ '' vs '' @ cf_value_b r"

definition entity_details :: "conflict_row \<Rightarrow> (string \<times> pyval) list" where
  "entity_details r = [(''entity_type'', PStr (entity_name (cf_entity_type r)))]"

definition mark_conflict_auto_resolved :: "string \<Rightarrow> utc \<Rightarrow> conflict_row \<Rightarrow> conflict_row" where
  "mark_conflict_auto_resolved strategy now r =
     r\<lparr>cf_status := ConflictResolved, cf_auto_resolution := Some strategy, cf_auto_resolution_at := Some now,
       cf_requires_attention := False\<rparr>"

text \<open>The state of the row while it waits for the tenant.\<close>

definition left_pending :: "utc \<Rightarrow> conflict_row \<Rightarrow> conflict_row" where
  "left_pending now r =
     r\<lparr>cf_status := ConflictPending, cf_auto_resolution := Some ''requires_attention'', cf_auto_resolution_at := Some now,
       cf_path := Some TenantReview, cf_requires_attention := True\<rparr>"

definition unresolvable :: "string \<Rightarrow> (string \<times> pyval) list \<Rightarrow> auto_resolution_result" where
  "unresolvable reason ev =
     \<lparr>ar_strategy = ''requires_attention'', ar_resolution = ''unresolvable'', ar_action = ''left_pending'', ar_requires_attention = True,
      ar_reason = reason, ar_evidence = ev\<rparr>"

definition missing_memory_evidence :: "conflict_row \<Rightarrow> (string \<times> pyval) list" where
  "missing_memory_evidence r =
     review_evidence ''TENANT_REVIEW'' [''conflict_memory_missing'', ''tenant_review_required'']
       ''One or both memories are unavailable, so MemoryOS cannot safely decide automatically.'' (entity_details r)"

definition per_user_evidence :: "conflict_row \<Rightarrow> (string \<times> pyval) list" where
  "per_user_evidence r =
     automatic_evidence ''IGNORE'' [''personal_truth'', ''per_user_scoped'']
       ''This is personal information, so it should not create an organisation-level conflict.'' (Some (95/100)) None (entity_details r)"

definition recency_evidence :: "(uuid \<Rightarrow> string) \<Rightarrow> conflict_row \<Rightarrow> memory \<Rightarrow> int \<Rightarrow> (string \<times> pyval) list" where
  "recency_evidence ut r newer days =
     automatic_evidence ''UPDATE'' [''recency_weighted'', ''recency_safe_to_apply'']
       ''The newer claim was weighted higher because the evidence is more recent.'' (Some (8/10)) (Some (ut (m_id newer)))
       ((''recency_days'', PInt days) # entity_details r)"

definition confidence_evidence :: "(uuid \<Rightarrow> string) \<Rightarrow> conflict_row \<Rightarrow> memory \<Rightarrow> pyfloat \<Rightarrow> (string \<times> pyval) list" where
  "confidence_evidence ut r higher diff =
     automatic_evidence ''UPDATE'' [''confidence_weighted'', ''higher_confidence_source'']
       ''The higher-confidence claim was weighted higher automatically.'' (Some (75/100)) (Some (ut (m_id higher)))
       ((''confidence_diff'', PFloat diff) # entity_details r)"

definition clarification_evidence :: "conflict_row \<Rightarrow> (string \<times> pyval) list" where
  "clarification_evidence r =
     review_evidence ''USER_REVIEW'' [''personal_truth_requires_user'', ''clarification_queued'']
       ''This concerns personal memory, so MemoryOS queued a user-facing clarification.'' (entity_details r)"

definition shared_context_evidence :: "conflict_row \<Rightarrow> (string \<times> pyval) list" where
  "shared_context_evidence r =
     review_evidence ''TENANT_REVIEW'' [''organisation_truth_requires_tenant'', ''shared_context_conflict'']
       ''This concerns shared organisation context, so MemoryOS routed it to tenant review.'' (entity_details r)"

type_synonym auto_outcome = "(call_error + auto_resolution_result) \<times> review_db"

text \<open>
  A resolution by weight: the arguments are evaluated first, so the evidence is attached to the row;
  then the weighting is called with the keywords \<open>reason\<close> and \<open>decision_evidence\<close>; then the row is marked.
\<close>

definition resolve_by_weight ::
  "string \<Rightarrow> string \<Rightarrow> string \<Rightarrow> (string \<times> pyval) list \<Rightarrow> memory \<Rightarrow> memory \<Rightarrow> utc \<Rightarrow> conflict_row \<Rightarrow> review_db \<Rightarrow> auto_outcome" where
  "resolve_by_weight strategy action reason ev winner loser now r s =
     (let r1 = r\<lparr>cf_decision_evidence := ev\<rparr>; s1 = put_conflict r1 s
      in case weight_down_memory [''reason'', ''decision_evidence''] loser winner reason s1 of
           Inl x \<Rightarrow> (Inl x, s1)
         | Inr s2 \<Rightarrow>
             (Inr \<lparr>ar_strategy = strategy, ar_resolution = strategy, ar_action = action, ar_requires_attention = False,
                    ar_reason = reason, ar_evidence = ev\<rparr>,
              put_conflict (mark_conflict_auto_resolved strategy now r1) s2))"

definition ignore_per_user :: "utc \<Rightarrow> conflict_row \<Rightarrow> review_db \<Rightarrow> auto_outcome" where
  "ignore_per_user now r s =
     (Inr \<lparr>ar_strategy = ''per_user_scoped'', ar_resolution = ''per_user_scoped'', ar_action = ''ignored_personal_cross_user_conflict'',
            ar_requires_attention = False, ar_reason = ''Personal facts are user-specific'', ar_evidence = per_user_evidence r\<rparr>,
      put_conflict
        (r\<lparr>cf_decision_evidence := per_user_evidence r, cf_status := ConflictIgnored, cf_auto_resolution := Some ''per_user_scoped'',
           cf_auto_resolution_at := Some now, cf_path := Some UserSession,
           cf_resolution_reason := Some ''Personal goals or facts are user-specific'', cf_requires_attention := False\<rparr>) s)"

definition ask_user :: "utc \<Rightarrow> memory \<Rightarrow> conflict_row \<Rightarrow> review_db \<Rightarrow> auto_outcome" where
  "ask_user now target r s =
     (Inr \<lparr>ar_strategy = ''clarification_queued'', ar_resolution = ''clarification_queued'', ar_action = ''queued_clarification'',
            ar_requires_attention = False, ar_reason = ''Will ask user to confirm in next session'', ar_evidence = clarification_evidence r\<rparr>,
      put_conflict
        (r\<lparr>cf_decision_evidence := clarification_evidence r, cf_status := ClarificationQueued,
           cf_auto_resolution := Some ''clarification_queued'', cf_auto_resolution_at := Some now, cf_path := Some UserSession,
           cf_requires_attention := False\<rparr>)
        (queue_user_session_clarification r target (question_for r) s))"

definition leave_to_tenant :: "utc \<Rightarrow> string \<Rightarrow> (string \<times> pyval) list \<Rightarrow> conflict_row \<Rightarrow> review_db \<Rightarrow> auto_outcome" where
  "leave_to_tenant now reason ev r s =
     (Inr (unresolvable reason ev), put_conflict ((left_pending now r)\<lparr>cf_decision_evidence := ev\<rparr>) s)"

definition resolve_cross_user_conflict_automatically ::
  "(uuid \<Rightarrow> string) \<Rightarrow> string option \<Rightarrow> utc \<Rightarrow> conflict_row \<Rightarrow> review_db \<Rightarrow> auto_outcome" where
  "resolve_cross_user_conflict_automatically ut domain now r s =
     (let et = entity_name (cf_entity_type r)
      in case (load_conflict_memory (user_a_memory_id r) s, load_conflict_memory (user_b_memory_id r) s) of
           (Some a, Some b) \<Rightarrow>
             if is_per_user_scoped_conflict et a b then ignore_per_user now r s
             else if recency_days (created_at a) (created_at b) > 7
             then (let (newer, older) = (if created_at a > created_at b then (a, b) else (b, a))
                   in resolve_by_weight ''recency_weighted'' ''weighted_down_older_claim'' ''Newer claim weighted higher automatically''
                        (recency_evidence ut r newer (recency_days (created_at a) (created_at b))) newer older now r s)
             else if confidence_diff a b > 1/5
             then (let (higher, lower) = (if confidence_score a > confidence_score b then (a, b) else (b, a))
                   in resolve_by_weight ''confidence_weighted'' ''weighted_down_lower_confidence_claim''
                        ''Higher-confidence claim weighted higher automatically''
                        (confidence_evidence ut r higher (confidence_diff a b)) higher lower now r s)
             else if classify_resolution_path et a b domain = UserSession
             then ask_user now (if created_at a \<le> created_at b then a else b) r s
             else leave_to_tenant now ''Tenant review is required for shared organizational context'' (shared_context_evidence r) r s
         | _ \<Rightarrow>
             leave_to_tenant now ''One or both memories are unavailable for automatic resolution'' (missing_memory_evidence r) r s)"

section \<open>Recording conflicts\<close>

text \<open>A conflicting signal of another user, with the values on both sides.\<close>

record context_conflict =
  cc_signal :: context_signal
  cc_value_a :: string
  cc_value_b :: string

datatype conflict_key = ConflictKey (key_low: uuid) (key_high: uuid) (key_type: entity_type)

definition pair_key :: "uuid \<Rightarrow> uuid \<Rightarrow> entity_type \<Rightarrow> conflict_key" where
  "pair_key a b et = ConflictKey (min a b) (max a b) et"

text \<open>\<open>candidates.setdefault\<close>: the first conflict of a key is kept, in the order of first appearance.\<close>

fun candidate_conflicts :: "uuid \<Rightarrow> context_conflict list \<Rightarrow> (conflict_key \<times> context_conflict) list \<Rightarrow> (conflict_key \<times> context_conflict) list" where
  "candidate_conflicts new [] acc = acc"
| "candidate_conflicts new (c # cs) acc =
     candidate_conflicts new cs
       (case sg_memory_id (cc_signal c) of
          None \<Rightarrow> acc
        | Some i \<Rightarrow>
            (let k = pair_key i new (sg_entity_type (cc_signal c))
             in if map_of acc k = None then acc @ [(k, c)] else acc))"

definition row_key :: "conflict_row \<Rightarrow> conflict_key option" where
  "row_key r =
     (case (user_a_memory_id r, user_b_memory_id r) of
        (Some a, Some b) \<Rightarrow> Some (pair_key a b (cf_entity_type r))
      | _ \<Rightarrow> None)"

definition existing_keys :: "uuid \<Rightarrow> entity_type set \<Rightarrow> uuid \<Rightarrow> review_db \<Rightarrow> conflict_key option set" where
  "existing_keys tenant types new s =
     row_key ` set (filter (\<lambda>r. cf_tenant_id r = tenant \<and> cf_entity_type r \<in> types \<and>
       (user_a_memory_id r = Some new \<or> user_b_memory_id r = Some new) \<and> row_key r \<noteq> None) (conflict_rows s))"

fun insert_rows :: "uuid \<Rightarrow> uuid \<Rightarrow> (conflict_key \<times> context_conflict) list \<Rightarrow> review_db \<Rightarrow> (conflict_row \<times> context_conflict) list \<times> review_db" where
  "insert_rows tenant new [] s = ([], s)"
| "insert_rows tenant new ((k, c) # kcs) s =
     (let r = build_cross_user_conflict_row tenant (the (sg_memory_id (cc_signal c))) new (sg_entity_type (cc_signal c))
                (cc_value_a c) (cc_value_b c) s;
          (rs, s') = insert_rows tenant new kcs (add_conflict r s)
      in ((r, c) # rs, s'))"

text \<open>
  The rows are resolved in turn; an exception ends the loop and reaches the caller. The first
  component lists the rows the webhook is sent for.
\<close>

fun resolve_rows ::
  "(uuid \<Rightarrow> string) \<Rightarrow> string option \<Rightarrow> utc \<Rightarrow> (conflict_row \<times> context_conflict) list \<Rightarrow> review_db \<Rightarrow>
     (call_error + uuid list) \<times> review_db" where
  "resolve_rows ut domain now [] s = (Inr [], s)"
| "resolve_rows ut domain now ((r, c) # rs) s =
     (case resolve_cross_user_conflict_automatically ut domain now r s of
        (Inl x, s') \<Rightarrow> (Inl x, s')
      | (Inr res, s') \<Rightarrow>
          (case resolve_rows ut domain now rs s' of
             (Inl x, s'') \<Rightarrow> (Inl x, s'')
           | (Inr hooks, s'') \<Rightarrow> (Inr (if ar_requires_attention res then cf_id r # hooks else hooks), s'')))"

definition insert_cross_user_conflicts ::
  "(uuid \<Rightarrow> string) \<Rightarrow> string option \<Rightarrow> utc \<Rightarrow> context_conflict list \<Rightarrow> uuid \<Rightarrow> uuid \<Rightarrow> review_db \<Rightarrow>
     (call_error + (nat \<times> uuid list)) \<times> review_db" where
  "insert_cross_user_conflicts ut domain now conflicts tenant new s =
     (let cands = candidate_conflicts new conflicts [];
          known = existing_keys tenant (key_type ` fst ` set cands) new s
      in if cands = [] then (Inr (0, []), s)
         else
           (let (rs, s1) = insert_rows tenant new (filter (\<lambda>kc. Some (fst kc) \<notin> known) cands) s
            in case resolve_rows ut domain now rs s1 of
                 (Inl x, s2) \<Rightarrow> (Inl x, s2)
               | (Inr hooks, s2) \<Rightarrow> (Inr (length rs, hooks), s2)))"

section \<open>Questions to a user\<close>

definition clarification_entity :: "string \<Rightarrow> entity_type" where
  "clarification_entity cat =
     (case map_of [(''preference'', PersonalPreference), (''goal'', IndividualGoal), (''expertise'', PersonalSkill)] cat of
        Some et \<Rightarrow> et
      | None \<Rightarrow> PersonalFact)"

definition clarification_row ::
  "uuid \<Rightarrow> memory \<Rightarrow> memory \<Rightarrow> string \<Rightarrow> string \<Rightarrow> resolution_path \<Rightarrow> utc \<Rightarrow> (string \<times> pyval) list \<Rightarrow> review_db \<Rightarrow> conflict_row" where
  "clarification_row tenant a b cat auto path now ev s =
     (build_cross_user_conflict_row tenant (m_id a) (m_id b) (clarification_entity cat) (content a) (content b) s)
       \<lparr>cf_status := (if path = UserSession then ClarificationQueued else ConflictPending), cf_auto_resolution := Some auto,
        cf_auto_resolution_at := Some now, cf_path := Some path, cf_requires_attention := (path = TenantReview),
        cf_decision_evidence := ev\<rparr>"

definition is_open :: "conflict_row \<Rightarrow> bool" where
  "is_open r \<longleftrightarrow> cf_status r = ConflictPending \<or> cf_status r = ClarificationQueued"

definition existing_open_clarification :: "uuid \<Rightarrow> uuid \<Rightarrow> uuid \<Rightarrow> review_db \<Rightarrow> conflict_row option" where
  "existing_open_clarification tenant i j s =
     find_row (\<lambda>r. cf_tenant_id r = tenant \<and> is_open r \<and>
       (user_a_memory_id r = Some i \<and> user_b_memory_id r = Some j \<or> user_a_memory_id r = Some j \<and> user_b_memory_id r = Some i))
       (conflict_rows s)"

definition explicit_clarification_evidence :: "(uuid \<Rightarrow> string) \<Rightarrow> string \<Rightarrow> memory \<Rightarrow> memory \<Rightarrow> (string \<times> pyval) list" where
  "explicit_clarification_evidence ut cat a b =
     review_evidence ''USER_REVIEW''
       [''explicit_user_clarification_request'', ''existing_memories_backend_validated'', ''clarification_queued'']
       (''The user asked to choose between two active memories. '' @ ''MemoryOS verified both records belong to the same profile ''
          @ ''and queued the choice for the existing chat session.'')
       [(''category'', PStr cat), (''scope'', PStr ''same_proxy_user''), (''memory_ids'', PList [PStr (ut (m_id a)), PStr (ut (m_id b))])]"

text \<open>The two memories the rows of the selected ids give, when the request may be granted.\<close>

definition selectable_pair :: "uuid \<Rightarrow> uuid \<Rightarrow> uuid list \<Rightarrow> review_db \<Rightarrow> (memory \<times> memory) option" where
  "selectable_pair tenant proxy ids s =
     (case ids of
        [i, j] \<Rightarrow>
          if i = j \<or> tenant_of proxy (base s) \<noteq> Some tenant then None
          else
            (case (get_memory (min i j) (base s), get_memory (max i j) (base s)) of
               (Some a, Some b) \<Rightarrow>
                 if is_archived a \<or> is_archived b \<or> m_proxy_user_id a \<noteq> proxy \<or> m_proxy_user_id b \<noteq> proxy \<or> category a \<noteq> category b
                 then None else Some (a, b)
             | _ \<Rightarrow> None)
      | _ \<Rightarrow> None)"

text \<open>The ids of the request, \<open>None\<close> for a text that is not a UUID.\<close>

definition queue_existing_memory_clarification ::
  "(uuid \<Rightarrow> string) \<Rightarrow> utc \<Rightarrow> uuid option list \<Rightarrow> uuid option \<Rightarrow> uuid option \<Rightarrow> review_db \<Rightarrow> bool \<times> review_db" where
  "queue_existing_memory_clarification ut now ids tenant proxy s =
     (case (tenant, proxy) of
        (Some t, Some p) \<Rightarrow>
          if None \<in> set ids then (False, s)
          else
            (case selectable_pair t p (map the ids) s of
               None \<Rightarrow> (False, s)
             | Some (a, b) \<Rightarrow>
                 if existing_open_clarification t (m_id a) (m_id b) s \<noteq> None then (True, s)
                 else
                   (let cat = category_value (category a);
                        r = clarification_row t a b cat ''explicit_existing_memory_clarification'' UserSession now
                              (explicit_clarification_evidence ut cat a b) s;
                        s1 = queue_user_session_clarification r a (question_for r) (add_conflict r s)
                    in (True, s1\<lparr>conflicts_flagged := conflicts_flagged s1 + 1\<rparr>)))
      | _ \<Rightarrow> (False, s))"

definition equal_authority_evidence :: "string \<Rightarrow> (string \<times> pyval) list" where
  "equal_authority_evidence cat =
     review_evidence ''TENANT_REVIEW'' [''equal_authority_disagreement'', ''cross_writer_conflict'', ''human_review_required'']
       (''Two registered services with equal authority reported different values. ''
          @ ''MemoryOS preserved both claims and routed this conflict for review.'')
       [(''category'', PStr cat)]"

definition create_equal_authority_conflict ::
  "uuid option \<Rightarrow> uuid option \<Rightarrow> memory \<Rightarrow> uuid \<Rightarrow> string \<Rightarrow> utc \<Rightarrow> review_db \<Rightarrow> review_db" where
  "create_equal_authority_conflict tenant proxy existing pending cat now s =
     (case (tenant, proxy, get_memory pending (base s)) of
        (Some t, Some p, Some m) \<Rightarrow>
          (let s1 = add_conflict (clarification_row t existing m cat ''equal_authority_clarification'' TenantReview now
                      (equal_authority_evidence cat) s) s
           in s1\<lparr>conflicts_flagged := conflicts_flagged s1 + 1\<rparr>)
      | _ \<Rightarrow> s)"

definition self_scoped_evidence :: "string \<Rightarrow> string \<Rightarrow> (string \<times> pyval) list" where
  "self_scoped_evidence reasoning cat =
     review_evidence ''USER_REVIEW'' [''ambiguous_personal_contradiction'', ''clarification_queued''] reasoning
       [(''category'', PStr cat), (''scope'', PStr ''same_proxy_user'')]"

definition create_self_scoped_clarification ::
  "uuid option \<Rightarrow> uuid option \<Rightarrow> memory \<Rightarrow> uuid \<Rightarrow> string \<Rightarrow> string \<Rightarrow> utc \<Rightarrow> review_db \<Rightarrow> review_db" where
  "create_self_scoped_clarification tenant proxy existing pending cat reasoning now s =
     (case (tenant, proxy, get_memory pending (base s)) of
        (Some t, Some p, Some m) \<Rightarrow>
          if m_proxy_user_id existing \<noteq> p then s
          else
            (let r = clarification_row t existing m cat ''self_scoped_clarification'' UserSession now
                       (self_scoped_evidence reasoning cat) s;
                 s1 = queue_user_session_clarification r m (question_for r) (add_conflict r s)
             in s1\<lparr>clarifications_queued := clarifications_queued s1 + 1, conflicts_flagged := conflicts_flagged s1 + 1\<rparr>)
      | _ \<Rightarrow> s)"

section \<open>Lemmas\<close>

lemma put_conflict_simps [simp]:
  "base (put_conflict r s) = base s" "clarifications (put_conflict r s) = clarifications s"
  "audit_logs (put_conflict r s) = audit_logs s" "signals (put_conflict r s) = signals s"
  by (simp_all add: put_conflict_def)

lemma add_conflict_simps [simp]:
  "conflict_rows (add_conflict r s) = conflict_rows s @ [r]" "clarifications (add_conflict r s) = clarifications s"
  "audit_logs (add_conflict r s) = audit_logs s" "signals (add_conflict r s) = signals s"
  "next_id (base (add_conflict r s)) = Suc (next_id (base s))" "memories (base (add_conflict r s)) = memories (base s)"
  "proxy_users (base (add_conflict r s)) = proxy_users (base s)" "db_now (base (add_conflict r s)) = db_now (base s)"
  by (simp_all add: add_conflict_def)

lemma queue_simps [simp]:
  "base (queue_user_session_clarification r m q s) = base s"
  "conflict_rows (queue_user_session_clarification r m q s) = conflict_rows s"
  "audit_logs (queue_user_session_clarification r m q s) = audit_logs s"
  "signals (queue_user_session_clarification r m q s) = signals s"
  by (simp_all add: queue_user_session_clarification_def)

lemma get_memory_add_conflict [simp]: "get_memory i (base (add_conflict r s)) = get_memory i (base s)"
  by (simp add: get_memory_def)

lemma generic_classify_total: "generic_classify a b \<noteq> None"
  by (simp add: generic_classify_def Let_def)

lemma resolve_by_weight_raises:
  "resolve_by_weight strategy action reason ev winner loser now r s =
     (Inl (UnexpectedKeyword ''decision_evidence''), put_conflict (r\<lparr>cf_decision_evidence := ev\<rparr>) s)"
  by (simp add: resolve_by_weight_def weight_down_memory_def weight_down_parameters_def)

text \<open>What identifies a conflict: its tenant, its memories and its entity type.\<close>

datatype row_tag = RowTag uuid "uuid option" "uuid option" entity_type

definition tag_of :: "conflict_row \<Rightarrow> row_tag" where
  "tag_of r = RowTag (cf_tenant_id r) (user_a_memory_id r) (user_b_memory_id r) (cf_entity_type r)"

definition tag_key :: "uuid \<Rightarrow> entity_type set \<Rightarrow> uuid \<Rightarrow> row_tag \<Rightarrow> conflict_key option" where
  "tag_key tenant types new t =
     (case t of RowTag tn a b et \<Rightarrow>
        if tn = tenant \<and> et \<in> types \<and> (a = Some new \<or> b = Some new)
        then (case (a, b) of (Some i, Some j) \<Rightarrow> Some (pair_key i j et) | _ \<Rightarrow> None) else None)"

lemma known_iff_tag:
  "Some k \<in> existing_keys tenant types new s \<longleftrightarrow> Some k \<in> tag_key tenant types new ` tag_of ` set (conflict_rows s)"
proof -
  have "row_key r = Some k \<and> cf_tenant_id r = tenant \<and> cf_entity_type r \<in> types \<and>
      (user_a_memory_id r = Some new \<or> user_b_memory_id r = Some new) \<longleftrightarrow> tag_key tenant types new (tag_of r) = Some k" for r
    by (auto simp: row_key_def tag_key_def tag_of_def split: option.splits)
  then have "(\<exists>r \<in> set (conflict_rows s). row_key r = Some k \<and> cf_tenant_id r = tenant \<and> cf_entity_type r \<in> types \<and>
      (user_a_memory_id r = Some new \<or> user_b_memory_id r = Some new)) \<longleftrightarrow>
      (\<exists>r \<in> set (conflict_rows s). tag_key tenant types new (tag_of r) = Some k)" by simp
  then show ?thesis by (force simp: existing_keys_def image_iff)
qed

text \<open>The state a resolution may leave: the row is replaced by one with the same tag.\<close>

lemma resolution_row:
  "\<exists>r' s0. snd (resolve_cross_user_conflict_automatically ut domain now r s) = put_conflict r' s0 \<and>
     cf_id r' = cf_id r \<and> tag_of r' = tag_of r \<and> conflict_rows s0 = conflict_rows s \<and> base s0 = base s"
proof -
  have P: "\<exists>r' s0. put_conflict x y = put_conflict r' s0 \<and> cf_id r' = cf_id r \<and> tag_of r' = tag_of r \<and>
      conflict_rows s0 = conflict_rows s \<and> base s0 = base s"
    if "cf_id x = cf_id r" "tag_of x = tag_of r" "conflict_rows y = conflict_rows s" "base y = base s" for x y
    using that by blast
  show ?thesis
    by (simp add: resolve_cross_user_conflict_automatically_def Let_def leave_to_tenant_def ignore_per_user_def ask_user_def
        resolve_by_weight_raises split: option.splits prod.splits)
      (intro conjI impI allI P, simp_all add: tag_of_def left_pending_def)
qed

lemma put_conflict_tags:
  assumes "\<And>x. x \<in> set (conflict_rows s) \<Longrightarrow> cf_id x = cf_id r \<Longrightarrow> tag_of x = tag_of r"
  shows "map tag_of (conflict_rows (put_conflict r s)) = map tag_of (conflict_rows s)"
    and "map cf_id (conflict_rows (put_conflict r s)) = map cf_id (conflict_rows s)"
  using assms by (auto simp: put_conflict_def update_where_def)

definition same_tags :: "review_db \<Rightarrow> review_db \<Rightarrow> bool" where
  "same_tags s t \<longleftrightarrow>
     map tag_of (conflict_rows t) = map tag_of (conflict_rows s) \<and> map cf_id (conflict_rows t) = map cf_id (conflict_rows s)"

lemma same_tagsD:
  assumes "same_tags s t" and "\<forall>x \<in> set (conflict_rows s). cf_id x = k \<longrightarrow> tag_of x = g"
  shows "\<forall>x \<in> set (conflict_rows t). cf_id x = k \<longrightarrow> tag_of x = g"
proof (intro ballI impI)
  fix x assume "x \<in> set (conflict_rows t)" and k: "cf_id x = k"
  then obtain n where n: "n < length (conflict_rows t)" "x = conflict_rows t ! n" by (auto simp: in_set_conv_nth)
  have l: "length (conflict_rows t) = length (conflict_rows s)" using assms(1) by (metis same_tags_def length_map)
  have "map tag_of (conflict_rows t) ! n = map tag_of (conflict_rows s) ! n" "map cf_id (conflict_rows t) ! n = map cf_id (conflict_rows s) ! n"
    using assms(1) by (simp_all add: same_tags_def)
  then have "tag_of x = tag_of (conflict_rows s ! n)" "cf_id x = cf_id (conflict_rows s ! n)" using n l by simp_all
  then show "tag_of x = g" using assms(2) k n(1) l by simp
qed

lemma resolve_rows_tags:
  assumes "\<And>r c x. (r, c) \<in> set rs \<Longrightarrow> x \<in> set (conflict_rows s) \<Longrightarrow> cf_id x = cf_id r \<Longrightarrow> tag_of x = tag_of r"
  shows "same_tags s (snd (resolve_rows ut domain now rs s)) \<and> base (snd (resolve_rows ut domain now rs s)) = base s"
  using assms
proof (induction rs arbitrary: s)
  case Nil
  then show ?case by (simp add: same_tags_def)
next
  case (Cons rc rs)
  obtain r c where rc: "rc = (r, c)" by (cases rc)
  define out where "out = resolve_cross_user_conflict_automatically ut domain now r s"
  obtain r' s0 where put: "snd out = put_conflict r' s0" "cf_id r' = cf_id r" "tag_of r' = tag_of r"
      "conflict_rows s0 = conflict_rows s" "base s0 = base s"
    using resolution_row [of ut domain now r s] by (auto simp: out_def)
  have agree: "tag_of x = tag_of r'" if "x \<in> set (conflict_rows s0)" "cf_id x = cf_id r'" for x
    using Cons.prems [of r c x] put rc that by simp
  have s1: "same_tags s (snd out)"
    using put_conflict_tags [of s0 r', OF agree] put by (simp add: same_tags_def)
  have b1: "base (snd out) = base s" using put by simp
  have "\<And>r c x. (r, c) \<in> set rs \<Longrightarrow> x \<in> set (conflict_rows (snd out)) \<Longrightarrow> cf_id x = cf_id r \<Longrightarrow> tag_of x = tag_of r"
    using same_tagsD [OF s1] Cons.prems by (metis list.set_intros(2))
  from Cons.IH [OF this] s1 b1
  have rest: "same_tags s (snd (resolve_rows ut domain now rs (snd out)))" "base (snd (resolve_rows ut domain now rs (snd out))) = base s"
    by (simp_all add: same_tags_def)
  show ?case
  proof (cases out)
    case (Pair res t)
    then show ?thesis using rest s1 b1
      by (cases res) (auto simp: rc out_def [symmetric] split: sum.splits prod.splits)
  qed
qed

text \<open>The inserted rows have fresh ids and the keys of their candidates.\<close>

lemma insert_rows_spec:
  assumes "\<And>k c. (k, c) \<in> set kcs \<Longrightarrow> \<exists>i. sg_memory_id (cc_signal c) = Some i \<and> k = pair_key i new (sg_entity_type (cc_signal c))"
    and "insert_rows tenant new kcs s = (rs, s')"
  shows "conflict_rows s' = conflict_rows s @ map fst rs \<and> map (cf_id \<circ> fst) rs = [next_id (base s)..<next_id (base s')] \<and>
    next_id (base s) \<le> next_id (base s') \<and>
    (\<forall>kc \<in> set kcs. \<exists>r \<in> fst ` set rs. \<forall>types. key_type (fst kc) \<in> types \<longrightarrow> tag_key tenant types new (tag_of r) = Some (fst kc))"
  using assms
proof (induction tenant new kcs s arbitrary: rs s' rule: insert_rows.induct)
  case (2 tenant new k c kcs s)
  define r where "r = build_cross_user_conflict_row tenant (the (sg_memory_id (cc_signal c))) new (sg_entity_type (cc_signal c))
                (cc_value_a c) (cc_value_b c) s"
  obtain rs1 s1 where rest: "insert_rows tenant new kcs (add_conflict r s) = (rs1, s1)" by fastforce
  then have out: "rs = (r, c) # rs1" "s' = s1" using "2.prems"(2) by (simp_all add: r_def [symmetric])
  have IH: "conflict_rows s1 = conflict_rows (add_conflict r s) @ map fst rs1"
      "map (cf_id \<circ> fst) rs1 = [next_id (base (add_conflict r s))..<next_id (base s1)]"
      "next_id (base (add_conflict r s)) \<le> next_id (base s1)"
      "\<forall>kc \<in> set kcs. \<exists>r \<in> fst ` set rs1. \<forall>types. key_type (fst kc) \<in> types \<longrightarrow> tag_key tenant types new (tag_of r) = Some (fst kc)"
    using "2.IH" [OF r_def _ rest] "2.prems"(1) by (simp_all add: comp_def del: add_conflict_simps)
  obtain i where i: "sg_memory_id (cc_signal c) = Some i" "k = pair_key i new (sg_entity_type (cc_signal c))"
    using "2.prems"(1) [of k c] by auto
  have tag: "tag_of r = RowTag tenant (Some i) (Some new) (sg_entity_type (cc_signal c))"
    by (simp add: r_def tag_of_def build_cross_user_conflict_row_def i)
  have this_row: "\<forall>types. key_type k \<in> types \<longrightarrow> tag_key tenant types new (tag_of r) = Some k"
    by (simp add: tag tag_key_def i(2)) (simp add: pair_key_def)
  have id: "cf_id r = next_id (base s)" by (simp add: r_def build_cross_user_conflict_row_def)
  show ?case using IH this_row by (auto simp: out id upt_conv_Cons comp_def)
qed simp

lemma candidate_conflicts_keys:
  assumes "\<And>k c. (k, c) \<in> set acc \<Longrightarrow> \<exists>i. sg_memory_id (cc_signal c) = Some i \<and> k = pair_key i new (sg_entity_type (cc_signal c))"
    and "(k, c) \<in> set (candidate_conflicts new cs acc)"
  shows "\<exists>i. sg_memory_id (cc_signal c) = Some i \<and> k = pair_key i new (sg_entity_type (cc_signal c))"
  using assms
proof (induction cs arbitrary: acc)
  case (Cons d ds)
  show ?case
    by (rule Cons.IH [OF _ Cons.prems(2) [unfolded candidate_conflicts.simps]])
      (use Cons.prems(1) in \<open>auto simp: Let_def split: option.splits if_splits\<close>)
qed simp

section \<open>Properties\<close>

definition conflict_keys_ok :: "review_db \<Rightarrow> bool" where
  "conflict_keys_ok s \<longleftrightarrow> distinct (map cf_id (conflict_rows s)) \<and> (\<forall>r \<in> set (conflict_rows s). cf_id r < next_id (base s))"

lemma inserted_tags:
  assumes "conflict_keys_ok s" and "conflict_rows s' = conflict_rows s @ map fst rs"
    and "map (cf_id \<circ> fst) rs = [next_id (base s)..<n]" and "(r, c) \<in> set rs" and "x \<in> set (conflict_rows s')" and "cf_id x = cf_id r"
  shows "tag_of x = tag_of r"
proof -
  have ids: "map cf_id (map fst rs) = [next_id (base s)..<n]" using assms(3) by simp
  have "set (map cf_id (map fst rs)) = {next_id (base s)..<n}" by (simp only: ids set_upt)
  moreover have "distinct (map cf_id (map fst rs))" by (simp only: ids distinct_upt)
  moreover have "set (map cf_id (conflict_rows s)) \<subseteq> {..<next_id (base s)}" "distinct (map cf_id (conflict_rows s))"
    using assms(1) by (auto simp: conflict_keys_ok_def)
  ultimately have "distinct (map cf_id (conflict_rows s'))"
    unfolding assms(2) map_append distinct_append by fastforce
  moreover have "r \<in> set (conflict_rows s')" using assms(4) by (force simp: assms(2))
  ultimately have "x = r" using assms(5,6) by (auto simp: distinct_map dest: inj_onD)
  then show ?thesis by simp
qed

text \<open>
  Recording the conflicts of a memory twice records them once: whatever the first pass did, and even
  when it ended with the exception of a resolution, a second pass with the same conflicts adds no row,
  resolves nothing and raises nothing.
\<close>

theorem conflicts_recorded_once:
  assumes "conflict_keys_ok s"
  shows "insert_cross_user_conflicts ut domain now' conflicts tenant new
           (snd (insert_cross_user_conflicts ut domain now conflicts tenant new s)) =
         (Inr (0, []), snd (insert_cross_user_conflicts ut domain now conflicts tenant new s))"
proof (cases "candidate_conflicts new conflicts [] = []")
  case True
  then show ?thesis by (simp add: insert_cross_user_conflicts_def)
next
  case False
  define cands where "cands = candidate_conflicts new conflicts []"
  define types where "types = key_type ` fst ` set cands"
  define fresh where "fresh = filter (\<lambda>kc. Some (fst kc) \<notin> existing_keys tenant types new s) cands"
  obtain rs s1 where ins: "insert_rows tenant new fresh s = (rs, s1)" by fastforce
  define s2 where "s2 = snd (resolve_rows ut domain now rs s1)"
  have s2: "snd (insert_cross_user_conflicts ut domain now conflicts tenant new s) = s2"
    using False ins
    by (auto simp: insert_cross_user_conflicts_def Let_def cands_def [symmetric] types_def [symmetric] fresh_def [symmetric] s2_def
        split: prod.splits sum.splits)
  have keyed: "\<exists>i. sg_memory_id (cc_signal c) = Some i \<and> k = pair_key i new (sg_entity_type (cc_signal c))" if "(k, c) \<in> set fresh" for k c
    by (rule candidate_conflicts_keys [of "[]" new k c conflicts]) (use that in \<open>simp_all add: fresh_def cands_def\<close>)
  note spec = insert_rows_spec [OF keyed ins]
  have rows: "conflict_rows s1 = conflict_rows s @ map fst rs" and ids: "map (cf_id \<circ> fst) rs = [next_id (base s)..<next_id (base s1)]"
    using spec by simp_all
  have tags: "same_tags s1 s2" unfolding s2_def
    by (rule resolve_rows_tags [THEN conjunct1]) (rule inserted_tags [OF assms rows ids])
  then have same: "tag_of ` set (conflict_rows s2) = tag_of ` set (conflict_rows s1)"
    unfolding same_tags_def by (metis list.set_map)
  have "Some (fst kc) \<in> existing_keys tenant types new s2" if kc: "kc \<in> set cands" for kc
  proof (cases "kc \<in> set fresh")
    case True
    have ty: "key_type (fst kc) \<in> types" using kc by (simp add: types_def)
    have "\<exists>r \<in> fst ` set rs. \<forall>types. key_type (fst kc) \<in> types \<longrightarrow> tag_key tenant types new (tag_of r) = Some (fst kc)"
      using spec True by simp
    then obtain r where "r \<in> fst ` set rs" "tag_key tenant types new (tag_of r) = Some (fst kc)" using ty by blast
    moreover from this(1) have "r \<in> set (conflict_rows s1)" by (simp add: rows)
    ultimately have "Some (fst kc) \<in> tag_key tenant types new ` tag_of ` set (conflict_rows s1)" by (metis imageI)
    then show ?thesis by (simp add: known_iff_tag same)
  next
    case False
    then have "Some (fst kc) \<in> existing_keys tenant types new s" using kc by (simp add: fresh_def)
    then show ?thesis by (simp add: known_iff_tag same rows image_Un)
  qed
  then have "filter (\<lambda>kc. Some (fst kc) \<notin> existing_keys tenant types new s2) cands = []" by (simp add: filter_empty_conv)
  then show ?thesis unfolding s2
    using False by (simp add: insert_cross_user_conflicts_def Let_def cands_def [symmetric] types_def [symmetric])
qed


text \<open>
  What automatic resolution can do: it never changes a memory, it never marks a conflict resolved, it
  asks for attention exactly when it leaves the row pending for the tenant, and it queues a question,
  for the owner of the older memory, exactly when the row says so.
\<close>

theorem auto_resolution_outcomes:
  assumes "resolve_cross_user_conflict_automatically ut domain now r s = (Inr res, s')"
  shows "base s' = base s \<and>
    (\<exists>r'. conflict_rows s' = update_where (\<lambda>x. cf_id x = cf_id r) (\<lambda>_. r') (conflict_rows s) \<and> tag_of r' = tag_of r \<and>
       cf_decision_evidence r' = ar_evidence res \<and> cf_status r' \<noteq> ConflictResolved \<and>
       ar_requires_attention res = cf_requires_attention r' \<and>
       (cf_requires_attention r' \<longleftrightarrow> cf_status r' = ConflictPending) \<and> (cf_requires_attention r' \<longleftrightarrow> cf_path r' = Some TenantReview) \<and>
       (if cf_status r' = ClarificationQueued
        then \<exists>a b. load_conflict_memory (user_a_memory_id r) s = Some a \<and> load_conflict_memory (user_b_memory_id r) s = Some b \<and>
           clarifications s' = clarifications s @
             [\<lparr>q_tenant_id = cf_tenant_id r, q_proxy_user_id = m_proxy_user_id (if created_at a \<le> created_at b then a else b),
               question_context = question_for r, q_conflict_id = cf_id r, trigger_on = ''next_session''\<rparr>]
        else clarifications s' = clarifications s))"
proof -
  let ?a = "load_conflict_memory (user_a_memory_id r) s" and ?b = "load_conflict_memory (user_b_memory_id r) s"
  consider (missing) "?a = None \<or> ?b = None" | (both) a b where "?a = Some a" "?b = Some b" by (cases ?a; cases ?b) auto
  then show ?thesis
  proof cases
    case missing
    then have "leave_to_tenant now ''One or both memories are unavailable for automatic resolution'' (missing_memory_evidence r) r s = (Inr res, s')"
      using assms by (auto simp: resolve_cross_user_conflict_automatically_def Let_def split: option.splits)
    then show ?thesis
      by (auto simp: leave_to_tenant_def unresolvable_def left_pending_def put_conflict_def tag_of_def
          intro!: exI [of _ "(left_pending now r)\<lparr>cf_decision_evidence := missing_memory_evidence r\<rparr>"])
  next
    case both
    have cases: "ignore_per_user now r s = (Inr res, s') \<or> ask_user now (if created_at a \<le> created_at b then a else b) r s = (Inr res, s') \<or>
        leave_to_tenant now ''Tenant review is required for shared organizational context'' (shared_context_evidence r) r s = (Inr res, s')"
      using assms unfolding resolve_cross_user_conflict_automatically_def both Let_def
      by (simp add: resolve_by_weight_raises case_prod_beta split: if_splits)
    consider (ignored) "ignore_per_user now r s = (Inr res, s')"
      | (asked) "ask_user now (if created_at a \<le> created_at b then a else b) r s = (Inr res, s')"
      | (left) "leave_to_tenant now ''Tenant review is required for shared organizational context'' (shared_context_evidence r) r s = (Inr res, s')"
      using cases by blast
    then show ?thesis
    proof cases
      case ignored
      then show ?thesis
        by (simp add: ignore_per_user_def put_conflict_def) (intro conjI exI, auto simp: tag_of_def)
    next
      case asked
      then show ?thesis
        by (simp add: ask_user_def put_conflict_def queue_user_session_clarification_def) (intro conjI exI, auto simp: tag_of_def both)
    next
      case left
      then show ?thesis
        by (simp add: leave_to_tenant_def unresolvable_def put_conflict_def)
          (intro conjI exI, auto simp: tag_of_def left_pending_def)
    qed
  qed
qed

text \<open>
  The recency of two memories depends on which of them is the first: with a gap of \<open>n\<close> days and a
  part of a day, the count is \<open>n\<close> when the first memory is the newer one and \<open>n + 1\<close> when it is the
  older one, so a gap between seven and eight days counts as recent in one order only.
\<close>

theorem recency_depends_on_order:
  assumes "t - u = n * day + x" and "0 \<le> n" and "0 < x" and "x < day"
  shows "recency_days t u = n \<and> recency_days u t = n + 1"
proof -
  have d: "0 < day" by (simp add: day_def)
  have "(t - u) div day = n" using assms d by (simp add: div_add1_eq)
  moreover have "(u - t) div day = - (n + 1)"
  proof -
    have "u - t = - (n + 1) * day + (day - x)" using assms(1) by (simp add: algebra_simps)
    then show ?thesis using assms(3,4) d by (simp add: div_add1_eq)
  qed
  ultimately show ?thesis using assms(2) by (simp add: recency_days_def)
qed

text \<open>
  (C28) A question between two stored memories is queued only when both are current memories of one
  category that belong to the asking profile of the asking tenant; then a conflict between them is
  open, and asking again changes nothing.
\<close>

theorem clarification_is_authorised_and_idempotent:
  assumes "queue_existing_memory_clarification ut now [Some i, Some j] (Some t) (Some p) s = (True, s')"
  shows "i \<noteq> j \<and> tenant_of p (base s) = Some t \<and>
    (\<exists>a b. get_memory i (base s) = Some a \<and> get_memory j (base s) = Some b \<and> \<not> is_archived a \<and> \<not> is_archived b \<and>
       m_proxy_user_id a = p \<and> m_proxy_user_id b = p \<and> category a = category b) \<and>
    (\<exists>r \<in> set (conflict_rows s'). cf_tenant_id r = t \<and> is_open r \<and> {user_a_memory_id r, user_b_memory_id r} = {Some i, Some j}) \<and>
    queue_existing_memory_clarification ut now' [Some i, Some j] (Some t) (Some p) s' = (True, s') \<and>
    queue_existing_memory_clarification ut now' [Some j, Some i] (Some t) (Some p) s' = (True, s')"
proof -
  obtain a b where pair: "selectable_pair t p [i, j] s = Some (a, b)"
    using assms by (auto simp: queue_existing_memory_clarification_def split: option.splits)
  then have ij: "i \<noteq> j" "tenant_of p (base s) = Some t" and ab: "get_memory (min i j) (base s) = Some a" "get_memory (max i j) (base s) = Some b"
      and ok: "\<not> is_archived a" "\<not> is_archived b" "m_proxy_user_id a = p" "m_proxy_user_id b = p" "category a = category b"
    by (auto simp: selectable_pair_def split: if_splits option.splits)
  have ids: "m_id a = min i j" "m_id b = max i j" using ab by (auto simp: get_memory_def dest: find_row_Some)
  define r where "r = clarification_row t a b (category_value (category a)) ''explicit_existing_memory_clarification'' UserSession now
                              (explicit_clarification_evidence ut (category_value (category a)) a b) s"
  define open_pair where "open_pair = (\<lambda>x. cf_tenant_id x = t \<and> is_open x \<and>
       (user_a_memory_id x = Some (min i j) \<and> user_b_memory_id x = Some (max i j) \<or> user_a_memory_id x = Some (max i j) \<and> user_b_memory_id x = Some (min i j)))"
  have ex: "existing_open_clarification t (m_id a) (m_id b) s0 = find_row open_pair (conflict_rows s0)" for s0
    by (simp add: existing_open_clarification_def ids open_pair_def)
  have new: "open_pair r" by (simp add: open_pair_def r_def clarification_row_def build_cross_user_conflict_row_def is_open_def ids)
  have s': "s' = s \<and> find_row open_pair (conflict_rows s) \<noteq> None \<or>
      conflict_rows s' = conflict_rows s @ [r] \<and> memories (base s') = memories (base s) \<and> proxy_users (base s') = proxy_users (base s)"
    using assms pair by (auto simp: queue_existing_memory_clarification_def ex Let_def r_def split: if_splits)
  then have found: "find_row open_pair (conflict_rows s') \<noteq> None" using new by (auto simp: find_row_None)
  have frame: "memories (base s') = memories (base s)" "proxy_users (base s') = proxy_users (base s)" using s' by auto
  have again: "selectable_pair t p [i, j] s' = Some (a, b)" "selectable_pair t p [j, i] s' = Some (a, b)"
    using pair ij ab ok by (auto simp: selectable_pair_def get_memory_def tenant_of_def frame min.commute max.commute)
  obtain x where "x \<in> set (conflict_rows s')" "open_pair x" using found by (auto dest: find_row_Some)
  then have row: "\<exists>r \<in> set (conflict_rows s'). cf_tenant_id r = t \<and> is_open r \<and> {user_a_memory_id r, user_b_memory_id r} = {Some i, Some j}"
    by (intro bexI [of _ x]) (auto simp: open_pair_def min_def max_def split: if_splits)
  have mem: "\<exists>a b. get_memory i (base s) = Some a \<and> get_memory j (base s) = Some b \<and> \<not> is_archived a \<and> \<not> is_archived b \<and>
       m_proxy_user_id a = p \<and> m_proxy_user_id b = p \<and> category a = category b"
    using ab ok by (auto simp: min_def max_def split: if_splits)
  show ?thesis using ij mem row again found by (simp add: queue_existing_memory_clarification_def ex)
qed

section \<open>Concrete instances\<close>

definition other_memory :: "utc \<Rightarrow> memory" where
  "other_memory t = example_memory\<lparr>m_id := 2, content := ''likes coffee'', created_at := t\<rparr>"

definition example_review :: "utc \<Rightarrow> review_db" where
  "example_review t =
     \<lparr>base = example_db\<lparr>memories := [example_memory, other_memory t]\<rparr>, conflict_rows = [], clarifications = [], audit_logs = [],
      signals = [], conflicts_flagged = 0, clarifications_queued = 0\<rparr>"

definition example_row :: "entity_type \<Rightarrow> conflict_row" where
  "example_row et = build_cross_user_conflict_row 90 1 2 et ''tea'' ''coffee'' (example_review 0)"

definition example_context_conflict :: context_conflict where
  "example_context_conflict =
     \<lparr>cc_signal = \<lparr>sg_tenant_id = 90, sg_entity_type = TechStack, sg_value = ''tea'', sg_proxy_user_id = Some 81, sg_memory_id = Some 1,
        sg_confidence = 1, sg_superseded = False\<rparr>, cc_value_a = ''tea'', cc_value_b = ''coffee''\<rparr>"

lemma example_review_memories:
  "load_conflict_memory (user_a_memory_id (example_row et)) (example_review t) = Some example_memory"
  "load_conflict_memory (user_b_memory_id (example_row et)) (example_review t) = Some (other_memory t)"
  by (simp_all add: load_conflict_memory_def example_row_def build_cross_user_conflict_row_def example_review_def get_memory_def
      find_row_def example_memory_def other_memory_def)

theorem conflicts_recorded_once_witness:
  "fst (insert_cross_user_conflicts (\<lambda>_. ''u'') None 0 [example_context_conflict] 90 2
     (snd (insert_cross_user_conflicts (\<lambda>_. ''u'') None 0 [example_context_conflict] 90 2 (example_review 0)))) = Inr (0, [])"
proof -
  have "conflict_keys_ok (example_review 0)" by (simp add: conflict_keys_ok_def example_review_def)
  from conflicts_recorded_once [OF this] show ?thesis by simp
qed


theorem auto_resolution_outcomes_witness:
  "base (snd (resolve_cross_user_conflict_automatically (\<lambda>_. ''u'') None 0 (example_row ExamDate) (example_review 0))) =
     base (example_review 0)"
proof -
  have scope: "is_per_user_scoped_conflict (entity_name (cf_entity_type (example_row ExamDate))) example_memory (other_memory 0)"
    by (simp add: is_per_user_scoped_conflict_def example_row_def build_cross_user_conflict_row_def per_user_scoped_entity_types_def)
  then obtain res s' where "resolve_cross_user_conflict_automatically (\<lambda>_. ''u'') None 0 (example_row ExamDate) (example_review 0) = (Inr res, s')"
    by (simp add: resolve_cross_user_conflict_automatically_def example_review_memories ignore_per_user_def)
  from auto_resolution_outcomes [OF this] this show ?thesis by simp
qed

theorem recency_depends_on_order_witness: "recency_days (7 * day + 1) 0 = 7 \<and> recency_days 0 (7 * day + 1) = 8"
  using recency_depends_on_order [of "7 * day + 1" 0 7 1] by (simp add: day_def)

theorem clarification_is_authorised_and_idempotent_witness:
  "let s' = snd (queue_existing_memory_clarification (\<lambda>_. ''u'') 0 [Some 1, Some 2] (Some 90) (Some 80) (example_review 0))
   in queue_existing_memory_clarification (\<lambda>_. ''u'') 5 [Some 2, Some 1] (Some 90) (Some 80) s' = (True, s')"
proof -
  have "selectable_pair 90 80 [1, 2] (example_review 0) = Some (example_memory, other_memory 0)"
    by (simp add: selectable_pair_def example_review_def get_memory_def find_row_def tenant_of_def example_memory_def other_memory_def
        example_db_def)
  moreover have "existing_open_clarification 90 (m_id example_memory) (m_id (other_memory 0)) (example_review 0) = None"
    by (simp add: existing_open_clarification_def find_row_def example_review_def)
  ultimately obtain s' where
    "queue_existing_memory_clarification (\<lambda>_. ''u'') 0 [Some 1, Some 2] (Some 90) (Some 80) (example_review 0) = (True, s')"
    by (simp add: queue_existing_memory_clarification_def Let_def)
  from clarification_is_authorised_and_idempotent [OF this] this show ?thesis by (simp add: Let_def)
qed

end
