(* ===== verification/Grounding.thy ===== *)
theory Grounding
  imports Evidence Ranking Json
begin

text \<open>
  The grounding of an extracted memory in the user's own words: the part of
  \<open>src/api/services/extraction_service.py\<close> that validates the evidence of a candidate, verifies quoted
  spans against the transcript and checks them again before a write.

  The policy of conversational evidence is that of theory \<open>Evidence\<close>. SHA-256 is a parameter. Characters
  are those of the ASCII range, so letters and digits are the significant ones. A message has a
  \<open>content\<close>, and an index is that of a transcript.
\<close>

section \<open>Text\<close>

record grounding_env =
  ge_evidence :: evidence_env
  ge_matchers :: text_matchers
  ge_sha256 :: "string \<Rightarrow> string"

abbreviation turn_text :: "grounding_env \<Rightarrow> message \<Rightarrow> string" where
  "turn_text G m \<equiv> field_text (ge_evidence G) m ''content''"

text \<open>\<open>s.find(q, start)\<close>; \<open>None\<close> is \<open>-1\<close>.\<close>

definition find_from :: "string \<Rightarrow> string \<Rightarrow> nat \<Rightarrow> nat option" where
  "find_from s q start = List.find (\<lambda>i. prefix q (drop i s)) [start..<Suc (length s)]"

definition is_word_char :: "char \<Rightarrow> bool" where
  "is_word_char c \<longleftrightarrow> is_digit c \<or> is_lower_letter (lower_char c)"

definition token_stop_words :: "string list" where
  "token_stop_words =
     [''about'', ''after'', ''also'', ''and'', ''are'', ''because'', ''before'', ''from'', ''has'', ''have'', ''into'', ''its'', ''more'', ''that'',
      ''the'', ''their'', ''them'', ''this'', ''user'', ''with'', ''would'']"

fun split_runs :: "(char \<Rightarrow> bool) \<Rightarrow> string \<Rightarrow> string \<Rightarrow> string list" where
  "split_runs p cur [] = (if cur = [] then [] else [rev cur])"
| "split_runs p cur (c # cs) =
     (if p c then split_runs p (c # cur) cs
      else if cur = [] then split_runs p [] cs else rev cur # split_runs p [] cs)"

definition significant_tokens :: "string \<Rightarrow> string set" where
  "significant_tokens s =
     set (filter (\<lambda>t. 3 \<le> length t \<and> t \<notin> set token_stop_words) (split_runs is_word_char [] (py_lower s)))"

definition question_verbs :: "string list" where
  "question_verbs =
     [''should'', ''do'', ''does'', ''did'', ''can'', ''could'', ''will'', ''would'', ''is'', ''are'', ''was'', ''were'', ''have'', ''has'']"

text \<open>The pattern \<open>^when\s+(verb)\b\<close> on a text with single spaces.\<close>

definition when_question :: "string \<Rightarrow> bool" where
  "when_question s \<longleftrightarrow>
     prefix ''when '' s \<and>
     list_ex (\<lambda>w. prefix w (drop 5 s) \<and>
        (case drop (5 + length w) s of [] \<Rightarrow> True | c # _ \<Rightarrow> \<not> is_word_char c \<and> c \<noteq> CHR ''_'')) question_verbs"

definition question_starts :: "string list" where
  "question_starts =
     [''am '', ''are '', ''can '', ''could '', ''did '', ''do '', ''does '', ''how '', ''is '', ''should '', ''what '', ''where '', ''which '', ''who '',
      ''why '', ''will '', ''would '']"

definition strip_chars :: "string \<Rightarrow> string \<Rightarrow> string" where
  "strip_chars cs s = rev (dropWhile (\<lambda>c. c \<in> set cs) (rev (dropWhile (\<lambda>c. c \<in> set cs) s)))"

definition is_question_only :: "string \<Rightarrow> bool" where
  "is_question_only s =
     (let t = join_words (py_words (py_lower s));
          clauses = filter (\<lambda>c. c \<noteq> []) (map (strip_chars '' ,;:-'') (split_runs (\<lambda>c. c \<notin> set ''.!?'') [] t))
      in if t = [] then False
         else if when_question t then True
         else if clauses = [] then last t = CHR ''?''
         else list_all (\<lambda>c. when_question c \<or> list_ex (\<lambda>q. prefix q c) question_starts) clauses)"

section \<open>Spans\<close>

text \<open>An exact occurrence of a quote in a turn.\<close>

record source_hit =
  sh_turn :: int
  sh_start :: nat
  sh_quote :: string

definition hit_end :: "source_hit \<Rightarrow> nat" where
  "hit_end h = sh_start h + length (sh_quote h)"

definition turn_label :: "grounding_env \<Rightarrow> int \<Rightarrow> message \<Rightarrow> string" where
  "turn_label G i m =
     (let t = field_text (ge_evidence G) m ''turn_id'' in if t = [] then ''legacy-index:'' @ int_text i else t)"

definition source_span_record :: "grounding_env \<Rightarrow> message \<Rightarrow> source_hit \<Rightarrow> scope" where
  "source_span_record G m h =
     [(''turn_index'', PInt (sh_turn h)), (''turn_id'', PStr (turn_label G (sh_turn h) m)),
      (''start_char'', PInt (int (sh_start h))), (''end_char'', PInt (int (hit_end h))), (''offset_unit'', PStr ''unicode_code_point''),
      (''quote_sha256'', PStr (ge_sha256 G (sh_quote h))), (''turn_sha256'', PStr (ge_sha256 G (turn_text G m)))]"

definition valid_quote :: "pyval \<Rightarrow> string option" where
  "valid_quote v =
     (case v of PStr q \<Rightarrow> if py_strip q = [] \<or> 1000 < length q then None else Some q | _ \<Rightarrow> None)"

text \<open>One span of the model's answer: the reason of its rejection, or the occurrence.\<close>

definition check_span :: "grounding_env \<Rightarrow> message list \<Rightarrow> int set \<Rightarrow> pyval \<Rightarrow> string + source_hit" where
  "check_span G ms eligible v =
     (case v of
        PDict d \<Rightarrow>
          if fst ` set d \<noteq> {''turn_index'', ''quote''} then Inl ''invalid_source_span_shape''
          else
            (case dget d ''turn_index'' PNone of
               PInt i \<Rightarrow>
                 if i \<notin> eligible then Inl ''invalid_source_span_turn''
                 else
                   (case valid_quote (dget d ''quote'' PNone) of
                      None \<Rightarrow> Inl ''invalid_source_quote''
                    | Some q \<Rightarrow>
                        (case find_from (turn_text G (ms ! nat i)) q 0 of
                           None \<Rightarrow> Inl ''quote_not_found''
                         | Some n \<Rightarrow>
                             if find_from (turn_text G (ms ! nat i)) q (Suc n) \<noteq> None then Inl ''quote_not_unique''
                             else Inr \<lparr>sh_turn = i, sh_start = n, sh_quote = q\<rparr>))
             | _ \<Rightarrow> Inl ''invalid_source_span_turn'')
      | _ \<Rightarrow> Inl ''invalid_source_span_shape'')"

definition same_place :: "source_hit \<Rightarrow> source_hit \<Rightarrow> bool" where
  "same_place h k \<longleftrightarrow> sh_turn h = sh_turn k \<and> sh_start h = sh_start k \<and> hit_end h = hit_end k"

fun check_spans :: "grounding_env \<Rightarrow> message list \<Rightarrow> int set \<Rightarrow> source_hit list \<Rightarrow> pyval list \<Rightarrow> string + source_hit list" where
  "check_spans G ms eligible seen [] = Inr (rev seen)"
| "check_spans G ms eligible seen (v # vs) =
     (case check_span G ms eligible v of
        Inl x \<Rightarrow> Inl x
      | Inr h \<Rightarrow>
          if list_ex (same_place h) seen then Inl ''duplicate_source_span'' else check_spans G ms eligible (h # seen) vs)"

definition validate_source_spans :: "grounding_env \<Rightarrow> message list \<Rightarrow> int set \<Rightarrow> pyval \<Rightarrow> string + source_hit list" where
  "validate_source_spans G ms eligible spans =
     (case spans of
        PList vs \<Rightarrow>
          if vs = [] \<or> 8 < length vs then Inl ''invalid_source_spans''
          else (case check_spans G ms eligible [] vs of
                  Inl x \<Rightarrow> Inl x
                | Inr hs \<Rightarrow> Inr (sort_key (\<lambda>h. (sh_turn h, sh_start h)) hs))
      | _ \<Rightarrow> Inl ''invalid_source_spans'')"

definition span_dicts :: "grounding_env \<Rightarrow> message list \<Rightarrow> source_hit list \<Rightarrow> pyval list" where
  "span_dicts G ms hs = map (\<lambda>h. PDict (source_span_record G (ms ! nat (sh_turn h)) h)) hs"

section \<open>Evidence of a candidate\<close>

text \<open>The arguments of a validation; \<open>eq_spans = None\<close>: no spans were asked for.\<close>

record evidence_query =
  eq_turns :: pyval
  eq_relation :: pyval
  eq_proposal_turn :: pyval
  eq_context :: scope
  eq_visible :: "int set option"
  eq_confirmation :: bool
  eq_active :: "message list"
  eq_structured :: bool
  eq_spans :: "pyval option"
  eq_review_only :: bool

definition policy_turns :: "message list \<Rightarrow> evidence_query \<Rightarrow> pyval" where
  "policy_turns ms q =
     (case eq_turns q of
        PList vs \<Rightarrow> PList vs
      | v \<Rightarrow> if eq_relation q = PNone then PList (map (\<lambda>i. PInt (int i)) [0..<length ms]) else v)"

definition provided_turns :: "message list \<Rightarrow> evidence_query \<Rightarrow> int list option" where
  "provided_turns ms q = (case eq_turns q of PList vs \<Rightarrow> Some (cited_indexes (length ms) vs) | _ \<Rightarrow> None)"

definition user_clauses :: "grounding_env \<Rightarrow> message list \<Rightarrow> int set option \<Rightarrow> int list \<Rightarrow> int list \<Rightarrow> string list" where
  "user_clauses G ms visible cited eligible =
     filter (\<lambda>t. t \<noteq> []) (map (\<lambda>i. py_strip (turn_text G (ms ! nat i)))
       (filter (\<lambda>i. visible_turn visible i \<and> (cited = [] \<or> i \<in> set cited) \<and> i \<in> set eligible) (map int [0..<length ms])))"

definition quotes_candidate :: "string \<Rightarrow> source_hit list \<Rightarrow> bool" where
  "quotes_candidate txt hs \<longleftrightarrow>
     (let clauses = map (py_strip \<circ> sh_quote) hs in py_strip txt \<in> set clauses \<or> py_strip txt = join_with [CHR 0x0A] clauses)"

definition overlaps :: "string \<Rightarrow> string \<Rightarrow> bool" where
  "overlaps a b \<longleftrightarrow> significant_tokens a \<inter> significant_tokens b \<noteq> {}"

text \<open>The record of accepted evidence.\<close>

definition turn_reference :: "grounding_env \<Rightarrow> message list \<Rightarrow> int \<Rightarrow> pyval" where
  "turn_reference G ms i =
     (let m = ms ! nat i
      in PDict [(''turn_index'', PInt i), (''turn_id'', PStr (turn_label G i m)), (''external_turn_id'', dget m ''external_turn_id'' PNone),
           (''content_sha256'', dget m ''turn_content_sha256'' PNone), (''role'', PStr (py_lower (field_text (ge_evidence G) m ''role''))),
           (''source_kind'', PStr (py_lower (field_text (ge_evidence G) m ''source_kind'')))])"

definition authority_label :: "evidence_authority \<Rightarrow> string" where
  "authority_label a =
     (case a of UntrustedContext \<Rightarrow> ''untrusted_context'' | ClientAssertion \<Rightarrow> ''client_assertion''
      | LegacyConversation \<Rightarrow> ''legacy_conversation'' | ApplicationAttested \<Rightarrow> ''application_attested''
      | MemoryosAttested \<Rightarrow> ''memoryos_attested'')"

definition grounding_mode :: "source_hit list option \<Rightarrow> evidence_decision \<Rightarrow> string" where
  "grounding_mode hits p =
     (if hits \<noteq> None then ''verified_source_spans'' else if dn_proposal_turn p \<noteq> None then ''registered_proposal''
      else ''legacy_token_overlap'')"

definition int_or_none :: "int option \<Rightarrow> pyval" where
  "int_or_none x = (case x of None \<Rightarrow> PNone | Some i \<Rightarrow> PInt i)"

definition evidence_record ::
  "grounding_env \<Rightarrow> message list \<Rightarrow> evidence_query \<Rightarrow> evidence_decision \<Rightarrow> int list option \<Rightarrow> source_hit list option \<Rightarrow> scope" where
  "evidence_record G ms q p cited hits =
     (if eq_review_only q then [(''requires_preference_confirmation'', PBool True)] else []) @
     [(''schema_version'', PInt (if hits \<noteq> None then 2 else 1))] @
     (case hits of None \<Rightarrow> [] | Some hs \<Rightarrow> [(''source_spans'', PList (span_dicts G ms hs))]) @
     [(''grounding_mode'', PStr (grounding_mode hits p)),
      (''citation_mode'', PStr (if cited \<noteq> None then ''model_cited'' else ''legacy_compatibility'')),
      (''turn_indexes'', PList (map PInt (case cited of Some is \<Rightarrow> is | None \<Rightarrow> dn_turns p))),
      (''user_turn_indexes'', PList (map PInt (dn_turns p))),
      (''relation'', PStr (py_str (ee_ledger (ge_evidence G)) (py_or (eq_relation q) (PStr ''direct_user_statement'')))),
      (''proposal_turn_index'', int_or_none (dn_proposal_turn p)),
      (''turn_references'', PList (map (turn_reference G ms) (case cited of Some is \<Rightarrow> is | None \<Rightarrow> []))),
      (''proposal_turn_id'', (case dn_proposal_turn p of None \<Rightarrow> PNone | Some i \<Rightarrow> PStr (turn_label G i (ms ! nat i)))),
      (''proposal'',
         (case dn_proposal_id p of
            None \<Rightarrow> PNone
          | Some k \<Rightarrow> PDict [(''id'', PStr k), (''group_id'', opt_str (dn_group_id p)), (''ordinal'', int_or_none (dn_ordinal p))])),
      (''authority'', PDict [(''level'', PInt (authority_value (dn_authority p))), (''label'', PStr (authority_label (dn_authority p)))]),
      (''validation'', PDict [(''accepted'', PBool True), (''reason'', PStr (dn_reason p))]),
      (''extraction'', PDict (filter (\<lambda>kv. snd kv \<noteq> PNone) (eq_context q)))]"

text \<open>The spans of a direct statement, when they were asked for: \<open>Inr None\<close> when they were not.\<close>

definition checked_spans ::
  "grounding_env \<Rightarrow> message list \<Rightarrow> evidence_query \<Rightarrow> evidence_decision \<Rightarrow> int list \<Rightarrow> string \<Rightarrow> string + source_hit list option" where
  "checked_spans G ms q p cited txt =
     (if dn_proposal_turn p \<noteq> None then Inr None
      else
        (case eq_spans q of
           None \<Rightarrow>
             if dget (eq_context q) ''extractor_version'' PNone = PStr ''source-evidence-v2'' then Inl ''missing_source_spans'' else Inr None
         | Some spans \<Rightarrow>
             (case validate_source_spans G ms (set (dn_turns p) \<inter> set cited) spans of
                Inl x \<Rightarrow> Inl x
              | Inr hs \<Rightarrow> if quotes_candidate txt hs then Inr (Some hs) else Inl ''candidate_source_mismatch'')))"

definition supported ::
  "grounding_env \<Rightarrow> message list \<Rightarrow> evidence_query \<Rightarrow> evidence_decision \<Rightarrow> int list \<Rightarrow> source_hit list option \<Rightarrow> string \<Rightarrow> bool" where
  "supported G ms q p cited hits txt \<longleftrightarrow>
     (case dn_proposal_turn p of
        Some i \<Rightarrow> overlaps txt (turn_text G (ms ! nat i))
      | None \<Rightarrow>
          list_ex (\<lambda>t. (eq_review_only q \<or> \<not> is_question_only t) \<and> (hits \<noteq> None \<or> overlaps txt t))
            (case hits of Some hs \<Rightarrow> map sh_quote hs | None \<Rightarrow> user_clauses G ms (eq_visible q) cited (dn_turns p)))"

definition validate_user_evidence ::
  "grounding_env \<Rightarrow> string \<Rightarrow> string \<Rightarrow> message list \<Rightarrow> evidence_query \<Rightarrow> evidence_error + (string + scope)" where
  "validate_user_evidence G txt cat ms q =
     (if eq_review_only q \<and> (cat \<noteq> ''preference'' \<or> eq_spans q = None) then Inr (Inl ''question_review_requires_preference_spans'')
      else
        (case validate_conversational_evidence (ge_evidence G) (ge_matchers G) ms (policy_turns ms q) (eq_relation q) (eq_proposal_turn q)
                (eq_visible q) (eq_confirmation q) (eq_active q) (eq_structured q) of
           Inl x \<Rightarrow> Inl x
         | Inr p \<Rightarrow>
             if \<not> dn_accepted p then Inr (Inl (dn_reason p))
             else if provided_turns ms q = Some [] then Inr (Inl ''invalid_evidence_turn'')
             else
               (let cited = (case provided_turns ms q of Some is \<Rightarrow> is | None \<Rightarrow> [])
                in case checked_spans G ms q p cited txt of
                     Inl x \<Rightarrow> Inr (Inl x)
                   | Inr hits \<Rightarrow>
                       if supported G ms q p cited hits txt then Inr (Inr (evidence_record G ms q p (provided_turns ms q) hits))
                       else Inr (Inl ''unsupported_user_evidence''))))"

section \<open>The check before a write\<close>

text \<open>A turn of the user, as the write path reads it; its role is always \<open>user\<close>.\<close>

record source_turn =
  st_index :: int
  st_content :: pyval

fun span_quotes :: "grounding_env \<Rightarrow> message list \<Rightarrow> pyval list \<Rightarrow> pyval list option" where
  "span_quotes G ms [] = Some []"
| "span_quotes G ms (v # vs) =
     (case v of
        PDict d \<Rightarrow>
          (case (dget d ''turn_index'' PNone, dget d ''start_char'' PNone, dget d ''end_char'' PNone) of
             (PInt i, PInt a, PInt b) \<Rightarrow>
               if 0 \<le> i \<and> i < int (length ms) \<and> 0 \<le> a \<and> a < b \<and> b \<le> int (length (turn_text G (ms ! nat i)))
               then map_option (Cons (PDict [(''turn_index'', PInt i), (''quote'', PStr (take (nat (b - a)) (drop (nat a) (turn_text G (ms ! nat i)))))]))
                      (span_quotes G ms vs)
               else None
           | _ \<Rightarrow> None)
      | _ \<Rightarrow> None)"

definition direct_query :: "pyval \<Rightarrow> pyval \<Rightarrow> evidence_query" where
  "direct_query turns spans =
     \<lparr>eq_turns = turns, eq_relation = PStr ''direct_user_statement'', eq_proposal_turn = PNone, eq_context = [], eq_visible = None,
      eq_confirmation = False, eq_active = [], eq_structured = False, eq_spans = Some spans, eq_review_only = False\<rparr>"

text \<open>Equality of JSON values, up to the order of keys.\<close>

definition same_json :: "pyval \<Rightarrow> pyval \<Rightarrow> bool" where
  "same_json a b \<longleftrightarrow> json_canonical a = json_canonical b"

fun span_turn :: "pyval \<Rightarrow> int list" where
  "span_turn (PDict d) = (case dget d ''turn_index'' PNone of PInt i \<Rightarrow> [i] | _ \<Rightarrow> [])"
| "span_turn v = []"

definition source_turns :: "message list \<Rightarrow> int list \<Rightarrow> source_turn list" where
  "source_turns ms turns =
     map (\<lambda>i. \<lparr>st_index = i, st_content = dget (ms ! nat i) ''content'' PNone\<rparr>) (sort (remdups turns))"

text \<open>A direct statement never raises (lemma \<open>direct_evidence_decides\<close> below), so \<open>Inl\<close> is not reached here.\<close>

definition verified_source_turns :: "grounding_env \<Rightarrow> string \<Rightarrow> string \<Rightarrow> scope \<Rightarrow> message list \<Rightarrow> source_turn list option" where
  "verified_source_turns G txt cat ev ms =
     (case dget ev ''source_spans'' PNone of
        PList (v # vs) \<Rightarrow>
          (case span_quotes G ms (v # vs) of
             None \<Rightarrow> None
           | Some quotes \<Rightarrow>
               (case validate_user_evidence G txt cat ms (direct_query (dget ev ''turn_indexes'' PNone) (PList quotes)) of
                  Inr (Inr checked) \<Rightarrow>
                    if same_json (dget checked ''source_spans'' PNone) (PList (v # vs))
                    then Some (source_turns ms (concat (map span_turn (v # vs)))) else None
                | _ \<Rightarrow> None))
      | _ \<Rightarrow> None)"

definition verified_source_value_span ::
  "grounding_env \<Rightarrow> string \<Rightarrow> string \<Rightarrow> scope \<Rightarrow> message list \<Rightarrow> string \<Rightarrow> int option \<Rightarrow> scope option" where
  "verified_source_value_span G txt cat ev ms val turn =
     (if py_strip val = [] \<or> 1000 < length val then None
      else
        (case verified_source_turns G txt cat ev ms of
           None \<Rightarrow> None
         | Some turns \<Rightarrow>
             (case List.find (\<lambda>t. (turn = None \<or> turn = Some (st_index t)) \<and>
                       find_from (py_str (ee_ledger (ge_evidence G)) (st_content t)) val 0 \<noteq> None) turns of
                None \<Rightarrow> None
              | Some t \<Rightarrow>
                  map_option (\<lambda>n. source_span_record G (ms ! nat (st_index t)) \<lparr>sh_turn = st_index t, sh_start = n, sh_quote = val\<rparr>)
                    (find_from (py_str (ee_ledger (ge_evidence G)) (st_content t)) val 0))))"

section \<open>Lemmas\<close>

text \<open>A text occurs once in another, at a place.\<close>

definition occurs_once :: "string \<Rightarrow> string \<Rightarrow> nat \<Rightarrow> bool" where
  "occurs_once s q n \<longleftrightarrow> (\<exists>post. s = take n s @ q @ post) \<and> n \<le> length s \<and> (\<forall>pre post. s = pre @ q @ post \<longrightarrow> length pre = n)"

lemma find_from_Some: "find_from s q k = Some n \<Longrightarrow> k \<le> n \<and> n \<le> length s \<and> prefix q (drop n s) \<and> (\<forall>i. k \<le> i \<and> i < n \<longrightarrow> \<not> prefix q (drop i s))"
proof -
  assume "find_from s q k = Some n"
  then obtain j where j: "j < length [k..<Suc (length s)]" "prefix q (drop ([k..<Suc (length s)] ! j) s)" "n = [k..<Suc (length s)] ! j"
      "\<forall>i<j. \<not> prefix q (drop ([k..<Suc (length s)] ! i) s)"
    unfolding find_from_def find_Some_iff by metis
  have nth: "[k..<Suc (length s)] ! i = k + i" if "i \<le> j" for i using that j(1) by (simp del: upt_Suc)
  have "\<not> prefix q (drop i s)" if "k \<le> i" "i < n" for i
    using j(4) [rule_format, of "i - k"] nth [of "i - k"] nth [of j] j(3) that by simp
  then show ?thesis using j nth [of j] by (simp del: upt_Suc)
qed

lemma find_from_None: "find_from s q k = None \<longleftrightarrow> (\<forall>i. k \<le> i \<and> i \<le> length s \<longrightarrow> \<not> prefix q (drop i s))"
  by (auto simp: find_from_def find_None_iff)

lemma find_from_occurs:
  assumes "find_from s q 0 = Some n" and "find_from s q (Suc n) = None"
  shows "occurs_once s q n"
proof -
  note F = find_from_Some [OF assms(1)] and N = assms(2) [unfolded find_from_None]
  obtain post where post: "drop n s = q @ post" using F by (auto simp: prefix_def)
  then have "s = take n s @ q @ post" by (metis append_take_drop_id)
  moreover have "length pre = n" if "s = pre @ q @ post" for pre post
  proof -
    have "prefix q (drop (length pre) s)" "length pre \<le> length s" using that by simp_all
    then show ?thesis using F N by (metis Suc_leI leI linorder_neqE_nat zero_le)
  qed
  ultimately show ?thesis using F unfolding occurs_once_def by blast
qed

definition hit_ok :: "grounding_env \<Rightarrow> message list \<Rightarrow> int set \<Rightarrow> source_hit \<Rightarrow> bool" where
  "hit_ok G ms turns h \<longleftrightarrow>
     sh_turn h \<in> turns \<and> py_strip (sh_quote h) \<noteq> [] \<and> length (sh_quote h) \<le> 1000 \<and>
     find_from (turn_text G (ms ! nat (sh_turn h))) (sh_quote h) 0 = Some (sh_start h) \<and>
     find_from (turn_text G (ms ! nat (sh_turn h))) (sh_quote h) (Suc (sh_start h)) = None"

definition hit_quote :: "source_hit \<Rightarrow> pyval" where
  "hit_quote h = PDict [(''turn_index'', PInt (sh_turn h)), (''quote'', PStr (sh_quote h))]"

definition place :: "source_hit \<Rightarrow> int \<times> nat \<times> nat" where
  "place h = (sh_turn h, sh_start h, hit_end h)"

lemma same_place_iff: "same_place h k \<longleftrightarrow> place h = place k"
  by (simp add: same_place_def place_def)

lemma check_span_ok: "check_span G ms turns v = Inr h \<Longrightarrow> hit_ok G ms turns h"
proof -
  assume c: "check_span G ms turns v = Inr h"
  then obtain d where d: "v = PDict d" "fst ` set d = {''turn_index'', ''quote''}" by (cases v) (simp_all add: check_span_def split: if_splits)
  note c1 = c [unfolded check_span_def d(1) pyval.case, simplified d(2) simp_thms if_False]
  obtain i where i: "dget d ''turn_index'' PNone = PInt i" "i \<in> turns"
    using c1 by (cases "dget d ''turn_index'' PNone") (simp_all split: if_splits)
  note c2 = c1 [unfolded i(1) pyval.case, simplified i(2) simp_thms if_False]
  obtain q where q: "valid_quote (dget d ''quote'' PNone) = Some q" using c2 i(2) by (cases "valid_quote (dget d ''quote'' PNone)") simp_all
  then have ok: "py_strip q \<noteq> []" "length q \<le> 1000" by (auto simp: valid_quote_def split: pyval.splits if_splits)
  show ?thesis using c2 i(2) ok by (simp add: q hit_ok_def split: option.splits if_splits) auto
qed

lemma check_span_hit: "hit_ok G ms turns h \<Longrightarrow> check_span G ms turns (hit_quote h) = Inr h"
  by (cases h) (auto simp: check_span_def hit_ok_def hit_quote_def valid_quote_def)

lemma check_spans_ok:
  assumes "check_spans G ms turns seen vs = Inr hs" and "\<forall>h \<in> set seen. hit_ok G ms turns h" and "distinct (map place seen)"
  shows "(\<forall>h \<in> set hs. hit_ok G ms turns h) \<and> distinct (map place hs) \<and> length hs = length seen + length vs"
  using assms
proof (induction G ms turns seen vs rule: check_spans.induct)
  case (2 G ms turns seen v vs)
  obtain h where h: "check_span G ms turns v = Inr h" "\<not> list_ex (same_place h) seen" "check_spans G ms turns (h # seen) vs = Inr hs"
    using "2.prems"(1) by (auto split: sum.splits if_splits)
  have "distinct (map place (h # seen))" using h(2) "2.prems"(3) by (auto simp: list_ex_iff same_place_iff)
  then show ?case using "2.IH" [OF h(1,2,3)] check_span_ok [OF h(1)] "2.prems"(2) by simp
qed (auto simp: rev_map [symmetric])

lemma check_spans_hits:
  assumes "\<forall>h \<in> set hs. hit_ok G ms turns h" and "distinct (map place (rev seen @ hs))"
  shows "check_spans G ms turns seen (map hit_quote hs) = Inr (rev seen @ hs)"
  using assms
proof (induction hs arbitrary: seen)
  case (Cons h hs)
  have "\<not> list_ex (same_place h) seen" using Cons.prems(2) by (auto simp: list_ex_iff same_place_iff)
  moreover have "check_spans G ms turns (h # seen) (map hit_quote hs) = Inr (rev (h # seen) @ hs)"
    using Cons by simp
  ultimately show ?case using Cons.prems(1) by (simp add: check_span_hit)
qed simp

text \<open>What a list of verified occurrences satisfies.\<close>

definition hits_ok :: "grounding_env \<Rightarrow> message list \<Rightarrow> int set \<Rightarrow> source_hit list \<Rightarrow> bool" where
  "hits_ok G ms turns hs \<longleftrightarrow>
     hs \<noteq> [] \<and> length hs \<le> 8 \<and> (\<forall>h \<in> set hs. hit_ok G ms turns h) \<and> distinct (map place hs) \<and>
     sorted (map (\<lambda>h. (sh_turn h, sh_start h)) hs)"

lemma validate_source_spans_ok:
  assumes "validate_source_spans G ms turns spans = Inr hs"
  shows "hits_ok G ms turns hs"
proof -
  obtain vs hs0 where vs: "spans = PList vs" "vs \<noteq> []" "length vs \<le> 8" "check_spans G ms turns [] vs = Inr hs0"
      "hs = sort_key (\<lambda>h. (sh_turn h, sh_start h)) hs0"
    using assms by (auto simp: validate_source_spans_def split: pyval.splits if_splits sum.splits)
  note ok = check_spans_ok [OF vs(4)]
  have "distinct (map place hs)" using ok by (simp add: distinct_map vs(5))
  moreover have len: "length hs = length vs" and "set hs = set hs0" using ok by (simp_all add: vs(5))
  moreover have "hs \<noteq> []" using len vs(2) by auto
  moreover have "sorted (map (\<lambda>h. (sh_turn h, sh_start h)) hs)" by (simp add: vs(5))
  ultimately show ?thesis using ok vs(3) by (simp add: hits_ok_def)
qed

lemma validate_source_spans_hits:
  assumes "hits_ok G ms turns hs"
  shows "validate_source_spans G ms turns (PList (map hit_quote hs)) = Inr hs"
proof -
  have "check_spans G ms turns [] (map hit_quote hs) = Inr hs" using check_spans_hits [of hs G ms turns "[]"] assms by (simp add: hits_ok_def)
  moreover have "sort_key (\<lambda>h. (sh_turn h, sh_start h)) hs = hs" using assms by (simp add: hits_ok_def sort_key_id_if_sorted)
  ultimately show ?thesis using assms by (simp add: validate_source_spans_def hits_ok_def)
qed

lemma direct_decision:
  assumes "validate_conversational_evidence E M ms turns relation proposal_turn visible enabled active structured = Inr d"
    and "dn_accepted d" and "dn_proposal_turn d = None"
  shows "\<exists>vs. turns = PList vs \<and> d = decided True ''direct_user_statement'' (filter (user_index E ms) (cited_indexes (length ms) vs)) None"
proof -
  obtain v vs where turns: "turns = PList (v # vs)"
    using assms(1,2) by (cases turns) (auto simp: validate_conversational_evidence_def rejected_def decided_def split: list.splits)
  have "d \<noteq> rejected x" for x using assms(2) by (auto simp: rejected_def decided_def)
  moreover have "validate_confirmation E M ms cited proposal_turn visible active structured \<noteq> Inr d"
    if "cited = filter (user_index E ms) (cited_indexes (length ms) (v # vs))" for cited
  proof
    assume confirmed: "validate_confirmation E M ms cited proposal_turn visible active structured = Inr d"
    have "dn_proposal_turn d \<noteq> None"
      using confirmed assms(2)
      by (cases proposal_turn)
        (auto simp: validate_confirmation_def rejected_def decided_def Let_def dest!: decide_target_accepted split: if_splits sum.splits option.splits)
    then show False using assms(3) by simp
  qed
  ultimately show ?thesis
    using assms(1) unfolding turns validate_conversational_evidence_def Let_def by (auto split: if_splits)
qed

text \<open>A direct statement is decided by the cited turns alone, and never raises.\<close>

lemma direct_evidence_decides:
  "validate_conversational_evidence E M ms (PList vs) (PStr ''direct_user_statement'') PNone None False [] False =
     Inr (if vs = [] then rejected ''missing_evidence''
          else if length (cited_indexes (length ms) vs) \<noteq> length vs then rejected ''invalid_evidence_turn''
          else if filter (user_index E ms) (cited_indexes (length ms) vs) = [] then rejected ''no_user_evidence''
          else decided True ''direct_user_statement'' (filter (user_index E ms) (cited_indexes (length ms) vs)) None)"
  by (cases vs) (simp_all add: validate_conversational_evidence_def Let_def py_or_def py_str_def visible_turn_def)

lemma cited_indexes_again:
  "cited_indexes (length ms) (map PInt (cited_indexes (length ms) vs)) = cited_indexes (length ms) vs"
proof -
  have "List.map_filter (valid_index n) (map PInt is) = is" if "\<forall>i \<in> set is. 0 \<le> i \<and> i < int n" for n "is"
    using that by (induction "is") (simp_all add: List.map_filter_simps)
  moreover have "\<forall>i \<in> set (cited_indexes (length ms) vs). 0 \<le> i \<and> i < int (length ms)" using cited_indexes_range by blast
  ultimately have "List.map_filter (valid_index (length ms)) (map PInt (cited_indexes (length ms) vs)) = cited_indexes (length ms) vs" by blast
  moreover have "sort (remdups (cited_indexes (length ms) vs)) = cited_indexes (length ms) vs"
    by (simp add: cited_indexes_def sort_key_id_if_sorted distinct_remdups_id)
  ultimately show ?thesis by (simp only: cited_indexes_def [of _ "map PInt _"])
qed

lemma dget_append: "dget (a @ b) k x = dget a k (dget b k x)"
  by (simp add: dget_def map_add_def split: option.splits)

lemma evidence_record_spans:
  "dget (evidence_record G ms q p cited hits) ''source_spans'' PNone = (case hits of None \<Rightarrow> PNone | Some hs \<Rightarrow> PList (span_dicts G ms hs))"
  "dget (evidence_record G ms q p cited hits) ''grounding_mode'' PNone = PStr (grounding_mode hits p)"
  "dget (evidence_record G ms q p cited hits) ''turn_indexes'' PNone = PList (map PInt (case cited of Some is \<Rightarrow> is | None \<Rightarrow> dn_turns p))"
  by (simp_all add: evidence_record_def dget_append split: option.splits)

text \<open>Acceptance with verified spans.\<close>

lemma span_evidence:
  assumes "validate_user_evidence G txt cat ms q = Inr (Inr ev)"
    and "dget ev ''grounding_mode'' PNone = PStr ''verified_source_spans'' \<or> dget ev ''source_spans'' PNone \<noteq> PNone"
  shows "\<exists>vs hs. let cited = cited_indexes (length ms) vs; own = filter (user_index (ge_evidence G) ms) cited;
            p = decided True ''direct_user_statement'' own None
          in eq_turns q = PList vs \<and> hits_ok G ms (set own) hs \<and> quotes_candidate txt hs \<and>
             list_ex (\<lambda>h. eq_review_only q \<or> \<not> is_question_only (sh_quote h)) hs \<and>
             ev = evidence_record G ms q p (Some cited) (Some hs)"
proof -
  obtain p cited hits where
    pol: "validate_conversational_evidence (ge_evidence G) (ge_matchers G) ms (policy_turns ms q) (eq_relation q) (eq_proposal_turn q)
                (eq_visible q) (eq_confirmation q) (eq_active q) (eq_structured q) = Inr p" "dn_accepted p"
    and cited: "cited = (case provided_turns ms q of Some is \<Rightarrow> is | None \<Rightarrow> [])"
    and spans: "checked_spans G ms q p cited txt = Inr hits" and sup: "supported G ms q p cited hits txt"
    and ev: "ev = evidence_record G ms q p (provided_turns ms q) hits"
    using assms(1) by (auto simp: validate_user_evidence_def Let_def split: if_splits sum.splits)
  have "hits \<noteq> None"
    using assms(2) by (cases hits) (auto simp: ev evidence_record_spans grounding_mode_def split: if_splits)
  then obtain hs where hs: "hits = Some hs" by auto
  have none: "dn_proposal_turn p = None" using spans hs by (auto simp: checked_spans_def split: if_splits)
  obtain sp where sp: "eq_spans q = Some sp" "validate_source_spans G ms (set (dn_turns p) \<inter> set cited) sp = Inr hs" "quotes_candidate txt hs"
    using spans hs none by (auto simp: checked_spans_def split: option.splits if_splits sum.splits)
  note ok = validate_source_spans_ok [OF sp(2)]
  then obtain h where "h \<in> set hs" "sh_turn h \<in> set cited" by (cases hs) (auto simp: hits_ok_def hit_ok_def)
  then have "provided_turns ms q \<noteq> None" by (cases "provided_turns ms q") (simp_all add: cited)
  then obtain vs where vs: "eq_turns q = PList vs" "provided_turns ms q = Some (cited_indexes (length ms) vs)"
    by (auto simp: provided_turns_def split: pyval.splits)
  have p: "p = decided True ''direct_user_statement'' (filter (user_index (ge_evidence G) ms) (cited_indexes (length ms) vs)) None"
    using direct_decision [OF pol none] vs(1) by (auto simp: policy_turns_def)
  have c: "cited = cited_indexes (length ms) vs" by (simp add: cited vs)
  have "set (dn_turns p) \<inter> set cited = set (filter (user_index (ge_evidence G) ms) cited)" by (auto simp: p c decided_def)
  then have "hits_ok G ms (set (filter (user_index (ge_evidence G) ms) cited)) hs" using ok by simp
  moreover have "list_ex (\<lambda>h. eq_review_only q \<or> \<not> is_question_only (sh_quote h)) hs"
    using sup none by (simp add: supported_def hs list_ex_iff)
  ultimately show ?thesis using vs sp(3) by (auto simp: ev p c hs Let_def)
qed

lemma strip_nonempty: "py_strip q \<noteq> [] \<Longrightarrow> q \<noteq> []"
  by (auto simp: py_strip_def)

text \<open>The occurrences of verified spans are read back from their records.\<close>

lemma span_quotes_dicts:
  assumes "\<forall>h \<in> set hs. hit_ok G ms turns h" and "\<forall>i \<in> turns. 0 \<le> i \<and> i < int (length ms)"
  shows "span_quotes G ms (span_dicts G ms hs) = Some (map hit_quote hs)"
  using assms(1)
proof (induction hs)
  case (Cons h hs)
  let ?t = "turn_text G (ms ! nat (sh_turn h))"
  have h: "hit_ok G ms turns h" using Cons.prems by simp
  then have pre: "prefix (sh_quote h) (drop (sh_start h) ?t)" by (auto simp: hit_ok_def dest: find_from_Some)
  have ne: "sh_quote h \<noteq> []" using h by (auto simp: hit_ok_def dest: strip_nonempty)
  have quote: "take (length (sh_quote h)) (drop (sh_start h) ?t) = sh_quote h" using pre by (auto simp: prefix_def)
  have "length (sh_quote h) \<le> length ?t - sh_start h" using prefix_length_le [OF pre] by simp
  moreover have "0 < length (sh_quote h)" using ne by simp
  ultimately have "hit_end h \<le> length ?t" unfolding hit_end_def by linarith
  moreover have "0 \<le> sh_turn h" "sh_turn h < int (length ms)" using h assms(2) by (auto simp: hit_ok_def)
  ultimately show ?case using Cons ne quote
    by (simp add: span_dicts_def source_span_record_def hit_quote_def hit_end_def)
qed (simp add: span_dicts_def)

section \<open>Properties\<close>

text \<open>
  (C13) A memory that passes the check before a write is quoted from the user: its text is one of the
  verified quotes or their lines, each quote occurs exactly once in a turn of the user from a direct
  source, the stored spans are those of the transcript at hand with the digests of quotes and turns,
  and the turns given to the later decision are exactly the quoted ones.
\<close>

theorem verified_memory_is_quoted:
  assumes "verified_source_turns G txt cat ev ms = Some turns"
  shows "\<exists>hs. hs \<noteq> [] \<and> length hs \<le> 8 \<and> quotes_candidate txt hs \<and>
    same_json (dget ev ''source_spans'' PNone) (PList (span_dicts G ms hs)) \<and>
    (\<forall>h \<in> set hs. 0 \<le> sh_turn h \<and> sh_turn h < int (length ms) \<and> is_user_turn (ge_evidence G) (ms ! nat (sh_turn h)) \<and>
       py_strip (sh_quote h) \<noteq> [] \<and> occurs_once (turn_text G (ms ! nat (sh_turn h))) (sh_quote h) (sh_start h)) \<and>
    list_ex (\<lambda>h. \<not> is_question_only (sh_quote h)) hs \<and>
    (\<forall>t \<in> set turns. st_content t = dget (ms ! nat (st_index t)) ''content'' PNone)"
proof -
  obtain spans quotes checked where
    sp: "dget ev ''source_spans'' PNone = PList spans" "spans \<noteq> []" and
    ok: "validate_user_evidence G txt cat ms (direct_query (dget ev ''turn_indexes'' PNone) (PList quotes)) = Inr (Inr checked)" and
    same: "same_json (dget checked ''source_spans'' PNone) (PList spans)" and
    turns: "turns = source_turns ms (concat (map span_turn spans))"
    using assms unfolding verified_source_turns_def by (auto split: pyval.splits list.splits option.splits sum.splits if_splits)
  have "dget checked ''source_spans'' PNone \<noteq> PNone" using same by (auto simp: same_json_def)
  then obtain vs hs where
    hs: "hits_ok G ms (set (filter (user_index (ge_evidence G) ms) (cited_indexes (length ms) vs))) hs" "quotes_candidate txt hs"
      "list_ex (\<lambda>h. \<not> is_question_only (sh_quote h)) hs" and
    ev: "dget checked ''source_spans'' PNone = PList (span_dicts G ms hs)"
    using span_evidence [OF ok] by (auto simp: Let_def direct_query_def evidence_record_spans)
  have user: "0 \<le> sh_turn h \<and> sh_turn h < int (length ms) \<and> is_user_turn (ge_evidence G) (ms ! nat (sh_turn h)) \<and>
       py_strip (sh_quote h) \<noteq> [] \<and> occurs_once (turn_text G (ms ! nat (sh_turn h))) (sh_quote h) (sh_start h)" if "h \<in> set hs" for h
  proof -
    have "hit_ok G ms (set (filter (user_index (ge_evidence G) ms) (cited_indexes (length ms) vs))) h" using hs(1) that by (simp add: hits_ok_def)
    then show ?thesis using cited_indexes_range [of "sh_turn h" "length ms" vs] by (auto simp: hit_ok_def user_index_def intro: find_from_occurs)
  qed
  have "same_json (dget ev ''source_spans'' PNone) (PList (span_dicts G ms hs))" using same by (simp add: same_json_def sp ev)
  moreover have "\<forall>t \<in> set turns. st_content t = dget (ms ! nat (st_index t)) ''content'' PNone" by (auto simp: turns source_turns_def)
  ultimately show ?thesis using hs user by (auto simp: hits_ok_def)
qed

text \<open>
  (C24) The check before a write accepts what extraction validated: evidence with verified spans that does
  not wait for a confirmation passes again on the same transcript, and the turns handed on are those
  of the spans.
\<close>

theorem validated_evidence_passes_recheck:
  assumes "validate_user_evidence G txt cat ms q = Inr (Inr ev)" and "dget ev ''grounding_mode'' PNone = PStr ''verified_source_spans''"
    and "\<not> eq_review_only q"
  shows "\<exists>hs. dget ev ''source_spans'' PNone = PList (span_dicts G ms hs) \<and>
    verified_source_turns G txt cat ev ms = Some (source_turns ms (map sh_turn hs))"
proof -
  obtain vs hs where vs: "eq_turns q = PList vs" and
    hs: "hits_ok G ms (set (filter (user_index (ge_evidence G) ms) (cited_indexes (length ms) vs))) hs" "quotes_candidate txt hs"
      "list_ex (\<lambda>h. \<not> is_question_only (sh_quote h)) hs" and
    ev: "ev = evidence_record G ms q (decided True ''direct_user_statement'' (filter (user_index (ge_evidence G) ms) (cited_indexes (length ms) vs)) None)
           (Some (cited_indexes (length ms) vs)) (Some hs)"
    using span_evidence [OF assms(1)] assms(2,3) by (auto simp: Let_def)
  let ?cited = "cited_indexes (length ms) vs"
  let ?own = "filter (user_index (ge_evidence G) ms) ?cited"
  have "hs \<noteq> []" "\<forall>h \<in> set hs. sh_turn h \<in> set ?own" using hs(1) by (auto simp: hits_ok_def hit_ok_def)
  then have own: "?own \<noteq> []" by (metis empty_iff empty_set last_in_set)
  have spans: "dget ev ''source_spans'' PNone = PList (span_dicts G ms hs)" "dget ev ''turn_indexes'' PNone = PList (map PInt ?cited)"
    by (simp_all add: ev evidence_record_spans)
  have range: "\<forall>i \<in> set ?own. 0 \<le> i \<and> i < int (length ms)" using cited_indexes_range by auto
  have quotes: "span_quotes G ms (span_dicts G ms hs) = Some (map hit_quote hs)"
    by (rule span_quotes_dicts [of hs G ms "set ?own"]) (use hs(1) range in \<open>simp_all add: hits_ok_def\<close>)
  have inter: "set ?own \<inter> set ?cited = set ?own" by auto
  let ?q = "direct_query (PList (map PInt ?cited)) (PList (map hit_quote hs))"
  have "validate_user_evidence G txt cat ms ?q =
      Inr (Inr (evidence_record G ms ?q (decided True ''direct_user_statement'' ?own None) (Some ?cited) (Some hs)))"
  proof -
    have ne: "?cited \<noteq> []" using own by auto
    have policy: "validate_conversational_evidence (ge_evidence G) (ge_matchers G) ms (PList (map PInt ?cited)) (PStr ''direct_user_statement'')
        PNone None False [] False = Inr (decided True ''direct_user_statement'' ?own None)"
      using own ne by (simp add: direct_evidence_decides cited_indexes_again)
    have checked: "checked_spans G ms ?q (decided True ''direct_user_statement'' ?own None) ?cited txt = Inr (Some hs)"
      using validate_source_spans_hits [OF hs(1)] hs(2) inter by (simp add: checked_spans_def direct_query_def decided_def)
    have sup: "supported G ms ?q (decided True ''direct_user_statement'' ?own None) ?cited (Some hs) txt"
      using hs(3) by (simp add: supported_def direct_query_def decided_def list_ex_iff)
    have turns: "policy_turns ms ?q = PList (map PInt ?cited)" "provided_turns ms ?q = Some ?cited"
      by (simp_all add: policy_turns_def provided_turns_def direct_query_def cited_indexes_again)
    have fields: "eq_relation ?q = PStr ''direct_user_statement''" "eq_proposal_turn ?q = PNone" "eq_visible ?q = None" "\<not> eq_confirmation ?q"
        "eq_active ?q = []" "\<not> eq_structured ?q" "\<not> eq_review_only ?q" by (simp_all add: direct_query_def)
    show ?thesis using policy checked sup ne
      by (simp add: validate_user_evidence_def turns fields Let_def decided_def)
  qed
  moreover have "span_dicts G ms hs \<noteq> []" using hs(1) by (simp add: hits_ok_def span_dicts_def)
  moreover have "concat (map span_turn (span_dicts G ms hs)) = map sh_turn hs"
    by (induction hs) (simp_all add: span_dicts_def source_span_record_def)
  ultimately have "verified_source_turns G txt cat ev ms = Some (source_turns ms (map sh_turn hs))"
    unfolding verified_source_turns_def spans using quotes
    by (cases "span_dicts G ms hs") (simp_all add: evidence_record_spans same_json_def)
  then show ?thesis using spans by blast
qed

section \<open>Concrete instances\<close>

definition example_grounding :: grounding_env where
  "example_grounding = \<lparr>ge_evidence = dialogue_env, ge_matchers = silent_matchers, ge_sha256 = (\<lambda>s. s)\<rparr>"

definition example_transcript :: "message list" where
  "example_transcript =
     [[(''role'', PStr ''assistant''), (''content'', PStr ''What do you drink?'')],
      [(''role'', PStr ''user''), (''content'', PStr ''I like tea, not coffee.'')]]"

definition example_query :: evidence_query where
  "example_query =
     direct_query (PList [PInt 1]) (PList [PDict [(''turn_index'', PInt 1), (''quote'', PStr ''I like tea'')]])"

definition example_evidence_dict :: scope where
  "example_evidence_dict =
     (case validate_user_evidence example_grounding ''I like tea'' ''preference'' example_transcript example_query of
        Inr (Inr ev) \<Rightarrow> ev
      | _ \<Rightarrow> [])"

lemma example_evaluated:
  "case validate_user_evidence example_grounding ''I like tea'' ''preference'' example_transcript example_query of
     Inr (Inr ev) \<Rightarrow> dget ev ''grounding_mode'' PNone = PStr ''verified_source_spans''
   | _ \<Rightarrow> False"
  by code_simp

lemma example_validated:
  "validate_user_evidence example_grounding ''I like tea'' ''preference'' example_transcript example_query = Inr (Inr example_evidence_dict)"
  "dget example_evidence_dict ''grounding_mode'' PNone = PStr ''verified_source_spans''"
  using example_evaluated by (auto simp: example_evidence_dict_def split: sum.splits)

lemma example_quoted:
  "verified_source_turns example_grounding ''I like tea'' ''preference''
     [(''source_spans'', dget example_evidence_dict ''source_spans'' PNone), (''turn_indexes'', PList [PInt 1])] example_transcript \<noteq> None"
  by code_simp

theorem validated_evidence_passes_recheck_witness:
  "verified_source_turns example_grounding ''I like tea'' ''preference'' example_evidence_dict example_transcript \<noteq> None"
proof -
  have "\<not> eq_review_only example_query" by (simp add: example_query_def direct_query_def)
  from validated_evidence_passes_recheck [OF example_validated this] show ?thesis by auto
qed

theorem verified_memory_is_quoted_witness:
  "\<exists>hs. hs \<noteq> [] \<and> quotes_candidate ''I like tea'' hs \<and>
     same_json (dget example_evidence_dict ''source_spans'' PNone) (PList (span_dicts example_grounding example_transcript hs))"
proof -
  obtain turns where
    "verified_source_turns example_grounding ''I like tea'' ''preference''
       [(''source_spans'', dget example_evidence_dict ''source_spans'' PNone), (''turn_indexes'', PList [PInt 1])] example_transcript = Some turns"
    using example_quoted by blast
  from verified_memory_is_quoted [OF this] obtain hs where
    "hs \<noteq> []" "quotes_candidate ''I like tea'' hs"
    "same_json (dget [(''source_spans'', dget example_evidence_dict ''source_spans'' PNone), (''turn_indexes'', PList [PInt 1])]
       ''source_spans'' PNone) (PList (span_dicts example_grounding example_transcript hs))" by blast
  then show ?thesis by (intro exI [of _ hs]) (simp add: dget_def)
qed

end
