(* ===== verification/Arbitration.thy ===== *)
theory Arbitration
  imports Review Grounding
begin

text \<open>
  How the resolver decides between an extracted memory and a stored one: writer authority, temporal
  context, the answer of the language model and the policy around it
  (\<open>src/api/services/conflict_resolver.py\<close>, \<open>review_intent\<close> of \<open>src/api/services/source_review_service.py\<close>).

  The language model is a parameter: what it answers for a candidate, the quoted turns and the bounded
  targets, and the tables as they are after the call, since other transactions may commit while the
  request runs. An answer is the decoded JSON value, \<open>None\<close> for a text that is not JSON. The length of the
  prompt and the parsers of timestamps (\<open>ab_zoned\<close> only of those with a zone) are parameters, too. The
  provenance stored with a memory is a dictionary, and its scope, too.
\<close>

section \<open>Extracted memories and decisions\<close>

record extracted_memory =
  x_content :: string
  x_category :: string
  x_importance :: pyfloat
  x_confidence :: pyfloat
  x_expiry :: string
  x_reasoning :: string
  x_evidence :: scope

definition memory_categories :: "string list" where
  "memory_categories = [''preference'', ''fact'', ''goal'', ''procedure'', ''relationship'', ''expertise'']"

text \<open>The constraints of the schema; a value outside of them raises \<open>ValidationError\<close>.\<close>

definition valid_extracted :: "extracted_memory \<Rightarrow> bool" where
  "valid_extracted x \<longleftrightarrow>
     x_content x \<noteq> [] \<and> x_category x \<in> set memory_categories \<and> 1 \<le> x_importance x \<and> x_importance x \<le> 10 \<and>
     0 \<le> x_confidence x \<and> x_confidence x \<le> 1 \<and> (x_expiry x = ''permanent'' \<or> x_expiry x = ''temporary'') \<and> x_reasoning x \<noteq> []"

datatype conflict_action = DoUpdate | DoMerge | KeepBoth | DoReject | Clarify

fun action_name :: "conflict_action \<Rightarrow> string" where
  "action_name DoUpdate = ''UPDATE''"
| "action_name DoMerge = ''MERGE''"
| "action_name KeepBoth = ''KEEP_BOTH''"
| "action_name DoReject = ''REJECT''"
| "action_name Clarify = ''CLARIFY''"

record conflict_decision =
  cd_action :: conflict_action
  cd_reasoning :: string
  cd_merged :: "extracted_memory option"
  cd_option :: "extracted_memory option"
  cd_evidence :: "scope option"
  cd_review :: "scope option"

definition plain_decision :: "conflict_action \<Rightarrow> string \<Rightarrow> scope \<Rightarrow> conflict_decision" where
  "plain_decision a reasoning ev =
     \<lparr>cd_action = a, cd_reasoning = reasoning, cd_merged = None, cd_option = None, cd_evidence = Some ev, cd_review = None\<rparr>"

datatype resolver_error =
    MalformedRules
  | MixedBatch
  | InvalidInterval
  | InvalidCategory
  | EmbeddingRaised
  | SourceLedgerRequired
  | ResolverLedger ledger_error
  | PreferenceNotActivated
  | SourceNotRecorded
  | SearchUnavailable
  | PreferenceRefused string

datatype conflict_type = PreferenceChange | FactUpdate | SkillProgression | Negation | NumericUpdate | TemporalShift | UnknownType

fun type_name :: "conflict_type \<Rightarrow> string" where
  "type_name PreferenceChange = ''preference_change''"
| "type_name FactUpdate = ''fact_update''"
| "type_name SkillProgression = ''skill_progression''"
| "type_name Negation = ''negation''"
| "type_name NumericUpdate = ''numeric_update''"
| "type_name TemporalShift = ''temporal_shift''"
| "type_name UnknownType = ''unknown''"

text \<open>The reply to a request for a source decision, with the tables as they are afterwards.\<close>

datatype model_reply = ProvidersFailed | ModelReply "pyval option"

record arbiter =
  ab_grounding :: grounding_env
  ab_pref :: pref_env
  ab_iso :: "utc \<Rightarrow> string"
  ab_zoned :: "string \<Rightarrow> utc option"
  ab_provenance :: scope
  ab_messages :: "message list"
  ab_prompt_size :: "extracted_memory \<Rightarrow> source_turn list \<Rightarrow> memory list \<Rightarrow> nat"
  ab_complete :: "extracted_memory \<Rightarrow> source_turn list \<Rightarrow> memory list \<Rightarrow> db \<Rightarrow> model_reply \<times> db"

abbreviation ab_ledger :: "arbiter \<Rightarrow> ledger_env" where
  "ab_ledger A \<equiv> ledger_part (ab_pref A)"

abbreviation ab_id :: "arbiter \<Rightarrow> uuid \<Rightarrow> string" where
  "ab_id A \<equiv> uuid_str (ab_pref A)"

section \<open>Writer authority\<close>

definition authority_rules :: "scope \<Rightarrow> scope option" where
  "authority_rules prov = py_dict (dget prov ''authority_rules'' PNone)"

definition category_rules :: "scope \<Rightarrow> scope option" where
  "category_rules rules = py_dict (dget rules ''categories'' PNone)"

definition has_explicit_authority_rules :: "scope \<Rightarrow> string \<Rightarrow> resolver_error + bool" where
  "has_explicit_authority_rules prov cat =
     (case authority_rules prov of
        None \<Rightarrow> Inl MalformedRules
      | Some rules \<Rightarrow>
          (case category_rules rules of
             None \<Rightarrow> Inl MalformedRules
           | Some cats \<Rightarrow> Inr (map_of cats cat \<noteq> None \<or> map_of rules ''default_priority'' \<noteq> None)))"

definition resolver_priority :: "scope \<Rightarrow> string \<Rightarrow> resolver_error + int" where
  "resolver_priority prov cat =
     (case authority_rules prov of
        None \<Rightarrow> Inl MalformedRules
      | Some rules \<Rightarrow>
          (case category_rules rules of
             None \<Rightarrow> Inl MalformedRules
           | Some cats \<Rightarrow>
               (case py_int (dget cats cat (dget rules ''default_priority'' (PInt 50))) of
                  None \<Rightarrow> Inr 50
                | Some n \<Rightarrow> Inr (max 0 (min n 100)))))"

definition source_identity :: "ledger_env \<Rightarrow> scope \<Rightarrow> string option" where
  "source_identity e prov =
     (let raw = py_or (dget prov ''writer_id'' PNone) (dget prov ''service'' PNone)
      in if truthy raw then Some (py_str e raw) else None)"

definition replace_z :: "string \<Rightarrow> string" where
  "replace_z s = concat (map (\<lambda>c. if c = CHR ''Z'' then ''+00:00'' else [c]) s)"

definition provenance_observed_at :: "ledger_env \<Rightarrow> scope \<Rightarrow> utc option" where
  "provenance_observed_at e prov =
     (let raw = dget prov ''observed_at'' PNone in if truthy raw then from_isoformat e (replace_z (py_str e raw)) else None)"

definition stored_provenance :: "memory \<Rightarrow> resolver_error + scope" where
  "stored_provenance m =
     (case py_dict (dget (metadata_json m) ''provenance'' PNone) of None \<Rightarrow> Inl MalformedRules | Some p \<Rightarrow> Inr p)"

definition authority_details :: "int \<Rightarrow> int \<Rightarrow> scope" where
  "authority_details a b = [(''incoming_authority'', PInt a), (''existing_authority'', PInt b)]"

definition incoming_outranks :: "int \<Rightarrow> int \<Rightarrow> conflict_decision" where
  "incoming_outranks a b =
     plain_decision DoUpdate
       (''Incoming writer authority '' @ int_text a @ '' exceeds '' @ ''stored writer authority '' @ int_text b @ ''.'')
       (automatic_evidence ''UPDATE'' [''higher_authority_source'', ''incoming_source_wins'']
          ''Incoming source has higher authority for this memory category.'' (Some 1) (Some ''incoming'') (authority_details a b))"

definition lower_authority_assertion :: "int \<Rightarrow> int \<Rightarrow> conflict_decision" where
  "lower_authority_assertion a b =
     plain_decision Clarify ''A lower-authority client assertion contradicts trusted stored evidence.''
       (review_evidence ''TENANT_REVIEW'' [''lower_authority_contradiction'', ''stored_source_remains_active'', ''human_review_required'']
          (''MemoryOS kept the trusted memory active and quarantined the '' @ ''client assertion for review.'') (authority_details a b))"

definition stored_outranks :: "int \<Rightarrow> int \<Rightarrow> conflict_decision" where
  "stored_outranks a b =
     plain_decision DoReject
       (''Stored writer authority '' @ int_text b @ '' exceeds '' @ ''incoming writer authority '' @ int_text a @ ''.'')
       (automatic_evidence ''REJECT'' [''higher_authority_source'', ''stored_source_wins'']
          ''Stored source has higher authority for this memory category.'' (Some 1) (Some ''stored'') (authority_details a b))"

definition older_event :: "arbiter \<Rightarrow> utc \<Rightarrow> utc \<Rightarrow> conflict_decision" where
  "older_event A t u =
     plain_decision DoReject
       (''Incoming event observed at '' @ ab_iso A t @ '' is older '' @ ''than stored evidence observed at '' @ ab_iso A u @ ''.'')
       (automatic_evidence ''REJECT'' [''older_source_event'', ''recency_safe_to_apply'']
          ''Incoming evidence is older than the currently stored source event.'' (Some 1) (Some ''stored'')
          [(''incoming_observed_at'', PStr (ab_iso A t)), (''existing_observed_at'', PStr (ab_iso A u))])"

text \<open>The standing of two writers: their priorities, and whether both have explicit rules.\<close>

definition writer_standing :: "scope \<Rightarrow> scope \<Rightarrow> string \<Rightarrow> string \<Rightarrow> resolver_error + (int \<times> int \<times> bool)" where
  "writer_standing incoming existing new_cat old_cat =
     (case resolver_priority incoming new_cat of
        Inl x \<Rightarrow> Inl x
      | Inr a \<Rightarrow>
          (case resolver_priority existing old_cat of
             Inl x \<Rightarrow> Inl x
           | Inr b \<Rightarrow>
               (case has_explicit_authority_rules incoming new_cat of
                  Inl x \<Rightarrow> Inl x
                | Inr p \<Rightarrow>
                    (case has_explicit_authority_rules existing old_cat of
                       Inl x \<Rightarrow> Inl x
                     | Inr q \<Rightarrow> Inr (a, b, p \<and> q)))))"

definition older_source_decision :: "arbiter \<Rightarrow> scope \<Rightarrow> scope \<Rightarrow> conflict_decision option" where
  "older_source_decision A incoming existing =
     (let i = source_identity (ab_ledger A) incoming; j = source_identity (ab_ledger A) existing
      in if i = j \<or> i = None \<or> i = Some [] \<or> j = None \<or> j = Some []
         then (case (provenance_observed_at (ab_ledger A) incoming, provenance_observed_at (ab_ledger A) existing) of
                 (Some t, Some u) \<Rightarrow> if t < u then Some (older_event A t u) else None
               | _ \<Rightarrow> None)
         else None)"

definition authority_conflict_decision :: "arbiter \<Rightarrow> extracted_memory \<Rightarrow> memory \<Rightarrow> resolver_error + conflict_decision option" where
  "authority_conflict_decision A new m =
     (case stored_provenance m of
        Inl x \<Rightarrow> Inl x
      | Inr existing \<Rightarrow>
          (case writer_standing (ab_provenance A) existing (x_category new) (category_value (category m)) of
             Inl x \<Rightarrow> Inl x
           | Inr (a, b, explicit) \<Rightarrow>
               if explicit \<and> a > b then Inr (Some (incoming_outranks a b))
               else if explicit \<and> a < b
               then Inr (Some (if dget (ab_provenance A) ''attestation'' PNone = PStr ''client_asserted''
                               then lower_authority_assertion a b else stored_outranks a b))
               else Inr (older_source_decision A (ab_provenance A) existing)))"

definition is_equal_authority_cross_writer_conflict :: "arbiter \<Rightarrow> extracted_memory \<Rightarrow> memory \<Rightarrow> resolver_error + bool" where
  "is_equal_authority_cross_writer_conflict A new m =
     (case stored_provenance m of
        Inl x \<Rightarrow> Inl x
      | Inr existing \<Rightarrow>
          (let w = dget (ab_provenance A) ''writer_id'' PNone; v = dget existing ''writer_id'' PNone
           in if \<not> truthy w \<or> \<not> truthy v \<or> py_str (ab_ledger A) w = py_str (ab_ledger A) v then Inr False
              else if py_lower (py_strip (x_content new)) = py_lower (py_strip (content m)) then Inr False
              else
                (case writer_standing (ab_provenance A) existing (x_category new) (category_value (category m)) of
                   Inl x \<Rightarrow> Inl x
                 | Inr (a, b, explicit) \<Rightarrow> Inr (explicit \<and> a = b))))"

section \<open>Temporal context\<close>

text \<open>The matches of \<open>\b(?:19|20)\d{2}\b\<close> are the words of four digits that start so.\<close>

definition is_year :: "string \<Rightarrow> bool" where
  "is_year w \<longleftrightarrow> length w = 4 \<and> list_all is_digit w \<and> (prefix ''19'' w \<or> prefix ''20'' w)"

definition years_in :: "string \<Rightarrow> string list" where
  "years_in s = sort (remdups (filter is_year (split_runs (\<lambda>c. is_word_char c \<or> c = CHR ''_'') [] s)))"

definition temporal_conflict_decision :: "extracted_memory \<Rightarrow> memory \<Rightarrow> conflict_decision option" where
  "temporal_conflict_decision new m =
     (let a = years_in (x_content new); b = years_in (content m)
      in if a \<noteq> [] \<and> b \<noteq> [] \<and> a \<noteq> b
         then Some (plain_decision KeepBoth ''Temporal context differs across memories; keep both with temporal context.''
                (automatic_evidence ''KEEP_BOTH'' [''temporal_context_differs'', ''both_claims_contextually_valid'']
                   ''The claims describe different time periods, so both are preserved.'' (Some (9/10)) None
                   [(''incoming_years'', PList (map PStr a)), (''existing_years'', PList (map PStr b))]))
         else None)"

section \<open>Decisions of the language model\<close>

definition failure_reasoning :: string where
  "failure_reasoning =
     ''MemoryOS could not safely determine how these memories relate, ''
       @ ''so it preserved the current memory and kept the candidate pending review.''"

text \<open>Entries \<open>d\<close> updated by entries \<open>e\<close>, as \<open>{**d, **e}\<close> and \<open>d.update(e)\<close>.\<close>

definition dict_update :: "scope \<Rightarrow> scope \<Rightarrow> scope" where
  "dict_update d e = fold (\<lambda>kv acc. AList.update (fst kv) (snd kv) acc) e d"

definition classifier_failure_decision :: "conflict_type \<Rightarrow> string \<Rightarrow> scope \<Rightarrow> conflict_decision" where
  "classifier_failure_decision ct code details =
     plain_decision Clarify failure_reasoning
       (review_evidence ''USER_REVIEW'' [code, ''safe_clarification_fallback''] failure_reasoning
          (dict_update [(''classifier'', PStr ''llm''), (''conflict_type'', PStr (type_name ct))] details))"

definition bool_or_none :: "bool option \<Rightarrow> pyval" where
  "bool_or_none x = (case x of None \<Rightarrow> PNone | Some b \<Rightarrow> PBool b)"

definition classifier_decision_evidence ::
  "conflict_action \<Rightarrow> conflict_type \<Rightarrow> string \<Rightarrow> string \<Rightarrow> string option \<Rightarrow> bool option \<Rightarrow> bool \<Rightarrow> scope" where
  "classifier_decision_evidence a ct raw reasoning commitment choice policy =
     (let details = [(''classifier'', PStr ''llm''), (''raw_action'', PStr raw), (''conflict_type'', PStr (type_name ct)),
            (''commitment_status'', opt_str commitment), (''requires_user_choice'', bool_or_none choice)]
      in if a = Clarify
         then review_evidence ''USER_REVIEW''
                (if policy
                 then [''backend_user_selection_required'', ''clarification_requested''] @
                      (if commitment = Some ''committed_current'' \<and> choice = Some False then [''source_commitment_disagreement''] else [])
                 else [''ambiguous_personal_contradiction'', ''clarification_requested''])
                reasoning (if policy then details @ [(''backend_requires_user_selection'', PBool True)] else details)
         else automatic_evidence (action_name a)
                [''semantic_conflict_classified'', ''conflict_type:'' @ type_name ct, ''decision:'' @ py_lower (action_name a)]
                reasoning None None details)"

definition relation_to_action :: "(string \<times> conflict_action) list" where
  "relation_to_action =
     [(''supersedes'', DoUpdate), (''mergeable'', DoMerge), (''coexists'', KeepBoth), (''duplicate'', DoReject), (''ambiguous'', Clarify)]"

definition commitment_statuses :: "string list" where
  "commitment_statuses = [''committed_current'', ''tentative'', ''historical_or_contextual'', ''unclear'']"

text \<open>\<open>str(payload.get(k) or "")\<close>.\<close>

definition payload_text :: "ledger_env \<Rightarrow> scope \<Rightarrow> string \<Rightarrow> string" where
  "payload_text e d k = py_str e (py_or (dget d k PNone) (PStr []))"

definition py_upper :: "string \<Rightarrow> string" where
  "py_upper s = map (\<lambda>c. if is_lower_letter c then char_of (of_char c - 32 :: nat) else c) s"

definition named_action :: "string \<Rightarrow> conflict_action option" where
  "named_action s =
     map_of [(''UPDATE'', DoUpdate), (''MERGE'', DoMerge), (''KEEP_BOTH'', KeepBoth), (''REJECT'', DoReject), (''CLARIFY'', Clarify)] s"

text \<open>The answers of older clients, which name an action or the memory to keep.\<close>

definition action_from_payload :: "ledger_env \<Rightarrow> scope \<Rightarrow> string" where
  "action_from_payload e d =
     (let archive = dget d ''archive_A'' PNone; action = dget d ''action'' PNone;
          keep = py_upper (py_str e (dget d ''keep'' (PStr []))); ct = py_lower (py_str e (dget d ''type'' (PStr [])))
      in if archive = PBool True then ''UPDATE''
         else if archive = PBool False then ''KEEP_BOTH''
         else if truthy action then py_upper (py_str e action)
         else if keep = ''CLARIFY'' \<or> ct = ''uncertain'' then ''CLARIFY''
         else if keep = ''B'' then (if ct = ''same'' then ''REJECT'' else ''UPDATE'')
         else if keep = ''A'' then ''REJECT''
         else if keep = ''BOTH'' then ''KEEP_BOTH''
         else [])"

section \<open>The option of a clarification\<close>

definition collapse :: "string \<Rightarrow> string" where
  "collapse s = strip_chars '' .:;'' (join_words (py_words s))"

definition drop_owner :: "string \<Rightarrow> string" where
  "drop_owner a =
     (if prefix ''the user's '' (py_lower a) then py_strip (drop 11 a)
      else if prefix ''user's '' (py_lower a) then py_strip (drop 7 a) else a)"

record option_fields =
  of_attribute :: string
  of_value :: string
  of_category :: string

definition option_fields_of :: "scope \<Rightarrow> option_fields option" where
  "option_fields_of d =
     (if fst ` set d \<noteq> {''attribute'', ''value'', ''category''} then None
      else
        (case (dget d ''attribute'' PNone, dget d ''value'' PNone, dget d ''category'' PNone) of
           (PStr a, PStr v, PStr c) \<Rightarrow>
             (let a1 = collapse a; v1 = collapse v; c1 = py_lower (py_strip c)
              in if c1 \<notin> set memory_categories \<or> a1 = [] \<or> v1 = [] \<or> 128 < length a1 \<or> 1000 < length v1 \<or> drop_owner a1 = [] then None
                 else Some \<lparr>of_attribute = drop_owner a1, of_value = v1, of_category = c1\<rparr>)
         | _ \<Rightarrow> None))"

definition option_memory :: "extracted_memory \<Rightarrow> option_fields \<Rightarrow> scope \<Rightarrow> extracted_memory" where
  "option_memory new f sp =
     new\<lparr>x_content := ''User's '' @ of_attribute f @ '' is '' @ of_value f @ ''.'', x_category := of_category f,
         x_reasoning := ''Canonical current claim offered only if the user selects '' @ ''this clarification option.'',
         x_evidence := dict_update (x_evidence new) (if sp = [] then [] else [(''clarification_value_span'', PDict sp)])\<rparr>"

text \<open>
  \<open>turn\<close> is the cited turn of a source decision; \<open>None\<close> as result: the option is refused. With \<open>src\<close> the
  value has to occur in a verified turn of the user, otherwise in the candidate.
\<close>

definition build_clarification_option_memory ::
  "arbiter \<Rightarrow> scope \<Rightarrow> extracted_memory \<Rightarrow> memory \<Rightarrow> bool \<Rightarrow> int option \<Rightarrow> extracted_memory option" where
  "build_clarification_option_memory A d new m src turn =
     (case option_fields_of d of
        None \<Rightarrow> None
      | Some f \<Rightarrow>
          (case (if src
                 then (if of_category f \<noteq> category_value (category m) then None
                       else verified_source_value_span (ab_grounding A) (x_content new) (x_category new) (x_evidence new) (ab_messages A)
                              (of_value f) turn)
                 else if py_contains (py_lower (of_value f)) (py_lower (x_content new)) then Some [] else None) of
             None \<Rightarrow> None
           | Some sp \<Rightarrow>
               if py_contains (py_lower (of_value f)) (py_lower (content m)) then None else Some (option_memory new f sp)))"

section \<open>Reading a decision\<close>

text \<open>
  The arguments of \<open>_parse_conflict_decision\<close>. \<open>pq_novel\<close> tells a source decision from a pairwise one.
\<close>

record parse_query =
  pq_new :: extracted_memory
  pq_existing :: "memory option"
  pq_type :: conflict_type
  pq_novel :: bool
  pq_selection :: bool
  pq_turn :: "int option"

text \<open>
  The outcome of reading the relation: \<open>ParseRaises\<close> is an exception the reader catches, \<open>ParseStops\<close> a
  decision it returns at once.
\<close>

record parsed_relation =
  pr_action :: conflict_action
  pr_raw :: string
  pr_commitment :: "string option"
  pr_choice :: "bool option"
  pr_option :: "extracted_memory option"

datatype parse_step = ParseRaises | ParseStops conflict_decision | Parsed parsed_relation

definition clarify_relation :: "arbiter \<Rightarrow> parse_query \<Rightarrow> scope \<Rightarrow> string \<Rightarrow> string \<Rightarrow> bool \<Rightarrow> parse_step" where
  "clarify_relation A q d relation commitment choice =
     (let result = (\<lambda>opt. Parsed \<lparr>pr_action = Clarify, pr_raw = relation @ '':'' @ commitment @ '':user_choice'',
                      pr_commitment = Some commitment, pr_choice = Some choice, pr_option = opt\<rparr>)
      in case pq_existing q of
           None \<Rightarrow> result None
         | Some m \<Rightarrow>
             if pq_novel q \<and> dget d ''clarification_option_memory'' PNone = PNone
             then ParseStops (classifier_failure_decision (pq_type q) ''source_option_missing'' [])
             else
               (case (case dget d ''clarification_option_memory'' PNone of
                        PDict opt \<Rightarrow> build_clarification_option_memory A opt (pq_new q) m (pq_novel q) (pq_turn q)
                      | _ \<Rightarrow> None) of
                  Some x \<Rightarrow> result (Some x)
                | None \<Rightarrow>
                    if pq_novel q then ParseStops (classifier_failure_decision (pq_type q) ''source_option_invalid'' []) else ParseRaises))"

definition read_relation :: "arbiter \<Rightarrow> parse_query \<Rightarrow> scope \<Rightarrow> string \<Rightarrow> parse_step" where
  "read_relation A q d relation =
     (let commitment = py_lower (py_strip (payload_text (ab_ledger A) d ''commitment_status''))
      in if map_of d ''clarification_option_memory'' = None \<or> commitment \<notin> set commitment_statuses then ParseRaises
         else
           (case dget d ''requires_user_choice'' PNone of
              PBool choice \<Rightarrow>
                (case (if relation = ''novel'' \<and> pq_novel q \<and> pq_existing q = None then Some KeepBoth else map_of relation_to_action relation) of
                   None \<Rightarrow> ParseRaises
                 | Some a \<Rightarrow>
                     if relation \<noteq> ''duplicate'' \<and> (pq_selection q \<or> choice \<or> commitment = ''tentative'' \<or> commitment = ''unclear'')
                     then clarify_relation A q d relation commitment choice
                     else Parsed \<lparr>pr_action = a, pr_raw = relation, pr_commitment = Some commitment, pr_choice = Some choice, pr_option = None\<rparr>)
            | _ \<Rightarrow> ParseRaises))"

definition read_legacy :: "arbiter \<Rightarrow> parse_query \<Rightarrow> scope \<Rightarrow> parse_step" where
  "read_legacy A q d =
     (if pq_existing q = None then ParseRaises
      else
        (case named_action (action_from_payload (ab_ledger A) d) of
           None \<Rightarrow> ParseRaises
         | Some a \<Rightarrow>
             Parsed \<lparr>pr_action = a, pr_raw = payload_text (ab_ledger A) [(''v'', py_or (dget d ''action'' PNone) (dget d ''keep'' PNone))] ''v'',
                     pr_commitment = None, pr_choice = None, pr_option = None\<rparr>))"

definition stripped_text :: "ledger_env \<Rightarrow> scope \<Rightarrow> string \<Rightarrow> string option" where
  "stripped_text e d k = map_option (\<lambda>v. py_strip (py_str e v)) (map_of d k)"

definition merged_memory_of :: "ledger_env \<Rightarrow> pyval \<Rightarrow> extracted_memory option" where
  "merged_memory_of e v =
     (case v of
        PDict d \<Rightarrow>
          (case (stripped_text e d ''content'', stripped_text e d ''category'', Option.bind (map_of d ''importance_score'') py_float,
                 Option.bind (map_of d ''confidence'') py_float, stripped_text e d ''expiry'', stripped_text e d ''reasoning'') of
             (Some c, Some k, Some i, Some f, Some x, Some r) \<Rightarrow>
               (let m = \<lparr>x_content = c, x_category = py_lower k, x_importance = i, x_confidence = f, x_expiry = py_lower x, x_reasoning = r,
                         x_evidence = []\<rparr>
                in if valid_extracted m then Some m else None)
           | _ \<Rightarrow> None)
      | _ \<Rightarrow> None)"

definition conclude :: "arbiter \<Rightarrow> parse_query \<Rightarrow> scope \<Rightarrow> parsed_relation \<Rightarrow> conflict_decision option" where
  "conclude A q d r =
     (let reasoning = py_strip (py_str (ab_ledger A) (py_or (py_or (dget d ''reasoning'' PNone) (dget d ''reason'' PNone)) (PStr [])));
          merged = (if pr_action r = DoMerge then merged_memory_of (ab_ledger A) (dget d ''merged_memory'' PNone) else None)
      in if reasoning = [] \<or> (pr_action r = DoMerge \<and> merged = None) then None
         else Some \<lparr>cd_action = pr_action r, cd_reasoning = reasoning, cd_merged = merged, cd_option = pr_option r,
                     cd_evidence = Some (classifier_decision_evidence (pr_action r) (pq_type q) (pr_raw r) reasoning (pr_commitment r)
                        (pr_choice r) (pq_selection q)), cd_review = None\<rparr>)"

definition unreadable :: "parse_query \<Rightarrow> conflict_decision" where
  "unreadable q =
     classifier_failure_decision (pq_type q) (if pq_novel q then ''source_response_invalid'' else ''invalid_classifier_response'') []"

definition parse_conflict_decision :: "arbiter \<Rightarrow> parse_query \<Rightarrow> pyval option \<Rightarrow> conflict_decision" where
  "parse_conflict_decision A q reply =
     (case reply of
        Some (PDict d) \<Rightarrow>
          (let relation = py_lower (py_strip (payload_text (ab_ledger A) d ''relation''))
           in case (if relation \<noteq> [] then read_relation A q d relation else read_legacy A q d) of
                ParseRaises \<Rightarrow> unreadable q
              | ParseStops x \<Rightarrow> x
              | Parsed r \<Rightarrow> (case conclude A q d r of None \<Rightarrow> unreadable q | Some x \<Rightarrow> x))
      | _ \<Rightarrow> unreadable q)"

definition build_merged_memory :: "memory \<Rightarrow> extracted_memory \<Rightarrow> extracted_memory option \<Rightarrow> extracted_memory" where
  "build_merged_memory m new merged =
     (let x = (case merged of None \<Rightarrow> new | Some y \<Rightarrow> y)
      in x\<lparr>x_importance := min 10 (max (importance_score m) (x_importance new) + 1/2), x_evidence := x_evidence new\<rparr>)"

section \<open>The decision on a source claim\<close>

definition review_intent :: "arbiter \<Rightarrow> memory option \<Rightarrow> scope" where
  "review_intent A target =
     [(''kind'', PStr ''restate_source''), (''target_memory_id'', opt_str (map_option (\<lambda>m. ab_id A (m_id m)) target)),
      (''target_version'', opt_str (map_option (target_version (ab_pref A)) target))]"

text \<open>What of a target may not change while the model is asked.\<close>

definition same_snapshot :: "memory \<Rightarrow> memory \<Rightarrow> bool" where
  "same_snapshot m n \<longleftrightarrow>
     content m = content n \<and> category m = category n \<and> is_archived m = is_archived n \<and> m_user_id m = m_user_id n \<and>
     m_proxy_user_id m = m_proxy_user_id n \<and> m_updated_at m = m_updated_at n \<and> expires_at m = expires_at n \<and>
     metadata_json m = metadata_json n \<and> effective_from m = effective_from n \<and> effective_until m = effective_until n"

datatype interval_result = IntervalRaises | Interval "utc option" "utc option"

text \<open>\<open>temporal_validity_from_provenance\<close>: a validity is an ISO text with a zone, absent when null or empty.\<close>

definition validity_bound :: "(string \<Rightarrow> utc option) \<Rightarrow> pyval \<Rightarrow> utc option option" where
  "validity_bound zoned v =
     (case v of
        PNone \<Rightarrow> Some None
      | PStr t \<Rightarrow> if t = [] then Some None else map_option Some (zoned (replace_z (py_strip t)))
      | _ \<Rightarrow> None)"

definition temporal_validity_from_provenance :: "(string \<Rightarrow> utc option) \<Rightarrow> scope \<Rightarrow> interval_result" where
  "temporal_validity_from_provenance zoned prov =
     (case py_dict (dget prov ''scope'' PNone) of
        None \<Rightarrow> IntervalRaises
      | Some sc \<Rightarrow>
          (case (validity_bound zoned (dget sc ''effective_from'' PNone), validity_bound zoned (dget sc ''effective_until'' PNone)) of
             (Some a, Some b) \<Rightarrow>
               (case (a, b) of
                  (Some t, Some u) \<Rightarrow> if u \<le> t then IntervalRaises else Interval a b
                | _ \<Rightarrow> Interval a b)
           | _ \<Rightarrow> IntervalRaises))"

definition scope_of :: "scope \<Rightarrow> pyval" where
  "scope_of prov = py_or (dget prov ''scope'' PNone) (PDict [])"

definition provenance_value :: "memory \<Rightarrow> scope" where
  "provenance_value m = (case py_or (dget (metadata_json m) ''provenance'' PNone) (PDict []) of PDict d \<Rightarrow> d | _ \<Rightarrow> [])"

definition source_scope_matches :: "arbiter \<Rightarrow> memory \<Rightarrow> bool" where
  "source_scope_matches A m \<longleftrightarrow> same_json (scope_of (ab_provenance A)) (scope_of (provenance_value m))"

definition exact_source_duplicate :: "arbiter \<Rightarrow> extracted_memory \<Rightarrow> memory \<Rightarrow> bool" where
  "exact_source_duplicate A new m \<longleftrightarrow>
     py_strip (x_content new) = py_strip (content m) \<and> x_category new = category_value (category m) \<and> source_scope_matches A m \<and>
     temporal_validity_from_provenance (ab_zoned A) (ab_provenance A) = Interval (effective_from m) (effective_until m) \<and>
     x_expiry new = ''permanent'' \<and> expires_at m = None"

definition review_required :: "extracted_memory \<Rightarrow> bool" where
  "review_required new \<longleftrightarrow>
     dget (x_evidence new) ''claim_state'' PNone = PStr ''uncertain_change'' \<or>
     dget (x_evidence new) ''governance_directive'' PNone = PStr ''clarify_if_conflict''"

definition source_reply_keys :: "string set" where
  "source_reply_keys =
     {''relation'', ''reasoning'', ''commitment_status'', ''merged_memory'', ''candidate_representation'', ''selected_memory_id''}"

definition source_relations :: "string list" where
  "source_relations = map fst relation_to_action @ [''novel'']"

definition unavailable_reasons :: "string list" where
  "unavailable_reasons = [''no_new_value'', ''no_relevant_target'', ''ambiguous_target'', ''unsupported_value'']"

text \<open>The fields of a reply of the right shape.\<close>

record source_reply =
  sr_payload :: scope
  sr_relation :: string
  sr_commitment :: string
  sr_selected :: pyval
  sr_representation :: scope
  sr_grounded :: bool

definition source_reply_of :: "pyval option \<Rightarrow> source_reply option" where
  "source_reply_of reply =
     (case reply of
        Some (PDict d) \<Rightarrow>
          if fst ` set d \<noteq> source_reply_keys then None
          else
            (case (dget d ''relation'' PNone, dget d ''commitment_status'' PNone, dget d ''candidate_representation'' PNone) of
               (PStr r, PStr c, PDict rep) \<Rightarrow>
                 if r \<notin> set source_relations \<or> c \<notin> set commitment_statuses then None
                 else if dget rep ''status'' PNone = PStr ''grounded''
                 then Some \<lparr>sr_payload = d, sr_relation = r, sr_commitment = c, sr_selected = dget d ''selected_memory_id'' PNone,
                             sr_representation = rep, sr_grounded = True\<rparr>
                 else if dget rep ''status'' PNone = PStr ''unavailable''
                 then Some \<lparr>sr_payload = d, sr_relation = r, sr_commitment = c, sr_selected = dget d ''selected_memory_id'' PNone,
                             sr_representation = rep, sr_grounded = False\<rparr>
                 else None
             | _ \<Rightarrow> None)
      | _ \<Rightarrow> None)"

definition wants_choice :: "source_reply \<Rightarrow> bool" where
  "wants_choice r \<longleftrightarrow> sr_selected r \<noteq> PNone \<and> (sr_commitment r = ''tentative'' \<or> sr_commitment r = ''unclear'')"

definition reply_details :: "scope \<Rightarrow> source_reply \<Rightarrow> scope" where
  "reply_details base0 r =
     base0 @ [(''target_id_present'', PBool (sr_selected r \<noteq> PNone)), (''option_supplied'', PBool (sr_grounded r)),
       (''relation'', PStr (sr_relation r)), (''commitment_status'', PStr (sr_commitment r)), (''requires_user_choice'', PBool (wants_choice r)),
       (''representation_status'', PStr (if sr_grounded r then ''grounded'' else ''unavailable''))]"

text \<open>The value and the turn of a grounded representation; \<open>None\<close>: it is refused.\<close>

definition grounded_option :: "arbiter \<Rightarrow> extracted_memory \<Rightarrow> memory \<Rightarrow> scope \<Rightarrow> (scope \<times> int) option" where
  "grounded_option A new m rep =
     (if fst ` set rep \<noteq> {''status'', ''attribute'', ''value'', ''category'', ''evidence_turn_index''} then None
      else
        (case (dget rep ''attribute'' PNone, dget rep ''value'' PNone, dget rep ''category'' PNone, dget rep ''evidence_turn_index'' PNone) of
           (PStr a, PStr v, PStr c, PInt i) \<Rightarrow>
             if a = [] \<or> 128 < length a \<or> c \<notin> set memory_categories \<or> c \<noteq> category_value (category m) \<or>
                verified_source_value_span (ab_grounding A) (x_content new) (x_category new) (x_evidence new) (ab_messages A) v (Some i) = None
             then None else Some ([(''attribute'', PStr a), (''value'', PStr v), (''category'', PStr c)], i)
         | _ \<Rightarrow> None))"

text \<open>The reasons after which the candidate may be restated by its user.\<close>

definition reviewable_reasons :: "string list" where
  "reviewable_reasons =
     [''source_target_missing'', ''source_representation_unavailable'', ''source_option_invalid'', ''source_option_missing'',
      ''source_commitment_disagreement'', ''source_duplicate_unverified'']"

definition source_failure :: "string \<Rightarrow> scope \<Rightarrow> scope option \<Rightarrow> conflict_decision" where
  "source_failure code details pending =
     (let d = classifier_failure_decision UnknownType code details in if code \<in> set reviewable_reasons then d\<lparr>cd_review := pending\<rparr> else d)"

definition with_details :: "scope \<Rightarrow> conflict_decision \<Rightarrow> conflict_decision" where
  "with_details details d =
     d\<lparr>cd_evidence := map_option (\<lambda>ev. AList.update ''details''
         (PDict (dict_update (case dget ev ''details'' (PDict []) of PDict x \<Rightarrow> x | _ \<Rightarrow> []) details)) ev) (cd_evidence d)\<rparr>"

definition has_reason :: "string \<Rightarrow> conflict_decision \<Rightarrow> bool" where
  "has_reason code d \<longleftrightarrow>
     (case cd_evidence d of
        None \<Rightarrow> False
      | Some ev \<Rightarrow> (case dget ev ''reason_codes'' (PList []) of PList vs \<Rightarrow> PStr code \<in> set vs | _ \<Rightarrow> False))"

text \<open>The last part: the decision as read, under the policy on uncertain claims and missing targets.\<close>

definition admit_source_decision ::
  "arbiter \<Rightarrow> extracted_memory \<Rightarrow> source_reply \<Rightarrow> memory option \<Rightarrow> scope \<Rightarrow> scope option \<Rightarrow> conflict_decision \<Rightarrow>
     memory option \<times> conflict_decision" where
  "admit_source_decision A new r target details pending d =
     (if sr_relation r = ''duplicate'' \<and> (case target of None \<Rightarrow> True | Some m \<Rightarrow> \<not> exact_source_duplicate A new m)
      then (None, source_failure ''source_duplicate_unverified'' details (Some (review_intent A target)))
      else if cd_action d = Clarify \<and> cd_option d = None
      then (if target = None \<and> \<not> has_reason ''source_response_invalid'' d then (None, source_failure ''source_target_missing'' details pending)
            else (None, if has_reason ''source_option_invalid'' d then d\<lparr>cd_review := pending\<rparr> else d))
      else if review_required new \<and> cd_action d \<in> {DoUpdate, DoMerge, KeepBoth}
      then (None, source_failure ''source_commitment_disagreement'' details pending)
      else if review_required new \<and> cd_action d = DoReject then (None, d)
      else if target = None \<and> cd_action d = KeepBoth \<and> (sr_commitment r \<noteq> ''committed_current'' \<or> wants_choice r \<or> sr_relation r \<noteq> ''novel'')
      then (None, source_failure ''source_response_invalid'' details pending)
      else if target = None \<and> cd_action d \<in> {DoUpdate, DoMerge} then (None, source_failure ''source_target_missing'' details pending)
      else (target, d))"

definition decision_payload :: "source_reply \<Rightarrow> scope option \<Rightarrow> scope" where
  "decision_payload r opt =
     dict_update (filter (\<lambda>kv. fst kv \<noteq> ''candidate_representation'') (sr_payload r))
       [(''requires_user_choice'', PBool (wants_choice r)), (''clarification_option_memory'', case opt of None \<Rightarrow> PNone | Some d \<Rightarrow> PDict d)]"

definition needs_option :: "extracted_memory \<Rightarrow> source_reply \<Rightarrow> bool" where
  "needs_option new r \<longleftrightarrow> review_required new \<or> wants_choice r \<or> sr_relation r = ''ambiguous''"

definition decide_source_reply ::
  "arbiter \<Rightarrow> extracted_memory \<Rightarrow> source_reply \<Rightarrow> memory option \<Rightarrow> scope \<Rightarrow> memory option \<times> conflict_decision" where
  "decide_source_reply A new r target details =
     (let pending = (case dget (sr_payload r) ''reasoning'' PNone of
                       PStr t \<Rightarrow> if py_strip t \<noteq> [] \<and> needs_option new r then Some (review_intent A target) else None
                     | _ \<Rightarrow> None);
          proceed = (\<lambda>details opt turn.
            admit_source_decision A new r target details pending
              (with_details details
                 (parse_conflict_decision A
                    \<lparr>pq_new = new, pq_existing = target, pq_type = UnknownType, pq_novel = True,
                     pq_selection = (review_required new \<and> target \<noteq> None), pq_turn = turn\<rparr>
                    (Some (PDict (decision_payload r opt))))))
      in if review_required new \<and> target = None then (None, source_failure ''source_target_missing'' details pending)
         else if sr_grounded r then
           (case target of
              None \<Rightarrow> (None, source_failure ''source_target_missing'' details pending)
            | Some m \<Rightarrow>
                (case grounded_option A new m (sr_representation r) of
                   None \<Rightarrow> (None, source_failure ''source_option_invalid'' details pending)
                 | Some (opt, i) \<Rightarrow> proceed details (Some opt) (Some i)))
         else
           (case dget (sr_representation r) ''reason'' PNone of
              PStr why \<Rightarrow>
                if fst ` set (sr_representation r) \<noteq> {''status'', ''reason''} \<or> why \<notin> set unavailable_reasons
                then (None, source_failure ''source_response_invalid'' details pending)
                else
                  (let details' = details @ [(''representation_reason'', PStr why)]
                   in if target \<noteq> None \<and> sr_relation r \<noteq> ''duplicate'' \<and> needs_option new r
                      then (None, source_failure ''source_representation_unavailable'' details' pending)
                      else proceed details' None None)
            | _ \<Rightarrow> (None, source_failure ''source_response_invalid'' details pending)))"

text \<open>The selected target: a text that is the id of an offered memory whose row has not changed since.\<close>

definition select_target :: "arbiter \<Rightarrow> memory list \<Rightarrow> db \<Rightarrow> pyval \<Rightarrow> string + memory option" where
  "select_target A targets d sel =
     (case sel of
        PNone \<Rightarrow> Inr None
      | PStr t \<Rightarrow>
          (case List.find (\<lambda>m. ab_id A (m_id m) = t) (rev targets) of
             None \<Rightarrow> Inl ''source_target_invalid''
           | Some m \<Rightarrow>
               (case get_memory (m_id m) d of
                  None \<Rightarrow> Inl ''source_target_stale''
                | Some n \<Rightarrow> if same_snapshot n m then Inr (Some n) else Inl ''source_target_stale''))
      | _ \<Rightarrow> Inl ''source_target_invalid'')"

definition turn_length :: "arbiter \<Rightarrow> source_turn \<Rightarrow> nat" where
  "turn_length A t = length (py_str (ee_ledger (ge_evidence (ab_grounding A))) (st_content t))"

definition classify_source_claim ::
  "arbiter \<Rightarrow> extracted_memory \<Rightarrow> memory list \<Rightarrow> db \<Rightarrow> (memory option \<times> conflict_decision) \<times> db" where
  "classify_source_claim A new targets d =
     (case verified_source_turns (ab_grounding A) (x_content new) (x_category new) (x_evidence new) (ab_messages A) of
        None \<Rightarrow> ((None, classifier_failure_decision UnknownType ''source_evidence_invalid'' []), d)
      | Some turns \<Rightarrow>
          (let details = [(''candidate_count'', PInt (int (length (remdups (map (ab_id A \<circ> m_id) targets))))),
                          (''backend_requires_user_selection'', PBool (review_required new))];
               failing = (\<lambda>code. (None, source_failure code details None))
           in if sum_list (map (turn_length A) turns) > 8000 \<or> ab_prompt_size A new turns targets > 32000 then (failing ''source_input_limit'', d)
              else
                (case ab_complete A new turns targets d of
                   (ProvidersFailed, d') \<Rightarrow> (failing ''source_provider_unavailable'', d')
                 | (ModelReply reply, d') \<Rightarrow>
                     (case source_reply_of reply of
                        None \<Rightarrow> (failing ''source_response_invalid'', d')
                      | Some r \<Rightarrow>
                          (case select_target A targets d' (sr_selected r) of
                             Inl code \<Rightarrow> ((None, source_failure code (reply_details details r) None), d')
                           | Inr target \<Rightarrow> (decide_source_reply A new r target (reply_details details r), d'))))))"

section \<open>Properties\<close>

lemma resolver_priority_ledger: "resolver_priority prov cat = Inr n \<longleftrightarrow> authority_priority prov cat = Some n"
  by (auto simp: resolver_priority_def authority_priority_def authority_rules_def category_rules_def clamp_priority_def split: option.splits)

lemma resolver_priority_range: "resolver_priority prov cat = Inr n \<Longrightarrow> 0 \<le> n \<and> n \<le> 100"
  by (auto simp: resolver_priority_def split: option.splits)

lemma merged_memory_valid: "merged_memory_of e v = Some x \<Longrightarrow> valid_extracted x"
  by (cases v) (auto simp: merged_memory_of_def Let_def split: option.splits if_splits)

lemma build_merged_valid:
  assumes "valid_extracted new" and "valid_extracted x"
  shows "valid_extracted (build_merged_memory m new (Some x))"
  using assms by (auto simp: build_merged_memory_def valid_extracted_def max_def)

lemma option_fields_category:
  assumes "option_fields_of d = Some f"
  shows "of_category f \<in> set memory_categories"
proof (cases "dget d ''attribute'' PNone")
  case a: (PStr a)
  show ?thesis
  proof (cases "dget d ''value'' PNone")
    case v: (PStr v)
    show ?thesis
    proof (cases "dget d ''category'' PNone")
      case c: (PStr c)
      show ?thesis
      proof (rule ccontr)
        assume bad: "of_category f \<notin> set memory_categories"
        have "f = \<lparr>of_attribute = drop_owner (collapse a), of_value = collapse v, of_category = py_lower (py_strip c)\<rparr>"
          using assms unfolding option_fields_of_def a v c Let_def by (simp split: if_split_asm)
        then have "py_lower (py_strip c) \<notin> set memory_categories" using bad by simp
        then show False using assms unfolding option_fields_of_def a v c Let_def by (simp split: if_split_asm)
      qed
    qed (use assms in \<open>simp_all add: option_fields_of_def a v split: if_splits\<close>)
  qed (use assms in \<open>simp_all add: option_fields_of_def a split: if_splits\<close>)
qed (use assms in \<open>simp_all add: option_fields_of_def split: if_splits\<close>)

lemma clarification_option_valid:
  assumes "build_clarification_option_memory A d new m src turn = Some x" and "valid_extracted new"
  shows "valid_extracted x"
proof -
  obtain f sp where f: "option_fields_of d = Some f" "x = option_memory new f sp"
    using assms(1) by (auto simp: build_clarification_option_memory_def split: option.splits if_splits)
  have "of_category f \<in> set memory_categories" by (rule option_fields_category [OF f(1)])
  then show ?thesis using assms(2) by (simp add: f(2) option_memory_def valid_extracted_def)
qed

lemma clarify_relation_option:
  assumes "clarify_relation A q d rel commitment choice = Parsed p" and "valid_extracted (pq_new q)"
  shows "pr_action p = Clarify \<and> (case pr_option p of None \<Rightarrow> True | Some x \<Rightarrow> valid_extracted x)"
proof (cases "pq_existing q")
  case None
  then show ?thesis using assms(1) by (auto simp: clarify_relation_def Let_def)
next
  case (Some m)
  then show ?thesis using assms
    by (cases "dget d ''clarification_option_memory'' PNone")
      (auto simp: clarify_relation_def Let_def dest: clarification_option_valid split: if_splits option.splits)
qed

lemma read_relation_option:
  assumes "read_relation A q d rel = Parsed p" and "valid_extracted (pq_new q)"
  shows "case pr_option p of None \<Rightarrow> True | Some x \<Rightarrow> pr_action p = Clarify \<and> valid_extracted x"
  using assms
  by (cases "dget d ''requires_user_choice'' PNone")
    (auto simp: read_relation_def Let_def dest!: clarify_relation_option split: if_splits option.splits)

lemma stops_plain:
  "clarify_relation A q d rel commitment choice = ParseStops x \<Longrightarrow> cd_action x = Clarify \<and> cd_merged x = None \<and> cd_option x = None"
  "read_relation A q d rel = ParseStops x \<Longrightarrow> cd_action x = Clarify \<and> cd_merged x = None \<and> cd_option x = None"
proof -
  show clarify: "cd_action x = Clarify \<and> cd_merged x = None \<and> cd_option x = None"
    if "clarify_relation A q d rel commitment choice = ParseStops x" for rel commitment choice x
    using that by (auto simp: clarify_relation_def classifier_failure_decision_def plain_decision_def Let_def split: if_splits option.splits)
  show "cd_action x = Clarify \<and> cd_merged x = None \<and> cd_option x = None" if "read_relation A q d rel = ParseStops x"
    using that by (cases "dget d ''requires_user_choice'' PNone")
      (auto simp: read_relation_def Let_def dest!: clarify split: if_splits option.splits)
qed

text \<open>What a decision carries: a memory to merge into exactly when it merges, an option only when it asks, both valid.\<close>

definition decision_ok :: "conflict_decision \<Rightarrow> bool" where
  "decision_ok x \<longleftrightarrow>
     (cd_merged x \<noteq> None \<longleftrightarrow> cd_action x = DoMerge) \<and> (cd_option x = None \<or> cd_action x = Clarify) \<and>
     list_all valid_extracted (List.map_filter id [cd_merged x, cd_option x])"

lemma unreadable_ok: "decision_ok (unreadable q)"
  by (simp add: decision_ok_def unreadable_def classifier_failure_decision_def plain_decision_def map_filter_def)

lemma concluded_ok:
  assumes "conclude A q d p = Some x" and "case pr_option p of None \<Rightarrow> True | Some y \<Rightarrow> pr_action p = Clarify \<and> valid_extracted y"
  shows "decision_ok x"
  using assms
  by (auto simp: conclude_def decision_ok_def Let_def map_filter_def dest: merged_memory_valid split: if_splits option.splits)

text \<open>
  (C20) Decisions are well formed: whatever the language model answers, the decision read from it carries a merged
  memory exactly when it merges and an option only when it asks the user, and these satisfy the constraints of
  the schema (category, scores in range, texts not empty) whenever the extracted memory does. A merge keeps the
  constraints for every stored importance, so the row it writes is valid.
\<close>

theorem parsed_decisions_well_formed:
  assumes "valid_extracted (pq_new q)"
  shows "decision_ok (parse_conflict_decision A q reply) \<and>
    (case cd_merged (parse_conflict_decision A q reply) of
       None \<Rightarrow> True
     | Some x \<Rightarrow> \<forall>m. valid_extracted (build_merged_memory m (pq_new q) (Some x)))"
proof -
  have ok: "decision_ok (parse_conflict_decision A q reply)"
  proof (cases "\<exists>d. reply = Some (PDict d)")
    case False
    then have "parse_conflict_decision A q reply = unreadable q"
      by (cases reply) (auto simp: parse_conflict_decision_def split: pyval.splits)
    then show ?thesis by (simp add: unreadable_ok)
  next
    case True
    then obtain d where d: "reply = Some (PDict d)" by blast
    define rel where "rel = py_lower (py_strip (payload_text (ab_ledger A) d ''relation''))"
    define st where "st = (if rel \<noteq> [] then read_relation A q d rel else read_legacy A q d)"
    have legacy: "read_legacy A q d \<noteq> ParseStops x" "read_legacy A q d = Parsed p \<Longrightarrow> pr_option p = None" for x p
      by (auto simp: read_legacy_def split: if_splits option.splits)
    have dec: "parse_conflict_decision A q reply =
        (case st of ParseRaises \<Rightarrow> unreadable q | ParseStops x \<Rightarrow> x
         | Parsed p \<Rightarrow> (case conclude A q d p of None \<Rightarrow> unreadable q | Some x \<Rightarrow> x))"
      by (simp add: d parse_conflict_decision_def Let_def rel_def st_def)
    show ?thesis
    proof (cases st)
      case (ParseStops x)
      then have "read_relation A q d rel = ParseStops x" using legacy(1) by (auto simp: st_def split: if_splits)
      from stops_plain(2) [OF this] show ?thesis using ParseStops by (simp add: dec decision_ok_def map_filter_def)
    next
      case (Parsed p)
      have "case pr_option p of None \<Rightarrow> True | Some y \<Rightarrow> pr_action p = Clarify \<and> valid_extracted y"
        using Parsed legacy(2) read_relation_option [OF _ assms] by (auto simp: st_def split: if_splits option.splits)
      then show ?thesis using Parsed concluded_ok by (simp add: dec unreadable_ok split: option.split)
    qed (simp add: dec unreadable_ok)
  qed
  moreover have "valid_extracted x" if "cd_merged (parse_conflict_decision A q reply) = Some x" for x
    using ok that by (simp add: decision_ok_def map_filter_def split: option.splits)
  ultimately show ?thesis using build_merged_valid [OF assms] by (simp split: option.split)
qed

section \<open>Concrete instances\<close>

definition example_extracted :: extracted_memory where
  "example_extracted =
     \<lparr>x_content = ''I like tea'', x_category = ''preference'', x_importance = 5, x_confidence = 9/10, x_expiry = ''permanent'', x_reasoning = ''stated'',
      x_evidence = []\<rparr>"

definition example_parse :: parse_query where
  "example_parse = \<lparr>pq_new = example_extracted, pq_existing = None, pq_type = UnknownType, pq_novel = True, pq_selection = False, pq_turn = None\<rparr>"

definition example_arbiter :: arbiter where
  "example_arbiter =
     \<lparr>ab_grounding = example_grounding, ab_pref = example_pref_env, ab_iso = (\<lambda>t. []), ab_zoned = (\<lambda>t. None), ab_provenance = [], ab_messages = [],
      ab_prompt_size = (\<lambda>x ts ms. 0), ab_complete = (\<lambda>x ts ms d. (ProvidersFailed, d))\<rparr>"

definition example_reply :: pyval where
  "example_reply =
     PDict [(''relation'', PStr ''mergeable''), (''commitment_status'', PStr ''committed_current''), (''requires_user_choice'', PBool False),
       (''clarification_option_memory'', PNone), (''reasoning'', PStr ''same fact''),
       (''merged_memory'', PDict [(''content'', PStr ''I like green tea''), (''category'', PStr ''preference''), (''importance_score'', PInt 6),
          (''confidence'', PFloat (9/10)), (''expiry'', PStr ''permanent''), (''reasoning'', PStr ''both'')])]"

theorem parsed_decisions_well_formed_witness:
  "decision_ok (parse_conflict_decision example_arbiter example_parse (Some example_reply))"
proof -
  have "valid_extracted (pq_new example_parse)" by (simp add: example_parse_def example_extracted_def valid_extracted_def memory_categories_def)
  from parsed_decisions_well_formed [OF this] show ?thesis by blast
qed

end
