(* ===== verification/Entities.thy ===== *)
theory Entities
  imports Arbitration
begin

text \<open>
  The words of the detector of conflicts (\<open>src/api/services/conflict_detection.py\<close>): its vocabularies, the
  entities of a text, its topic tokens, and the entities of shared context.

  The regular expressions are written out: \<open>\b\<close> is \<open>word_boundary\<close>, a vocabulary name is searched for with
  boundaries on both sides, and the patterns of dates, numbers and names are matchers at a position, scanned
  from left to right without overlap. Texts are ASCII. Iteration over a set of names is in the order of the
  list, which only orders the rows that follow from it.
\<close>

section \<open>Vocabularies\<close>

definition month_names :: "string list" where
  "month_names =
     [''january'', ''february'', ''march'', ''april'', ''may'', ''june'', ''july'', ''august'', ''september'', ''october'',
      ''november'', ''december'']"

definition language_names :: "string list" where
  "language_names =
     [''arabic'', ''assamese'', ''bengali'', ''english'', ''french'', ''german'', ''gujarati'', ''hindi'', ''italian'', ''japanese'',
      ''kannada'', ''korean'', ''malayalam'', ''marathi'', ''odia'', ''punjabi'', ''sanskrit'', ''spanish'', ''tamil'', ''telugu'',
      ''urdu'']"

definition location_names :: "string list" where
  "location_names =
     [''bangalore'', ''bengaluru'', ''chennai'', ''delhi'', ''gurgaon'', ''gurugram'', ''hyderabad'', ''kolkata'', ''mumbai'',
      ''noida'', ''pune'', ''san francisco'', ''new york'', ''london'', ''singapore'']"

definition process_terms :: "string list" where
  "process_terms =
     [''agile'', ''backfill'', ''backlog'', ''ci/cd'', ''code review'', ''daily standup'', ''deployment'', ''incident response'',
      ''kanban'', ''onboarding'', ''postmortem'', ''qa'', ''release'', ''retro'', ''runbook'', ''scrum'', ''sprint'', ''standup'',
      ''testing'']"

definition product_terms :: "string list" where
  "product_terms =
     [''api'', ''app'', ''checkout'', ''dashboard'', ''feature'', ''mobile app'', ''onboarding'', ''payment'', ''product'', ''sdk'',
      ''search'', ''web app'']"

definition shared_context_markers :: "string list" where
  "shared_context_markers =
     [''all of us'', ''company'', ''everyone'', ''our '', ''our team'', ''team'', ''the company'', ''the organisation'',
      ''the organization'', ''the project'', ''we '']"

definition generic_goal_tokens :: "string list" where
  "generic_goal_tokens =
     [''build'', ''building'', ''current'', ''currently'', ''get'', ''goal'', ''looking'', ''need'', ''needs'', ''opportunities'',
      ''opportunity'', ''plan'', ''project'', ''serious'', ''want'', ''wants'']"

definition tech_names :: "string list" where
  "tech_names =
     [''airflow'', ''alembic'', ''android'', ''angular'', ''ansible'', ''apache'', ''aws'', ''azure'', ''bash'', ''bigquery'',
      ''bootstrap'', ''c'', ''c++'', ''c#'', ''cassandra'', ''celery'', ''chakra'', ''clickhouse'', ''cloudflare'', ''css'', ''dart'',
      ''django'', ''docker'', ''docker compose'', ''dynamodb'', ''elasticsearch'', ''express'', ''fastapi'', ''figma'', ''firebase'',
      ''flask'', ''flutter'', ''gcp'', ''git'', ''github'', ''gitlab'', ''go'', ''graphql'', ''grpc'', ''hadoop'', ''html'', ''ios'',
      ''java'', ''javascript'', ''jenkins'', ''jest'', ''kafka'', ''kotlin'', ''kubernetes'', ''laravel'', ''linux'', ''llamaindex'',
      ''langchain'', ''mariadb'', ''mongodb'', ''mysql'', ''nestjs'', ''next.js'', ''nextjs'', ''nginx'', ''node'', ''node.js'',
      ''nuxt'', ''openai'', ''oracle'', ''pandas'', ''pinecone'', ''postgres'', ''postgresql'', ''prisma'', ''pytest'', ''python'',
      ''pytorch'', ''qdrant'', ''rabbitmq'', ''react'', ''redis'', ''redux'', ''ruby'', ''rust'', ''s3'', ''scala'', ''scikit-learn'',
      ''selenium'', ''snowflake'', ''spark'', ''spring'', ''sql'', ''sqlalchemy'', ''sqlite'', ''svelte'', ''swift'', ''tailwind'',
      ''tensorflow'', ''terraform'', ''trpc'', ''typescript'', ''vercel'', ''vue'', ''webpack'']"

definition stopwords :: "string list" where
  "stopwords =
     [''a'', ''about'', ''an'', ''and'', ''are'', ''as'', ''at'', ''be'', ''by'', ''for'', ''from'', ''has'', ''have'', ''he'',
      ''her'', ''his'', ''i'', ''in'', ''is'', ''it'', ''my'', ''of'', ''on'', ''or'', ''she'', ''that'', ''the'', ''their'',
      ''they'', ''this'', ''to'', ''user'', ''was'', ''with'']"

section \<open>Matching\<close>

definition regex_word :: "char \<Rightarrow> bool" where
  "regex_word c \<longleftrightarrow> is_word_char c \<or> c = CHR ''_''"

definition word_boundary :: "string \<Rightarrow> nat \<Rightarrow> bool" where
  "word_boundary s i \<longleftrightarrow> (0 < i \<and> regex_word (s ! (i - 1))) \<noteq> (i < length s \<and> regex_word (s ! i))"

text \<open>\<open>re.search(rf"\b{re.escape(p)}\b", s)\<close>.\<close>

definition names_in :: "string \<Rightarrow> string \<Rightarrow> bool" where
  "names_in p s \<longleftrightarrow>
     list_ex (\<lambda>i. prefix p (drop i s) \<and> word_boundary s i \<and> word_boundary s (i + length p)) [0..<Suc (length s)]"

text \<open>
  All matches of a pattern: \<open>f prev s\<close> is the length of the match at the start of \<open>s\<close>, after the character
  \<open>prev\<close>. Every match has a character.
\<close>

function scan_matches :: "(char option \<Rightarrow> string \<Rightarrow> nat option) \<Rightarrow> char option \<Rightarrow> string \<Rightarrow> string list" where
  "scan_matches f prev [] = []"
| "scan_matches f prev (c # cs) =
     (case f prev (c # cs) of
        None \<Rightarrow> scan_matches f (Some c) cs
      | Some n \<Rightarrow> (c # take (n - 1) cs) # scan_matches f (Some (last (c # take (n - 1) cs))) (drop (n - 1) cs))"
  by pat_completeness auto

termination
  by (relation "measure (\<lambda>(f, prev, s). length s)") auto

definition after_word :: "char option \<Rightarrow> bool" where
  "after_word prev \<longleftrightarrow> (case prev of None \<Rightarrow> False | Some c \<Rightarrow> regex_word c)"

definition at_end :: "string \<Rightarrow> bool" where
  "at_end s \<longleftrightarrow> (case s of [] \<Rightarrow> True | c # _ \<Rightarrow> \<not> regex_word c)"

definition all_digits :: "string \<Rightarrow> bool" where
  "all_digits s \<longleftrightarrow> s \<noteq> [] \<and> list_all is_digit s"

definition iso_date :: "string \<Rightarrow> bool" where
  "iso_date s \<longleftrightarrow>
     length s = 10 \<and> (prefix ''19'' s \<or> prefix ''20'' s) \<and> all_digits (take 4 s) \<and> s ! 4 = CHR ''-'' \<and> all_digits (take 2 (drop 5 s)) \<and>
     s ! 7 = CHR ''-'' \<and> all_digits (drop 8 s)"

definition split_on :: "char \<Rightarrow> string \<Rightarrow> string \<times> string option" where
  "split_on c s = (takeWhile (\<lambda>x. x \<noteq> c) s, case dropWhile (\<lambda>x. x \<noteq> c) s of [] \<Rightarrow> None | _ # r \<Rightarrow> Some r)"

definition slash_date :: "string \<Rightarrow> bool" where
  "slash_date s =
     (case split_on CHR ''/'' s of
        (a, Some r) \<Rightarrow>
          (case split_on CHR ''/'' r of
             (b, Some c) \<Rightarrow> all_digits a \<and> length a \<le> 2 \<and> all_digits b \<and> length b \<le> 2 \<and> all_digits c \<and> length c \<in> {2, 4}
           | _ \<Rightarrow> False)
      | _ \<Rightarrow> False)"

definition iso_date_at :: "char option \<Rightarrow> string \<Rightarrow> nat option" where
  "iso_date_at prev s = (if \<not> after_word prev \<and> iso_date (take 10 s) \<and> at_end (drop 10 s) then Some 10 else None)"

text \<open>A date with slashes has six to ten characters, and at most one of its prefixes ends before a boundary.\<close>

definition slash_date_at :: "char option \<Rightarrow> string \<Rightarrow> nat option" where
  "slash_date_at prev s =
     (if after_word prev then None else List.find (\<lambda>n. n \<le> length s \<and> slash_date (take n s) \<and> at_end (drop n s)) [6..<11])"

definition number_follows :: "string \<Rightarrow> bool" where
  "number_follows s \<longleftrightarrow> (case s of [] \<Rightarrow> True | c # _ \<Rightarrow> \<not> regex_word c \<and> c \<noteq> CHR ''.'')"

text \<open>Digits with a fraction, then a percent sign; when the sign is followed by a word character it is left out.\<close>

definition number_core :: "string \<Rightarrow> nat" where
  "number_core s =
     (let d = length (takeWhile is_digit s); r = drop d s;
          f = (case r of c # t \<Rightarrow> if c = CHR ''.'' then length (takeWhile is_digit t) else 0 | [] \<Rightarrow> 0)
      in if d = 0 \<or> f = 0 then d else d + 1 + f)"

definition number_at :: "char option \<Rightarrow> string \<Rightarrow> nat option" where
  "number_at prev s =
     (let n = number_core s; r = drop n s
      in if after_word prev \<or> prev = Some CHR ''.'' \<or> n = 0 then None
         else if r \<noteq> [] \<and> hd r = CHR ''%'' \<and> number_follows (tl r) then Some (Suc n)
         else if number_follows r then Some n else None)"

definition is_letter :: "char \<Rightarrow> bool" where
  "is_letter c \<longleftrightarrow> is_lower_letter (lower_char c)"

text \<open>The matches of \<open>\b[A-Z][a-z]{2,}\b\<close> are the words of that form.\<close>

definition is_name :: "string \<Rightarrow> bool" where
  "is_name w = (case w of [] \<Rightarrow> False | c # cs \<Rightarrow> is_letter c \<and> \<not> is_lower_letter c \<and> 2 \<le> length cs \<and> list_all is_lower_letter cs)"

section \<open>Entities of a text\<close>

definition extract_entities :: "string \<Rightarrow> string set" where
  "extract_entities s =
     (let t = py_lower s; known = (\<lambda>names. set (filter (\<lambda>p. names_in p t) names))
      in known month_names \<union> set (map py_lower (scan_matches iso_date_at None s)) \<union> set (map py_lower (scan_matches slash_date_at None s)) \<union>
         set (filter (\<lambda>n. CHR ''%'' \<in> set n \<or> length n \<le> 4) (scan_matches number_at None s)) \<union>
         known tech_names \<union> known language_names \<union> known location_names \<union>
         set (filter (\<lambda>n. n \<notin> set stopwords \<and> n \<noteq> ''user'' \<and> n \<noteq> ''memory'') (map py_lower (filter is_name (split_runs regex_word [] s)))))"

definition is_date_entity :: "string \<Rightarrow> bool" where
  "is_date_entity s \<longleftrightarrow> py_lower s \<in> set month_names \<or> iso_date s \<or> slash_date s"

text \<open>A full match of digits, a fraction and a percent sign, the latter two optional.\<close>

definition is_numeric_entity :: "string \<Rightarrow> bool" where
  "is_numeric_entity s =
     (let t = (if s \<noteq> [] \<and> last s = CHR ''%'' then butlast s else s)
      in case split_on CHR ''.'' t of (a, None) \<Rightarrow> all_digits a | (a, Some b) \<Rightarrow> all_digits a \<and> all_digits b)"

definition has_date_entity :: "string set \<Rightarrow> bool" where
  "has_date_entity es \<longleftrightarrow> (\<exists>e \<in> es. is_date_entity e)"

definition has_numeric_entity :: "string set \<Rightarrow> bool" where
  "has_numeric_entity es \<longleftrightarrow> (\<exists>e \<in> es. is_numeric_entity e)"

section \<open>Topic tokens\<close>

definition token_char :: "char \<Rightarrow> bool" where
  "token_char c \<longleftrightarrow> is_letter c \<or> is_digit c \<or> c \<in> set ''+#.-''"

text \<open>The matches of \<open>[a-zA-Z][a-zA-Z0-9+#.\-]*\<close>.\<close>

definition token_at :: "char option \<Rightarrow> string \<Rightarrow> nat option" where
  "token_at prev s = (case s of [] \<Rightarrow> None | c # cs \<Rightarrow> if is_letter c then Some (Suc (length (takeWhile token_char cs))) else None)"

definition topic_tokens :: "string \<Rightarrow> string set" where
  "topic_tokens s =
     set (filter (\<lambda>t. t \<notin> set stopwords) (map py_lower (filter (\<lambda>t. 2 < length t) (scan_matches token_at None s))))"

definition token_overlap_ratio :: "string set \<Rightarrow> string set \<Rightarrow> pyfloat" where
  "token_overlap_ratio l r =
     (if l = {} \<or> r = {} then 0 else of_nat (card (l \<inter> r)) / of_nat (max 1 (min (card l) (card r))))"

section \<open>Entities of shared context\<close>

record shared_entity =
  se_type :: entity_type
  se_value :: string
  se_confidence :: pyfloat

text \<open>\<open>entities[(type, value)] = ...\<close>: a key keeps its place.\<close>

definition add_shared :: "entity_type \<Rightarrow> pyfloat \<Rightarrow> string \<Rightarrow> shared_entity list \<Rightarrow> shared_entity list" where
  "add_shared ty conf v acc =
     (let n = py_strip (py_lower v); e = \<lparr>se_type = ty, se_value = n, se_confidence = conf\<rparr>; same = (\<lambda>x. se_type x = ty \<and> se_value x = n)
      in if n = [] then acc else if list_ex same acc then map (\<lambda>x. if same x then e else x) acc else acc @ [e])"

definition has_shared_context_marker :: "string \<Rightarrow> bool" where
  "has_shared_context_marker s \<longleftrightarrow> list_ex (\<lambda>w. py_contains w s) shared_context_markers"

definition shared_goal_entity_value :: "string \<Rightarrow> string option" where
  "shared_goal_entity_value s =
     (let tokens = Set.filter (\<lambda>t. t \<notin> set tech_names \<and> t \<notin> set generic_goal_tokens) (topic_tokens s)
      in if tokens = {} then None else Some (join_words (take 5 (sorted_list_of_set tokens))))"

definition company_markers :: "string list" where
  "company_markers = [''company'', ''team'', ''product'', ''codebase'', ''stack'']"

definition extract_shared_context_entities :: "string \<Rightarrow> string \<Rightarrow> shared_entity list" where
  "extract_shared_context_entities s cat =
     (let t = py_lower s;
          known = (\<lambda>ty conf names acc. fold (add_shared ty conf) (filter (\<lambda>p. names_in p t) names) acc);
          e1 = known ProductFeature (65/100) product_terms (known TeamProcess (75/100) process_terms (known TechStack (85/100) tech_names []));
          e2 = (if py_lower cat = ''goal'' \<and> has_shared_context_marker t
                then (case shared_goal_entity_value s of Some g \<Rightarrow> add_shared SharedGoal (65/100) g e1 | None \<Rightarrow> e1) else e1)
      in if list_ex (\<lambda>w. py_contains w t) company_markers
         then fold (add_shared CompanyFact (60/100)) (sorted_list_of_set (Set.filter (\<lambda>e. e \<notin> set tech_names) (extract_entities s))) e2
         else e2)"

section \<open>Properties\<close>

text \<open>
  A name that does not end in a word character is found only directly before one: the vocabulary names that
  end in a plus or a number sign are missed at the end of a text and before a space or a punctuation mark.
\<close>

theorem symbol_names_need_a_letter:
  assumes "names_in p s" and "p \<noteq> []" and "\<not> regex_word (last p)"
  shows "\<exists>i. prefix p (drop i s) \<and> i + length p < length s \<and> regex_word (s ! (i + length p))"
proof -
  obtain i where i: "prefix p (drop i s)" "word_boundary s (i + length p)"
    using assms(1) by (auto simp: names_in_def list_ex_iff)
  then obtain t where t: "drop i s = p @ t" by (auto simp: prefix_def)
  have len: "i + length p \<le> length s" using arg_cong [OF t, of length] assms(2) by (cases p) auto
  have "s ! (i + length p - 1) = drop i s ! (length p - 1)" using assms(2) len by (cases p) auto
  also have "\<dots> = last p" using assms(2) by (simp add: t nth_append last_conv_nth)
  finally have "\<not> regex_word (s ! (i + length p - 1))" using assms(3) by simp
  then show ?thesis using i by (auto simp: word_boundary_def)
qed

theorem symbol_names_need_a_letter_witness:
  "\<exists>i. prefix ''c++'' (drop i ''c++x'') \<and> i + 3 < length ''c++x'' \<and> regex_word (''c++x'' ! (i + 3))"
proof -
  have "names_in ''c++'' ''c++x''" "\<not> regex_word (last ''c++'')" by code_simp+
  from symbol_names_need_a_letter [OF this(1) _ this(2)] show ?thesis by simp
qed

end
