(* ===== verification/Detection.thy ===== *)
theory Detection
  imports Entities
begin

text \<open>
  The detection of conflicts (\<open>src/api/services/conflict_detection.py\<close>): which stored memories may
  contradict an extracted one, of which kind a contradiction is, and which signals of other users
  disagree with it.

  Entities and tokens are those of \<open>Entities\<close>; confidences are exact. The rows of a search have different
  ids, so a row is looked at once.
\<close>

section \<open>Triggers and kinds\<close>

definition entity_conflict_triggers :: "string set \<Rightarrow> string set \<Rightarrow> pyfloat \<Rightarrow> string set" where
  "entity_conflict_triggers new old overlap =
     (let common = new \<inter> old; dates = Set.filter is_date_entity; numbers = Set.filter is_numeric_entity
      in if common \<noteq> {} then common
         else if dates new \<noteq> {} \<and> dates old \<noteq> {} \<and> overlap \<ge> 3/10 then dates new \<union> dates old
         else if numbers new \<noteq> {} \<and> numbers old \<noteq> {} \<and> overlap \<ge> 3/10 then numbers new \<union> numbers old
         else {})"

definition classify_conflict_type :: "string \<Rightarrow> string \<Rightarrow> string \<Rightarrow> string list \<Rightarrow> conflict_type" where
  "classify_conflict_type new old cat detected =
     (let t = py_lower new; has = list_ex (\<lambda>w. py_contains w t)
      in if py_lower cat = ''preference'' then PreferenceChange
         else if has [''no longer'', ''stopped'', ''quit'', ''moved away from''] then Negation
         else if has [''learned'', ''mastered'', ''now know'', ''now knows''] then SkillProgression
         else if has_numeric_entity (extract_entities new) \<and> has_numeric_entity (extract_entities old) then NumericUpdate
         else if list_ex (\<lambda>w. py_lower w \<in> set month_names) detected \<or>
             (has_date_entity (extract_entities new) \<and> has_date_entity (extract_entities old)) then FactUpdate
         else if has [''last week'', ''yesterday'', ''now'', ''recently''] then TemporalShift
         else UnknownType)"

section \<open>Candidates\<close>

datatype strategy = Semantic | Entity | TopicOverlap | SourceRelation

record conflict_candidate =
  ca_memory :: memory
  ca_strategy :: strategy
  ca_confidence :: pyfloat
  ca_entities :: "string set"

definition semantic_conflict_threshold :: pyfloat where
  "semantic_conflict_threshold = 82/100"

definition dated_or_numeric :: "conflict_candidate \<Rightarrow> bool" where
  "dated_or_numeric c \<longleftrightarrow> ca_strategy c = Entity \<and> (\<exists>w \<in> ca_entities c. is_date_entity w \<or> is_numeric_entity w)"

fun strategy_priority :: "strategy \<Rightarrow> nat" where
  "strategy_priority Semantic = 3"
| "strategy_priority TopicOverlap = 2"
| "strategy_priority Entity = 1"
| "strategy_priority SourceRelation = 0"

definition choose_stronger_candidate :: "conflict_candidate option \<Rightarrow> conflict_candidate \<Rightarrow> conflict_candidate" where
  "choose_stronger_candidate cur new =
     (case cur of
        None \<Rightarrow> new
      | Some c \<Rightarrow>
          if dated_or_numeric c then c
          else if dated_or_numeric new then new
          else if strategy_priority (ca_strategy new) > strategy_priority (ca_strategy c) then new
          else if strategy_priority (ca_strategy new) < strategy_priority (ca_strategy c) then c
          else if ca_confidence new > ca_confidence c then new else c)"

text \<open>The candidate a stored memory becomes, with its score in the vector search.\<close>

definition candidate_for :: "extracted_memory \<Rightarrow> memory \<times> pyfloat \<Rightarrow> conflict_candidate option" where
  "candidate_for new ms =
     (let m = fst ms; score0 = snd ms; en = extract_entities (x_content new); eo = extract_entities (content m);
          overlap = token_overlap_ratio (topic_tokens (x_content new)) (topic_tokens (content m));
          make = (\<lambda>st cf es. \<lparr>ca_memory = m, ca_strategy = st, ca_confidence = cf, ca_entities = es\<rparr>);
          c1 = (if score0 > semantic_conflict_threshold then Some (make Semantic (min 1 score0) (en \<inter> eo)) else None);
          triggers = entity_conflict_triggers en eo overlap;
          c2 = (if triggers \<noteq> {}
                then Some (choose_stronger_candidate c1 (make Entity (max (74/100) (min (95/100) (65/100 + overlap))) triggers)) else c1)
      in if py_lower (x_category new) = category_value (category m) \<and> overlap > 60/100
         then Some (choose_stronger_candidate c2 (make TopicOverlap (min (94/100) (60/100 + overlap)) (en \<inter> eo)))
         else c2)"

definition detect_candidates :: "extracted_memory \<Rightarrow> (memory \<times> pyfloat) list \<Rightarrow> conflict_candidate list" where
  "detect_candidates new rows =
     sort_key (\<lambda>c. - ca_confidence c) (List.map_filter (candidate_for new) rows)"

section \<open>Shared context\<close>

definition detect_shared_context_conflict ::
  "extracted_memory \<Rightarrow> uuid \<Rightarrow> uuid \<Rightarrow> review_db \<Rightarrow> context_conflict list" where
  "detect_shared_context_conflict new proxy tenant s =
     (let es = extract_shared_context_entities (x_content new) (x_category new);
          sgs = filter (\<lambda>g. sg_tenant_id g = tenant \<and> sg_entity_type g \<in> se_type ` set es \<and> \<not> sg_superseded g \<and>
                  sg_proxy_user_id g \<noteq> None \<and> sg_proxy_user_id g \<noteq> Some proxy) (signals s)
      in concat (map (\<lambda>e. map (\<lambda>g. \<lparr>cc_signal = g, cc_value_a = sg_value g, cc_value_b = se_value e\<rparr>)
           (filter (\<lambda>g. sg_entity_type g = se_type e \<and> py_lower (sg_value g) \<noteq> py_lower (se_value e)) sgs)) es))"

definition insert_shared_context_signals ::
  "extracted_memory \<Rightarrow> uuid \<Rightarrow> uuid \<Rightarrow> uuid \<Rightarrow> review_db \<Rightarrow> review_db" where
  "insert_shared_context_signals new tenant proxy memory s =
     s\<lparr>signals := signals s @ map (\<lambda>e. \<lparr>sg_tenant_id = tenant, sg_entity_type = se_type e, sg_value = se_value e, sg_proxy_user_id = Some proxy,
        sg_memory_id = Some memory, sg_confidence = se_confidence e, sg_superseded = False\<rparr>) (extract_shared_context_entities (x_content new) (x_category new))\<rparr>"

section \<open>Properties\<close>

text \<open>The confidence of a candidate, by its strategy.\<close>

definition confidence_ok :: "conflict_candidate \<Rightarrow> bool" where
  "confidence_ok c \<longleftrightarrow>
     (case ca_strategy c of
        Semantic \<Rightarrow> 82/100 < ca_confidence c \<and> ca_confidence c \<le> 1
      | Entity \<Rightarrow> 74/100 \<le> ca_confidence c \<and> ca_confidence c \<le> 95/100
      | TopicOverlap \<Rightarrow> ca_confidence c = 94/100
      | SourceRelation \<Rightarrow> False)"

lemma choose_stronger_ok:
  "(case cur of None \<Rightarrow> True | Some c \<Rightarrow> P c) \<Longrightarrow> P new \<Longrightarrow> P (choose_stronger_candidate cur new)"
  by (auto simp: choose_stronger_candidate_def split: option.splits)

lemma candidate_for_ok:
  assumes "candidate_for new ms = Some c"
  shows "ca_memory c = fst ms \<and> confidence_ok c"
proof -
  let ?P = "\<lambda>c. ca_memory c = fst ms \<and> confidence_ok c"
  define overlap where "overlap = token_overlap_ratio (topic_tokens (x_content new)) (topic_tokens (content (fst ms)))"
  define en eo where "en = extract_entities (x_content new)" and "eo = extract_entities (content (fst ms))"
  define make where "make st cf es = \<lparr>ca_memory = fst ms, ca_strategy = st, ca_confidence = cf, ca_entities = es\<rparr>" for st cf es
  define c1 where "c1 = (if snd ms > semantic_conflict_threshold then Some (make Semantic (min 1 (snd ms)) (en \<inter> eo)) else None)"
  define tr where "tr = entity_conflict_triggers en eo overlap"
  define c2 where "c2 = (if tr \<noteq> {} then Some (choose_stronger_candidate c1 (make Entity (max (74/100) (min (95/100) (65/100 + overlap))) tr)) else c1)"
  have c1: "case c1 of None \<Rightarrow> True | Some c \<Rightarrow> ?P c"
    by (simp add: c1_def make_def confidence_ok_def semantic_conflict_threshold_def)
  have "74/100 \<le> max (74/100) (min (95/100) (65/100 + overlap))" "max (74/100) (min (95/100) (65/100 + overlap)) \<le> 95/100"
    by (auto simp: max_def min_def)
  then have "?P (make Entity (max (74/100) (min (95/100) (65/100 + overlap))) tr)" by (simp add: make_def confidence_ok_def)
  then have c2: "case c2 of None \<Rightarrow> True | Some c \<Rightarrow> ?P c" using c1 choose_stronger_ok [of ?P c1] by (simp add: c2_def)
  have topic: "?P (make TopicOverlap (min (94/100) (60/100 + overlap)) (en \<inter> eo))" if "overlap > 60/100"
    using that by (simp add: make_def confidence_ok_def min_def)
  have "Some c = (if py_lower (x_category new) = category_value (category (fst ms)) \<and> overlap > 60/100
      then Some (choose_stronger_candidate c2 (make TopicOverlap (min (94/100) (60/100 + overlap)) (en \<inter> eo))) else c2)"
    using assms [symmetric] by (simp only: candidate_for_def Let_def overlap_def en_def eo_def make_def c1_def c2_def tr_def)
  then show ?thesis using c2 topic choose_stronger_ok [of ?P c2] by (auto split: if_splits)
qed

lemma map_filter_ids:
  assumes "\<And>x y. f x = Some y \<Longrightarrow> g y = h x" and "distinct (map h xs)"
  shows "distinct (map g (List.map_filter f xs))"
  using assms(2)
proof (induction xs)
  case (Cons x xs)
  have "set (map g (List.map_filter f xs)) \<subseteq> set (map h xs)"
    using assms(1) by (induction xs) (auto simp: map_filter_simps split: option.splits)
  then show ?case using Cons assms(1) by (auto simp: map_filter_simps split: option.splits)
qed (simp add: map_filter_simps)

text \<open>
  (C32) The candidates of a memory are ranked and bounded: each stored row gives at most one, the list falls in
  confidence, every confidence is in the range of its strategy, and no row above the semantic threshold is
  missing. The range of the topic strategy is the one value 0.94.
\<close>

theorem candidates_are_ranked:
  assumes "distinct (map (m_id \<circ> fst) rows)"
  shows "sorted_wrt (\<lambda>c c'. ca_confidence c' \<le> ca_confidence c) (detect_candidates new rows) \<and>
    distinct (map (m_id \<circ> ca_memory) (detect_candidates new rows)) \<and>
    list_all (\<lambda>c. ca_memory c \<in> fst ` set rows \<and> confidence_ok c) (detect_candidates new rows) \<and>
    fst ` set (filter (\<lambda>ms. semantic_conflict_threshold < snd ms) rows) \<subseteq> ca_memory ` set (detect_candidates new rows)"
proof -
  have sorted: "sorted_wrt (\<lambda>c c'. ca_confidence c' \<le> ca_confidence c) (detect_candidates new rows)"
    using sorted_sort_key [of "\<lambda>c. - ca_confidence c" "List.map_filter (candidate_for new) rows"]
    by (simp add: detect_candidates_def sorted_map)
  have "distinct (map (m_id \<circ> ca_memory) (List.map_filter (candidate_for new) rows))"
    by (rule map_filter_ids [OF _ assms]) (use candidate_for_ok in auto)
  then have dist: "distinct (map (m_id \<circ> ca_memory) (detect_candidates new rows))"
    by (simp add: detect_candidates_def distinct_map)
  have "list_all (\<lambda>c. ca_memory c \<in> fst ` set rows \<and> confidence_ok c) (detect_candidates new rows)"
    unfolding list_all_iff
  proof
    fix c assume "c \<in> set (detect_candidates new rows)"
    then obtain ms where "ms \<in> set rows" "candidate_for new ms = Some c" by (auto simp: detect_candidates_def map_filter_def)
    then show "ca_memory c \<in> fst ` set rows \<and> confidence_ok c" using candidate_for_ok by auto
  qed
  moreover have "fst ` set (filter (\<lambda>ms. semantic_conflict_threshold < snd ms) rows) \<subseteq> ca_memory ` set (detect_candidates new rows)"
  proof
    fix m assume "m \<in> fst ` set (filter (\<lambda>ms. semantic_conflict_threshold < snd ms) rows)"
    then obtain ms where ms: "ms \<in> set rows" "semantic_conflict_threshold < snd ms" "m = fst ms" by auto
    have "candidate_for new ms \<noteq> None" using ms(2) by (simp add: candidate_for_def Let_def)
    then obtain c where c: "candidate_for new ms = Some c" by blast
    then have "c \<in> set (detect_candidates new rows)" using ms(1) by (force simp: detect_candidates_def map_filter_def)
    then show "m \<in> ca_memory ` set (detect_candidates new rows)" using candidate_for_ok [OF c] ms(3) by (metis imageI)
  qed
  ultimately show ?thesis using sorted dist by blast
qed

section \<open>Concrete instances\<close>

definition example_candidate :: extracted_memory where
  "example_candidate =
     \<lparr>x_content = ''Lives in Pune'', x_category = ''fact'', x_importance = 5, x_confidence = 9/10, x_expiry = ''permanent'', x_reasoning = ''stated'',
      x_evidence = []\<rparr>"

theorem candidates_are_ranked_witness:
  "list_all (\<lambda>c. ca_memory c \<in> fst ` set [(example_memory, 9/10)] \<and> confidence_ok c) (detect_candidates example_candidate [(example_memory, 9/10)]) \<and>
   example_memory \<in> ca_memory ` set (detect_candidates example_candidate [(example_memory, 9/10)])"
  using candidates_are_ranked [of "[(example_memory, 9/10)]" example_candidate] by (simp add: semantic_conflict_threshold_def)

end
