(* ===== verification/Resolver.thy ===== *)
theory Resolver
  imports Detection
begin

text \<open>
  The write path: \<open>ConflictResolver.check_and_store\<close> of \<open>src/api/services/conflict_resolver.py\<close>. Each extracted
  memory is compared with the stored ones and stored, merged, rejected, put to the user or buffered
  for review; versions, claims, vector outbox, conflicts, questions and audit follow.

  Parameters are the embedding, the vector search (\<open>None\<close>: unavailable), the language model and
  encryption. Identifiers are UUIDs; the metrics of the last run and the commits
  between memories are left out. A batch of declared preferences takes another path and is not
  modelled here.
\<close>

section \<open>Parameters and state\<close>

record source_context =
  sc_memories :: "memory list"
  sc_complete :: bool
  sc_available :: bool
  sc_gaps_complete :: bool

record resolver_env =
  re_arbiter :: arbiter
  re_user :: uuid
  re_tenant :: "uuid option"
  re_proxy :: "uuid option"
  re_agent :: "uuid option"
  re_conversation :: uuid
  re_event :: "uuid option"
  re_domain :: "string option"
  re_include_content :: bool
  re_now :: utc
  re_native :: bool
  re_clarify :: bool
  re_context :: "source_context option"
  re_embed :: "string \<Rightarrow> embedding_result option"
  re_search :: "embedding_result \<Rightarrow> (uuid \<times> pyfloat) list option"
  re_classify :: "extracted_memory \<Rightarrow> memory \<Rightarrow> conflict_type \<Rightarrow> model_reply"
  re_encrypt :: "uuid option \<Rightarrow> uuid \<Rightarrow> string \<Rightarrow> pyval"

abbreviation re_id :: "resolver_env \<Rightarrow> uuid \<Rightarrow> string" where
  "re_id R \<equiv> ab_id (re_arbiter R)"

record stored_memory =
  sm_id :: uuid
  sm_content :: string
  sm_category :: string
  sm_previous :: "uuid option"
  sm_resolution :: string

record pending_memory =
  pe_content :: string
  pe_category :: string
  pe_importance :: pyfloat
  pe_confidence :: pyfloat
  pe_reasoning :: string
  pe_evidence :: scope

record write_state =
  ws_db :: review_db
  ws_stored :: "stored_memory list"
  ws_pending :: "pending_memory list"
  ws_context :: "memory list"
  ws_cursor :: nat

section \<open>Storing a memory\<close>

definition category_of :: "string \<Rightarrow> memory_category option" where
  "category_of s = List.find (\<lambda>c. category_value c = s) [Preference, Fact, Goal, Procedure, Relationship, Expertise]"

definition provenance_for_extracted_memory :: "resolver_env \<Rightarrow> extracted_memory \<Rightarrow> uuid \<Rightarrow> scope" where
  "provenance_for_extracted_memory R new i =
     (let prov = ab_provenance (re_arbiter R);
          ev = AList.update ''source_conversation_id'' (PStr (re_id R (re_conversation R)))
                 (AList.update ''memory_id'' (PStr (re_id R i)) (x_evidence new));
          p1 = AList.update ''extraction_evidence'' (PDict ev) prov
      in if x_evidence new = [] then prov
         else if map_of ev preference_marker \<noteq> None
         then dict_update p1 [(''attestation'', PStr ''client_asserted''), (''authority_priority'', PInt 20),
                (''authority_rules'', PDict [(''default_priority'', PInt 20)]), (''applicability_basis'', PStr ''application_declared'')]
         else p1)"

definition stored_metadata :: "extracted_memory \<Rightarrow> string \<Rightarrow> scope \<Rightarrow> scope \<Rightarrow> scope" where
  "stored_metadata new resolution ev prov =
     [(''expiry'', PStr (x_expiry new)), (''reasoning'', PStr (x_reasoning new)), (''resolution'', PStr resolution)]
     @ (if ev = [] then [] else [(''decision_evidence'', PDict ev)]) @ (if prov = [] then [] else [(''provenance'', PDict prov)])"

text \<open>The row of a new memory. Without a proxy user the service makes one up.\<close>

definition new_memory_row ::
  "resolver_env \<Rightarrow> extracted_memory \<Rightarrow> memory_category \<Rightarrow> embedding_result \<Rightarrow> uuid option \<Rightarrow> string \<Rightarrow> bool \<Rightarrow> scope \<Rightarrow> scope \<Rightarrow>
     utc option \<Rightarrow> utc option \<Rightarrow> db \<Rightarrow> memory" where
  "new_memory_row R new cat er prev resolution archived ev prov start stop d =
     \<lparr>m_id = next_id d, m_user_id = re_user R, m_proxy_user_id = (case re_proxy R of Some p \<Rightarrow> p | None \<Rightarrow> Suc (next_id d)),
      m_agent_id = re_agent R, content = x_content new, content_envelope = re_encrypt R (re_tenant R) (next_id d) (x_content new),
      category = cat, importance_score = x_importance new, confidence_score = x_confidence new, embedding_model_id = er_model_id er,
      qdrant_collection = Some (er_collection er), created_at = db_now d, last_accessed_at = None, access_count = 0, expires_at = None,
      effective_from = start, effective_until = stop, previous_version_id = prev, source_event_id = re_event R,
      metadata_json = stored_metadata new resolution ev prov, is_archived = archived, m_updated_at = db_now d\<rparr>"

definition add_memory :: "memory \<Rightarrow> db \<Rightarrow> db" where
  "add_memory m d = d\<lparr>memories := memories d @ [m], next_id := Suc (Suc (next_id d))\<rparr>"

text \<open>
  The ledger entry. An error of the ledger is passed on for a registered writer and for a declared
  preference, and ignored otherwise; the ledger raises before it changes a row.
\<close>

definition record_claim_for_memory ::
  "resolver_env \<Rightarrow> memory \<Rightarrow> string \<Rightarrow> scope \<Rightarrow> uuid option \<Rightarrow> db \<Rightarrow> resolver_error + db" where
  "record_claim_for_memory R m resolution ev pred d =
     (let prov = provenance_value m; registered = truthy (dget prov ''writer_id'' PNone)
      in if registered \<and> (re_tenant R = None \<or> source_event_id m = None) then Inl SourceLedgerRequired
         else
           (case re_tenant R of
              None \<Rightarrow> Inr d
            | Some t \<Rightarrow>
                (case record_memory (with_declarations (ab_ledger (re_arbiter R))) (Some t) (Some (m_proxy_user_id m)) prov resolution ev pred
                        (re_now R) m d of
                   Inl x \<Rightarrow>
                     if registered then Inl (ResolverLedger x)
                     else (case preference_declaration prov of
                             Inl y \<Rightarrow> Inl (ResolverLedger y)
                           | Inr (Some q) \<Rightarrow> Inl (ResolverLedger x)
                           | Inr None \<Rightarrow> Inr d)
                 | Inr (c, d') \<Rightarrow>
                     (case preference_declaration prov of
                        Inl y \<Rightarrow> Inl (ResolverLedger y)
                      | Inr (Some q) \<Rightarrow>
                          if (case c of None \<Rightarrow> True | Some x \<Rightarrow> active_memory_id x \<noteq> Some (m_id m) \<or> c_status x \<noteq> ''active'')
                          then Inl PreferenceNotActivated else Inr d'
                      | Inr None \<Rightarrow> if registered \<and> c = None then Inl SourceNotRecorded else Inr d'))))"

definition store_new_memory ::
  "resolver_env \<Rightarrow> extracted_memory \<Rightarrow> embedding_result \<Rightarrow> uuid option \<Rightarrow> string \<Rightarrow> bool \<Rightarrow> scope \<Rightarrow> db \<Rightarrow>
     resolver_error + (stored_memory \<times> db)" where
  "store_new_memory R new er prev resolution archived ev d =
     (let i = next_id d; prov = provenance_for_extracted_memory R new i
      in case temporal_validity_from_provenance (ab_zoned (re_arbiter R)) prov of
           IntervalRaises \<Rightarrow> Inl InvalidInterval
         | Interval start stop \<Rightarrow>
             (case category_of (x_category new) of
                None \<Rightarrow> Inl InvalidCategory
              | Some cat \<Rightarrow>
                  (let m = new_memory_row R new cat er prev resolution archived ev prov start stop d;
                       d1 = snd (safe_record_version m ''created'' (Some ''Extracted from conversation'') ''system'' (add_memory m d))
                   in case record_claim_for_memory R m resolution ev prev d1 of
                        Inl x \<Rightarrow> Inl x
                      | Inr d2 \<Rightarrow>
                          Inr (\<lparr>sm_id = i, sm_content = x_content new, sm_category = x_category new, sm_previous = prev, sm_resolution = resolution\<rparr>,
                               if archived then d2
                               else enqueue_vector_upsert i (er_vector er)
                                      (build_vector_payload (re_include_content R) m (re_tenant R) (re_proxy R) (Some (re_user R))
                                         (Some (er_model_id er)) (Some (er_collection er))) d2))))"

text \<open>Signals and conflicts with other users; an exception there is ignored.\<close>

definition record_shared_context :: "resolver_env \<Rightarrow> extracted_memory \<Rightarrow> uuid \<Rightarrow> review_db \<Rightarrow> review_db" where
  "record_shared_context R new i s =
     (case (re_tenant R, re_proxy R) of
        (Some t, Some p) \<Rightarrow>
          (let cs = detect_shared_context_conflict new p t s;
               s1 = insert_shared_context_signals new t p i s
           in if cs = [] then s1
              else (case insert_cross_user_conflicts (re_id R) (re_domain R) (re_now R) cs t i s1 of
                      (Inl x, s2) \<Rightarrow> s2
                    | (Inr (n, hooks), s2) \<Rightarrow> s2\<lparr>conflicts_flagged := conflicts_flagged s2 + int n\<rparr>))
      | _ \<Rightarrow> s)"

definition store_with_shared_context ::
  "resolver_env \<Rightarrow> extracted_memory \<Rightarrow> embedding_result \<Rightarrow> uuid option \<Rightarrow> string \<Rightarrow> bool \<Rightarrow> bool \<Rightarrow> scope \<Rightarrow> review_db \<Rightarrow>
     resolver_error + (stored_memory \<times> review_db)" where
  "store_with_shared_context R new er prev resolution archived shared ev s =
     (case store_new_memory R new er prev resolution archived ev (base s) of
        Inl x \<Rightarrow> Inl x
      | Inr (sm, d) \<Rightarrow>
          (let s1 = s\<lparr>base := d\<rparr> in Inr (sm, if shared then record_shared_context R new (sm_id sm) s1 else s1)))"

section \<open>Archiving and audit\<close>

definition set_archived :: "uuid \<Rightarrow> db \<Rightarrow> db" where
  "set_archived i d = d\<lparr>memories := update_where (\<lambda>r. m_id r = i) (\<lambda>r. r\<lparr>is_archived := True\<rparr>) (memories d)\<rparr>"

definition archive_superseded :: "resolver_env \<Rightarrow> memory \<Rightarrow> string \<Rightarrow> db \<Rightarrow> db" where
  "archive_superseded R m reason d =
     (let pl = build_vector_payload (re_include_content R) (m\<lparr>is_archived := True\<rparr>) (tenant_of (m_proxy_user_id m) d)
                 (Some (m_proxy_user_id m)) (Some (m_user_id m)) (Some (embedding_model_id m)) (qdrant_collection m)
      in enqueue_vector_archive (m_id m)
           (AList.update ''lifecycle_state'' (PStr ''superseded'') (AList.update ''is_archived'' (PBool True) pl))
           (set_archived (m_id m) (snd (safe_record_version m ''conflict_update'' (Some reason) ''system'' d))))"

definition serialize_extracted_memory :: "extracted_memory \<Rightarrow> pyval" where
  "serialize_extracted_memory x =
     PDict [(''content'', PStr (x_content x)), (''category'', PStr (x_category x)), (''importance_score'', PFloat (x_importance x)),
       (''confidence'', PFloat (x_confidence x)), (''expiry'', PStr (x_expiry x)), (''reasoning'', PStr (x_reasoning x)),
       (''validated_evidence'', PDict (x_evidence x))]"

definition serialize_memory :: "resolver_env \<Rightarrow> memory \<Rightarrow> pyval" where
  "serialize_memory R m =
     PDict [(''id'', PStr (re_id R (m_id m))), (''content'', PStr (content m)), (''category'', PStr (category_value (category m))),
       (''importance_score'', PFloat (importance_score m)), (''confidence_score'', PFloat (confidence_score m)),
       (''previous_version_id'', opt_str (map_option (re_id R) (previous_version_id m))), (''is_archived'', PBool (is_archived m))]"

definition create_audit_log :: "resolver_env \<Rightarrow> audit_action \<Rightarrow> uuid option \<Rightarrow> pyval \<Rightarrow> pyval \<Rightarrow> review_db \<Rightarrow> review_db" where
  "create_audit_log R act i old new s =
     s\<lparr>audit_logs := audit_logs s @ [\<lparr>au_user_id = re_user R, au_proxy_user_id = re_proxy R, au_action = act, au_memory_id = i,
        au_old_value = old, au_new_value = new\<rparr>]\<rparr>"

definition buffer_source_candidate :: "extracted_memory \<Rightarrow> conflict_decision \<Rightarrow> write_state \<Rightarrow> write_state" where
  "buffer_source_candidate new dec w =
     w\<lparr>ws_pending := ws_pending w @
        [\<lparr>pe_content = x_content new, pe_category = x_category new, pe_importance = x_importance new, pe_confidence = x_confidence new,
          pe_reasoning = cd_reasoning dec,
          pe_evidence = dict_update (x_evidence new)
            ((''source_decision'', PDict (case cd_evidence dec of None \<Rightarrow> [] | Some ev \<Rightarrow> ev)) #
             (case cd_review dec of None \<Rightarrow> [] | Some rv \<Rightarrow> [(''source_review'', PDict rv)]))\<rparr>]\<rparr>"

section \<open>Targets\<close>

definition in_force :: "utc \<Rightarrow> memory \<Rightarrow> bool" where
  "in_force now m \<longleftrightarrow>
     (case effective_from m of None \<Rightarrow> True | Some t \<Rightarrow> t \<le> now) \<and> (case effective_until m of None \<Rightarrow> True | Some t \<Rightarrow> now < t) \<and>
     (case expires_at m of None \<Rightarrow> True | Some t \<Rightarrow> now < t)"

definition owned_active :: "resolver_env \<Rightarrow> db \<Rightarrow> memory \<Rightarrow> bool" where
  "owned_active R d m \<longleftrightarrow>
     \<not> is_archived m \<and> m_user_id m = re_user R \<and> in_force (re_now R) m \<and>
     (case (re_proxy R, re_tenant R) of
        (Some p, Some t) \<Rightarrow> m_proxy_user_id m = p \<and> tenant_of p d = Some t
      | _ \<Rightarrow> False)"

definition owned_active_target :: "resolver_env \<Rightarrow> db \<Rightarrow> memory \<Rightarrow> resolver_error + bool" where
  "owned_active_target R d m =
     (case memory_declaration m of
        Inl x \<Rightarrow> Inl (ResolverLedger x)
      | Inr (Some q) \<Rightarrow> Inr False
      | Inr None \<Rightarrow> Inr (owned_active R d m))"

definition load_existing_memory :: "db \<Rightarrow> uuid \<Rightarrow> resolver_error + memory option" where
  "load_existing_memory d i =
     (case get_memory i d of
        None \<Rightarrow> Inr None
      | Some m \<Rightarrow>
          (case memory_declaration m of
             Inl x \<Rightarrow> Inl (ResolverLedger x)
           | Inr (Some q) \<Rightarrow> Inr None
           | Inr None \<Rightarrow> Inr (Some m)))"

definition add_target :: "memory \<Rightarrow> pyfloat \<Rightarrow> (memory \<times> pyfloat) list \<Rightarrow> (memory \<times> pyfloat) list" where
  "add_target m x acc = (if list_ex (\<lambda>ms. m_id (fst ms) = m_id m) acc then acc else acc @ [(m, x)])"

fun context_targets :: "resolver_env \<Rightarrow> db \<Rightarrow> memory list \<Rightarrow> (memory \<times> pyfloat) list \<Rightarrow> resolver_error + (memory \<times> pyfloat) list" where
  "context_targets R d [] acc = Inr acc"
| "context_targets R d (m # ms) acc =
     (case owned_active_target R d m of
        Inl x \<Rightarrow> Inl x
      | Inr ok \<Rightarrow> context_targets R d ms (if ok \<and> source_scope_matches (re_arbiter R) m then add_target m 0 acc else acc))"

fun search_targets ::
  "resolver_env \<Rightarrow> db \<Rightarrow> bool \<Rightarrow> (uuid \<times> pyfloat) list \<Rightarrow> (memory \<times> pyfloat) list \<Rightarrow> resolver_error + (memory \<times> pyfloat) list" where
  "search_targets R d governed [] acc = Inr acc"
| "search_targets R d governed ((i, x) # pts) acc =
     (case load_existing_memory d i of
        Inl e \<Rightarrow> Inl e
      | Inr None \<Rightarrow> search_targets R d governed pts acc
      | Inr (Some m) \<Rightarrow>
          (case (if governed then owned_active_target R d m else Inr True) of
             Inl e \<Rightarrow> Inl e
           | Inr ok \<Rightarrow>
               search_targets R d governed pts
                 (if ok \<and> (\<not> governed \<or> source_scope_matches (re_arbiter R) m) then add_target m x acc else acc)))"

section \<open>Deciding one candidate\<close>

definition source_verified :: "extracted_memory \<Rightarrow> bool" where
  "source_verified new \<longleftrightarrow> dget (x_evidence new) ''grounding_mode'' PNone = PStr ''verified_source_spans''"

definition registered_source :: "resolver_env \<Rightarrow> bool" where
  "registered_source R \<longleftrightarrow> truthy (dget (ab_provenance (re_arbiter R)) ''writer_id'' PNone)"

definition clarify_directive :: "resolver_env \<Rightarrow> extracted_memory \<Rightarrow> bool" where
  "clarify_directive R new \<longleftrightarrow>
     payload_text (ab_ledger (re_arbiter R)) (x_evidence new) ''governance_directive'' = ''clarify_if_conflict''"

definition candidate_entities :: "conflict_candidate \<Rightarrow> string list" where
  "candidate_entities c = sorted_list_of_set (ca_entities c)"

definition candidate_type :: "resolver_env \<Rightarrow> extracted_memory \<Rightarrow> conflict_candidate \<Rightarrow> conflict_type" where
  "candidate_type R new c =
     classify_conflict_type (x_content new) (content (ca_memory c)) (x_category new) (candidate_entities c)"

definition classify_conflict :: "resolver_env \<Rightarrow> extracted_memory \<Rightarrow> conflict_candidate \<Rightarrow> conflict_decision" where
  "classify_conflict R new c =
     (case re_classify R new (ca_memory c) (candidate_type R new c) of
        ProvidersFailed \<Rightarrow> classifier_failure_decision (candidate_type R new c) ''provider_unavailable'' []
      | ModelReply reply \<Rightarrow>
          parse_conflict_decision (re_arbiter R)
            \<lparr>pq_new = new, pq_existing = Some (ca_memory c), pq_type = candidate_type R new c, pq_novel = False, pq_selection = False, pq_turn = None\<rparr>
            reply)"

definition equal_authority_decision :: conflict_decision where
  "equal_authority_decision =
     plain_decision Clarify (''Registered services with equal authority reported '' @ ''different values for the same user.'')
       (review_evidence ''TENANT_REVIEW'' [''equal_authority_disagreement'', ''cross_writer_conflict'', ''human_review_required'']
          (''Two registered services with equal authority disagree, so '' @ ''MemoryOS preserved both claims and routed the decision for review.'') [])"

definition no_alternative_decision :: conflict_decision where
  "no_alternative_decision =
     plain_decision DoReject
       (''MemoryOS could not construct a grounded canonical '' @ ''alternative for the uncertain change, so it preserved '' @ ''the current memory.'')
       (automatic_evidence ''REJECT'' [''uncertain_change'', ''canonical_alternative_unavailable'', ''safe_current_preserved'']
          (''An uncertain candidate cannot become a selectable '' @ ''current memory unless its alternative value is '' @ ''grounded and canonicalized.'')
          None None [(''scope'', PStr ''same_proxy_user'')])"

definition requested_clarification :: conflict_decision where
  "requested_clarification =
     plain_decision Clarify ''The user explicitly asked to choose between conflicting memories.''
       (review_evidence ''USER_REVIEW'' [''explicit_user_clarification_request'', ''matched_personal_memory_candidate'']
          (''The user asked MemoryOS not to decide this matched memory '' @ ''contradiction automatically.'') [(''scope'', PStr ''same_proxy_user'')])"

definition nonreplacement :: "conflict_decision option \<Rightarrow> bool" where
  "nonreplacement src \<longleftrightarrow> (case src of None \<Rightarrow> False | Some s \<Rightarrow> cd_action s = KeepBoth \<or> cd_action s = DoReject)"

text \<open>The decision of the source relation and of the writers' authority, and whether equal writers disagree.\<close>

definition ranked_decision ::
  "resolver_env \<Rightarrow> extracted_memory \<Rightarrow> conflict_decision option \<Rightarrow> memory \<Rightarrow> resolver_error + (conflict_decision option \<times> bool)" where
  "ranked_decision R new src m =
     (if nonreplacement src then Inr (src, False)
      else
        (case authority_conflict_decision (re_arbiter R) new m of
           Inl x \<Rightarrow> Inl x
         | Inr d0 \<Rightarrow>
             (let d1 = (case src of
                          Some s \<Rightarrow> if cd_action s = Clarify \<and> (case d0 of None \<Rightarrow> True | Some d \<Rightarrow> cd_action d \<noteq> DoReject) then Some s else d0
                        | None \<Rightarrow> d0)
              in case is_equal_authority_cross_writer_conflict (re_arbiter R) new m of
                   Inl x \<Rightarrow> Inl x
                 | Inr eq \<Rightarrow> Inr (if d1 = None \<and> eq then Some equal_authority_decision else if d1 = None then src else d1, eq))))"

definition unranked_decision :: "resolver_env \<Rightarrow> extracted_memory \<Rightarrow> conflict_candidate \<Rightarrow> conflict_decision" where
  "unranked_decision R new c =
     (if clarify_directive R new
      then (let k = classify_conflict R new c in if cd_action k = Clarify \<and> cd_option k \<noteq> None then k else no_alternative_decision)
      else
        (case temporal_conflict_decision new (ca_memory c) of
           Some d \<Rightarrow> d
         | None \<Rightarrow> if re_clarify R then requested_clarification else classify_conflict R new c))"

definition decide_candidate ::
  "resolver_env \<Rightarrow> extracted_memory \<Rightarrow> conflict_decision option \<Rightarrow> conflict_candidate \<Rightarrow> resolver_error + (conflict_decision \<times> bool)" where
  "decide_candidate R new src c =
     (case ranked_decision R new src (ca_memory c) of
        Inl x \<Rightarrow> Inl x
      | Inr (d, eq) \<Rightarrow> Inr (case d of Some x \<Rightarrow> x | None \<Rightarrow> unranked_decision R new c, eq))"

fun strategy_name :: "strategy \<Rightarrow> string" where
  "strategy_name Semantic = ''semantic''"
| "strategy_name Entity = ''entity''"
| "strategy_name TopicOverlap = ''topic_overlap''"
| "strategy_name SourceRelation = ''verified_source_relation''"

definition fallback_decision_evidence :: "resolver_env \<Rightarrow> extracted_memory \<Rightarrow> conflict_candidate \<Rightarrow> conflict_decision \<Rightarrow> scope" where
  "fallback_decision_evidence R new c dec =
     automatic_evidence (if cd_action dec = Clarify then ''TENANT_REVIEW'' else action_name (cd_action dec))
       [''semantic_conflict_detected'', ''conflict_type:'' @ type_name (candidate_type R new c), ''decision:'' @ py_lower (action_name (cd_action dec))]
       (cd_reasoning dec) None None
       [(''detection_strategy'', PStr (strategy_name (ca_strategy c))), (''detected_entities'', PList (map PStr (candidate_entities c))),
        (''incoming_category'', PStr (x_category new)), (''existing_memory_id'', PStr (re_id R (m_id (ca_memory c))))]"

definition decision_evidence_of :: "resolver_env \<Rightarrow> extracted_memory \<Rightarrow> conflict_candidate \<Rightarrow> conflict_decision \<Rightarrow> scope" where
  "decision_evidence_of R new c dec =
     (case cd_evidence dec of Some (x # xs) \<Rightarrow> x # xs | _ \<Rightarrow> fallback_decision_evidence R new c dec)"

section \<open>Applying a decision\<close>

definition candidate_details :: "conflict_candidate \<Rightarrow> (string \<times> pyval) list" where
  "candidate_details c =
     [(''detection_strategy'', PStr (strategy_name (ca_strategy c))), (''detected_entities'', PList (map PStr (candidate_entities c)))]"

definition add_stored :: "stored_memory \<Rightarrow> review_db \<Rightarrow> write_state \<Rightarrow> write_state" where
  "add_stored sm s w = w\<lparr>ws_db := s, ws_stored := ws_stored w @ [sm]\<rparr>"

text \<open>The pending option of a clarification: an archived memory, a conflict and, for the owner, a question.\<close>

definition apply_clarify ::
  "resolver_env \<Rightarrow> extracted_memory \<Rightarrow> embedding_result \<Rightarrow> conflict_candidate \<Rightarrow> conflict_decision \<Rightarrow> bool \<Rightarrow> scope \<Rightarrow> write_state \<Rightarrow>
     resolver_error + write_state" where
  "apply_clarify R new er c dec eq ev w =
     (let m = ca_memory c; opt = (case cd_option dec of None \<Rightarrow> new | Some x \<Rightarrow> x)
      in case (if x_content opt = x_content new then Some er else re_embed R (x_content opt)) of
           None \<Rightarrow> Inl EmbeddingRaised
         | Some er' \<Rightarrow>
             (case store_with_shared_context R opt er' (Some (m_id m)) ''CLARIFICATION_PENDING'' True False ev (ws_db w) of
                Inl x \<Rightarrow> Inl x
              | Inr (sm, s1) \<Rightarrow>
                  (let s2 = (if eq then create_equal_authority_conflict (re_tenant R) (re_proxy R) m (sm_id sm) (x_category opt) (re_now R) s1
                             else create_self_scoped_clarification (re_tenant R) (re_proxy R) m (sm_id sm) (x_category opt) (cd_reasoning dec) (re_now R) s1);
                       s3 = create_audit_log R MemoryCreated (Some (sm_id sm)) (serialize_memory R m)
                              (PDict [(''resolution'', PStr ''CLARIFICATION_PENDING''), (''reasoning'', PStr (cd_reasoning dec)),
                                 (''pending_memory_id'', PStr (re_id R (sm_id sm))), (''new_memory'', serialize_extracted_memory opt)]) s2
                   in Inr (add_stored sm s3 w))))"

definition apply_replacement ::
  "resolver_env \<Rightarrow> string \<Rightarrow> extracted_memory \<Rightarrow> embedding_result \<Rightarrow> conflict_candidate \<Rightarrow> pyval \<Rightarrow> pyval \<Rightarrow> scope \<Rightarrow> write_state \<Rightarrow>
     resolver_error + write_state" where
  "apply_replacement R resolution new er c old_value new_value ev w =
     (let m = ca_memory c;
          s1 = (ws_db w)\<lparr>base := archive_superseded R m (''Superseded by: '' @ take 100 (x_content new)) (base (ws_db w))\<rparr>
      in case store_with_shared_context R new er (Some (m_id m)) resolution False True ev s1 of
           Inl x \<Rightarrow> Inl x
         | Inr (sm, s2) \<Rightarrow> Inr (add_stored sm (create_audit_log R Updated (Some (m_id m)) old_value new_value s2) w))"

text \<open>
  \<open>Inr None\<close>: the next candidate is looked at. A clarification that cannot be shown to anybody keeps both
  memories.
\<close>

definition apply_decision ::
  "resolver_env \<Rightarrow> extracted_memory \<Rightarrow> embedding_result \<Rightarrow> conflict_candidate \<Rightarrow> conflict_decision \<Rightarrow> bool \<Rightarrow> write_state \<Rightarrow>
     resolver_error + write_state option" where
  "apply_decision R new er c dec eq w =
     (let m = ca_memory c; ev = decision_evidence_of R new c dec;
          reachable = (re_tenant R \<noteq> None \<and> re_proxy R \<noteq> None);
          own = (reachable \<and> re_proxy R = Some (m_proxy_user_id m))
      in case cd_action dec of
           Clarify \<Rightarrow>
             if source_verified new \<and> (cd_option dec = None \<or> \<not> reachable) then Inr (Some (buffer_source_candidate new dec w))
             else if eq \<or> own then map_sum id Some (apply_clarify R new er c dec eq ev w)
             else Inr None
         | DoUpdate \<Rightarrow>
             map_sum id Some (apply_replacement R ''UPDATE'' new er c (serialize_memory R (m\<lparr>is_archived := True\<rparr>))
               (PDict ([(''resolution'', PStr ''UPDATE''), (''reasoning'', PStr (cd_reasoning dec))] @ candidate_details c
                  @ [(''new_memory'', serialize_extracted_memory new)])) ev w)
         | DoMerge \<Rightarrow>
             (let x = build_merged_memory m new (cd_merged dec)
              in case re_embed R (x_content x) of
                   None \<Rightarrow> Inl EmbeddingRaised
                 | Some er' \<Rightarrow>
                     map_sum id Some (apply_replacement R ''MERGE'' x er' c
                       (PDict [(''existing_memory'', serialize_memory R (m\<lparr>is_archived := True\<rparr>)), (''incoming_memory'', serialize_extracted_memory new)])
                       (PDict ([(''resolution'', PStr ''MERGE''), (''reasoning'', PStr (cd_reasoning dec))] @ candidate_details c
                          @ [(''merged_memory'', serialize_extracted_memory x)])) ev w))
         | DoReject \<Rightarrow>
             Inr (Some (w\<lparr>ws_db := create_audit_log R Deleted (Some (m_id m)) (serialize_extracted_memory new)
               (PDict ([(''resolution'', PStr ''REJECT''), (''reasoning'', PStr (cd_reasoning dec))] @ candidate_details c)) (ws_db w)\<rparr>))
         | KeepBoth \<Rightarrow> Inr None)"

fun try_candidates ::
  "resolver_env \<Rightarrow> extracted_memory \<Rightarrow> embedding_result \<Rightarrow> conflict_decision option \<Rightarrow> conflict_candidate list \<Rightarrow> write_state \<Rightarrow>
     resolver_error + write_state option" where
  "try_candidates R new er src [] w = Inr None"
| "try_candidates R new er src (c # cs) w =
     (case decide_candidate R new src c of
        Inl x \<Rightarrow> Inl x
      | Inr (dec, eq) \<Rightarrow>
          (case apply_decision R new er c dec eq w of
             Inl x \<Rightarrow> Inl x
           | Inr (Some w') \<Rightarrow> Inr (Some w')
           | Inr None \<Rightarrow> try_candidates R new er src cs w))"

section \<open>One extracted memory\<close>

text \<open>What happens when no candidate decided the memory.\<close>

definition store_unopposed ::
  "resolver_env \<Rightarrow> extracted_memory \<Rightarrow> embedding_result \<Rightarrow> conflict_decision option \<Rightarrow> bool \<Rightarrow> write_state \<Rightarrow> resolver_error + write_state" where
  "store_unopposed R new er src had_candidates w =
     (if clarify_directive R new
      then Inr (case src of Some s \<Rightarrow> if source_verified new then buffer_source_candidate new s w else w | None \<Rightarrow> w)
      else if (source_verified new \<or> registered_source R) \<and> dget (x_evidence new) ''claim_state'' PNone = PStr ''correction''
      then (let d = classifier_failure_decision UnknownType ''source_correction_unresolved'' []
            in Inr (buffer_source_candidate new (if source_verified new then d\<lparr>cd_review := Some (review_intent (re_arbiter R) None)\<rparr> else d) w))
      else
        (let resolution = (if had_candidates then ''KEEP_BOTH'' else ''NEW'')
         in case store_with_shared_context R new er None resolution False True
                   (case src of None \<Rightarrow> [] | Some s \<Rightarrow> (case cd_evidence s of None \<Rightarrow> [] | Some ev \<Rightarrow> ev)) (ws_db w) of
              Inl x \<Rightarrow> Inl x
            | Inr (sm, s1) \<Rightarrow>
                Inr (add_stored sm (create_audit_log R MemoryCreated None PNone
                  (PDict [(''resolution'', PStr resolution), (''new_memory'', serialize_extracted_memory new)]) s1) w)))"

definition resolve_against ::
  "resolver_env \<Rightarrow> extracted_memory \<Rightarrow> embedding_result \<Rightarrow> conflict_decision option \<Rightarrow> conflict_candidate list \<Rightarrow> write_state \<Rightarrow>
     resolver_error + write_state" where
  "resolve_against R new er src cs w =
     (case try_candidates R new er src cs w of
        Inl x \<Rightarrow> Inl x
      | Inr (Some w') \<Rightarrow> Inr w'
      | Inr None \<Rightarrow> store_unopposed R new er src (cs \<noteq> []) w)"

definition merge_containment :: "resolver_env \<Rightarrow> memory \<Rightarrow> conflict_decision" where
  "merge_containment R target =
     (let reasoning = ''MemoryOS preserved the current memory because automatic '' @ ''source-backed merging cannot yet verify scope preservation.''
      in (plain_decision Clarify reasoning
            (review_evidence ''USER_REVIEW'' [''source_merge_containment'', ''scope_preservation_unverified'', ''stored_source_remains_active''] reasoning
               [(''policy'', PStr ''source_merge_containment_v1''), (''proposed_action'', PStr ''MERGE'')]))
           \<lparr>cd_review := Some (review_intent (re_arbiter R) (Some target))\<rparr>)"

definition max_source_context_candidates :: nat where
  "max_source_context_candidates = 90"

definition source_candidate :: "memory \<Rightarrow> conflict_candidate" where
  "source_candidate m = \<lparr>ca_memory = m, ca_strategy = SourceRelation, ca_confidence = 0, ca_entities = {}\<rparr>"

text \<open>A memory with verified spans: one decision over all targets, which only an owned one may receive.\<close>

definition resolve_source ::
  "resolver_env \<Rightarrow> extracted_memory \<Rightarrow> embedding_result \<Rightarrow> memory list \<Rightarrow> write_state \<Rightarrow> resolver_error + write_state" where
  "resolve_source R new er targets w0 =
     (if max_source_context_candidates < length targets
      then Inr (buffer_source_candidate new (classifier_failure_decision UnknownType ''source_context_incomplete'' []) w0)
      else
        (let ((target, src), d) = classify_source_claim (re_arbiter R) new targets (base (ws_db w0));
             w = w0\<lparr>ws_db := (ws_db w0)\<lparr>base := d\<rparr>\<rparr>
         in case target of
              None \<Rightarrow>
                if cd_action src = KeepBoth then resolve_against R new er (Some src) [] w
                else if cd_action src = DoReject then Inr w
                else Inr (buffer_source_candidate new src w)
            | Some m \<Rightarrow>
                (case owned_active_target R d m of
                   Inl x \<Rightarrow> Inl x
                 | Inr False \<Rightarrow> Inr (buffer_source_candidate new (classifier_failure_decision UnknownType ''source_target_stale'' []) w)
                 | Inr True \<Rightarrow>
                     if cd_action src = DoMerge then Inr (buffer_source_candidate new (merge_containment R m) w)
                     else resolve_against R new er (Some src) [source_candidate m] w)))"

text \<open>The rows stored earlier in the batch join the context; the index does not have them yet.\<close>

definition extend_context :: "write_state \<Rightarrow> write_state" where
  "extend_context w =
     w\<lparr>ws_context := ws_context w @ List.map_filter (\<lambda>sm. get_memory (sm_id sm) (base (ws_db w))) (drop (ws_cursor w) (ws_stored w)),
       ws_cursor := length (ws_stored w)\<rparr>"

definition context_unusable :: "resolver_env \<Rightarrow> extracted_memory \<Rightarrow> string option" where
  "context_unusable R new =
     (if \<not> source_verified new then None
      else
        (case re_context R of
           None \<Rightarrow> if re_native R then Some ''source_context_unavailable'' else None
         | Some c \<Rightarrow>
             if \<not> sc_gaps_complete c then Some ''source_context_incomplete''
             else if \<not> sc_available c then Some ''source_context_unavailable'' else None))"

definition needs_search :: "resolver_env \<Rightarrow> extracted_memory \<Rightarrow> bool" where
  "needs_search R new \<longleftrightarrow> \<not> (source_verified new \<and> (case re_context R of None \<Rightarrow> False | Some c \<Rightarrow> sc_complete c))"

definition collect_targets ::
  "resolver_env \<Rightarrow> extracted_memory \<Rightarrow> (uuid \<times> pyfloat) list \<Rightarrow> write_state \<Rightarrow> resolver_error + (memory \<times> pyfloat) list" where
  "collect_targets R new pts w =
     (case (if source_verified new then context_targets R (base (ws_db w)) (ws_context w) [] else Inr []) of
        Inl x \<Rightarrow> Inl x
      | Inr acc \<Rightarrow> search_targets R (base (ws_db w)) (source_verified new \<or> registered_source R) pts acc)"

definition resolve_one :: "resolver_env \<Rightarrow> extracted_memory \<Rightarrow> write_state \<Rightarrow> resolver_error + write_state" where
  "resolve_one R new w0 =
     (case context_unusable R new of
        Some reason \<Rightarrow> Inr (buffer_source_candidate new (classifier_failure_decision UnknownType reason []) w0)
      | None \<Rightarrow>
          (let w = extend_context w0
           in case re_embed R (x_content new) of
                None \<Rightarrow> Inl EmbeddingRaised
              | Some er \<Rightarrow>
                  (case (if needs_search R new then re_search R er else Some []) of
                     None \<Rightarrow>
                       if source_verified new
                       then Inr (buffer_source_candidate new (classifier_failure_decision UnknownType ''source_search_unavailable'' []) w)
                       else Inl SearchUnavailable
                   | Some pts \<Rightarrow>
                       (case collect_targets R new pts w of
                          Inl x \<Rightarrow> Inl x
                        | Inr targets \<Rightarrow>
                            if source_verified new then resolve_source R new er (map fst targets) w
                            else resolve_against R new er None (detect_candidates new targets) w))))"

fun resolve_batch :: "resolver_env \<Rightarrow> extracted_memory list \<Rightarrow> write_state \<Rightarrow> resolver_error + write_state" where
  "resolve_batch R [] w = Inr w"
| "resolve_batch R (x # xs) w = (case resolve_one R x w of Inl e \<Rightarrow> Inl e | Inr w' \<Rightarrow> resolve_batch R xs w')"

definition start_state :: "resolver_env \<Rightarrow> review_db \<Rightarrow> write_state" where
  "start_state R s =
     \<lparr>ws_db = s\<lparr>conflicts_flagged := 0, clarifications_queued := 0\<rparr>, ws_stored = [], ws_pending = [],
      ws_context = (case re_context R of None \<Rightarrow> [] | Some c \<Rightarrow> sc_memories c), ws_cursor = 0\<rparr>"

definition declares_preference :: "extracted_memory \<Rightarrow> bool" where
  "declares_preference x \<longleftrightarrow> map_of (x_evidence x) preference_marker \<noteq> None"

text \<open>\<open>declared\<close> stands for the path of a batch of declared preferences.\<close>

definition check_and_store ::
  "resolver_env \<Rightarrow> (extracted_memory list \<Rightarrow> write_state \<Rightarrow> resolver_error + write_state) \<Rightarrow> extracted_memory list \<Rightarrow> review_db \<Rightarrow>
     resolver_error + write_state" where
  "check_and_store R declared_path xs s =
     (if list_ex declares_preference xs
      then (if list_all declares_preference xs then declared_path xs (start_state R s) else Inl MixedBatch)
      else resolve_batch R xs (start_state R s))"

end
