(* ===== verification/Writes.thy ===== *)
theory Writes
  imports Resolver
begin

text \<open>
  What the write path of \<open>Resolver\<close> does to the rows: how a call changes the stored memories, which memories
  it may supersede, and that no extracted memory of a batch is lost.
\<close>

section \<open>Frames\<close>

lemma record_memory_memories [simp]:
  "record_memory e t p prov resolution ev pred now m d = Inr (c, d') \<Longrightarrow> memories d' = memories d"
  by (auto simp: record_memory_def flushed_def record_memory_rows_def assert_memory_def assert_on_claim_def add_memory_revision_def
      add_revision_def add_claim_def put_claim_def put_revision_def mark_existing_winner_superseded_def Let_def
      split: sum.splits prod.splits option.splits if_splits)

lemma record_claim_memories:
  "record_claim_for_memory R m resolution ev pred d = Inr d' \<Longrightarrow> memories d' = memories d"
  by (auto simp: record_claim_for_memory_def Let_def split: sum.splits prod.splits option.splits if_splits)

lemma store_new_memory_rows:
  assumes "store_new_memory R new er prev resolution archived ev d = Inr (sm, d')"
  shows "\<exists>r. memories d' = memories d @ [r] \<and> m_id r = next_id d \<and> is_archived r = archived \<and> previous_version_id r = prev \<and>
    m_user_id r = re_user R \<and> content r = x_content new \<and> sm_id sm = next_id d \<and> sm_resolution sm = resolution \<and> sm_content sm = x_content new"
  using assms
  by (auto simp: store_new_memory_def Let_def enqueue_vector_upsert_def add_outbox_row_def add_memory_def new_memory_row_def
      dest!: record_claim_memories split: interval_result.splits option.splits sum.splits if_splits)

lemma resolve_rows_frame: "base (snd (resolve_rows ut domain now rs s)) = base s \<and> audit_logs (snd (resolve_rows ut domain now rs s)) = audit_logs s"
proof (induction ut domain now rs s rule: resolve_rows.induct)
  case (2 ut domain now r c rs s)
  have one: "base (snd (resolve_cross_user_conflict_automatically ut domain now r s)) = base s"
    "audit_logs (snd (resolve_cross_user_conflict_automatically ut domain now r s)) = audit_logs s"
    by (simp_all add: resolve_cross_user_conflict_automatically_def Let_def leave_to_tenant_def ignore_per_user_def ask_user_def
        resolve_by_weight_raises split: option.splits prod.splits)
  obtain out s1 where out: "resolve_cross_user_conflict_automatically ut domain now r s = (out, s1)" by fastforce
  show ?case
  proof (cases out)
    case (Inl x)
    then show ?thesis using one by (simp add: out)
  next
    case (Inr res)
    then show ?thesis using one "2.IH" [OF out [symmetric] Inr] by (auto simp: out split: sum.splits prod.splits)
  qed
qed simp

text \<open>Recording conflicts of shared context leaves the memories, the ledger and the audit log as they are.\<close>

definition same_core :: "review_db \<Rightarrow> review_db \<Rightarrow> bool" where
  "same_core s t \<longleftrightarrow>
     memories (base t) = memories (base s) \<and> claims (base t) = claims (base s) \<and> revisions (base t) = revisions (base s) \<and>
     audit_logs t = audit_logs s"

lemma insert_rows_frame: "same_core s (snd (insert_rows tenant new kcs s))"
  by (induction tenant new kcs s rule: insert_rows.induct) (auto simp: same_core_def add_conflict_def Let_def split: prod.splits)

lemma insert_conflicts_frame: "same_core s (snd (insert_cross_user_conflicts ut domain now cs tenant new s))"
proof -
  obtain rs s1 where ins: "insert_rows tenant new (filter (\<lambda>kc. Some (fst kc) \<notin>
      existing_keys tenant (key_type ` fst ` set (candidate_conflicts new cs [])) new s) (candidate_conflicts new cs [])) s = (rs, s1)"
    by fastforce
  obtain out s2 where res: "resolve_rows ut domain now rs s1 = (out, s2)" by fastforce
  have "same_core s s1" using insert_rows_frame ins by (metis snd_conv)
  moreover have "base s2 = base s1" "audit_logs s2 = audit_logs s1" using resolve_rows_frame res by (metis snd_conv)+
  ultimately have "same_core s s2" by (simp add: same_core_def)
  then show ?thesis by (auto simp: insert_cross_user_conflicts_def Let_def ins res same_core_def split: sum.splits)
qed

lemma record_shared_frame: "same_core s (record_shared_context R new i s)"
proof (cases "re_tenant R"; cases "re_proxy R")
  fix t p assume tp: "re_tenant R = Some t" "re_proxy R = Some p"
  let ?cs = "detect_shared_context_conflict new p t s"
  let ?s1 = "insert_shared_context_signals new t p i s"
  have s1: "same_core s ?s1" by (simp add: insert_shared_context_signals_def same_core_def)
  obtain out s2 where res: "insert_cross_user_conflicts (re_id R) (re_domain R) (re_now R) ?cs t i ?s1 = (out, s2)" by fastforce
  have "same_core s s2"
    using insert_conflicts_frame [of ?s1 "re_id R" "re_domain R" "re_now R" ?cs t i] s1 by (simp add: res same_core_def)
  then show ?thesis using s1 by (auto simp: record_shared_context_def tp Let_def res same_core_def split: sum.splits prod.splits)
qed (simp_all add: record_shared_context_def same_core_def)

lemma record_shared_simps [simp]:
  "memories (base (record_shared_context R new i s)) = memories (base s)"
  "claims (base (record_shared_context R new i s)) = claims (base s)"
  "revisions (base (record_shared_context R new i s)) = revisions (base s)"
  "audit_logs (record_shared_context R new i s) = audit_logs s"
  using record_shared_frame [of s R new i] by (simp_all add: same_core_def)

lemma store_with_shared_rows:
  assumes "store_with_shared_context R new er prev resolution archived shared ev s = Inr (sm, s')"
  shows "\<exists>r. memories (base s') = memories (base s) @ [r] \<and> m_id r = next_id (base s) \<and> is_archived r = archived \<and>
    previous_version_id r = prev \<and> m_user_id r = re_user R \<and> content r = x_content new \<and> sm_resolution sm = resolution \<and> sm_content sm = x_content new \<and>
    audit_logs s' = audit_logs s"
  using assms by (auto simp: store_with_shared_context_def Let_def dest!: store_new_memory_rows split: sum.splits if_splits)

lemma create_conflict_frames [simp]:
  "memories (base (create_equal_authority_conflict t p m i cat now s)) = memories (base s)"
  "audit_logs (create_equal_authority_conflict t p m i cat now s) = audit_logs s"
  "memories (base (create_self_scoped_clarification t p m i cat reasoning now s)) = memories (base s)"
  "audit_logs (create_self_scoped_clarification t p m i cat reasoning now s) = audit_logs s"
  by (auto simp: create_equal_authority_conflict_def create_self_scoped_clarification_def Let_def split: option.splits)

lemma create_audit_log_frames [simp]:
  "base (create_audit_log R act i old new s) = base s"
  "audit_logs (create_audit_log R act i old new s) = audit_logs s @ [\<lparr>au_user_id = re_user R, au_proxy_user_id = re_proxy R, au_action = act,
     au_memory_id = i, au_old_value = old, au_new_value = new\<rparr>]"
  by (simp_all add: create_audit_log_def)

lemma archive_superseded_rows [simp]:
  "memories (archive_superseded R m reason d) = memories (set_archived (m_id m) d)"
  by (simp add: archive_superseded_def set_archived_def enqueue_vector_archive_def add_outbox_row_def Let_def)

section \<open>Rows and counts\<close>

abbreviation rows :: "write_state \<Rightarrow> memory list" where
  "rows w \<equiv> memories (base (ws_db w))"

definition archived_row :: "uuid \<Rightarrow> memory \<Rightarrow> memory" where
  "archived_row i m = (if m_id m = i then m\<lparr>is_archived := True\<rparr> else m)"

text \<open>A memory is superseded: its row is archived and a current row that names it is added.\<close>

definition supersedes :: "resolver_env \<Rightarrow> memory \<Rightarrow> memory list \<Rightarrow> memory list \<Rightarrow> bool" where
  "supersedes R m ms ms' \<longleftrightarrow>
     (\<exists>r. ms' = map (archived_row (m_id m)) ms @ [r] \<and> \<not> is_archived r \<and> previous_version_id r = Some (m_id m) \<and> m_user_id r = re_user R)"

definition rejections :: "review_db \<Rightarrow> nat" where
  "rejections s = length (filter (\<lambda>a. au_action a = Deleted) (audit_logs s))"

text \<open>How many extracted memories are stored, put aside for review or rejected with a record.\<close>

definition accounted :: "write_state \<Rightarrow> nat" where
  "accounted w = length (ws_stored w) + length (ws_pending w) + rejections (ws_db w)"

lemma set_archived_rows: "memories (set_archived i d) = map (archived_row i) (memories d)"
  by (simp add: set_archived_def update_where_def archived_row_def cong: map_cong)

lemma buffer_simps [simp]:
  "ws_db (buffer_source_candidate new dec w) = ws_db w" "ws_stored (buffer_source_candidate new dec w) = ws_stored w"
  "length (ws_pending (buffer_source_candidate new dec w)) = Suc (length (ws_pending w))"
  "accounted (buffer_source_candidate new dec w) = Suc (accounted w)"
  by (simp_all add: buffer_source_candidate_def accounted_def)

lemma accounted_db [simp]: "accounted (w\<lparr>ws_db := (ws_db w)\<lparr>base := d\<rparr>\<rparr>) = accounted w"
  by (simp add: accounted_def rejections_def)

lemma map_sum_Some [simp]: "map_sum id Some x = Inr (Some y) \<longleftrightarrow> x = Inr y"
  by (cases x) auto

lemma apply_clarify_rows:
  assumes "apply_clarify R new er c dec eq ev w = Inr w'"
  shows "\<exists>r. rows w' = rows w @ [r] \<and> is_archived r" and "accounted w' = Suc (accounted w)"
  using assms
  by (auto simp: apply_clarify_def Let_def add_stored_def accounted_def rejections_def dest!: store_with_shared_rows
      split: option.splits sum.splits if_splits)

lemma apply_replacement_rows:
  assumes "apply_replacement R resolution new er c old_value new_value ev w = Inr w'"
  shows "supersedes R (ca_memory c) (rows w) (rows w')" and "accounted w' = Suc (accounted w)"
  using assms
  by (auto simp: apply_replacement_def Let_def add_stored_def accounted_def rejections_def supersedes_def set_archived_rows
      dest!: store_with_shared_rows split: sum.splits)

lemma apply_decision_rows:
  assumes "apply_decision R new er c dec eq w = Inr (Some w')"
  obtains (same) "rows w' = rows w" "cd_action dec \<in> {Clarify, DoReject}"
  | (pending) r where "rows w' = rows w @ [r]" "is_archived r" "cd_action dec = Clarify"
  | (superseded) "supersedes R (ca_memory c) (rows w) (rows w')" "cd_action dec \<in> {DoUpdate, DoMerge}"
proof (cases "cd_action dec")
  case DoUpdate
  then show ?thesis using assms superseded apply_replacement_rows(1) by (auto simp: apply_decision_def Let_def)
next
  case DoMerge
  then show ?thesis using assms superseded apply_replacement_rows(1) by (auto simp: apply_decision_def Let_def split: option.splits)
next
  case Clarify
  then show ?thesis using assms same pending
    by (auto simp: apply_decision_def Let_def dest!: apply_clarify_rows(1) split: if_splits)
qed (use assms same in \<open>auto simp: apply_decision_def Let_def\<close>)

lemma apply_decision_accounted:
  assumes "apply_decision R new er c dec eq w = Inr (Some w')"
  shows "accounted w' = Suc (accounted w)"
proof (cases "cd_action dec")
  case DoUpdate
  then show ?thesis using assms apply_replacement_rows(2) by (auto simp: apply_decision_def Let_def)
next
  case DoMerge
  then show ?thesis using assms apply_replacement_rows(2) by (auto simp: apply_decision_def Let_def split: option.splits)
next
  case Clarify
  then show ?thesis using assms apply_clarify_rows(2) by (auto simp: apply_decision_def Let_def split: if_splits)
qed (use assms in \<open>auto simp: apply_decision_def Let_def accounted_def rejections_def\<close>)

lemma try_candidates_rows:
  assumes "try_candidates R new er src cs w = Inr (Some w')"
  obtains c dec eq where "c \<in> set cs" "decide_candidate R new src c = Inr (dec, eq)" "apply_decision R new er c dec eq w = Inr (Some w')"
  using assms
proof (induction cs)
  case (Cons c cs)
  obtain dec eq where dec: "decide_candidate R new src c = Inr (dec, eq)" using Cons.prems(2) by (auto split: sum.splits)
  show ?case
  proof (cases "apply_decision R new er c dec eq w")
    case (Inr out)
    show ?thesis
    proof (cases out)
      case None
      then have "try_candidates R new er src cs w = Inr (Some w')" using Cons.prems(2) dec Inr by simp
      then show ?thesis by (rule Cons.IH [rotated]) (rule Cons.prems(1), simp_all)
    next
      case (Some w2)
      then show ?thesis using Cons.prems(1) [of c dec eq] Cons.prems(2) dec Inr by simp
    qed
  qed (use Cons.prems(2) dec in simp)
qed simp

lemma store_unopposed_rows:
  assumes "store_unopposed R new er src had w = Inr w'"
  shows "rows w' = rows w \<or> (\<exists>r. rows w' = rows w @ [r])"
  using assms by (auto simp: store_unopposed_def Let_def add_stored_def dest!: store_with_shared_rows split: sum.splits option.splits if_splits)

lemma store_unopposed_accounted:
  assumes "store_unopposed R new er src had w = Inr w'" and "clarify_directive R new \<longrightarrow> source_verified new \<and> src \<noteq> None"
  shows "accounted w' = Suc (accounted w)"
  using assms
  by (auto simp: store_unopposed_def Let_def add_stored_def accounted_def rejections_def dest!: store_with_shared_rows
      split: sum.splits option.splits if_splits)

lemma resolve_against_rows:
  assumes "resolve_against R new er src cs w = Inr w'"
  obtains (added) "rows w' = rows w \<or> (\<exists>r. rows w' = rows w @ [r])"
  | (superseded) c dec eq where "c \<in> set cs" "decide_candidate R new src c = Inr (dec, eq)" "cd_action dec \<in> {DoUpdate, DoMerge}"
      "supersedes R (ca_memory c) (rows w) (rows w')"
proof (cases "try_candidates R new er src cs w")
  case (Inl x)
  then show ?thesis using assms by (simp add: resolve_against_def)
next
  case (Inr out)
  show ?thesis
  proof (cases out)
    case None
    then show ?thesis using assms Inr added store_unopposed_rows by (simp add: resolve_against_def)
  next
    case (Some w2)
    then have "try_candidates R new er src cs w = Inr (Some w')" using assms Inr by (simp add: resolve_against_def)
    then obtain c dec eq where c: "c \<in> set cs" "decide_candidate R new src c = Inr (dec, eq)"
        "apply_decision R new er c dec eq w = Inr (Some w')" by (rule try_candidates_rows)
    from c(3) show ?thesis
      by (cases rule: apply_decision_rows) (use c(1,2) added superseded in auto)
  qed
qed

lemma resolve_against_accounted:
  assumes "resolve_against R new er src cs w = Inr w'" and "clarify_directive R new \<longrightarrow> source_verified new \<and> src \<noteq> None"
  shows "accounted w' = Suc (accounted w)"
  using assms
  by (auto simp: resolve_against_def store_unopposed_accounted split: sum.splits option.splits
      elim!: try_candidates_rows dest: apply_decision_accounted)

section \<open>Decisions\<close>

text \<open>A writer of lower authority decides no replacement, whatever the source relation says.\<close>

definition outranked :: "resolver_env \<Rightarrow> extracted_memory \<Rightarrow> memory \<Rightarrow> bool" where
  "outranked R new m \<longleftrightarrow>
     (case stored_provenance m of
        Inl x \<Rightarrow> False
      | Inr existing \<Rightarrow>
          (case writer_standing (ab_provenance (re_arbiter R)) existing (x_category new) (category_value (category m)) of
             Inl x \<Rightarrow> False
           | Inr (a, b, explicit) \<Rightarrow> explicit \<and> a < b))"

lemma outranked_authority:
  assumes "outranked R new m"
  shows "\<exists>d. authority_conflict_decision (re_arbiter R) new m = Inr (Some d) \<and> cd_action d \<in> {Clarify, DoReject}"
  using assms
  by (auto simp: outranked_def authority_conflict_decision_def lower_authority_assertion_def stored_outranks_def plain_decision_def
      split: sum.splits)

lemma outranked_never_replaces:
  assumes "outranked R new (ca_memory c)" and "decide_candidate R new src c = Inr (dec, eq)"
  shows "cd_action dec \<notin> {DoUpdate, DoMerge}"
proof -
  obtain d where d: "authority_conflict_decision (re_arbiter R) new (ca_memory c) = Inr (Some d)" "cd_action d \<in> {Clarify, DoReject}"
    using outranked_authority [OF assms(1)] by blast
  show ?thesis using assms(2) d
    by (auto simp: decide_candidate_def ranked_decision_def nonreplacement_def Let_def split: if_splits option.splits sum.splits prod.splits)
qed

text \<open>A clarification of the source is kept or rejected.\<close>

lemma clarification_stays:
  assumes "decide_candidate R new (Some s) c = Inr (dec, eq)" and "cd_action s = Clarify"
  shows "dec = s \<or> cd_action dec = DoReject"
  using assms by (auto simp: decide_candidate_def ranked_decision_def nonreplacement_def Let_def split: if_splits option.splits sum.splits prod.splits)

lemma decision_actions [simp]:
  "cd_action (classifier_failure_decision ct code details) = Clarify"
  "cd_action (source_failure code details pending) = Clarify"
  "cd_action (with_details details x) = cd_action x" "cd_option (with_details details x) = cd_option x"
  "cd_action (unreadable q) = Clarify"
  by (simp_all add: classifier_failure_decision_def source_failure_def with_details_def unreadable_def plain_decision_def Let_def)

text \<open>An uncertain claim is admitted only as a choice of its user.\<close>

lemma admit_review:
  assumes "review_required new" and "admit_source_decision A new r target details pending x = (t, s)"
  shows "cd_action s \<in> {Clarify, DoReject} \<and> (t \<noteq> None \<longrightarrow> cd_action s = Clarify \<and> cd_option s \<noteq> None)"
  using assms by (cases "cd_action x") (auto simp: admit_source_decision_def split: if_splits)

lemma admit_target:
  "admit_source_decision A new r target details pending x = (t, s) \<Longrightarrow> t = None \<or> t = target"
  by (auto simp: admit_source_decision_def split: if_splits)

lemma source_reply_fields:
  assumes "source_reply_of reply = Some r"
  shows "sr_relation r \<in> set source_relations" and "dget (sr_payload r) ''relation'' PNone = PStr (sr_relation r)"
  using assms by (auto simp: source_reply_of_def split: option.splits pyval.splits if_splits)

lemma get_memory_id: "get_memory i d = Some m \<Longrightarrow> m_id m = i"
  by (auto simp: get_memory_def dest: find_row_Some)

lemma select_target_stored:
  assumes "select_target A targets d sel = Inr target"
  shows "target = None \<or> (\<exists>n. target = Some n \<and> get_memory (m_id n) d = Some n)"
proof (cases target)
  case (Some n)
  then obtain i where "get_memory i d = Some n"
    using assms by (auto simp: select_target_def split: pyval.splits option.splits if_splits)
  then show ?thesis using Some get_memory_id by blast
qed simp

lemma classify_cases:
  assumes "classify_source_claim A new targets d = ((t, s), d')"
  obtains (failed) "t = None" "cd_action s = Clarify"
  | (admitted) r target details pending opt sel turn where
      "sr_relation r \<in> set source_relations" "dget (sr_payload r) ''relation'' PNone = PStr (sr_relation r)"
      "target = None \<or> (\<exists>n. target = Some n \<and> get_memory (m_id n) d' = Some n)"
      "admit_source_decision A new r target details pending (with_details details (parse_conflict_decision A
         \<lparr>pq_new = new, pq_existing = target, pq_type = UnknownType, pq_novel = True, pq_selection = sel, pq_turn = turn\<rparr>
         (Some (PDict (decision_payload r opt))))) = (t, s)"
proof (cases "t = None \<and> cd_action s = Clarify")
  case False
  have "\<exists>turns reply r target details. ab_complete A new turns targets d = (ModelReply reply, d') \<and> source_reply_of reply = Some r \<and>
      select_target A targets d' (sr_selected r) = Inr target \<and> decide_source_reply A new r target details = (t, s)"
    using assms False unfolding classify_source_claim_def Let_def
    by (auto split: option.splits if_splits prod.splits model_reply.splits sum.splits) blast+
  then obtain turns reply r target details where
    reply: "ab_complete A new turns targets d = (ModelReply reply, d')" "source_reply_of reply = Some r"
      "select_target A targets d' (sr_selected r) = Inr target" and
    dec: "decide_source_reply A new r target details = (t, s)" by blast
  have tgt: "target = None \<or> (\<exists>n. target = Some n \<and> get_memory (m_id n) d' = Some n)"
    by (rule select_target_stored [OF reply(3)])
  show ?thesis
    using dec False admitted [OF source_reply_fields [OF reply(2)] tgt]
    unfolding decide_source_reply_def Let_def
    by (auto split: if_splits option.splits pyval.splits prod.splits)
qed (use failed in simp)

lemma decision_payload_relation: "dget (decision_payload r opt) ''relation'' PNone = dget (sr_payload r) ''relation'' PNone"
proof -
  have "map_of (filter (\<lambda>kv. fst kv \<noteq> ''candidate_representation'') xs) ''relation'' = map_of xs ''relation''" for xs :: scope
    by (induction xs) auto
  then show ?thesis by (simp add: decision_payload_def dict_update_def dget_def update_conv')
qed

lemma source_relation_text: "x \<in> set source_relations \<Longrightarrow> py_lower (py_strip x) = x \<and> x \<noteq> []"
  unfolding source_relations_def relation_to_action_def by (simp, elim disjE; hypsubst; code_simp)

lemma clarify_relation_action:
  "clarify_relation A q d rel commitment choice = ParseStops x \<Longrightarrow> cd_action x = Clarify"
  "clarify_relation A q d rel commitment choice = Parsed p \<Longrightarrow> pr_action p = Clarify"
  by (auto simp: clarify_relation_def Let_def split: if_splits option.splits)

lemma read_relation_stops: "read_relation A q d rel = ParseStops x \<Longrightarrow> cd_action x = Clarify"
  by (cases "dget d ''requires_user_choice'' PNone")
    (auto simp: read_relation_def Let_def clarify_relation_action(1) split: if_splits option.splits)

lemma read_relation_action:
  "read_relation A q d rel = Parsed p \<Longrightarrow> pr_action p \<in> {KeepBoth, Clarify} \<or> map_of relation_to_action rel = Some (pr_action p)"
  by (cases "dget d ''requires_user_choice'' PNone")
    (auto simp: read_relation_def Let_def clarify_relation_action(2) split: if_splits option.splits)

lemma parse_reject:
  assumes "sr_relation r \<in> set source_relations" and "dget (sr_payload r) ''relation'' PNone = PStr (sr_relation r)"
    and "cd_action (parse_conflict_decision A q (Some (PDict (decision_payload r opt)))) = DoReject"
  shows "sr_relation r = ''duplicate''"
proof -
  let ?d = "decision_payload r opt"
  have rel: "py_lower (py_strip (payload_text (ab_ledger A) ?d ''relation'')) = sr_relation r" "sr_relation r \<noteq> []"
    using source_relation_text [OF assms(1)] by (simp_all add: payload_text_def decision_payload_relation assms(2) py_or_def py_str_def)
  have dec: "parse_conflict_decision A q (Some (PDict ?d)) =
      (case read_relation A q ?d (sr_relation r) of
         ParseRaises \<Rightarrow> unreadable q
       | ParseStops x \<Rightarrow> x
       | Parsed p \<Rightarrow> (case conclude A q ?d p of None \<Rightarrow> unreadable q | Some x \<Rightarrow> x))"
    using rel by (simp add: parse_conflict_decision_def Let_def)
  obtain p where p: "read_relation A q ?d (sr_relation r) = Parsed p" "pr_action p = DoReject"
  proof (cases "read_relation A q ?d (sr_relation r)")
    case (ParseStops x)
    then show ?thesis using assms(3) dec read_relation_stops [OF ParseStops] by simp
  next
    case (Parsed p)
    have "pr_action p = DoReject" using assms(3) unfolding dec Parsed
      by (auto simp: conclude_def Let_def split: option.splits if_splits)
    then show ?thesis using Parsed that by blast
  qed (use assms(3) dec in simp)
  have "map_of relation_to_action (sr_relation r) = Some DoReject" using read_relation_action [OF p(1)] p(2) by auto
  then show ?thesis by (simp add: relation_to_action_def split: if_splits)
qed

text \<open>Only an exact duplicate of an uncertain claim is rejected without a target.\<close>

lemma classify_reject:
  assumes "classify_source_claim A new targets d = ((None, s), d')" and "cd_action s = DoReject"
  shows "review_required new"
  using assms(1)
proof (cases rule: classify_cases)
  case (admitted r target details pending opt sel turn)
  show ?thesis
  proof (rule ccontr)
    assume no: "\<not> review_required new"
    then have "target = None \<and> cd_action (parse_conflict_decision A
         \<lparr>pq_new = new, pq_existing = target, pq_type = UnknownType, pq_novel = True, pq_selection = sel, pq_turn = turn\<rparr>
         (Some (PDict (decision_payload r opt)))) = DoReject" "sr_relation r = ''duplicate'' \<longrightarrow> target \<noteq> None"
      using admitted(4) assms(2) by (auto simp: admit_source_decision_def split: if_splits option.splits)
    then show False using parse_reject [OF admitted(1,2)] by blast
  qed
qed (use assms(2) in simp)

section \<open>Targets\<close>

definition admissible :: "resolver_env \<Rightarrow> db \<Rightarrow> memory \<Rightarrow> bool" where
  "admissible R d m \<longleftrightarrow> memory_declaration m = Inr None \<and> owned_active R d m"

lemma owned_active_target_True: "owned_active_target R d m = Inr True \<longleftrightarrow> admissible R d m"
  by (auto simp: owned_active_target_def admissible_def split: sum.splits option.splits)

lemma search_targets_stored:
  assumes "search_targets R d governed pts acc = Inr targets"
    and "\<And>m x. (m, x) \<in> set acc \<Longrightarrow> get_memory (m_id m) d = Some m \<and> (governed \<longrightarrow> admissible R d m)"
    and "(m, x) \<in> set targets"
  shows "get_memory (m_id m) d = Some m \<and> (governed \<longrightarrow> admissible R d m)"
  using assms
proof (induction R d governed pts acc rule: search_targets.induct)
  case (2 R d governed i y pts acc)
  show ?case
  proof (cases "load_existing_memory d i")
    case (Inl e)
    then show ?thesis using "2.prems"(1) by simp
  next
    case (Inr found)
    show ?thesis
    proof (cases found)
      case None
      then show ?thesis using "2.IH"(1) [OF Inr] "2.prems" Inr by simp
    next
      case (Some n)
      have n: "get_memory i d = Some n" using Inr Some by (auto simp: load_existing_memory_def split: option.splits sum.splits)
      then have id: "m_id n = i" by (auto simp: get_memory_def dest: find_row_Some)
      obtain ok where ok: "(if governed then owned_active_target R d n else Inr True) = Inr ok"
        using "2.prems"(1) Inr Some by (cases "if governed then owned_active_target R d n else Inr True") auto
      let ?acc = "if ok \<and> (\<not> governed \<or> source_scope_matches (re_arbiter R) n) then add_target n y acc else acc"
      have run: "search_targets R d governed pts ?acc = Inr targets" using "2.prems"(1) Inr Some ok by simp
      have acc: "get_memory (m_id m) d = Some m \<and> (governed \<longrightarrow> admissible R d m)" if "(m, x) \<in> set ?acc" for m x
        using that "2.prems"(2) [of m x] n id ok by (auto simp: add_target_def owned_active_target_True split: if_splits)
      show ?thesis by (rule "2.IH"(2) [OF Inr Some ok run acc "2.prems"(3)])
    qed
  qed
qed simp

lemma detect_candidates_rows:
  assumes "c \<in> set (detect_candidates new targets)"
  shows "\<exists>x. (ca_memory c, x) \<in> set targets"
proof -
  obtain ms where ms: "ms \<in> set targets" "candidate_for new ms = Some c"
    using assms by (auto simp: detect_candidates_def map_filter_def)
  have "ca_memory c = fst ms"
    using ms(2) by (auto simp: candidate_for_def Let_def choose_stronger_candidate_def split: if_splits option.splits)
  then show ?thesis using ms(1) by (metis prod.collapse)
qed

section \<open>One extracted memory\<close>

text \<open>The tables on which a memory is decided: as they were, or as the request of the source decision left them.\<close>

definition decided_on :: "resolver_env \<Rightarrow> extracted_memory \<Rightarrow> write_state \<Rightarrow> db \<Rightarrow> bool" where
  "decided_on R new w d \<longleftrightarrow>
     d = base (ws_db w) \<or> (\<exists>targets. d = snd (classify_source_claim (re_arbiter R) new targets (base (ws_db w))))"

text \<open>A clarification about an owned target is put to the user, buffered or rejected.\<close>

lemma clarified_target_rows:
  assumes run: "resolve_against R new er (Some src) [source_candidate m] w = Inr w'" and own: "admissible R d m" and src: "cd_action src = Clarify"
  shows "rows w' = rows w \<or> (\<exists>r. rows w' = rows w @ [r] \<and> is_archived r)"
proof -
  have m: "ca_memory (source_candidate m) = m" by (simp add: source_candidate_def)
  have "re_tenant R \<noteq> None \<and> re_proxy R = Some (m_proxy_user_id m)"
    using own by (auto simp: admissible_def owned_active_def split: option.splits)
  then have decided: "apply_decision R new er (source_candidate m) dec eq w \<noteq> Inr None" if "cd_action dec \<in> {Clarify, DoReject}" for dec eq
    using that by (auto simp: apply_decision_def Let_def m split: option.splits sum.splits) (cases "apply_clarify R new er (source_candidate m) dec eq
      (decision_evidence_of R new (source_candidate m) dec) w"; auto)+
  obtain dec eq where dec: "decide_candidate R new (Some src) (source_candidate m) = Inr (dec, eq)"
    using run by (auto simp: resolve_against_def split: sum.splits)
  have action: "cd_action dec \<in> {Clarify, DoReject}" using clarification_stays [OF dec src] src by auto
  have "apply_decision R new er (source_candidate m) dec eq w = Inr (Some w')"
    using run decided [OF action, of eq] dec by (auto simp: resolve_against_def split: sum.splits option.splits)
  then show ?thesis by (cases rule: apply_decision_rows) (use action in auto)
qed

lemma resolve_source_rows:
  assumes "resolve_source R new er targets w = Inr w'" and "source_verified new"
  obtains d where "decided_on R new w d"
    "memories (base (ws_db w')) = memories d \<or> (\<exists>r. memories (base (ws_db w')) = memories d @ [r] \<and> (review_required new \<longrightarrow> is_archived r)) \<or>
     (\<exists>m. admissible R d m \<and> get_memory (m_id m) d = Some m \<and> \<not> review_required new \<and> \<not> outranked R new m \<and>
        supersedes R m (memories d) (memories (base (ws_db w'))))"
proof (cases "max_source_context_candidates < length targets")
  case True
  then have "base (ws_db w') = base (ws_db w)" using assms(1) by (auto simp: resolve_source_def)
  then show ?thesis using that [of "base (ws_db w)"] by (simp add: decided_on_def)
next
  case False
  obtain t src d where cls: "classify_source_claim (re_arbiter R) new targets (base (ws_db w)) = ((t, src), d)" by (metis prod.collapse)
  let ?w = "w\<lparr>ws_db := (ws_db w)\<lparr>base := d\<rparr>\<rparr>"
  have on: "decided_on R new w d" unfolding decided_on_def using cls by (metis snd_conv)
  have review: "cd_action src \<in> {Clarify, DoReject} \<and> (t \<noteq> None \<longrightarrow> cd_action src = Clarify \<and> cd_option src \<noteq> None)" if "review_required new"
    using cls by (cases rule: classify_cases) (use admit_review [OF that] in auto)
  show ?thesis
  proof (cases t)
    case None
    have "rows w' = rows ?w \<or> (\<exists>r. rows w' = rows ?w @ [r] \<and> \<not> review_required new)"
    proof (cases "cd_action src = KeepBoth")
      case True
      then have run: "resolve_against R new er (Some src) [] ?w = Inr w'" using assms(1) False cls None by (simp add: resolve_source_def)
      have "\<not> review_required new" using review True by auto
      with run show ?thesis by (cases rule: resolve_against_rows) auto
    next
      case False
      then show ?thesis using assms(1) cls None \<open>\<not> max_source_context_candidates < length targets\<close>
        by (auto simp: resolve_source_def Let_def split: if_splits)
    qed
    then show ?thesis using that [OF on] by auto
  next
    case (Some m)
    have stored: "get_memory (m_id m) d = Some m"
      using cls by (cases rule: classify_cases) (use Some admit_target in fastforce)+
    consider (buffered) "ws_db w' = ws_db ?w" | (run) "admissible R d m" "resolve_against R new er (Some src) [source_candidate m] ?w = Inr w'"
      using assms(1) False cls Some
      by (cases "owned_active_target R d m") (auto simp: resolve_source_def Let_def owned_active_target_True [symmetric] split: if_splits bool.splits)
    then show ?thesis
    proof cases
      case buffered
      then show ?thesis using that [OF on] by simp
    next
      case run
      show ?thesis
      proof (cases "review_required new")
        case True
        then have "cd_action src = Clarify" using review Some by blast
        from clarified_target_rows [OF run(2,1) this] show ?thesis using that [OF on] by auto
      next
        case False
        from run(2) show ?thesis
        proof (cases rule: resolve_against_rows)
          case added
          then show ?thesis using that [OF on] False by auto
        next
          case (superseded c dec eq)
          then have c: "ca_memory c = m" "supersedes R m (memories d) (rows w')" by (auto simp: source_candidate_def)
          have "\<not> outranked R new m" using outranked_never_replaces superseded(2,3) c(1) by blast
          then show ?thesis using that [OF on] False c(2) stored run(1) by blast
        qed
      qed
    qed
  qed
qed

lemma resolve_one_cases:
  assumes "resolve_one R new w = Inr w'"
  obtains (buffered) "ws_db w' = ws_db w" "source_verified new" "accounted w' = Suc (accounted w)"
  | (source) er targets where "source_verified new" "resolve_source R new er targets (extend_context w) = Inr w'"
  | (plain) er pts targets where "\<not> source_verified new" "search_targets R (base (ws_db w)) (registered_source R) pts [] = Inr targets"
      "resolve_against R new er None (detect_candidates new targets) (extend_context w) = Inr w'"
proof (cases "context_unusable R new")
  case (Some reason)
  then have "source_verified new" by (auto simp: context_unusable_def split: if_splits)
  then show ?thesis using buffered assms Some by (auto simp: resolve_one_def)
next
  case None
  obtain er where er: "re_embed R (x_content new) = Some er" using assms None by (cases "re_embed R (x_content new)") (auto simp: resolve_one_def Let_def)
  show ?thesis
  proof (cases "if needs_search R new then re_search R er else Some []")
    case None2: None
    then show ?thesis using buffered assms None er
      by (auto simp: resolve_one_def Let_def extend_context_def accounted_def split: if_splits)
  next
    case (Some pts)
    obtain targets where t: "collect_targets R new pts (extend_context w) = Inr targets"
      using assms None er Some by (cases "collect_targets R new pts (extend_context w)") (auto simp: resolve_one_def Let_def)
    have run: "(if source_verified new then resolve_source R new er (map fst targets) (extend_context w)
        else resolve_against R new er None (detect_candidates new targets) (extend_context w)) = Inr w'"
      using assms None er Some t by (simp add: resolve_one_def Let_def)
    show ?thesis
    proof (cases "source_verified new")
      case True
      then show ?thesis using source run by simp
    next
      case False
      then have "search_targets R (base (ws_db w)) (registered_source R) pts [] = Inr targets"
        using t by (simp add: collect_targets_def extend_context_def)
      then show ?thesis using plain False run by simp
    qed
  qed
qed

lemma extend_context_simps [simp]:
  "ws_db (extend_context w) = ws_db w" "accounted (extend_context w) = accounted w" "decided_on R new (extend_context w) = decided_on R new w"
  by (simp_all add: extend_context_def accounted_def decided_on_def fun_eq_iff)

text \<open>How one extracted memory changes the stored ones.\<close>

lemma resolve_one_rows:
  assumes "resolve_one R new w = Inr w'"
  obtains d where "decided_on R new w d"
    "rows w' = memories d \<or> (\<exists>r. rows w' = memories d @ [r] \<and> (source_verified new \<and> review_required new \<longrightarrow> is_archived r)) \<or>
     (\<exists>m. get_memory (m_id m) d = Some m \<and> (source_verified new \<or> registered_source R \<longrightarrow> admissible R d m) \<and>
        \<not> (source_verified new \<and> review_required new) \<and> \<not> outranked R new m \<and> supersedes R m (memories d) (rows w'))"
  using assms
proof (cases rule: resolve_one_cases)
  case buffered
  then show ?thesis using that [of "base (ws_db w)"] by (simp add: decided_on_def)
next
  case (source er targets)
  obtain d where on: "decided_on R new w d" and
    out: "rows w' = memories d \<or> (\<exists>r. rows w' = memories d @ [r] \<and> (review_required new \<longrightarrow> is_archived r)) \<or>
     (\<exists>m. admissible R d m \<and> get_memory (m_id m) d = Some m \<and> \<not> review_required new \<and> \<not> outranked R new m \<and>
        supersedes R m (memories d) (rows w'))"
    using resolve_source_rows [OF source(2,1)] by auto
  show ?thesis by (rule that [OF on]) (use out source(1) in blast)
next
  case (plain er pts targets)
  have on: "decided_on R new w (base (ws_db w))" by (simp add: decided_on_def)
  from plain(3) show ?thesis
  proof (cases rule: resolve_against_rows)
    case added
    show ?thesis by (rule that [OF on]) (use added plain(1) in auto)
  next
    case (superseded c dec eq)
    obtain x where x: "(ca_memory c, x) \<in> set targets" using detect_candidates_rows [OF superseded(1)] by blast
    have m: "get_memory (m_id (ca_memory c)) (base (ws_db w)) = Some (ca_memory c) \<and> (registered_source R \<longrightarrow> admissible R (base (ws_db w)) (ca_memory c))"
      by (rule search_targets_stored [OF plain(2) _ x]) simp
    have "\<not> outranked R new (ca_memory c)" using outranked_never_replaces superseded(2,3) by blast
    then show ?thesis using that [OF on] m plain(1) superseded(4) by auto
  qed
qed

lemma resolve_source_accounted:
  assumes "resolve_source R new er targets w = Inr w'" and "source_verified new" and "\<not> review_required new"
  shows "accounted w' = Suc (accounted w)"
proof (cases "max_source_context_candidates < length targets")
  case True
  then show ?thesis using assms(1) by (auto simp: resolve_source_def)
next
  case False
  obtain t src d where cls: "classify_source_claim (re_arbiter R) new targets (base (ws_db w)) = ((t, src), d)" by (metis prod.collapse)
  have against: "accounted w' = Suc (accounted w)" if "resolve_against R new er (Some src) cs (w\<lparr>ws_db := (ws_db w)\<lparr>base := d\<rparr>\<rparr>) = Inr w'" for cs
    using resolve_against_accounted [OF that] assms(2) by simp
  show ?thesis
  proof (cases t)
    case None
    then have "cd_action src \<noteq> DoReject" using classify_reject cls assms(3) by blast
    then show ?thesis using assms(1) False cls None against by (auto simp: resolve_source_def Let_def split: if_splits)
  next
    case (Some m)
    then show ?thesis using assms(1) False cls against
      by (cases "owned_active_target R d m") (auto simp: resolve_source_def Let_def split: if_splits bool.splits)
  qed
qed

text \<open>The memories that are never dropped.\<close>

definition kept :: "resolver_env \<Rightarrow> extracted_memory \<Rightarrow> bool" where
  "kept R x \<longleftrightarrow> (if source_verified x then \<not> review_required x else \<not> clarify_directive R x)"

lemma resolve_one_accounted:
  assumes "resolve_one R new w = Inr w'" and "kept R new"
  shows "accounted w' = Suc (accounted w)"
  using assms(1)
proof (cases rule: resolve_one_cases)
  case (source er targets)
  then show ?thesis using resolve_source_accounted [OF source(2,1)] assms(2) by (simp add: kept_def)
next
  case (plain er pts targets)
  then show ?thesis using resolve_against_accounted [OF plain(3)] assms(2) by (simp add: kept_def)
qed simp

lemma resolve_batch_accounted:
  "resolve_batch R xs w = Inr w' \<Longrightarrow> list_all (kept R) xs \<Longrightarrow> accounted w' = accounted w + length xs"
  by (induction R xs w rule: resolve_batch.induct) (auto dest: resolve_one_accounted split: sum.splits)

text \<open>Which stored memories a call may have archived.\<close>

lemma superseded_row:
  assumes "supersedes R m (memories d) ms" and "get_memory i d = Some n" and "\<not> is_archived n"
    and "find_row (\<lambda>r. m_id r = i) ms = Some n'" and "is_archived n'"
  shows "i = m_id m"
proof (rule ccontr)
  assume no: "i \<noteq> m_id m"
  obtain r where ms: "ms = map (archived_row (m_id m)) (memories d) @ [r]" using assms(1) by (auto simp: supersedes_def)
  have id: "m_id (archived_row j x) = m_id x" for j x by (simp add: archived_row_def)
  have "find_row (\<lambda>r. m_id r = i) (map (archived_row (m_id m)) (memories d)) = Some n"
    using assms(2) no get_memory_id [OF assms(2)] by (simp add: find_row_map id get_memory_def) (simp add: archived_row_def)
  then have "n' = n" using assms(4) by (simp add: ms find_row_snoc)
  then show False using assms(3,5) by simp
qed

definition archives_rightly :: "resolver_env \<Rightarrow> extracted_memory \<Rightarrow> db \<Rightarrow> write_state \<Rightarrow> bool" where
  "archives_rightly R new d w' \<longleftrightarrow>
     (\<forall>i n n'. get_memory i d = Some n \<and> \<not> is_archived n \<and> get_memory i (base (ws_db w')) = Some n' \<and> is_archived n' \<longrightarrow>
        (source_verified new \<or> registered_source R \<longrightarrow> admissible R d n) \<and> \<not> outranked R new n \<and> supersedes R n (memories d) (rows w')) \<and>
     (\<forall>n \<in> set (memories d). n \<in> set (rows w') \<or> n\<lparr>is_archived := True\<rparr> \<in> set (rows w'))"

lemma archives_rightlyD:
  assumes "archives_rightly R new d w'" and "get_memory i d = Some n" and "\<not> is_archived n" and "get_memory i (base (ws_db w')) = Some n'"
    and "is_archived n'"
  shows "source_verified new \<or> registered_source R \<longrightarrow> admissible R d n" and "\<not> outranked R new n" and "supersedes R n (memories d) (rows w')"
  using assms unfolding archives_rightly_def by blast+

lemma resolve_one_archives:
  assumes "resolve_one R new w = Inr w'"
  shows "\<exists>d. decided_on R new w d \<and> archives_rightly R new d w'"
proof -
  obtain d where on: "decided_on R new w d" and
    out: "rows w' = memories d \<or> (\<exists>r. rows w' = memories d @ [r] \<and> (source_verified new \<and> review_required new \<longrightarrow> is_archived r)) \<or>
     (\<exists>m. get_memory (m_id m) d = Some m \<and> (source_verified new \<or> registered_source R \<longrightarrow> admissible R d m) \<and>
        \<not> (source_verified new \<and> review_required new) \<and> \<not> outranked R new m \<and> supersedes R m (memories d) (rows w'))"
    by (rule resolve_one_rows [OF assms])
  have "(source_verified new \<or> registered_source R \<longrightarrow> admissible R d n) \<and> \<not> outranked R new n \<and> supersedes R n (memories d) (rows w')"
    if n: "get_memory i d = Some n" "\<not> is_archived n" "get_memory i (base (ws_db w')) = Some n'" "is_archived n'" for i n n'
  proof -
    have "\<not> (rows w' = memories d \<or> (\<exists>r. rows w' = memories d @ [r]))"
      using n by (auto simp: get_memory_def find_row_snoc split: option.splits)
    then obtain m where m: "get_memory (m_id m) d = Some m" "source_verified new \<or> registered_source R \<longrightarrow> admissible R d m"
      "\<not> outranked R new m" "supersedes R m (memories d) (rows w')"
      using out by blast
    have "i = m_id m" using superseded_row [OF m(4) n(1,2) _ n(4)] n(3) by (simp add: get_memory_def)
    then have "m = n" using m(1) n(1) by simp
    then show ?thesis using m by simp
  qed
  moreover have "n \<in> set (rows w') \<or> n\<lparr>is_archived := True\<rparr> \<in> set (rows w')" if "n \<in> set (memories d)" for n
    using out that by (auto simp: supersedes_def archived_row_def image_iff)
  ultimately have "archives_rightly R new d w'" unfolding archives_rightly_def by blast
  then show ?thesis using on by blast
qed

section \<open>Replacements and the ledger\<close>

lemma provenance_value_row: "provenance_value (new_memory_row R new cat er prev resolution archived ev prov start stop d) = prov"
  by (cases prov) (simp_all add: provenance_value_def new_memory_row_def stored_metadata_def dget_def py_or_def)

lemma provenance_writer:
  "dget (provenance_for_extracted_memory R new i) ''writer_id'' PNone = dget (ab_provenance (re_arbiter R)) ''writer_id'' PNone"
  by (simp add: provenance_for_extracted_memory_def dict_update_def dget_def update_conv' Let_def)

lemma provenance_declares_nothing:
  assumes "preference_declaration (ab_provenance (re_arbiter R)) = Inr None" and "\<not> declares_preference new"
  shows "preference_declaration (provenance_for_extracted_memory R new i) = Inr None"
proof (cases "x_evidence new = []")
  case False
  have "map_of (AList.update ''source_conversation_id'' u (AList.update ''memory_id'' v (x_evidence new))) preference_marker = None" for u v
    using assms(2) by (simp add: declares_preference_def preference_marker_def update_conv')
  then show ?thesis using False
    by (simp add: preference_declaration_def provenance_for_extracted_memory_def Let_def dget_def update_conv' py_dict_def)
qed (use assms in \<open>simp add: provenance_for_extracted_memory_def\<close>)

lemma find_claim_for_memory_frame:
  "claims d = claims d' \<Longrightarrow> revisions d = revisions d' \<Longrightarrow> find_claim_for_memory i d = find_claim_for_memory i d'"
  by (simp add: find_claim_for_memory_def get_claim_def split: list.split)

lemma cross_category_refused:
  assumes "find_claim_for_memory i d = Some cl" and "c_category cl \<noteq> category m" and "preference_declaration prov = Inr None"
    and "joins_predecessor resolution"
  shows "\<exists>x. record_memory (with_declarations e) (Some t) (Some p) prov resolution ev (Some i) now m d = Inl x"
proof -
  have decl: "declared (with_declarations e) prov = Inr None" using assms(3) by (simp add: with_declarations_def)
  have "\<exists>x. record_memory_rows (with_declarations e) (Some t) (Some p) prov resolution ev (Some i) now m d = Inl x"
  proof (cases "memory_identity (with_declarations e) prov m")
    case (Inl x)
    then show ?thesis by (simp add: record_memory_rows_def)
  next
    case (Inr y)
    then obtain ident where "y = (ident, False)" using decl by (auto simp: memory_identity_def split: option.splits)
    then show ?thesis using Inr assms by (simp add: record_memory_rows_def predecessor_claim_def predecessor_error_def Let_def)
  qed
  then show ?thesis by (auto simp: record_memory_def)
qed

lemma unrecorded_store:
  assumes run: "store_new_memory R new er (Some i) resolution False ev d = Inr (sm, d')"
    and "\<not> registered_source R" and decl: "preference_declaration (ab_provenance (re_arbiter R)) = Inr None" "\<not> declares_preference new"
    and claim: "find_claim_for_memory i d = Some cl" "category_of (x_category new) = Some cat" "c_category cl \<noteq> cat"
    and "joins_predecessor resolution"
  shows "claims d' = claims d \<and> revisions d' = revisions d"
proof -
  let ?prov = "provenance_for_extracted_memory R new (next_id d)"
  obtain start stop where iv: "temporal_validity_from_provenance (ab_zoned (re_arbiter R)) ?prov = Interval start stop"
    using run by (auto simp: store_new_memory_def Let_def split: interval_result.splits)
  define m where "m = new_memory_row R new cat er (Some i) resolution False ev ?prov start stop d"
  define d1 where "d1 = snd (safe_record_version m ''created'' (Some ''Extracted from conversation'') ''system'' (add_memory m d))"
  have d1: "claims d1 = claims d" "revisions d1 = revisions d" by (simp_all add: d1_def add_memory_def)
  have m: "provenance_value m = ?prov" "category m = cat" by (simp_all add: m_def provenance_value_row) (simp add: new_memory_row_def)
  have none: "preference_declaration ?prov = Inr None" by (rule provenance_declares_nothing [OF decl])
  have "find_claim_for_memory i d1 = Some cl" using claim(1) find_claim_for_memory_frame [OF d1] by simp
  then have refused: "\<exists>x. record_memory (with_declarations e) (Some t) (Some p) ?prov resolution ev (Some i) now m d1 = Inl x" for e t p now
    using cross_category_refused [of i d1 cl m ?prov resolution e t p ev now] claim(3) none m(2) assms(8) by simp
  have "\<not> truthy (dget ?prov ''writer_id'' PNone)" using assms(2) by (simp add: provenance_writer registered_source_def)
  then have "record_claim_for_memory R m resolution ev (Some i) d1 = Inr d1"
  proof (cases "re_tenant R")
    case (Some t)
    obtain x where "record_memory (with_declarations (ab_ledger (re_arbiter R))) (Some t) (Some (m_proxy_user_id m)) ?prov resolution ev (Some i)
        (re_now R) m d1 = Inl x" using refused by blast
    then show ?thesis using Some none \<open>\<not> truthy (dget ?prov ''writer_id'' PNone)\<close> by (simp add: record_claim_for_memory_def m(1) Let_def)
  qed (use \<open>\<not> truthy (dget ?prov ''writer_id'' PNone)\<close> in \<open>simp add: record_claim_for_memory_def m(1) Let_def\<close>)
  then have "d' = enqueue_vector_upsert (next_id d) (er_vector er) (build_vector_payload (re_include_content R) m (re_tenant R) (re_proxy R)
      (Some (re_user R)) (Some (er_model_id er)) (Some (er_collection er))) d1"
    using run iv claim(2) by (simp add: store_new_memory_def Let_def m_def [symmetric] d1_def [symmetric])
  then show ?thesis using d1 by (simp add: enqueue_vector_upsert_def add_outbox_row_def)
qed

section \<open>Properties\<close>

text \<open>
  (C4) An uncertain claim replaces nothing and becomes current nowhere: for a memory with verified source spans whose
  evidence calls it an uncertain change or asks for clarification, whatever the language model answers and
  whatever authority its writer has, no row is archived or changed, and at most one row is added, archived.
\<close>

theorem uncertain_claim_replaces_nothing:
  assumes "source_verified new" and "review_required new" and "resolve_one R new w = Inr w'"
  shows "\<exists>d. decided_on R new w d \<and>
    (memories (base (ws_db w')) = memories d \<or> (\<exists>r. memories (base (ws_db w')) = memories d @ [r] \<and> is_archived r))"
  by (rule resolve_one_rows [OF assms(3)]) (use assms(1,2) in blast)

text \<open>
  (C5) A source that names its writer or its spans supersedes only what it owns: a memory that such a write archives
  was at that moment a current, unexpired memory of the same user and profile, of a profile of the tenant, and
  no declared preference. It is replaced by a current memory that names it as its predecessor, and every
  stored row stays.
\<close>

theorem governed_write_supersedes_owned:
  assumes "source_verified new \<or> registered_source R" and "resolve_one R new w = Inr w'"
  shows "\<exists>d. decided_on R new w d \<and>
    (\<forall>n \<in> set (memories d). n \<in> set (memories (base (ws_db w'))) \<or> n\<lparr>is_archived := True\<rparr> \<in> set (memories (base (ws_db w')))) \<and>
    (\<forall>i n n'. get_memory i d = Some n \<and> \<not> is_archived n \<and> get_memory i (base (ws_db w')) = Some n' \<and> is_archived n' \<longrightarrow>
       owned_active R d n \<and> memory_declaration n = Inr None \<and>
       (\<exists>r \<in> set (memories (base (ws_db w'))). \<not> is_archived r \<and> previous_version_id r = Some i \<and> m_user_id r = re_user R))"
proof -
  obtain d where on: "decided_on R new w d" and arch: "archives_rightly R new d w'" using resolve_one_archives [OF assms(2)] by blast
  have "owned_active R d n \<and> memory_declaration n = Inr None \<and>
      (\<exists>r \<in> set (rows w'). \<not> is_archived r \<and> previous_version_id r = Some i \<and> m_user_id r = re_user R)"
    if "get_memory i d = Some n" "\<not> is_archived n" "get_memory i (base (ws_db w')) = Some n'" "is_archived n'" for i n n'
    using archives_rightlyD(1,3) [OF arch that] assms(1) get_memory_id [OF that(1)] by (auto simp: admissible_def supersedes_def)
  then show ?thesis using on arch unfolding archives_rightly_def by blast
qed



text \<open>
  (C18) A replacement the ledger refuses leaves the ledger inconsistent: when a source without a registered writer
  replaces a memory by one of another category, recording the new memory fails, the failure is ignored, and
  the old memory is archived while its claim still names it as the current one. No claim and no revision is
  changed or added, so the new memory belongs to no claim.
\<close>

theorem refused_replacement_breaks_ledger:
  assumes run: "apply_replacement R resolution new er c old_value new_value ev w = Inr w'" and res: "joins_predecessor resolution"
    and writer: "\<not> registered_source R" "preference_declaration (ab_provenance (re_arbiter R)) = Inr None" "\<not> declares_preference new"
    and inv: "ledger_inv (base (ws_db w))" and mem: "get_memory (m_id (ca_memory c)) (base (ws_db w)) = Some (ca_memory c)"
      "\<not> is_archived (ca_memory c)"
    and claim: "find_claim_for_memory (m_id (ca_memory c)) (base (ws_db w)) = Some cl" "active_memory_id cl = Some (m_id (ca_memory c))"
    and cat: "category_of (x_category new) = Some k" "c_category cl \<noteq> k"
  shows "claims (base (ws_db w')) = claims (base (ws_db w)) \<and> revisions (base (ws_db w')) = revisions (base (ws_db w)) \<and>
    \<not> ledger_inv (base (ws_db w'))"
proof -
  let ?i = "m_id (ca_memory c)" and ?d = "base (ws_db w)" and ?d' = "base (ws_db w')"
  define d0 where "d0 = archive_superseded R (ca_memory c) (''Superseded by: '' @ take 100 (x_content new)) ?d"
  have d0: "claims d0 = claims ?d" "revisions d0 = revisions ?d"
    by (simp_all add: d0_def archive_superseded_def set_archived_def enqueue_vector_archive_def add_outbox_row_def Let_def)
  obtain sm d1 where store: "store_new_memory R new er (Some ?i) resolution False ev d0 = Inr (sm, d1)"
    and w': "claims ?d' = claims d1" "revisions ?d' = revisions d1"
    using run by (auto simp: apply_replacement_def store_with_shared_context_def add_stored_def d0_def Let_def split: sum.splits)
  have "find_claim_for_memory ?i d0 = Some cl" using claim(1) find_claim_for_memory_frame [OF d0] by simp
  from unrecorded_store [OF store writer this cat res] have frame: "claims ?d' = claims ?d" "revisions ?d' = revisions ?d"
    using w' d0 by simp_all
  then have views: "claim_view ?d' = claim_view ?d" "rev_view ?d' = rev_view ?d"
    by (simp_all add: fun_eq_iff claim_view_def rev_view_def get_claim_def get_revision_def)
  have cl: "claim_view ?d (c_id cl) = Some cl" by (rule find_claim_for_memory_view [OF claim(1)])
  obtain u r m where u: "winning_revision_id cl = Some u" "rev_view ?d u = Some r" "mem_view ?d ?i = Some m"
      "r_status r = ''activated'' \<longleftrightarrow> \<not> is_archived m"
    by (rule winners_active [OF ledger_invD(3) [OF inv] cl claim(2)])
  then have act: "r_status r = ''activated''" using mem by (simp add: mem_view_def)
  obtain x where "rows w' = map (archived_row ?i) (memories ?d) @ [x]" using apply_replacement_rows(1) [OF run] by (auto simp: supersedes_def)
  moreover have "m_id (archived_row ?i y) = m_id y" for y by (simp add: archived_row_def)
  ultimately have arch: "mem_view ?d' ?i = Some ((ca_memory c)\<lparr>is_archived := True\<rparr>)"
    using mem(1) by (simp add: mem_view_def get_memory_def find_row_snoc find_row_map) (simp add: archived_row_def)
  have "\<not> winners_ok (mem_view ?d') (claim_view ?d') (rev_view ?d')"
  proof
    assume "winners_ok (mem_view ?d') (claim_view ?d') (rev_view ?d')"
    then have ok: "winners_ok (mem_view ?d') (claim_view ?d) (rev_view ?d)" by (simp add: views)
    obtain u' r' m' where "winning_revision_id cl = Some u'" "rev_view ?d u' = Some r'" "mem_view ?d' ?i = Some m'"
        "r_status r' = ''activated'' \<longleftrightarrow> \<not> is_archived m'"
      by (rule winners_active [OF ok cl claim(2)])
    then show False using u(1,2) act arch by auto
  qed
  then show ?thesis using frame ledger_invD(3) by blast
qed

section \<open>Concrete instances\<close>

definition trusted :: "int \<Rightarrow> scope" where
  "trusted n = [(''writer_id'', PStr ''crm''), (''authority_rules'', PDict [(''default_priority'', PInt n)])]"

definition example_target :: memory where
  "example_target = example_memory\<lparr>metadata_json := [(''provenance'', PDict [(''authority_rules'', PDict [(''default_priority'', PInt 10)])])]\<rparr>"

definition example_tables :: db where
  "example_tables = example_db\<lparr>memories := [example_target], claims := [example_claim\<lparr>subject_key := generic_claim_subject\<rparr>],
     revisions := [example_revision 11 1 ''activated'']\<rparr>"

definition example_rows :: review_db where
  "example_rows = \<lparr>base = example_tables, conflict_rows = [], clarifications = [], audit_logs = [], signals = [], conflicts_flagged = 0,
     clarifications_queued = 0\<rparr>"

definition example_embedding :: embedding_result where
  "example_embedding = \<lparr>er_vector = [1], er_model_id = ''e'', er_dimensions = 1, er_collection = ''c''\<rparr>"

definition example_resolver :: "arbiter \<Rightarrow> resolver_env" where
  "example_resolver A = \<lparr>re_arbiter = A, re_user = 70, re_tenant = Some 90, re_proxy = Some 80, re_agent = None, re_conversation = 4, re_event = Some 5,
     re_domain = None, re_include_content = False, re_now = 0, re_native = False, re_clarify = False, re_context = None,
     re_embed = (\<lambda>s. Some example_embedding), re_search = (\<lambda>e. Some [(1, 9/10)]), re_classify = (\<lambda>x m k. ProvidersFailed),
     re_encrypt = (\<lambda>t i s. PNone)\<rparr>"

definition example_incoming :: extracted_memory where
  "example_incoming = \<lparr>x_content = ''coffee'', x_category = ''preference'', x_importance = 5, x_confidence = 9/10, x_expiry = ''permanent'',
     x_reasoning = ''stated'', x_evidence = []\<rparr>"

definition crm :: resolver_env where
  "crm = example_resolver (example_arbiter\<lparr>ab_provenance := trusted 90\<rparr>)"

text \<open>A tentative remark: the model selects the stored memory and finds no value to offer.\<close>

definition tea_evidence :: scope where
  "tea_evidence = [(''claim_state'', PStr ''uncertain_change''), (''grounding_mode'', PStr ''verified_source_spans''), (''turn_indexes'', PList [PInt 0]),
     (''source_spans'', PList [PDict [(''turn_index'', PInt 0), (''turn_id'', PStr ''a''), (''start_char'', PInt 0), (''end_char'', PInt 3),
        (''offset_unit'', PStr ''unicode_code_point''), (''quote_sha256'', PStr ''tea''), (''turn_sha256'', PStr ''tea'')]])]"

definition tea_turns :: "message list" where
  "tea_turns = [[(''role'', PStr ''user''), (''turn_id'', PStr ''a''), (''content'', PStr ''tea'')]]"

definition unsure :: extracted_memory where
  "unsure = example_incoming\<lparr>x_content := ''tea'', x_evidence := tea_evidence\<rparr>"

definition tentative_reply :: pyval where
  "tentative_reply = PDict [(''relation'', PStr ''supersedes''), (''commitment_status'', PStr ''tentative''), (''reasoning'', PStr ''unsure''),
     (''merged_memory'', PNone), (''selected_memory_id'', PStr ''u''),
     (''candidate_representation'', PDict [(''status'', PStr ''unavailable''), (''reason'', PStr ''ambiguous_target'')])]"

definition chat :: resolver_env where
  "chat = example_resolver (example_arbiter\<lparr>ab_messages := tea_turns, ab_complete := (\<lambda>x ts ms d. (ModelReply (Some tentative_reply), d))\<rparr>)"

definition coffee_rows :: review_db where
  "coffee_rows = example_rows\<lparr>base := example_tables\<lparr>memories := [example_target\<lparr>content := ''coffee''\<rparr>]\<rparr>\<rparr>"

text \<open>A registered writer of high authority replaces the stored memory.\<close>

lemma crm_run:
  "case resolve_one crm example_incoming (start_state crm example_rows) of
     Inr w \<Rightarrow> map is_archived (memories (base (ws_db w))) = [True, False]
   | Inl x \<Rightarrow> False"
  by code_simp

lemma crm_kept: "\<not> declares_preference example_incoming" "kept crm example_incoming" "registered_source crm"
  by code_simp+

theorem governed_write_supersedes_owned_witness:
  "\<exists>w' d. resolve_one crm example_incoming (start_state crm example_rows) = Inr w' \<and> map is_archived (memories (base (ws_db w'))) = [True, False] \<and>
     decided_on crm example_incoming (start_state crm example_rows) d"
proof -
  obtain w' where run: "resolve_one crm example_incoming (start_state crm example_rows) = Inr w'" "map is_archived (memories (base (ws_db w'))) = [True, False]"
    using crm_run by (auto split: sum.splits)
  obtain d where "decided_on crm example_incoming (start_state crm example_rows) d"
    using governed_write_supersedes_owned [OF disjI2 [OF crm_kept(3)] run(1)] by blast
  with run show ?thesis by (intro exI conjI)
qed



lemma chat_run:
  "case resolve_one chat unsure (start_state chat coffee_rows) of Inr w \<Rightarrow> length (ws_pending w) = 1 | Inl x \<Rightarrow> False"
  by code_simp

theorem uncertain_claim_replaces_nothing_witness:
  "\<exists>w' d. resolve_one chat unsure (start_state chat coffee_rows) = Inr w' \<and> length (ws_pending w') = 1 \<and>
     decided_on chat unsure (start_state chat coffee_rows) d"
proof -
  obtain w' where run: "resolve_one chat unsure (start_state chat coffee_rows) = Inr w'" "length (ws_pending w') = 1"
    using chat_run by (auto split: sum.splits)
  have "source_verified unsure" "review_required unsure"
    by (simp_all add: unsure_def tea_evidence_def source_verified_def review_required_def dget_def)
  from uncertain_claim_replaces_nothing [OF this run(1)] run show ?thesis by blast
qed

text \<open>An update of the stored preference by a fact, from a source without a registered writer.\<close>

lemma example_tables_views:
  "mem_view example_tables i = (if i = 1 then Some example_target else None)"
  "claim_view example_tables i = (if i = 10 then Some (example_claim\<lparr>subject_key := generic_claim_subject\<rparr>) else None)"
  "rev_view example_tables i = (if i = 11 then Some (example_revision 11 1 ''activated'') else None)"
  by (auto simp: mem_view_def claim_view_def rev_view_def get_memory_def get_claim_def get_revision_def find_row_def
      example_tables_def example_claim_def example_revision_def example_target_def example_memory_def)

lemma example_tables_inv: "ledger_inv example_tables"
proof -
  have "distinct (map r_id (revisions example_tables))" by (simp add: example_tables_def)
  moreover have "revisions_ok (rev_view example_tables)"
    by (auto simp: revisions_ok_def example_tables_views example_revision_def split: if_splits)
  moreover have "winners_ok (mem_view example_tables) (claim_view example_tables) (rev_view example_tables)"
    by (auto simp: winners_ok_def example_tables_views example_revision_def example_claim_def example_target_def example_memory_def split: if_splits)
  ultimately show ?thesis by (simp add: ledger_inv_def)
qed

lemma plain_run:
  "case apply_replacement (example_resolver example_arbiter) ''UPDATE'' (example_incoming\<lparr>x_category := ''fact''\<rparr>) example_embedding
     (source_candidate example_target) PNone PNone [] (start_state crm example_rows) of Inr w \<Rightarrow> True | Inl x \<Rightarrow> False"
  by code_simp

lemma plain_facts:
  "find_claim_for_memory 1 example_tables = Some (example_claim\<lparr>subject_key := generic_claim_subject\<rparr>)"
  "category_of ''fact'' = Some Fact" "preference_declaration [] = Inr None" "get_memory 1 example_tables = Some example_target"
  by (simp_all add: find_claim_for_memory_def example_tables_def example_claim_def example_revision_def get_claim_def get_memory_def find_row_def
      category_of_def preference_declaration_def dget_def example_target_def example_memory_def py_dict_def)

theorem refused_replacement_breaks_ledger_witness:
  "\<exists>w'. apply_replacement (example_resolver example_arbiter) ''UPDATE'' (example_incoming\<lparr>x_category := ''fact''\<rparr>) example_embedding
     (source_candidate example_target) PNone PNone [] (start_state crm example_rows) = Inr w' \<and>
     ledger_inv (base (ws_db (start_state crm example_rows))) \<and> \<not> ledger_inv (base (ws_db w'))"
proof -
  obtain w' where run: "apply_replacement (example_resolver example_arbiter) ''UPDATE'' (example_incoming\<lparr>x_category := ''fact''\<rparr>) example_embedding
     (source_candidate example_target) PNone PNone [] (start_state crm example_rows) = Inr w'"
    using plain_run by (auto split: sum.splits)
  have base: "base (ws_db (start_state crm example_rows)) = example_tables" by (simp add: start_state_def example_rows_def)
  have "\<not> ledger_inv (base (ws_db w'))"
    using refused_replacement_breaks_ledger [OF run, of "example_claim\<lparr>subject_key := generic_claim_subject\<rparr>" Fact] example_tables_inv plain_facts
    by (simp add: base joins_predecessor_def registered_source_def example_resolver_def example_arbiter_def declares_preference_def example_incoming_def
        source_candidate_def example_target_def example_memory_def example_claim_def dget_def)
  then show ?thesis using run example_tables_inv base by simp
qed

end
