(* ===== verification/Declarations.thy ===== *)
theory Declarations
  imports Writes
begin

text \<open>
  The write path of declared preferences: \<open>ConflictResolver._store_declared_preferences\<close> of
  \<open>src/api/services/conflict_resolver.py\<close>, as \<open>check_and_store\<close> calls it. All declarations are prepared before a
  row is touched, then applied in the order of their identities: a claim is reserved, the transition
  decided, and the preference stored, held, put aside or skipped.

  \<open>confirmed\<close> tells the memories that a confirmed command of the user covers
  (\<open>src/api/services/preference_confirmation_service.py\<close>). Operations on choices of a snapshot take another
  entry and are not modelled, nor are the three counters of outcomes that the service keeps for its logs.
\<close>

section \<open>Preparing\<close>

record prepared_declaration =
  pd_fingerprint :: string
  pd_memory :: extracted_memory
  pd_claim :: pref_claim
  pd_embedding :: "embedding_result option"

abbreviation re_pref :: "resolver_env \<Rightarrow> pref_env" where
  "re_pref R \<equiv> ab_pref (re_arbiter R)"

definition quoted_in_turns :: "resolver_env \<Rightarrow> extracted_memory \<Rightarrow> bool" where
  "quoted_in_turns R x \<longleftrightarrow>
     verified_source_turns (ab_grounding (re_arbiter R)) (x_content x) (x_category x) (x_evidence x) (ab_messages (re_arbiter R)) \<noteq> None"

definition prepare_declaration ::
  "resolver_env \<Rightarrow> (extracted_memory \<Rightarrow> bool) \<Rightarrow> prepared_declaration list \<Rightarrow> extracted_memory \<Rightarrow> resolver_error + prepared_declaration" where
  "prepare_declaration R confirmed seen x =
     (if truthy (dget (x_evidence x) ''requires_preference_confirmation'' PNone)
      then Inl (PreferenceRefused ''pending preference confirmation cannot become memory'')
      else
        (case validate_claim (dget (x_evidence x) preference_marker PNone) of
           None \<Rightarrow> Inl (ResolverLedger InvalidDeclaration)
         | Some q \<Rightarrow>
             (let fp = ci_fingerprint (declaration_identity (re_pref R) q);
                  ready = (\<lambda>e. \<lparr>pd_fingerprint = fp, pd_memory = x, pd_claim = q, pd_embedding = e\<rparr>)
              in if x_category x \<noteq> ''preference'' \<or> x_content x \<noteq> pc_quote q
                 then Inl (PreferenceRefused ''explicit preference representation mismatch'')
                 else if \<not> confirmed x \<and> \<not> quoted_in_turns R x then Inl (PreferenceRefused ''explicit preference evidence invalid'')
                 else if list_ex (\<lambda>p. pd_fingerprint p = fp) seen then Inl (PreferenceRefused ''duplicate explicit preference identity'')
                 else if pc_commitment q = ''uncertain'' then Inr (ready None)
                 else (case re_embed R (x_content x) of None \<Rightarrow> Inl EmbeddingRaised | Some e \<Rightarrow> Inr (ready (Some e))))))"

fun prepare_declarations ::
  "resolver_env \<Rightarrow> (extracted_memory \<Rightarrow> bool) \<Rightarrow> prepared_declaration list \<Rightarrow> extracted_memory list \<Rightarrow>
     resolver_error + prepared_declaration list" where
  "prepare_declarations R confirmed seen [] = Inr seen"
| "prepare_declarations R confirmed seen (x # xs) =
     (case prepare_declaration R confirmed seen x of
        Inl e \<Rightarrow> Inl e
      | Inr p \<Rightarrow> prepare_declarations R confirmed (seen @ [p]) xs)"

section \<open>Applying\<close>

definition owned_row :: "resolver_env \<Rightarrow> uuid \<Rightarrow> uuid \<Rightarrow> db \<Rightarrow> memory option" where
  "owned_row R proxy i d = find_row (\<lambda>m. m_id m = i \<and> m_proxy_user_id m = proxy \<and> m_user_id m = re_user R) (memories d)"

text \<open>The reserved claim, its current memory and the transition, with the tables after the reservation.\<close>

definition declaration_transition ::
  "resolver_env \<Rightarrow> uuid \<Rightarrow> uuid \<Rightarrow> pref_claim \<Rightarrow> db \<Rightarrow> resolver_error + (string \<times> memory_claim option \<times> memory option \<times> db)" where
  "declaration_transition R tenant proxy q d =
     (if pa_kind (pc_applicability q) = ''unresolved'' then Inr (''preference_requires_review'', None, None, d)
      else
        (let (ledger, d1) = reserve_claim (re_pref R) tenant proxy q
               (pc_commitment q \<noteq> ''replacement'' \<and> pc_choice_state q \<noteq> ''current_choice_unresolved'') d;
             target = (case ledger of
                         None \<Rightarrow> None
                       | Some c \<Rightarrow> (case active_memory_id c of None \<Rightarrow> None | Some i \<Rightarrow> owned_row R proxy i d1))
         in case transition_reason (re_pref R) (re_now R) q ledger target of
              Inl x \<Rightarrow> Inl (ResolverLedger x)
            | Inr reason \<Rightarrow> Inr (reason, ledger, target, d1)))"

definition choice_audit :: "resolver_env \<Rightarrow> string \<Rightarrow> string \<Rightarrow> memory \<Rightarrow> review_db \<Rightarrow> review_db" where
  "choice_audit R old new m s =
     create_audit_log R Updated (Some (m_id m)) (PDict [(''preference_choice'', PStr old)])
       (PDict [(''preference_choice'', PStr new), (''policy'', PStr preference_marker),
          (''source_conversation_id'', PStr (re_id R (re_conversation R)))]) s"

text \<open>A hold or a release of the current choice. The generation of the marker is a fresh identifier.\<close>

definition hold_choice ::
  "resolver_env \<Rightarrow> bool \<Rightarrow> pref_claim \<Rightarrow> memory_claim \<Rightarrow> memory \<Rightarrow> write_state \<Rightarrow> resolver_error + write_state" where
  "hold_choice R unresolved q c m w =
     (let d = base (ws_db w)
      in case set_choice_state (re_pref R) unresolved (Some q) None (next_id d) (re_now R) m c of
           None \<Rightarrow> Inl (ResolverLedger MalformedProvenance)
         | Some (m', c') \<Rightarrow>
             Inr (w\<lparr>ws_db := choice_audit R (if c_status c = ''disputed'' then ''unresolved'' else ''current'')
               (if unresolved then ''unresolved'' else ''current'') m
               ((ws_db w)\<lparr>base := (put_claim c' (put_memory m' d))\<lparr>next_id := Suc (next_id d)\<rparr>\<rparr>)\<rparr>))"

definition declaration_review :: "resolver_env \<Rightarrow> string \<Rightarrow> memory option \<Rightarrow> conflict_decision" where
  "declaration_review R reason target =
     (let explanation = ''The application-declared preference could not become current safely.''
      in (plain_decision Clarify explanation (review_evidence ''USER_REVIEW'' [reason] explanation [(''policy'', PStr preference_marker)]))
           \<lparr>cd_review := Some (review_intent (re_arbiter R) target)\<rparr>)"

definition declaration_evidence :: "string \<Rightarrow> scope" where
  "declaration_evidence reason =
     automatic_evidence (if reason = ''UPDATE'' then ''UPDATE'' else ''KEEP_BOTH'') [''explicit_preference_identity_match'']
       ''Application declaration applied within an exact, owned applicability identity.'' None None [(''policy'', PStr preference_marker)]"

text \<open>An uncertain declaration has no embedding and is never stored, so \<open>None\<close> is not reached (\<open>stored_is_embedded\<close> below).\<close>

definition store_declaration :: "resolver_env \<Rightarrow> string \<Rightarrow> prepared_declaration \<Rightarrow> memory option \<Rightarrow> write_state \<Rightarrow> resolver_error + write_state" where
  "store_declaration R reason p target w =
     (case pd_embedding p of
        None \<Rightarrow> Inl EmbeddingRaised
      | Some e \<Rightarrow>
          (let d = base (ws_db w);
               d1 = (case target of
                       Some m \<Rightarrow> if is_archived m then d else archive_superseded R m ''Explicit same-applicability preference replacement'' d
                     | None \<Rightarrow> d)
           in case store_new_memory R (pd_memory p) e (map_option m_id target) reason False (declaration_evidence reason) d1 of
                Inl x \<Rightarrow> Inl x
              | Inr (sm, d2) \<Rightarrow>
                  Inr (add_stored sm
                    (create_audit_log R MemoryCreated (Some (sm_id sm))
                       (case target of None \<Rightarrow> PNone | Some m \<Rightarrow> PDict [(''memory_id'', PStr (re_id R (m_id m)))])
                       (PDict [(''resolution'', PStr reason), (''policy'', PStr preference_marker)]) ((ws_db w)\<lparr>base := d2\<rparr>)) w)))"

definition finish_declaration :: "resolver_env \<Rightarrow> string \<Rightarrow> prepared_declaration \<Rightarrow> memory option \<Rightarrow> write_state \<Rightarrow> resolver_error + write_state" where
  "finish_declaration R reason p target w =
     (if reason = ''NEW'' \<or> reason = ''UPDATE'' then store_declaration R reason p target w
      else Inr (buffer_source_candidate (pd_memory p) (declaration_review R reason target) w))"

definition apply_declaration ::
  "resolver_env \<Rightarrow> uuid \<Rightarrow> uuid \<Rightarrow> prepared_declaration \<Rightarrow> write_state \<Rightarrow> resolver_error + write_state" where
  "apply_declaration R tenant proxy p w0 =
     (case declaration_transition R tenant proxy (pd_claim p) (base (ws_db w0)) of
        Inl x \<Rightarrow> Inl x
      | Inr (reason, ledger, target, d) \<Rightarrow>
          (let w = w0\<lparr>ws_db := (ws_db w0)\<lparr>base := d\<rparr>\<rparr>
           in if pc_choice_state (pd_claim p) = ''current_choice_unresolved'' \<and> reason \<noteq> ''WITHHOLD'' \<and> reason \<noteq> ''preference_requires_review''
              then Inr w
              else if reason = ''DEDUP'' then Inr w
              else if reason = ''WITHHOLD'' \<or> reason = ''REAFFIRM''
              then (case (ledger, target) of
                      (Some c, Some m) \<Rightarrow>
                        (case hold_choice R (reason = ''WITHHOLD'') (pd_claim p) c m w of
                           Inl x \<Rightarrow> Inl x
                         | Inr w1 \<Rightarrow> if reason = ''REAFFIRM'' then Inr w1 else finish_declaration R ''preference_requires_review'' p target w1)
                    | _ \<Rightarrow> Inl (ResolverLedger MalformedProvenance))
              else finish_declaration R reason p target w))"

fun apply_declarations ::
  "resolver_env \<Rightarrow> uuid \<Rightarrow> uuid \<Rightarrow> prepared_declaration list \<Rightarrow> write_state \<Rightarrow> resolver_error + write_state" where
  "apply_declarations R tenant proxy [] w = Inr w"
| "apply_declarations R tenant proxy (p # ps) w =
     (case apply_declaration R tenant proxy p w of Inl x \<Rightarrow> Inl x | Inr w' \<Rightarrow> apply_declarations R tenant proxy ps w')"

definition available_profile :: "uuid \<Rightarrow> uuid \<Rightarrow> db \<Rightarrow> bool" where
  "available_profile tenant proxy d \<longleftrightarrow>
     (case find_row (\<lambda>p. p_id p = proxy) (proxy_users d) of None \<Rightarrow> False | Some p \<Rightarrow> \<not> is_blocked p \<and> p_tenant_id p = tenant)"

definition store_declared_preferences ::
  "resolver_env \<Rightarrow> (extracted_memory \<Rightarrow> bool) \<Rightarrow> extracted_memory list \<Rightarrow> write_state \<Rightarrow> resolver_error + write_state" where
  "store_declared_preferences R confirmed xs w =
     (case (re_tenant R, re_proxy R) of
        (Some t, Some p) \<Rightarrow>
          if \<not> available_profile t p (base (ws_db w)) then Inl (PreferenceRefused ''explicit preference owner unavailable'')
          else
            (case prepare_declarations R confirmed [] xs of
               Inl x \<Rightarrow> Inl x
             | Inr ps \<Rightarrow> apply_declarations R t p (sort_key pd_fingerprint ps) w)
      | _ \<Rightarrow> Inl (PreferenceRefused ''explicit preferences require an authenticated tenant/profile''))"

section \<open>Frames\<close>

declare record_memory_memories [simp del]

text \<open>Tables whose memories have distinct keys below the supply.\<close>

definition rows_fresh :: "db \<Rightarrow> bool" where
  "rows_fresh d \<longleftrightarrow> distinct (map m_id (memories d)) \<and> list_all (\<lambda>m. m_id m < next_id d) (memories d)"

lemma assert_memory_next: "next_id d \<le> next_id (snd (snd (assert_memory t p inherited a now m cl d)))"
  by (simp add: assert_memory_def assert_on_claim_def add_claim_def put_claim_def put_revision_def mark_existing_winner_superseded_def Let_def
      split: option.split)

lemma add_memory_revision_next: "next_id (snd (snd x)) \<le> next_id (snd (add_memory_revision e prov resolution ev a m x))"
  by (cases x) (simp add: add_memory_revision_def add_revision_def put_claim_def Let_def)

lemma record_memory_rows_next:
  assumes "record_memory_rows e t p prov resolution ev pred now m d = Inr (c, d')"
  shows "next_id d \<le> next_id d'"
proof -
  have step: "next_id d \<le> next_id (snd (add_memory_revision e prov resolution ev a m (assert_memory t' p' inh a now m cl d)))" for a t' p' inh cl
    by (rule order.trans [OF assert_memory_next add_memory_revision_next])
  show ?thesis
    using assms unfolding record_memory_rows_def Let_def case_prod_beta
    by (simp split: option.splits sum.splits if_split_asm) (use step in blast)+
qed

lemma record_memory_next:
  assumes "record_memory e t p prov resolution ev pred now m d = Inr (c, d')"
  shows "next_id d \<le> next_id d'"
proof -
  obtain y where rows: "record_memory_rows e t p prov resolution ev pred now m d = Inr y"
    using assms by (cases "record_memory_rows e t p prov resolution ev pred now m d") (simp_all add: record_memory_def)
  obtain c1 d1 where y: "y = (c1, d1)" by (cases y)
  have "d' = d1"
    using assms unfolding record_memory_def rows y by (cases c1) (simp_all add: flushed_def split: if_split_asm)
  then show ?thesis using record_memory_rows_next [OF rows [unfolded y]] by simp
qed

lemma record_claim_next: "record_claim_for_memory R m resolution ev pred d = Inr d' \<Longrightarrow> next_id d \<le> next_id d'"
  by (auto simp: record_claim_for_memory_def Let_def dest: record_memory_next split: sum.splits prod.splits option.splits if_splits)

lemma store_new_memory_next:
  assumes "store_new_memory R new er prev resolution archived ev d = Inr (sm, d')"
  shows "next_id d < next_id d'"
proof -
  obtain m d1 d2 where rec: "d1 = snd (safe_record_version m ''created'' (Some ''Extracted from conversation'') ''system'' (add_memory m d))"
      "record_claim_for_memory R m resolution ev prev d1 = Inr d2" "next_id d2 \<le> next_id d'"
    using assms by (auto simp: store_new_memory_def Let_def enqueue_vector_upsert_def add_outbox_row_def
        split: interval_result.splits option.splits sum.splits if_splits)
  have "next_id d < next_id (add_memory m d)" by (simp add: add_memory_def)
  also have "\<dots> \<le> next_id d1" unfolding rec(1) by (rule safe_record_version_next_id)
  also have "\<dots> \<le> next_id d2" by (rule record_claim_next [OF rec(2)])
  finally show ?thesis using rec(3) by simp
qed

lemma archive_superseded_next: "next_id d \<le> next_id (archive_superseded R m reason d)"
  using safe_record_version_next_id [of d m "''conflict_update''" "Some reason" "''system''"]
  by (simp add: archive_superseded_def set_archived_def enqueue_vector_archive_def add_outbox_row_def Let_def)

lemma store_new_memory_profile:
  assumes "store_new_memory R new er prev resolution archived ev d = Inr (sm, d')" and "re_proxy R = Some p"
  shows "m_proxy_user_id (last (memories d')) = p"
  using assms
  by (auto simp: store_new_memory_def Let_def enqueue_vector_upsert_def add_outbox_row_def add_memory_def new_memory_row_def
      dest!: record_claim_memories split: interval_result.splits option.splits sum.splits if_splits)

section \<open>Rows kept\<close>

text \<open>
  What a declaration may do to a stored row: nothing to a row of another user or profile, and to an owned
  row no more than a new marker or its archival.
\<close>

definition row_kept :: "resolver_env \<Rightarrow> uuid \<Rightarrow> memory \<Rightarrow> memory \<Rightarrow> bool" where
  "row_kept R p m m' \<longleftrightarrow>
     m' = m\<lparr>metadata_json := metadata_json m', is_archived := is_archived m'\<rparr> \<and> (is_archived m \<longrightarrow> is_archived m') \<and>
     (m' = m \<or> (m_user_id m = re_user R \<and> m_proxy_user_id m = p))"

definition rows_kept :: "resolver_env \<Rightarrow> uuid \<Rightarrow> memory list \<Rightarrow> memory list \<Rightarrow> bool" where
  "rows_kept R p ms ms' \<longleftrightarrow>
     (\<exists>olds news. ms' = olds @ news \<and> list_all2 (row_kept R p) ms olds \<and>
        list_all (\<lambda>r. m_user_id r = re_user R \<and> m_proxy_user_id r = p) news)"

lemma row_kept_refl [simp]: "row_kept R p m m"
  by (simp add: row_kept_def)

lemma row_kept_owner: "row_kept R p m m' \<Longrightarrow> m_id m' = m_id m \<and> m_user_id m' = m_user_id m \<and> m_proxy_user_id m' = m_proxy_user_id m"
  by (cases m; cases m') (simp add: row_kept_def)

lemma row_kept_trans: "row_kept R p a b \<Longrightarrow> row_kept R p b c \<Longrightarrow> row_kept R p a c"
  by (cases a; cases b; cases c) (auto simp: row_kept_def)

lemma rows_kept_map: "(\<And>m. m \<in> set ms \<Longrightarrow> row_kept R p m (f m)) \<Longrightarrow> rows_kept R p ms (map f ms)"
  unfolding rows_kept_def by (rule exI [of _ "map f ms"], rule exI [of _ "[]"]) (simp add: list_all2_map2 list_all2_same)

lemma rows_kept_refl [simp]: "rows_kept R p ms ms"
  using rows_kept_map [of ms R p id] by simp

lemma rows_kept_snoc:
  "rows_kept R p ms ms' \<Longrightarrow> m_user_id r = re_user R \<Longrightarrow> m_proxy_user_id r = p \<Longrightarrow> rows_kept R p ms (ms' @ [r])"
  unfolding rows_kept_def by (elim exE conjE, rule exI, rule exI [of _ "_ @ [r]"]) simp

lemma rows_kept_trans:
  assumes "rows_kept R p as bs" and "rows_kept R p bs cs"
  shows "rows_kept R p as cs"
proof -
  obtain b1 b2 where b: "bs = b1 @ b2" "list_all2 (row_kept R p) as b1" "list_all (\<lambda>r. m_user_id r = re_user R \<and> m_proxy_user_id r = p) b2"
    using assms(1) unfolding rows_kept_def by blast
  obtain c0 c3 where c: "cs = c0 @ c3" "list_all2 (row_kept R p) (b1 @ b2) c0" "list_all (\<lambda>r. m_user_id r = re_user R \<and> m_proxy_user_id r = p) c3"
    using assms(2) unfolding rows_kept_def b(1) by blast
  obtain c1 c2 where c0: "c0 = c1 @ c2" "list_all2 (row_kept R p) b1 c1" "list_all2 (row_kept R p) b2 c2"
    using c(2) by (auto simp: list_all2_append1)
  have "list_all2 (row_kept R p) as c1" by (rule list_all2_trans [OF row_kept_trans b(2) c0(2)])
  moreover have "list_all (\<lambda>r. m_user_id r = re_user R \<and> m_proxy_user_id r = p) c2"
    using c0(3) b(3) by (induction rule: list_all2_induct) (auto dest: row_kept_owner)
  ultimately show ?thesis using c(1,3) c0(1) unfolding rows_kept_def by (intro exI [of _ c1] exI [of _ "c2 @ c3"]) simp
qed

text \<open>A step of the batch: the rows are kept and the keys stay fresh.\<close>

definition step_ok :: "resolver_env \<Rightarrow> uuid \<Rightarrow> db \<Rightarrow> db \<Rightarrow> bool" where
  "step_ok R p d d' \<longleftrightarrow> rows_kept R p (memories d) (memories d') \<and> rows_fresh d'"

lemma step_ok_trans: "step_ok R p a b \<Longrightarrow> step_ok R p b c \<Longrightarrow> step_ok R p a c"
  unfolding step_ok_def by (blast intro: rows_kept_trans)

lemma step_ok_same: "rows_fresh d \<Longrightarrow> memories d' = memories d \<Longrightarrow> next_id d \<le> next_id d' \<Longrightarrow> step_ok R p d d'"
  by (auto simp: step_ok_def rows_fresh_def list_all_iff)

lemma step_ok_map:
  assumes "rows_fresh d" and "memories d' = map f (memories d)" and "next_id d \<le> next_id d'"
    and "\<And>m. m \<in> set (memories d) \<Longrightarrow> row_kept R p m (f m)"
  shows "step_ok R p d d'"
proof -
  have ids: "map m_id (memories d') = map m_id (memories d)"
    unfolding assms(2) map_map by (rule map_cong [OF refl]) (simp add: row_kept_owner [OF assms(4)])
  have fresh: "rows_fresh x \<longleftrightarrow> distinct (map m_id (memories x)) \<and> (\<forall>i \<in> set (map m_id (memories x)). i < next_id x)" for x
    by (simp add: rows_fresh_def list_all_iff)
  have "rows_fresh d'" using assms(1,3) unfolding fresh ids by auto
  then show ?thesis using rows_kept_map [of "memories d" R p f] assms(2,4) by (simp add: step_ok_def)
qed

lemma fresh_unique: "rows_fresh d \<Longrightarrow> m \<in> set (memories d) \<Longrightarrow> r \<in> set (memories d) \<Longrightarrow> m_id r = m_id m \<Longrightarrow> r = m"
  by (auto simp: rows_fresh_def distinct_map dest: inj_onD)

definition owned_in :: "resolver_env \<Rightarrow> uuid \<Rightarrow> db \<Rightarrow> memory option \<Rightarrow> bool" where
  "owned_in R p d target \<longleftrightarrow>
     (case target of None \<Rightarrow> True | Some m \<Rightarrow> m \<in> set (memories d) \<and> m_user_id m = re_user R \<and> m_proxy_user_id m = p)"

lemma archive_step:
  assumes "rows_fresh d" and "owned_in R p d (Some m)"
  shows "step_ok R p d (archive_superseded R m reason d)"
proof (rule step_ok_map [where f = "archived_row (m_id m)"])
  show "row_kept R p r (archived_row (m_id m) r)" if "r \<in> set (memories d)" for r
    using fresh_unique [OF assms(1) _ that, of m] assms(2) by (auto simp: archived_row_def owned_in_def row_kept_def)
qed (use assms(1) in \<open>simp_all add: set_archived_rows archive_superseded_next\<close>)

lemma store_step:
  assumes "rows_fresh d" and "store_new_memory R new er prev resolution archived ev d = Inr (sm, d')" and "re_proxy R = Some p"
  shows "step_ok R p d d'"
proof -
  obtain r where r: "memories d' = memories d @ [r]" "m_id r = next_id d" "m_user_id r = re_user R"
    using store_new_memory_rows [OF assms(2)] by (elim exE conjE) (rule that)
  have "m_proxy_user_id r = p" using store_new_memory_profile [OF assms(2,3)] r(1) by simp
  moreover have "rows_fresh d'"
  proof -
    have "m_id m < next_id d'" if "m \<in> set (memories d)" for m
    proof -
      have "m_id m < next_id d" using assms(1) that unfolding rows_fresh_def list_all_iff by blast
      also have "\<dots> < next_id d'" by (rule store_new_memory_next [OF assms(2)])
      finally show ?thesis .
    qed
    moreover have "next_id d \<notin> m_id ` set (memories d)" using assms(1) by (auto simp: rows_fresh_def list_all_iff)
    moreover have "distinct (map m_id (memories d))" using assms(1) by (simp add: rows_fresh_def)
    ultimately show ?thesis
      using store_new_memory_next [OF assms(2)] unfolding rows_fresh_def r(1) list_all_append map_append distinct_append list_all_iff
      by (simp add: r(2))
  qed
  ultimately show ?thesis unfolding step_ok_def r(1) by (intro conjI rows_kept_snoc rows_kept_refl r(3))
qed

lemma hold_step:
  assumes "rows_fresh (base (ws_db w))" and "owned_in R p (base (ws_db w)) (Some m)" and "hold_choice R unresolved q c m w = Inr w'"
  shows "step_ok R p (base (ws_db w)) (base (ws_db w'))"
proof -
  obtain m' c' where run: "set_choice_state (re_pref R) unresolved (Some q) None (next_id (base (ws_db w))) (re_now R) m c = Some (m', c')"
      "base (ws_db w') = (put_claim c' (put_memory m' (base (ws_db w))))\<lparr>next_id := Suc (next_id (base (ws_db w)))\<rparr>"
    using assms(3) by (auto simp: hold_choice_def choice_audit_def Let_def split: option.splits)
  have m': "row_kept R p m m'"
    using run(1) assms(2) by (auto simp: set_choice_state_def row_kept_def owned_in_def Let_def split: option.splits prod.splits if_splits)
  show ?thesis
  proof (rule step_ok_map [where f = "\<lambda>r. if m_id r = m_id m' then m' else r"])
    show "row_kept R p r (if m_id r = m_id m' then m' else r)" if "r \<in> set (memories (base (ws_db w)))" for r
      using fresh_unique [OF assms(1) _ that, of m] assms(2) m' row_kept_owner [OF m'] by (auto simp: owned_in_def)
  qed (use assms(1) run(2) in \<open>simp_all add: put_claim_def put_memory_def update_where_def\<close>)
qed

lemma transition_target:
  assumes "declaration_transition R t p q d = Inr (reason, ledger, target, d')"
  shows "memories d' = memories d" and "next_id d \<le> next_id d'" and "owned_in R p d' target"
  using assms
  by (auto simp: declaration_transition_def reserve_claim_def add_claim_def owned_row_def owned_in_def Let_def
      dest: find_row_Some split: if_splits option.splits sum.splits prod.splits)

section \<open>Batches\<close>

abbreviation tables :: "write_state \<Rightarrow> db" where
  "tables w \<equiv> base (ws_db w)"

lemma store_declaration_step:
  assumes fresh: "rows_fresh (tables w)" and own: "owned_in R p (tables w) target" and proxy: "re_proxy R = Some p"
    and run: "store_declaration R reason x target w = Inr w'"
  shows "step_ok R p (tables w) (tables w')"
proof -
  let ?d1 = "case target of
      Some m \<Rightarrow> if is_archived m then tables w else archive_superseded R m ''Explicit same-applicability preference replacement'' (tables w)
    | None \<Rightarrow> tables w"
  obtain e sm d2 where st: "store_new_memory R (pd_memory x) e (map_option m_id target) reason False (declaration_evidence reason) ?d1 = Inr (sm, d2)"
      "tables w' = d2"
    using run unfolding store_declaration_def Let_def by (auto simp: add_stored_def split: option.splits sum.splits)
  have d1: "step_ok R p (tables w) ?d1"
    using archive_step [OF fresh] own step_ok_same [OF fresh refl order.refl] by (auto split: option.split)
  then have "rows_fresh ?d1" by (simp add: step_ok_def)
  from step_ok_trans [OF d1 store_step [OF this st(1) proxy]] st(2) show ?thesis by simp
qed

lemma finish_declaration_step:
  assumes "rows_fresh (tables w)" and "owned_in R p (tables w) target" and "re_proxy R = Some p"
    and "finish_declaration R reason x target w = Inr w'"
  shows "step_ok R p (tables w) (tables w')"
proof (cases "reason = ''NEW'' \<or> reason = ''UPDATE''")
  case True
  then have "store_declaration R reason x target w = Inr w'" using assms(4) by (simp add: finish_declaration_def)
  then show ?thesis by (rule store_declaration_step [OF assms(1-3)])
next
  case False
  then have "w' = buffer_source_candidate (pd_memory x) (declaration_review R reason target) w" using assms(4) by (simp add: finish_declaration_def)
  then show ?thesis using step_ok_same [OF assms(1) refl order.refl] by simp
qed

text \<open>The outcomes of one declaration after its transition: skipped, held, or finished.\<close>

lemma apply_declaration_cases:
  assumes "apply_declaration R t p x w0 = Inr w'"
  obtains (skipped) reason ledger target d where "declaration_transition R t p (pd_claim x) (tables w0) = Inr (reason, ledger, target, d)"
      "w' = w0\<lparr>ws_db := (ws_db w0)\<lparr>base := d\<rparr>\<rparr>"
  | (held) reason c m d w1 where "declaration_transition R t p (pd_claim x) (tables w0) = Inr (reason, Some c, Some m, d)"
      "hold_choice R (reason = ''WITHHOLD'') (pd_claim x) c m (w0\<lparr>ws_db := (ws_db w0)\<lparr>base := d\<rparr>\<rparr>) = Inr w1"
      "ws_db w' = ws_db w1" "ws_stored w' = ws_stored w1"
  | (finished) reason ledger target d where "declaration_transition R t p (pd_claim x) (tables w0) = Inr (reason, ledger, target, d)"
      "finish_declaration R reason x target (w0\<lparr>ws_db := (ws_db w0)\<lparr>base := d\<rparr>\<rparr>) = Inr w'"
      "pc_choice_state (pd_claim x) = ''current_choice_unresolved'' \<Longrightarrow> reason = ''preference_requires_review''"
proof (cases "declaration_transition R t p (pd_claim x) (tables w0)")
  case (Inr tr)
  obtain reason ledger target d where tr: "tr = (reason, ledger, target, d)" by (cases tr) auto
  let ?w = "w0\<lparr>ws_db := (ws_db w0)\<lparr>base := d\<rparr>\<rparr>"
  let ?holds = "reason = ''WITHHOLD'' \<or> reason = ''REAFFIRM''"
  note run = assms [unfolded apply_declaration_def Inr tr sum.case prod.case Let_def]
  show ?thesis
  proof (cases "w' = ?w")
    case True
    then show ?thesis using skipped Inr tr by blast
  next
    case moved: False
    show ?thesis
    proof (cases ?holds)
      case True
      then have "case (ledger, target) of
          (Some c, Some m) \<Rightarrow>
            (case hold_choice R (reason = ''WITHHOLD'') (pd_claim x) c m ?w of
               Inl y \<Rightarrow> False
             | Inr w1 \<Rightarrow> w' = (if reason = ''REAFFIRM'' then w1 else buffer_source_candidate (pd_memory x) (declaration_review R ''preference_requires_review'' target) w1))
        | _ \<Rightarrow> False"
        using run moved by (auto simp: finish_declaration_def split: if_split_asm option.splits sum.splits)
      then obtain c m w1 where "ledger = Some c" "target = Some m" "hold_choice R (reason = ''WITHHOLD'') (pd_claim x) c m ?w = Inr w1"
          "ws_db w' = ws_db w1" "ws_stored w' = ws_stored w1"
        by (auto split: option.splits sum.splits if_split_asm)
      then show ?thesis using held Inr tr by blast
    next
      case False
      then have "finish_declaration R reason x target ?w = Inr w'"
        "pc_choice_state (pd_claim x) = ''current_choice_unresolved'' \<Longrightarrow> reason = ''preference_requires_review''"
        using run moved by (auto split: if_split_asm)
      then show ?thesis using finished Inr tr by blast
    qed
  qed
qed (use assms in \<open>simp add: apply_declaration_def\<close>)

lemma apply_declaration_step:
  assumes fresh: "rows_fresh (tables w)" and proxy: "re_proxy R = Some p" and run: "apply_declaration R t p x w = Inr w'"
  shows "step_ok R p (tables w) (tables w')"
proof -
  have one: "step_ok R p (tables w) d" "rows_fresh d" "owned_in R p d target"
    if "declaration_transition R t p (pd_claim x) (tables w) = Inr (reason, ledger, target, d)" for reason ledger target d
    using step_ok_same [OF fresh transition_target(1,2) [OF that], of R p] transition_target(3) [OF that] by (simp_all add: step_ok_def)
  from run show ?thesis
  proof (cases rule: apply_declaration_cases)
    case (skipped reason ledger target d)
    then show ?thesis using one(1) by simp
  next
    case (held reason c m d w1)
    note d = one [OF held(1)]
    have "step_ok R p d (tables w1)" using hold_step [OF _ _ held(2)] d(2,3) by simp
    then show ?thesis using step_ok_trans [OF d(1)] held(3) by simp
  next
    case (finished reason ledger target d)
    note d = one [OF finished(1)]
    have "step_ok R p d (tables w')" using finish_declaration_step [OF _ _ proxy finished(2)] d(2,3) by simp
    then show ?thesis by (rule step_ok_trans [OF d(1)])
  qed
qed

lemma apply_declarations_step:
  assumes "rows_fresh (tables w)" and "re_proxy R = Some p" and "apply_declarations R t p xs w = Inr w'"
  shows "step_ok R p (tables w) (tables w')"
  using assms
proof (induction xs arbitrary: w)
  case Nil
  then show ?case using step_ok_same [OF Nil.prems(1) refl order.refl] by simp
next
  case (Cons x xs)
  then obtain w1 where w1: "apply_declaration R t p x w = Inr w1" "apply_declarations R t p xs w1 = Inr w'" by (auto split: sum.splits)
  have s: "step_ok R p (tables w) (tables w1)" by (rule apply_declaration_step [OF Cons.prems(1,2) w1(1)])
  then have "rows_fresh (tables w1)" by (simp add: step_ok_def)
  from step_ok_trans [OF s Cons.IH [OF this Cons.prems(2) w1(2)]] show ?case .
qed

section \<open>Admission\<close>

definition declaration_admitted :: "resolver_env \<Rightarrow> (extracted_memory \<Rightarrow> bool) \<Rightarrow> extracted_memory \<Rightarrow> bool" where
  "declaration_admitted R confirmed x \<longleftrightarrow>
     \<not> truthy (dget (x_evidence x) ''requires_preference_confirmation'' PNone) \<and> x_category x = ''preference'' \<and>
     (confirmed x \<or> quoted_in_turns R x) \<and>
     (case validate_claim (dget (x_evidence x) preference_marker PNone) of None \<Rightarrow> False | Some q \<Rightarrow> x_content x = pc_quote q)"

definition prepared_ok :: "resolver_env \<Rightarrow> (extracted_memory \<Rightarrow> bool) \<Rightarrow> prepared_declaration \<Rightarrow> bool" where
  "prepared_ok R confirmed p \<longleftrightarrow>
     declaration_admitted R confirmed (pd_memory p) \<and>
     validate_claim (dget (x_evidence (pd_memory p)) preference_marker PNone) = Some (pd_claim p) \<and>
     pd_fingerprint p = ci_fingerprint (declaration_identity (re_pref R) (pd_claim p)) \<and>
     (pd_embedding p = None \<longleftrightarrow> pc_commitment (pd_claim p) = ''uncertain'')"

lemma prepare_declaration_ok:
  assumes "prepare_declaration R confirmed seen x = Inr p"
  shows "prepared_ok R confirmed p \<and> pd_memory p = x \<and> pd_fingerprint p \<notin> pd_fingerprint ` set seen"
proof (cases "validate_claim (dget (x_evidence x) preference_marker PNone)")
  case (Some q)
  show ?thesis using assms
    by (auto simp: prepare_declaration_def Some Let_def prepared_ok_def declaration_admitted_def list_ex_iff split: if_split_asm option.splits)
qed (use assms in \<open>simp add: prepare_declaration_def split: if_split_asm\<close>)

lemma prepare_declarations_ok:
  assumes "prepare_declarations R confirmed seen xs = Inr ps" and "distinct (map pd_fingerprint seen)"
  shows "\<exists>news. ps = seen @ news \<and> map pd_memory news = xs \<and> list_all (prepared_ok R confirmed) news \<and> distinct (map pd_fingerprint ps)"
  using assms
proof (induction xs arbitrary: seen)
  case (Cons x xs)
  then obtain p where p: "prepare_declaration R confirmed seen x = Inr p" "prepare_declarations R confirmed (seen @ [p]) xs = Inr ps"
    by (auto split: sum.splits)
  note ok = prepare_declaration_ok [OF p(1)]
  then have "distinct (map pd_fingerprint (seen @ [p]))" using Cons.prems(2) by auto
  from Cons.IH [OF p(2) this] obtain news where news: "ps = (seen @ [p]) @ news" "map pd_memory news = xs" "list_all (prepared_ok R confirmed) news"
      "distinct (map pd_fingerprint ps)" by blast
  then show ?case using ok by (intro exI [of _ "p # news"]) simp
qed simp

lemma declared_batch:
  assumes "store_declared_preferences R confirmed xs w = Inr w'"
  obtains t p ps where "re_tenant R = Some t" "re_proxy R = Some p" "available_profile t p (tables w)"
    "map pd_memory ps = xs" "list_all (prepared_ok R confirmed) ps" "distinct (map pd_fingerprint ps)"
    "apply_declarations R t p (sort_key pd_fingerprint ps) w = Inr w'"
proof -
  obtain t p ps where run: "re_tenant R = Some t" "re_proxy R = Some p" "available_profile t p (tables w)"
      "prepare_declarations R confirmed [] xs = Inr ps" "apply_declarations R t p (sort_key pd_fingerprint ps) w = Inr w'"
    using assms by (auto simp: store_declared_preferences_def split: option.splits sum.splits if_split_asm)
  then show ?thesis using that prepare_declarations_ok [OF run(4)] by auto
qed

section \<open>Tentative declarations\<close>

definition tentative :: "extracted_memory \<Rightarrow> bool" where
  "tentative x \<longleftrightarrow>
     (case validate_claim (dget (x_evidence x) preference_marker PNone) of None \<Rightarrow> False | Some q \<Rightarrow> pc_commitment q = ''uncertain'')"

definition row_facts :: "db \<Rightarrow> (uuid \<times> string \<times> bool) list" where
  "row_facts d = map (\<lambda>m. (m_id m, content m, is_archived m)) (memories d)"

text \<open>The transition of a declaration that is uncertain and names no choice asks for review.\<close>

lemma uncertain_reason:
  assumes "declaration_transition R t p q d = Inr (reason, ledger, target, d')"
    and "pc_commitment q = ''uncertain''" and "pc_choice_state q \<noteq> ''current_choice_unresolved''"
  shows "reason = ''preference_requires_review''"
  using assms by (auto simp: declaration_transition_def transition_reason_def Let_def split: if_split_asm prod.splits)

text \<open>So a declaration that is stored has an embedding.\<close>

lemma stored_is_embedded:
  assumes "prepared_ok R confirmed x" and "declaration_transition R t p (pd_claim x) d = Inr (reason, ledger, target, d')"
    and "reason = ''NEW'' \<or> reason = ''UPDATE''" and "pc_choice_state (pd_claim x) \<noteq> ''current_choice_unresolved''"
  shows "pd_embedding x \<noteq> None"
  using assms uncertain_reason [OF assms(2)] by (auto simp: prepared_ok_def)

lemma hold_facts:
  assumes fresh: "rows_fresh (tables w)" and own: "owned_in R p (tables w) (Some m)" and run: "hold_choice R unresolved q c m w = Inr w'"
  shows "row_facts (tables w') = row_facts (tables w) \<and> ws_stored w' = ws_stored w"
proof -
  obtain m' c' where st: "set_choice_state (re_pref R) unresolved (Some q) None (next_id (tables w)) (re_now R) m c = Some (m', c')"
      "memories (tables w') = update_where (\<lambda>r. m_id r = m_id m') (\<lambda>_. m') (memories (tables w))" "ws_stored w' = ws_stored w"
    using run by (auto simp: hold_choice_def choice_audit_def put_claim_def put_memory_def Let_def split: option.splits)
  have m': "m_id m' = m_id m" "content m' = content m" "is_archived m' = is_archived m"
    using st(1) by (auto simp: set_choice_state_def Let_def split: option.splits prod.splits if_splits)
  have "m \<in> set (memories (tables w))" using own by (simp add: owned_in_def)
  then have "r = m" if "r \<in> set (memories (tables w))" "m_id r = m_id m" for r using fresh_unique [OF fresh _ that] by blast
  then have "row_facts (tables w') = row_facts (tables w)"
    unfolding row_facts_def st(2) update_where_def map_map by (intro map_cong [OF refl]) (auto simp: m')
  with st(3) show ?thesis by blast
qed

lemma tentative_step:
  assumes fresh: "rows_fresh (tables w)" and run: "apply_declaration R t p x w = Inr w'" and unsure: "pc_commitment (pd_claim x) = ''uncertain''"
  shows "row_facts (tables w') = row_facts (tables w) \<and> ws_stored w' = ws_stored w"
  using run
proof (cases rule: apply_declaration_cases)
  case (skipped reason ledger target d)
  then show ?thesis using transition_target(1) [OF skipped(1)] by (simp add: row_facts_def)
next
  case (held reason c m d w1)
  let ?w = "w\<lparr>ws_db := (ws_db w)\<lparr>base := d\<rparr>\<rparr>"
  have d: "memories d = memories (tables w)" "rows_fresh d" "owned_in R p d (Some m)"
    using transition_target [OF held(1)] step_ok_same [OF fresh transition_target(1,2) [OF held(1)], of R p] by (simp_all add: step_ok_def)
  have "row_facts (tables w1) = row_facts (tables ?w) \<and> ws_stored w1 = ws_stored ?w" by (rule hold_facts [OF _ _ held(2)]) (use d in simp_all)
  then show ?thesis using held(3,4) d(1) by (simp add: row_facts_def)
next
  case (finished reason ledger target d)
  have "reason = ''preference_requires_review''" using finished(3) uncertain_reason [OF finished(1) unsure] by blast
  then show ?thesis using finished(2) transition_target(1) [OF finished(1)] by (auto simp: finish_declaration_def row_facts_def)
qed

lemma tentative_steps:
  assumes "rows_fresh (tables w)" and "re_proxy R = Some p" and "apply_declarations R t p ps w = Inr w'"
    and "list_all (\<lambda>x. pc_commitment (pd_claim x) = ''uncertain'') ps"
  shows "row_facts (tables w') = row_facts (tables w) \<and> ws_stored w' = ws_stored w"
  using assms
proof (induction ps arbitrary: w)
  case (Cons x ps)
  then obtain w1 where w1: "apply_declaration R t p x w = Inr w1" "apply_declarations R t p ps w1 = Inr w'" by (auto split: sum.splits)
  have unsure: "pc_commitment (pd_claim x) = ''uncertain''" "list_all (\<lambda>x. pc_commitment (pd_claim x) = ''uncertain'') ps" using Cons.prems(4) by simp_all
  have "rows_fresh (tables w1)" using apply_declaration_step [OF Cons.prems(1,2) w1(1)] by (simp add: step_ok_def)
  from Cons.IH [OF this Cons.prems(2) w1(2) unsure(2)] tentative_step [OF Cons.prems(1) w1(1) unsure(1)] show ?case by simp
qed simp

section \<open>Properties\<close>


text \<open>
  (C10) A declaration the user is not sure of never becomes memory: a batch of uncertain declarations stores
  nothing, archives nothing, and leaves the identity, the content and the archival of every row as they were,
  also when it withholds the current choice.
\<close>

theorem uncertain_declarations_store_nothing:
  assumes "store_declared_preferences R confirmed xs w = Inr w'" and "rows_fresh (tables w)" and "list_all tentative xs"
  shows "ws_stored w' = ws_stored w \<and> row_facts (tables w') = row_facts (tables w)"
proof -
  obtain t p ps where run: "re_proxy R = Some p" "map pd_memory ps = xs" "list_all (prepared_ok R confirmed) ps"
      "apply_declarations R t p (sort_key pd_fingerprint ps) w = Inr w'"
    using assms(1) by (rule declared_batch)
  have "list_all (\<lambda>x. pc_commitment (pd_claim x) = ''uncertain'') (sort_key pd_fingerprint ps)"
    using assms(3) run(3) unfolding run(2) [symmetric] by (auto simp: list_all_iff prepared_ok_def tentative_def)
  from tentative_steps [OF assms(2) run(1,4) this] show ?thesis by blast
qed

section \<open>Witnesses\<close>

definition speaking :: resolver_env where
  "speaking = example_resolver (example_arbiter\<lparr>ab_messages := tea_turns\<rparr>)"

definition declared :: "string \<Rightarrow> extracted_memory" where
  "declared commitment = unsure\<lparr>x_evidence := tea_evidence @ [(preference_marker, PDict [(''property_key'', PStr ''drink''), (''value'', PStr ''tea''),
     (''applicability'', PDict [(''kind'', PStr ''global'')]), (''turn_index'', PInt 0), (''quote'', PStr ''tea''), (''commitment'', PStr commitment)])]\<rparr>"

definition unclaimed :: write_state where
  "unclaimed = start_state speaking (example_rows\<lparr>base := example_tables\<lparr>claims := [], revisions := []\<rparr>\<rparr>)"

lemma declared_run:
  "case store_declared_preferences speaking (\<lambda>_. False) [declared ''asserted''] unclaimed of
     Inl x \<Rightarrow> False
   | Inr w \<Rightarrow> map is_archived (memories (tables w)) = [False, False]"
  by code_simp

lemma uncertain_run:
  "case store_declared_preferences speaking (\<lambda>_. False) [declared ''uncertain''] unclaimed of
     Inl x \<Rightarrow> False
   | Inr w \<Rightarrow> length (ws_pending w) = 1"
  by code_simp

lemma unclaimed_fresh: "rows_fresh (tables unclaimed)"
  by code_simp


theorem uncertain_declarations_store_nothing_witness:
  "\<exists>w. store_declared_preferences speaking (\<lambda>_. False) [declared ''uncertain''] unclaimed = Inr w \<and> length (ws_pending w) = 1 \<and>
     row_facts (tables w) = row_facts (tables unclaimed)"
proof -
  obtain w where run: "store_declared_preferences speaking (\<lambda>_. False) [declared ''uncertain''] unclaimed = Inr w" "length (ws_pending w) = 1"
    using uncertain_run by (auto split: sum.splits)
  have "list_all tentative [declared ''uncertain'']" by code_simp
  from uncertain_declarations_store_nothing [OF run(1) unclaimed_fresh this] run show ?thesis by blast
qed

end
