(* ===== verification/Spec2Isabelle.thy ===== *)
theory Spec2Isabelle
  imports Prelude Circuit Quota Queues RateLimit Versions Outbox Lifecycle Ledger Conflicts GovernedReads
    ContextWindow Evidence Declarations
begin

text \<open>
  \<^bold>\<open>A verification library of the memory service\<close> (\<open>src/api\<close>): an HTTP service that stores what is
  known about the users of its tenants, extracted from conversations, and serves it back by
  semantic search. Rows live in PostgreSQL (\<open>src/api/db/models.py\<close>), embeddings in Qdrant
  (\<open>src/api/db/vector_store.py\<close>), counters, quotas and circuit state in Redis; Celery tasks do the
  slow work. The library models the logic that decides what is stored, what is shown and who may
  ask, as functions over explicit state, and proves the properties that make it correct.

  \<^bold>\<open>Conventions\<close> (theory \<open>Prelude\<close>). A Python \<open>int\<close> is \<^typ>\<open>int\<close>, a \<open>float\<close> an exact rational, a
  UUID a natural number, a timestamp the microseconds since the epoch, a JSON value a \<^typ>\<open>pyval\<close>;
  an exception is a value of a sum or option type. A table is the list of its rows in order of
  insertion, and a function that changes tables returns them. Loops over rows, retries and attempts
  recurse over a list or a counter and need no fuel; the loops that shrink a context until it fits are
  partial functions whose termination is proved, and the parser of JSON texts recurses with the length
  of the text as fuel, which is enough because every call reads a character. What the service
  takes from outside (Qdrant, Redis, the embedding and language models, SHA-256, rendering of values
  as text) is an argument of the definitions, and what the theorems need of it is a hypothesis.

  \<^bold>\<open>Infrastructure.\<close>
  \<^item> \<open>Circuit\<close>: the circuit breaker with its shared state in Redis (\<open>src/api/infra/circuit_breaker.py\<close>),
    as operations and as a state machine. Reachable states are consistent, an open circuit calls
    nothing, a probe decides after the recovery timeout, the shared key round-trips.
  \<^item> \<open>RateLimit\<close>: the rate limiting middleware (\<open>src/api/middleware/rate_limiter.py\<close>): administrative
    paths need the permission, the per-minute limit is exact, and Redis trouble lets requests pass.
  \<^item> \<open>Quota\<close>: plans, the budget governor and the quota manager: a blocked tenant writes nothing, the
    monthly reset unblocks it, notifications are sent once, shares stay between 0 and 1.
  \<^item> \<open>Queues\<close>: the queue router with per-tenant slots (\<open>src/api/tasks/queue_router.py\<close>): slots never
    exceed the limit in any reachable state, and the counters agree with the slots.

  \<^bold>\<open>Rows and index.\<close>
  \<^item> \<open>Storage\<close>: the rows the memory components share, and the interface \<open>keyed_table\<close> of a table with
    a primary key. \<open>Versions\<close>: the version histories (\<open>src/api/services/version_service.py\<close>), numbered
    without gaps and readable by the owner only.
  \<^item> \<open>VectorStore\<close>: the Qdrant client with retries and breaker (\<open>src/api/db/vector_store.py\<close>): a search
    returns only points of the owner, ranked, and never reports an outage as an empty result.
  \<^item> \<open>Outbox\<close>: the outbox between rows and index (\<open>src/api/services/vector_outbox.py\<close>,
    \<open>src/api/tasks/vector_sync_tasks.py\<close>): each pending row is claimed once, every claimed row is
    settled, attempts are bounded.

  \<^bold>\<open>Memories and claims.\<close>
  \<^item> \<open>Importance\<close> and \<open>Lifecycle\<close>: scores, decay, expiry, activation and archiving
    (\<open>src/api/services/importance_scorer.py\<close>, \<open>src/api/services/lifecycle_manager.py\<close>).
  \<^item> \<open>ClaimTables\<close>: the invariant of the claim ledger over memories, claims and revisions: the activated
    revisions are exactly the winners, at most one for each claim, and a claim that names a memory
    names one whose state agrees with its revision. \<open>Lifecycle\<close>, \<open>Ledger\<close>
    (\<open>src/api/services/claim_ledger_service.py\<close>) and \<open>Conflicts\<close>
    (\<open>src/api/services/conflict_resolution_service.py\<close>) prove that they keep it.

  \<^item> \<open>Preferences\<close>: declared preferences (\<open>src/api/schemas/preferences.py\<close>,
    \<open>src/api/services/preference_claim_service.py\<close>): their validation and stored form, the policy of
    transitions, and the lock that archives a claim with its memory.
  \<^item> \<open>Memories\<close>: the memory service (\<open>src/api/services/memory_service.py\<close>): authorised access, listing with
    cursors, editing, archiving and hard deletion, which keep the ledger and the tenants apart.
  \<^item> \<open>Providers\<close>: the choice of a provider and the active embedding model
    (\<open>src/api/infra/llm_router.py\<close>, \<open>src/api/services/embedding_service.py\<close>).

  \<^bold>\<open>Evidence.\<close>
  \<^item> \<open>Proposals\<close>: turns and proposals of a conversation
    (\<open>MemoryService._persist_evidence_ledger\<close>, \<open>src/api/services/proposal_window_service.py\<close>,
    \<open>_claim_confirmed_proposals\<close> of \<open>src/api/tasks/extraction_tasks.py\<close>). The tables refine a ballot: every
    run of the operations is a run of the specification, so a group has at most one accepted proposal;
    submitting again changes nothing.
  \<^item> \<open>Evidence\<close>: the policy of citations and confirmations (\<open>src/api/services/evidence_policy.py\<close>): what
    is accepted is grounded in visible turns of the user, and a confirmed proposal can be claimed.

  \<^bold>\<open>Conflicts.\<close>
  \<^item> \<open>Review\<close>: conflicts between memories of different users and the questions put to a user
    (\<open>src/api/services/conflict_routing/\<close>, the automatic resolution and the clarification queue of
    \<open>src/api/services/conflict_resolver.py\<close>): conflicts are recorded once, questions are asked only about
    current memories of the asking profile, and every resolution by weight raises.
  \<^item> \<open>Grounding\<close>: source spans and the evidence of an extracted memory
    (\<open>src/api/services/extraction_service.py\<close>): a memory that passes the check before a write is quoted
    from turns of the user, and evidence accepted at extraction passes it.
  \<^item> \<open>Arbitration\<close>: writer authority, temporal context, the answers of the language model and the
    policy around them (\<open>src/api/services/conflict_resolver.py\<close>,
    \<open>src/api/services/temporal_validity.py\<close>): whatever the model answers, a decision is well formed.
  \<^item> \<open>Entities\<close> and \<open>Detection\<close>: words, entities and conflict candidates
    (\<open>src/api/services/conflict_detection.py\<close>): candidates are ranked and bounded, one for each row.
  \<^item> \<open>Resolver\<close> and \<open>Writes\<close>: the write path \<open>ConflictResolver.check_and_store\<close> and its theorems. An
    uncertain claim replaces nothing, a governed write supersedes only what it owns, a lower
    authority supersedes nothing, no memory of a batch is lost, and a replacement that the claim
    ledger refuses leaves the ledger inconsistent.
  \<^item> \<open>Declarations\<close>: batches of declared preferences (\<open>_store_declared_preferences\<close>, which \<open>check_and_store\<close>
    takes as a parameter): all are prepared before a row is touched, rows of other users and profiles
    stay as they are, and an uncertain declaration is never stored.

  \<^bold>\<open>Reading.\<close>
  \<^item> \<open>Ranking\<close>, \<open>Retrieval\<close> and \<open>GovernedReads\<close>: the retriever (\<open>src/api/services/retriever.py\<close>): scores
    and deduplication, the process-local caches, current reads over caches, index and rows, reads of
    the past, declared preferences and the final projection by the claim ledger. Whatever the caches
    and the index answer, a read shows only stored, valid memories of the owner, and a memory written
    by a service only while it is the winner of its claim. The holds of runtime jobs and the pending
    confirmations are parameters of the reads.
  \<^item> \<open>Json\<close> and \<open>ContextWindow\<close>: JSON texts and the context builder
    (\<open>src/api/services/context_builder.py\<close>): its loops end, its texts fit the budget or hold three
    memories, contents cannot leave their element or line, and the JSON form reads back.

  \<^bold>\<open>Interfaces.\<close> \<open>invariant_system\<close> (state machines), \<open>simulation\<close> (refinement of a specification),
  \<open>keyed_table\<close> (tables), \<open>numbered_log\<close> (histories) and \<open>due_transition\<close> (temporal transitions) are
  locales, each interpreted on the definitions of the components that provide them.

  \<^bold>\<open>Not modelled.\<close> The language model calls and prompts of extraction, operations on the choices
  of a snapshot, the jobs of preference confirmation, source reviews, the HTTP routers and their
  schemas, billing and mail, migrations, the SDKs, the benchmark harnesses and the deployment code:
  they are input and output around the logic above, or call services that are not part of the
  repository. Rounding of single float operations, infinities and NaN are outside the exact model of
  floats.
\<close>

end
